(* ===== verification/Prelude.thy ===== *)
theory Prelude
  imports
    Main
    "HOL-Library.Word"
    "HOL-Library.Char_ord"
    "HOL-Library.List_Lexorder"
    "HOL-Library.Sublist"
    "HOL-Library.Code_Target_Nat"
    "HOL-Library.Monad_Syntax"
    "HOL-Library.Multiset"
begin

text \<open>
  Shared vocabulary of the development.

  A Rust \<open>str\<close> is modelled by its UTF-8 bytes, a \<^typ>\<open>string\<close> whose characters are
  bytes: \<open>len()\<close> is \<^const>\<open>length\<close>, \<open>bytes()\<close> the list itself, and slice comparison
  is the lexicographic order of \<open>HOL-Library.List_Lexorder\<close> over the byte order of
  \<open>HOL-Library.Char_ord\<close>.  The functions below are the parts of the standard library that
  the program uses on strings: \<open>strip_prefix\<close>, \<open>strip_suffix\<close>, \<open>split\<close>, \<open>find\<close>,
  \<open>rfind\<close>, \<open>contains\<close>, \<open>trim\<close>, \<open>split_whitespace\<close>, \<open>lines\<close>,
  \<open>to_ascii_lowercase\<close>, \<open>is_char_boundary\<close>, and the checked integer conversions
  \<open>u16::try_from\<close>, \<open>u32::try_from\<close> and \<open>u8::try_from\<close>.
  A panic (\<open>expect\<close>, \<open>assert!\<close>, an index out of range) is the value \<^const>\<open>None\<close>.

  The lemmas connect splitting and joining, label-boundary suffixes and prefixes, and
  indexed search; they are collected in \<open>str_simps\<close> where they are rewrite rules.
\<close>

named_theorems str_simps
named_theorems inv_intros

section \<open>Bytes and ASCII classes\<close>

abbreviation byte :: "char \<Rightarrow> nat" where
  "byte c \<equiv> of_char c"

definition is_ascii_uppercase :: "char \<Rightarrow> bool" where
  "is_ascii_uppercase c \<longleftrightarrow> 65 \<le> byte c \<and> byte c \<le> 90"

definition is_ascii_lowercase :: "char \<Rightarrow> bool" where
  "is_ascii_lowercase c \<longleftrightarrow> 97 \<le> byte c \<and> byte c \<le> 122"

definition is_ascii_digit :: "char \<Rightarrow> bool" where
  "is_ascii_digit c \<longleftrightarrow> 48 \<le> byte c \<and> byte c \<le> 57"

definition is_ascii_alphanumeric :: "char \<Rightarrow> bool" where
  "is_ascii_alphanumeric c \<longleftrightarrow> is_ascii_uppercase c \<or> is_ascii_lowercase c \<or> is_ascii_digit c"

definition ascii_lower :: "char \<Rightarrow> char" where
  "ascii_lower c = (if is_ascii_uppercase c then char_of (byte c + 32) else c)"

definition to_ascii_lowercase :: "string \<Rightarrow> string" where
  "to_ascii_lowercase s = map ascii_lower s"

definition eq_ignore_ascii_case :: "string \<Rightarrow> string \<Rightarrow> bool" where
  "eq_ignore_ascii_case a b \<longleftrightarrow> to_ascii_lowercase a = to_ascii_lowercase b"

section \<open>Checked integer conversions\<close>

definition try_u8 :: "nat \<Rightarrow> nat option" where
  "try_u8 n = (if n < 2 ^ 8 then Some n else None)"

definition try_u16 :: "nat \<Rightarrow> nat option" where
  "try_u16 n = (if n < 2 ^ 16 then Some n else None)"

definition try_u32 :: "nat \<Rightarrow> nat option" where
  "try_u32 n = (if n < 2 ^ 32 then Some n else None)"

definition u32_max :: nat where
  "u32_max = 2 ^ 32 - 1"

definition u64_max :: nat where
  "u64_max = 2 ^ 64 - 1"

definition sat_add_u32 :: "nat \<Rightarrow> nat \<Rightarrow> nat" where
  "sat_add_u32 a b = min (a + b) u32_max"

definition sat_add_u64 :: "nat \<Rightarrow> nat \<Rightarrow> nat" where
  "sat_add_u64 a b = min (a + b) u64_max"

text \<open>\<open>Display\<close> and \<open>LowerHex\<close> of an unsigned integer.\<close>

definition digit_char :: "nat \<Rightarrow> char" where
  "digit_char d = (if d < 10 then char_of (48 + d) else char_of (87 + d))"

function show_radix :: "nat \<Rightarrow> nat \<Rightarrow> string" where
  "show_radix r n =
     (if n < r \<or> r < 2 then [digit_char n] else show_radix r (n div r) @ [digit_char (n mod r)])"
  by pat_completeness auto
termination
  by (relation "measure snd") auto

declare show_radix.simps [simp del]

abbreviation show_nat :: "nat \<Rightarrow> string" where
  "show_nat n \<equiv> show_radix 10 n"

section \<open>Prefixes, suffixes, search\<close>

definition strip_prefix :: "string \<Rightarrow> string \<Rightarrow> string option" where
  "strip_prefix p s = (if take (length p) s = p then Some (drop (length p) s) else None)"

definition strip_suffix :: "string \<Rightarrow> string \<Rightarrow> string option" where
  "strip_suffix p s =
     (if length p \<le> length s \<and> drop (length s - length p) s = p
      then Some (take (length s - length p) s) else None)"

definition starts_with :: "string \<Rightarrow> string \<Rightarrow> bool" where
  "starts_with p s \<longleftrightarrow> take (length p) s = p"

definition ends_with :: "string \<Rightarrow> string \<Rightarrow> bool" where
  "ends_with p s \<longleftrightarrow> length p \<le> length s \<and> drop (length s - length p) s = p"

fun contains_str :: "string \<Rightarrow> string \<Rightarrow> bool" where
  "contains_str p [] \<longleftrightarrow> p = []"
| "contains_str p (c # cs) \<longleftrightarrow> starts_with p (c # cs) \<or> contains_str p cs"

definition contains_char :: "char \<Rightarrow> string \<Rightarrow> bool" where
  "contains_char c s \<longleftrightarrow> c \<in> set s"

fun find_char :: "char \<Rightarrow> string \<Rightarrow> nat option" where
  "find_char c [] = None"
| "find_char c (x # xs) = (if x = c then Some 0 else map_option Suc (find_char c xs))"

fun rfind_char :: "char \<Rightarrow> string \<Rightarrow> nat option" where
  "rfind_char c [] = None"
| "rfind_char c (x # xs) =
     (case rfind_char c xs of
        Some i \<Rightarrow> Some (Suc i)
      | None \<Rightarrow> if x = c then Some 0 else None)"

section \<open>Splitting and joining\<close>

fun split_on :: "char \<Rightarrow> string \<Rightarrow> string list" where
  "split_on d [] = [[]]"
| "split_on d (c # cs) =
     (if c = d then [] # split_on d cs
      else (case split_on d cs of [] \<Rightarrow> [[c]] | x # xs \<Rightarrow> (c # x) # xs))"

fun join_with :: "char \<Rightarrow> string list \<Rightarrow> string" where
  "join_with d [] = []"
| "join_with d [x] = x"
| "join_with d (x # y # ys) = x @ d # join_with d (y # ys)"

section \<open>Unicode white space and lines\<close>

text \<open>
  Length in bytes of the \<open>White_Space\<close> code point a UTF-8 string starts with, or 0: U+0009 to
  U+000D and U+0020 are one byte, U+0085 and U+00A0 two, U+1680, U+2000 to U+200A, U+2028,
  U+2029, U+202F, U+205F and U+3000 three.
\<close>

definition ws_len :: "string \<Rightarrow> nat" where
  "ws_len s =
     (case map byte (take 3 s) of
        [] \<Rightarrow> 0
      | b0 # r \<Rightarrow>
          if (9 \<le> b0 \<and> b0 \<le> 13) \<or> b0 = 32 then 1
          else (case r of
             [] \<Rightarrow> 0
           | b1 # r2 \<Rightarrow>
               if b0 = 194 \<and> (b1 = 133 \<or> b1 = 160) then 2
               else (case r2 of
                  [] \<Rightarrow> 0
                | b2 # _ \<Rightarrow>
                    if (b0 = 225 \<and> b1 = 154 \<and> b2 = 128)
                       \<or> (b0 = 226 \<and> b1 = 128 \<and>
                           ((128 \<le> b2 \<and> b2 \<le> 138) \<or> b2 = 168 \<or> b2 = 169 \<or> b2 = 175))
                       \<or> (b0 = 226 \<and> b1 = 129 \<and> b2 = 159)
                       \<or> (b0 = 227 \<and> b1 = 128 \<and> b2 = 128)
                    then 3 else 0)))"

text \<open>Whether the last code point is white space, and its length: the byte sequences above
  start with a byte that no code point continues with, so a suffix that spells one is one.\<close>

definition ws_len_end :: "string \<Rightarrow> nat" where
  "ws_len_end s =
     (if s \<noteq> [] \<and> ws_len (drop (length s - 1) s) = 1 then 1
      else if 2 \<le> length s \<and> ws_len (drop (length s - 2) s) = 2 then 2
      else if 3 \<le> length s \<and> ws_len (drop (length s - 3) s) = 3 then 3
      else 0)"

function trim_start :: "string \<Rightarrow> string" where
  "trim_start s = (if ws_len s = 0 \<or> s = [] then s else trim_start (drop (ws_len s) s))"
  by pat_completeness auto
termination
  by (relation "measure length") auto

function trim_end :: "string \<Rightarrow> string" where
  "trim_end s =
     (if ws_len_end s = 0 \<or> s = [] then s else trim_end (take (length s - ws_len_end s) s))"
  by pat_completeness auto
termination
  by (relation "measure length") auto

declare trim_start.simps [simp del] trim_end.simps [simp del]

definition trim :: "string \<Rightarrow> string" where
  "trim s = trim_end (trim_start s)"

text \<open>\<open>split_whitespace\<close>: maximal runs of non-space code points, no empty parts.
  \<open>acc\<close> is the run being read, reversed.\<close>

function split_ws_aux :: "string \<Rightarrow> string \<Rightarrow> string list" where
  "split_ws_aux acc [] = (if acc = [] then [] else [rev acc])"
| "split_ws_aux acc (c # cs) =
     (let n = ws_len (c # cs) in
      if n = 0 then split_ws_aux (c # acc) cs
      else (if acc = [] then [] else [rev acc]) @ split_ws_aux [] (drop n (c # cs)))"
  by pat_completeness auto
termination
  by (relation "measure (\<lambda>(acc, s). length s)") auto

definition split_whitespace :: "string \<Rightarrow> string list" where
  "split_whitespace s = split_ws_aux [] s"

text \<open>\<open>str::lines\<close>: split after each newline, drop it and a carriage return right before it;
  a final empty piece is no line.\<close>

fun lines_aux :: "string \<Rightarrow> string \<Rightarrow> string list" where
  "lines_aux acc [] = (if acc = [] then [] else [rev acc])"
| "lines_aux acc (c # cs) =
     (if c = CHR 0x0A
      then (case acc of
              [] \<Rightarrow> []
            | a # as \<Rightarrow> if a = CHR 0x0D then rev as else rev acc) # lines_aux [] cs
      else lines_aux (c # acc) cs)"

definition lines :: "string \<Rightarrow> string list" where
  "lines s = lines_aux [] s"

definition is_char_boundary :: "string \<Rightarrow> nat \<Rightarrow> bool" where
  "is_char_boundary s i \<longleftrightarrow>
     i = 0 \<or> i = length s \<or> (i < length s \<and> \<not> (128 \<le> byte (s ! i) \<and> byte (s ! i) < 192))"

text \<open>\<open>&s[i..]\<close>: panics unless \<open>i\<close> is a character boundary.\<close>

definition slice_from :: "string \<Rightarrow> nat \<Rightarrow> string option" where
  "slice_from s i = (if is_char_boundary s i then Some (drop i s) else None)"

text \<open>\<open>xs[i] = v\<close>: panics out of range.\<close>

definition vec_set :: "'a list \<Rightarrow> nat \<Rightarrow> 'a \<Rightarrow> 'a list option" where
  "vec_set xs i v = (if i < length xs then Some (xs[i := v]) else None)"

text \<open>\<open>xs[i]\<close> and \<open>&xs[a..b]\<close>: panic out of range; on a \<open>str\<close> also when an end is no
  character boundary.\<close>

definition nth_opt :: "'a list \<Rightarrow> nat \<Rightarrow> 'a option" where
  "nth_opt xs i = (if i < length xs then Some (xs ! i) else None)"

definition slice :: "'a list \<Rightarrow> nat \<Rightarrow> nat \<Rightarrow> 'a list option" where
  "slice xs a b = (if a \<le> b \<and> b \<le> length xs then Some (take (b - a) (drop a xs)) else None)"

definition str_slice :: "string \<Rightarrow> nat \<Rightarrow> nat \<Rightarrow> string option" where
  "str_slice s a b = (if is_char_boundary s a \<and> is_char_boundary s b then slice s a b else None)"

text \<open>\<open>str::from_utf8\<close>: well-formed UTF-8, shortest forms only, no surrogates.\<close>

definition is_cont :: "char \<Rightarrow> bool" where
  "is_cont c \<longleftrightarrow> 128 \<le> byte c \<and> byte c < 192"

definition utf8_len :: "string \<Rightarrow> nat" where
  "utf8_len s =
     (case s of
        [] \<Rightarrow> 0
      | c # cs \<Rightarrow>
          (let b = byte c; n1 = (case cs of [] \<Rightarrow> 0 | d # _ \<Rightarrow> byte d) in
           if b < 128 then 1
           else if 194 \<le> b \<and> b < 224 \<and> length cs \<ge> 1 \<and> list_all is_cont (take 1 cs) then 2
           else if 224 \<le> b \<and> b < 240 \<and> length cs \<ge> 2 \<and> list_all is_cont (take 2 cs)
                \<and> (b = 224 \<longrightarrow> 160 \<le> n1) \<and> (b = 237 \<longrightarrow> n1 < 160) then 3
           else if 240 \<le> b \<and> b < 245 \<and> length cs \<ge> 3 \<and> list_all is_cont (take 3 cs)
                \<and> (b = 240 \<longrightarrow> 144 \<le> n1) \<and> (b = 244 \<longrightarrow> n1 < 144) then 4
           else 0))"

function utf8_valid :: "string \<Rightarrow> bool" where
  "utf8_valid s = (if s = [] then True else if utf8_len s = 0 then False else utf8_valid (drop (utf8_len s) s))"
  by pat_completeness auto
termination
  by (relation "measure length") auto

declare utf8_valid.simps [simp del]

definition from_utf8 :: "string \<Rightarrow> string option" where
  "from_utf8 s = (if utf8_valid s then Some s else None)"

section \<open>Lemmas on ASCII classes\<close>

lemma utf8_valid_ascii: "(\<And>c. c \<in> set s \<Longrightarrow> byte c < 128) \<Longrightarrow> utf8_valid s"
proof (induction s)
  case (Cons c s)
  then have "utf8_len (c # s) = 1" by (simp add: utf8_len_def)
  with Cons show ?case by (subst utf8_valid.simps) simp
qed (simp add: utf8_valid.simps)

lemma nth_opt_Some [simp]: "i < length xs \<Longrightarrow> nth_opt xs i = Some (xs ! i)"
  by (simp add: nth_opt_def)

lemma ascii_lower_not_upper [simp]: "\<not> is_ascii_uppercase (ascii_lower c)"
  by (auto simp: is_ascii_uppercase_def ascii_lower_def)

lemma ascii_lower_id: "\<not> is_ascii_uppercase c \<Longrightarrow> ascii_lower c = c"
  by (simp add: ascii_lower_def)

lemma ascii_lower_idem [simp]: "ascii_lower (ascii_lower c) = ascii_lower c"
  by (simp add: ascii_lower_id)

lemma ascii_lower_eq_dot [simp]: "ascii_lower c = CHR ''.'' \<longleftrightarrow> c = CHR ''.''"
  by (auto simp: ascii_lower_def is_ascii_uppercase_def dest: arg_cong [of _ _ byte])

lemma length_to_ascii_lowercase [simp]: "length (to_ascii_lowercase s) = length s"
  by (simp add: to_ascii_lowercase_def)

lemma to_ascii_lowercase_idem [simp]:
  "to_ascii_lowercase (to_ascii_lowercase s) = to_ascii_lowercase s"
  by (simp add: to_ascii_lowercase_def)

lemma to_ascii_lowercase_id:
  "\<not> list_ex is_ascii_uppercase s \<Longrightarrow> to_ascii_lowercase s = s"
  by (induction s) (auto simp: to_ascii_lowercase_def ascii_lower_id)

lemma to_ascii_lowercase_append [simp]:
  "to_ascii_lowercase (a @ b) = to_ascii_lowercase a @ to_ascii_lowercase b"
  by (simp add: to_ascii_lowercase_def)

lemma lower_no_upper: "c \<in> set (to_ascii_lowercase s) \<Longrightarrow> \<not> is_ascii_uppercase c"
  by (auto simp: to_ascii_lowercase_def)

section \<open>Lemmas on lists\<close>

lemma set_enumerate0: "set (enumerate 0 xs) = (\<lambda>i. (i, xs ! i)) ` {..<length xs}"
  by (auto simp: in_set_enumerate_eq)

lemma in_concat_enumerate:
  "x \<in> set (concat (map (\<lambda>(i, raw). f i raw) (enumerate 0 xs))) \<longleftrightarrow>
     (\<exists>i < length xs. x \<in> set (f i (xs ! i)))"
  by (auto simp: set_enumerate0)

section \<open>Lemmas on prefixes, suffixes and search\<close>

lemma strip_prefix_Some [str_simps]: "strip_prefix p s = Some r \<longleftrightarrow> s = p @ r"
  by (auto simp: strip_prefix_def) (metis append_take_drop_id)

lemma strip_prefix_append [simp]: "strip_prefix p (p @ r) = Some r"
  by (simp add: strip_prefix_Some)

lemma strip_prefix_None: "strip_prefix p s = None \<longleftrightarrow> \<not> starts_with p s"
  by (simp add: strip_prefix_def starts_with_def)

lemma strip_suffix_Some [str_simps]: "strip_suffix p s = Some r \<longleftrightarrow> s = r @ p"
  by (auto simp: strip_suffix_def) (metis append_take_drop_id)

lemma strip_suffix_append [simp]: "strip_suffix p (r @ p) = Some r"
  by (simp add: strip_suffix_Some)

lemma strip_suffix_None: "strip_suffix p s = None \<longleftrightarrow> \<not> ends_with p s"
  by (simp add: strip_suffix_def ends_with_def)

lemma starts_with_iff [str_simps]: "starts_with p s \<longleftrightarrow> (\<exists>r. s = p @ r)"
  by (auto simp: starts_with_def) (metis append_take_drop_id)

lemma ends_with_iff [str_simps]: "ends_with p s \<longleftrightarrow> (\<exists>r. s = r @ p)"
  by (auto simp: ends_with_def) (metis append_take_drop_id)

lemma contains_str_iff: "contains_str p s \<longleftrightarrow> (\<exists>a b. s = a @ p @ b)"
proof (induction s)
  case Nil
  then show ?case by simp
next
  case (Cons c cs)
  have "(\<exists>a b. c # cs = a @ p @ b) \<longleftrightarrow> (\<exists>b. c # cs = p @ b) \<or> (\<exists>a b. cs = a @ p @ b)"
    (is "?L \<longleftrightarrow> ?R")
  proof
    assume ?L
    then obtain a b where "c # cs = a @ p @ b" by blast
    then show ?R by (cases a) auto
  next
    assume ?R
    then show ?L
      by (metis append_Cons append_Nil)
  qed
  then show ?case using Cons.IH by (simp add: starts_with_iff)
qed

lemma find_char_Some: "find_char c s = Some i \<Longrightarrow>
    s = take i s @ c # drop (Suc i) s \<and> c \<notin> set (take i s) \<and> i < length s"
  by (induction s arbitrary: i) (auto split: if_splits)

lemma find_char_None [simp]: "find_char c s = None \<longleftrightarrow> c \<notin> set s"
  by (induction s) auto

lemma find_char_append: "c \<notin> set a \<Longrightarrow> find_char c (a @ c # b) = Some (length a)"
  by (induction a) auto

lemma rfind_char_None [simp]: "rfind_char c s = None \<longleftrightarrow> c \<notin> set s"
  by (induction s) (auto split: option.splits)

lemma rfind_char_Some: "rfind_char c s = Some i \<Longrightarrow>
    s = take i s @ c # drop (Suc i) s \<and> c \<notin> set (drop (Suc i) s) \<and> i < length s"
proof (induction s arbitrary: i)
  case Nil
  then show ?case by simp
next
  case (Cons x xs)
  show ?case
  proof (cases "rfind_char c xs")
    case None
    with Cons.prems show ?thesis by (auto split: if_splits)
  next
    case (Some j)
    with Cons.prems Cons.IH [OF Some] show ?thesis by auto
  qed
qed

section \<open>Lemmas on splitting and joining\<close>

lemma split_on_ne [simp]: "split_on d s \<noteq> []"
  by (cases s) (auto split: list.splits)

lemma split_on_Cons:
  "split_on d (c # cs) =
     (if c = d then [] # split_on d cs
      else (c # hd (split_on d cs)) # tl (split_on d cs))"
  by (cases "split_on d cs") auto

lemma join_with_Cons: "ys \<noteq> [] \<Longrightarrow> join_with d (x # ys) = x @ d # join_with d ys"
  by (cases ys) auto

lemma join_split [simp]: "join_with d (split_on d s) = s"
proof (induction s)
  case Nil
  then show ?case by simp
next
  case (Cons c cs)
  obtain y ys where y: "split_on d cs = y # ys"
    by (meson neq_Nil_conv split_on_ne)
  with Cons have "join_with d (y # ys) = cs" by simp
  then have "join_with d ((c # y) # ys) = c # cs"
    by (cases ys) auto
  with y Cons show ?case by (simp add: join_with_Cons)
qed

lemma split_on_free: "x \<in> set (split_on d s) \<Longrightarrow> d \<notin> set x"
proof (induction s arbitrary: x)
  case Nil
  then show ?case by simp
next
  case (Cons c cs)
  have h: "hd (split_on d cs) \<in> set (split_on d cs)" by simp
  show ?case
    using Cons.prems Cons.IH [OF h] Cons.IH
    by (auto simp: split_on_Cons simp del: split_on.simps split: if_splits
        dest: list.set_sel(2) [OF split_on_ne])
qed

lemma split_on_no: "d \<notin> set s \<Longrightarrow> split_on d s = [s]"
  by (induction s) (auto simp: split_on_Cons)

lemma split_on_append: "split_on d (a @ d # b) = split_on d a @ split_on d b"
proof (induction a)
  case Nil
  then show ?case by simp
next
  case (Cons c cs)
  then show ?case by (simp add: split_on_Cons del: split_on.simps)
qed

lemma split_join: "xs \<noteq> [] \<Longrightarrow> (\<And>x. x \<in> set xs \<Longrightarrow> d \<notin> set x) \<Longrightarrow>
    split_on d (join_with d xs) = xs"
proof (induction d xs rule: join_with.induct)
  case (2 d x)
  then show ?case by (simp add: split_on_no)
next
  case (3 d x y ys)
  then show ?case by (simp add: split_on_append split_on_no)
qed simp

lemma join_with_append:
  "xs \<noteq> [] \<Longrightarrow> ys \<noteq> [] \<Longrightarrow> join_with d (xs @ ys) = join_with d xs @ d # join_with d ys"
  by (induction d xs rule: join_with.induct) (auto simp: join_with_Cons)

lemma length_join_with: "xs \<noteq> [] \<Longrightarrow>
    length (join_with d xs) = sum_list (map length xs) + (length xs - 1)"
  by (induction d xs rule: join_with.induct) auto

lemma split_on_inj: "split_on d s = split_on d t \<Longrightarrow> s = t"
  by (metis join_split)

lemma set_split_on: "x \<in> set (split_on d s) \<Longrightarrow> set x \<subseteq> set s"
proof (induction s arbitrary: x)
  case Nil
  then show ?case by simp
next
  case (Cons c cs)
  have h: "set (hd (split_on d cs)) \<subseteq> set cs" by (rule Cons.IH) simp
  have t: "y \<in> set (tl (split_on d cs)) \<Longrightarrow> set y \<subseteq> set cs" for y
    by (rule Cons.IH) (rule list.set_sel(2) [OF split_on_ne])
  show ?case
    using Cons.prems h t [of x] Cons.IH [of x]
    by (auto simp: split_on_Cons simp del: split_on.simps split: if_splits)
qed

section \<open>Names as label sequences\<close>

abbreviation labels :: "string \<Rightarrow> string list" where
  "labels s \<equiv> split_on CHR ''.'' s"

text \<open>The suffixes of a name at its label boundaries, longest first.\<close>

function label_suffixes :: "string \<Rightarrow> string list" where
  "label_suffixes s =
     s # (case find_char CHR ''.'' s of None \<Rightarrow> [] | Some i \<Rightarrow> label_suffixes (drop (Suc i) s))"
  by pat_completeness auto
termination
  by (relation "measure length") (auto dest: find_char_Some)

declare label_suffixes.simps [simp del]

lemma label_suffixes_no: "CHR ''.'' \<notin> set s \<Longrightarrow> label_suffixes s = [s]"
  by (subst label_suffixes.simps) (simp add: find_char_None [symmetric] del: find_char_None)

lemma label_suffixes_append:
  "CHR ''.'' \<notin> set a \<Longrightarrow> label_suffixes (a @ CHR ''.'' # b) = (a @ CHR ''.'' # b) # label_suffixes b"
  by (subst label_suffixes.simps) (simp add: find_char_append)

lemma in_label_suffixes: "x \<in> set (label_suffixes s) \<longleftrightarrow> x = s \<or> (\<exists>p. s = p @ CHR ''.'' # x)"
proof (induction s rule: label_suffixes.induct)
  case (1 s)
  show ?case
  proof (cases "find_char CHR ''.'' s")
    case None
    then have "CHR ''.'' \<notin> set s" by simp
    then show ?thesis by (auto simp: label_suffixes_no)
  next
    case (Some i)
    then obtain a b where s: "s = a @ CHR ''.'' # b" and a: "CHR ''.'' \<notin> set a"
      and b: "b = drop (Suc i) s"
      using find_char_Some [OF Some] by metis
    from "1" [OF Some] b have IH: "x \<in> set (label_suffixes b) \<longleftrightarrow> x = b \<or> (\<exists>p. b = p @ CHR ''.'' # x)"
      by simp
    have "(\<exists>p. s = p @ CHR ''.'' # x) \<longleftrightarrow> x = b \<or> (\<exists>p. b = p @ CHR ''.'' # x)"
    proof
      assume "\<exists>p. s = p @ CHR ''.'' # x"
      then obtain p where "a @ CHR ''.'' # b = p @ CHR ''.'' # x" using s by auto
      then show "x = b \<or> (\<exists>p. b = p @ CHR ''.'' # x)"
        using a by (auto simp: append_eq_append_conv2 Cons_eq_append_conv append_eq_Cons_conv)
    qed (auto simp: s)
    then show ?thesis using a s IH by (simp add: label_suffixes_append)
  qed
qed

lemma self_in_label_suffixes [simp]: "s \<in> set (label_suffixes s)"
  by (simp add: in_label_suffixes)

lemma label_suffixes_trans:
  "x \<in> set (label_suffixes y) \<Longrightarrow> y \<in> set (label_suffixes z) \<Longrightarrow> x \<in> set (label_suffixes z)"
  by (auto simp: in_label_suffixes)

lemma label_suffixes_labels:
  "x \<in> set (label_suffixes s) \<longleftrightarrow> suffix (labels x) (labels s)"
proof
  assume "x \<in> set (label_suffixes s)"
  then show "suffix (labels x) (labels s)"
    by (auto simp: in_label_suffixes split_on_append suffix_def)
next
  assume "suffix (labels x) (labels s)"
  then obtain ps where ps: "labels s = ps @ labels x" by (auto simp: suffix_def)
  show "x \<in> set (label_suffixes s)"
  proof (cases "ps = []")
    case True
    with ps have "s = x" by (auto intro: split_on_inj)
    then show ?thesis by simp
  next
    case False
    have "s = join_with CHR ''.'' (ps @ labels x)" using ps by (metis join_split)
    with False have "s = join_with CHR ''.'' ps @ CHR ''.'' # x" by (simp add: join_with_append)
    then show ?thesis by (auto simp: in_label_suffixes)
  qed
qed

end
