(* ===== verification/Rust_Net.thy ===== *)
theory Rust_Net
  imports Prelude
begin

text \<open>
  The part of \<open>std::net\<close> the program uses: \<open>IpAddr::from_str\<close>, \<open>is_unspecified\<close>
  and \<open>is_loopback\<close>.  The parser reads from the front of the input and returns the value
  read with the rest; a reader that fails consumes nothing (\<open>read_atomically\<close>).  An IPv4
  address is its four octets, an IPv6 address its eight 16-bit segments.
\<close>

datatype ip_addr = V4 "nat list" | V6 "nat list"

definition to_digit :: "nat \<Rightarrow> char \<Rightarrow> nat option" where
  "to_digit radix c =
     (let b = byte c;
          d = (if 48 \<le> b \<and> b \<le> 57 then Some (b - 48)
               else if 97 \<le> b \<and> b \<le> 122 then Some (b - 87)
               else if 65 \<le> b \<and> b \<le> 90 then Some (b - 55)
               else None)
      in case d of None \<Rightarrow> None | Some v \<Rightarrow> if v < radix then Some v else None)"

definition read_number ::
    "nat \<Rightarrow> nat \<Rightarrow> bool \<Rightarrow> nat \<Rightarrow> string \<Rightarrow> (nat \<times> string) option" where
  "read_number radix max_digits allow_zero_prefix bound s =
     (let ds = takeWhile (\<lambda>c. to_digit radix c \<noteq> None) s;
          v = fold (\<lambda>c r. r * radix + the (to_digit radix c)) ds 0
      in if length ds > max_digits \<or> ds = [] then None
         else if \<not> allow_zero_prefix \<and> hd ds = CHR ''0'' \<and> length ds > 1 then None
         else if v > bound then None
         else Some (v, drop (length ds) s))"

definition read_separator ::
    "char \<Rightarrow> nat \<Rightarrow> (string \<Rightarrow> ('a \<times> string) option) \<Rightarrow> string \<Rightarrow> ('a \<times> string) option" where
  "read_separator sep i inner s =
     (if i = 0 then inner s
      else (case s of [] \<Rightarrow> None | c # cs \<Rightarrow> if c = sep then inner cs else None))"

fun read_octets :: "nat \<Rightarrow> nat \<Rightarrow> string \<Rightarrow> (nat list \<times> string) option" where
  "read_octets i 0 s = Some ([], s)"
| "read_octets i (Suc r) s =
     (case read_separator CHR ''.'' i (read_number 10 3 False 255) s of
        None \<Rightarrow> None
      | Some (v, s') \<Rightarrow>
          (case read_octets (Suc i) r s' of
             None \<Rightarrow> None
           | Some (vs, s'') \<Rightarrow> Some (v # vs, s'')))"

definition read_ipv4_addr :: "string \<Rightarrow> (nat list \<times> string) option" where
  "read_ipv4_addr s = read_octets 0 4 s"

text \<open>\<open>read_groups i r\<close>: groups \<open>i, i + 1, \<dots>\<close>, \<open>r\<close> of them still to fill; the flag says
  that the last two came from an embedded IPv4 address.\<close>

fun read_groups :: "nat \<Rightarrow> nat \<Rightarrow> string \<Rightarrow> nat list \<times> bool \<times> string" where
  "read_groups i 0 s = ([], False, s)"
| "read_groups i (Suc r) s =
     (case (if r \<ge> 1 then read_separator CHR '':'' i read_ipv4_addr s else None) of
        Some (os, s') \<Rightarrow> ([256 * (os ! 0) + os ! 1, 256 * (os ! 2) + os ! 3], True, s')
      | None \<Rightarrow>
          (case read_separator CHR '':'' i (read_number 16 4 True 65535) s of
             None \<Rightarrow> ([], False, s)
           | Some (g, s') \<Rightarrow>
               (case read_groups (Suc i) r s' of (gs, b, s'') \<Rightarrow> (g # gs, b, s''))))"

definition read_ipv6_addr :: "string \<Rightarrow> (nat list \<times> string) option" where
  "read_ipv6_addr s =
     (case read_groups 0 8 s of (head, head_ipv4, s1) \<Rightarrow>
        if length head = 8 then Some (head, s1)
        else if head_ipv4 then None
        else (case strip_prefix ''::'' s1 of
                None \<Rightarrow> None
              | Some s2 \<Rightarrow>
                  (case read_groups 0 (8 - (length head + 1)) s2 of (tail, _, s3) \<Rightarrow>
                     Some (head @ replicate (8 - length head - length tail) 0 @ tail, s3))))"

definition parse_ip_addr :: "string \<Rightarrow> ip_addr option" where
  "parse_ip_addr s =
     (case read_ipv4_addr s of
        Some (os, r) \<Rightarrow> if r = [] then Some (V4 os) else None
      | None \<Rightarrow>
          (case read_ipv6_addr s of
             Some (gs, r) \<Rightarrow> if r = [] then Some (V6 gs) else None
           | None \<Rightarrow> None))"

fun ip_is_unspecified :: "ip_addr \<Rightarrow> bool" where
  "ip_is_unspecified (V4 os) \<longleftrightarrow> os = [0, 0, 0, 0]"
| "ip_is_unspecified (V6 gs) \<longleftrightarrow> gs = [0, 0, 0, 0, 0, 0, 0, 0]"

fun ip_is_loopback :: "ip_addr \<Rightarrow> bool" where
  "ip_is_loopback (V4 os) \<longleftrightarrow> hd os = 127"
| "ip_is_loopback (V6 gs) \<longleftrightarrow> gs = [0, 0, 0, 0, 0, 0, 0, 1]"

text \<open>Whatever parses is a well-formed address: four octets below 256, or eight segments
  below 65536.\<close>

definition ip_wf :: "ip_addr \<Rightarrow> bool" where
  "ip_wf a \<longleftrightarrow>
     (case a of
        V4 os \<Rightarrow> length os = 4 \<and> (\<forall>v \<in> set os. v < 256)
      | V6 gs \<Rightarrow> length gs = 8 \<and> (\<forall>v \<in> set gs. v < 65536))"

lemma read_number_bound:
  "read_number radix m z b s = Some (v, r) \<Longrightarrow> v \<le> b \<and> length r < length s"
  by (auto simp: read_number_def Let_def split: if_splits)
     (metis length_takeWhile_le length_greater_0_conv less_le_trans diff_less)+

lemma read_octets_wf:
  "read_octets i r s = Some (os, s') \<Longrightarrow> length os = r \<and> (\<forall>v \<in> set os. v < 256)"
proof (induction i r s arbitrary: os s' rule: read_octets.induct)
  case (2 i r s)
  then show ?case
    by (fastforce split: option.splits if_splits list.splits
        simp: read_separator_def dest: read_number_bound)
qed simp

lemma read_groups_wf:
  "read_groups i r s = (gs, b, s') \<Longrightarrow> length gs \<le> r \<and> (\<forall>v \<in> set gs. v < 65536)"
proof (induction i r s arbitrary: gs b s' rule: read_groups.induct)
  case (2 i r s)
  have v4: "256 * (os ! 0) + os ! 1 < 65536" "256 * (os ! 2) + os ! 3 < 65536"
    if "read_separator CHR '':'' i read_ipv4_addr s = Some (os, r')" for os r'
  proof -
    from that have "length os = 4 \<and> (\<forall>v \<in> set os. v < 256)"
      by (auto simp: read_separator_def read_ipv4_addr_def dest: read_octets_wf
          split: if_splits list.splits)
    then have "os ! 0 < 256" "os ! 1 < 256" "os ! 2 < 256" "os ! 3 < 256" by auto
    then show "256 * (os ! 0) + os ! 1 < 65536" "256 * (os ! 2) + os ! 3 < 65536" by auto
  qed
  show ?case
  proof (cases "if r \<ge> 1 then read_separator CHR '':'' i read_ipv4_addr s else None")
    case (Some x)
    with "2.prems" v4 show ?thesis by (cases x) (auto split: if_splits)
  next
    case None
    show ?thesis
    proof (cases "read_separator CHR '':'' i (read_number 16 4 True 65535) s")
      case (Some x)
      obtain g s1 where x: "x = (g, s1)" by fastforce
      obtain gs1 b1 s2 where rec: "read_groups (Suc i) r s1 = (gs1, b1, s2)"
        by (metis prod_cases3)
      from Some x have "g < 65536"
        by (auto simp: read_separator_def dest!: read_number_bound split: if_splits list.splits)
      with "2.IH" [OF None Some x [symmetric] rec] "2.prems" None Some x rec show ?thesis
        by auto
    qed (use "2.prems" None in auto)
  qed
qed simp

lemma parse_ip_addr_wf: "parse_ip_addr s = Some a \<Longrightarrow> ip_wf a"
proof -
  assume a: "parse_ip_addr s = Some a"
  show "ip_wf a"
  proof (cases "read_ipv4_addr s")
    case (Some x)
    with a show ?thesis
      by (cases x) (auto simp: parse_ip_addr_def ip_wf_def read_ipv4_addr_def dest!: read_octets_wf
          split: if_splits)
  next
    case None
    with a obtain gs where gs: "read_ipv6_addr s = Some (gs, [])" and "a = V6 gs"
      by (auto simp: parse_ip_addr_def split: option.splits if_splits)
    then show ?thesis
      by (fastforce simp: read_ipv6_addr_def ip_wf_def dest: read_groups_wf
          split: prod.splits if_splits option.splits)
  qed
qed

end
