(* ===== verification/Filter_Parse.thy ===== *)
theory Filter_Parse
  imports Rust_Net
begin

text \<open>
  The blocklist parser: the public types of \<open>crates/filter/src/lib.rs\<close> and all of
  \<open>crates/filter/src/parse.rs\<close>.  The parser's two output channels, the rule sink and the
  issue vector, are the two components of its result, each in the order the code emits.
  The lemmas show that every rule emitted has a normalised pattern, that no line is lost
  silently except the ones the code skips on purpose, and that the canonical rule texts
  parse back to the pattern they spell.
\<close>

section \<open>Public types (\<open>lib.rs\<close>)\<close>

datatype rule_action = ActBlock | ActExcept

datatype pattern = Exact string | Subtree string | Wildcard string bool

record rule =
  ru_action :: rule_action
  ru_pattern :: pattern
  ru_text :: string
  ru_line :: nat

datatype issue_reason =
    CosmeticRule | UnsupportedModifier | UnsupportedHostsEntry | UnsupportedSyntax | InvalidDomain

record line_issue =
  li_line :: nat
  li_text :: string
  li_reason :: issue_reason

record parsed_list =
  pl_rules :: "rule list"
  pl_issues :: "line_issue list"

record list_counts =
  lc_rules :: nat
  lc_issues :: nat

section \<open>Borrowed rules\<close>

datatype pattern_ref = PExact string | PSubtree string | PWildcard string bool

record rule_ref =
  rr_action :: rule_action
  rr_pattern :: pattern_ref
  rr_text :: string
  rr_line :: nat

definition from_rule :: "rule \<Rightarrow> rule_ref" where
  "from_rule r =
     \<lparr>rr_action = ru_action r,
      rr_pattern = (case ru_pattern r of
         Exact d \<Rightarrow> PExact d
       | Subtree d \<Rightarrow> PSubtree d
       | Wildcard expr include_subdomains \<Rightarrow> PWildcard expr include_subdomains),
      rr_text = ru_text r,
      rr_line = ru_line r\<rparr>"

definition to_owned_rule :: "rule_ref \<Rightarrow> rule" where
  "to_owned_rule r =
     \<lparr>ru_action = rr_action r,
      ru_pattern = (case rr_pattern r of
         PExact d \<Rightarrow> Exact d
       | PSubtree d \<Rightarrow> Subtree d
       | PWildcard expr include_subdomains \<Rightarrow> Wildcard expr include_subdomains),
      ru_text = rr_text r,
      ru_line = rr_line r\<rparr>"

definition LOCALHOST_NAMES :: "string list" where
  "LOCALHOST_NAMES =
     [''localhost'', ''localhost.localdomain'', ''local'', ''broadcasthost'', ''ip6-localhost'',
      ''ip6-loopback'', ''ip6-localnet'', ''ip6-mcastprefix'', ''ip6-allnodes'',
      ''ip6-allrouters'', ''ip6-allhosts'']"

definition COSMETIC_MARKERS :: "string list" where
  "COSMETIC_MARKERS = [''##'', ''#@#'', ''#?#'', ''#$#'', ''#%#'']"

section \<open>Names\<close>

definition lower_strip :: "string \<Rightarrow> string" where
  "lower_strip s0 =
     (let s = (case strip_suffix ''.'' s0 of Some r \<Rightarrow> r | None \<Rightarrow> s0) in
      if list_ex is_ascii_uppercase s then to_ascii_lowercase s else s)"

definition valid_label :: "string \<Rightarrow> bool" where
  "valid_label label \<longleftrightarrow>
     \<not> (label = [] \<or> length label > 63)
     \<and> \<not> (starts_with ''-'' label \<or> ends_with ''-'' label)
     \<and> list_all (\<lambda>b. is_ascii_lowercase b \<or> is_ascii_digit b \<or> b = CHR ''-'' \<or> b = CHR ''_'') label"

definition normalize_domain :: "string \<Rightarrow> string option" where
  "normalize_domain s0 =
     (let s = lower_strip s0 in
      if s = [] \<or> length s > 253 then None
      else if \<not> list_all valid_label (split_on CHR ''.'' s) then None
      else Some s)"

definition valid_segment :: "string \<Rightarrow> bool" where
  "valid_segment segment \<longleftrightarrow>
     contains_char CHR ''*'' segment
     \<or> \<not> (segment = [] \<or> length segment > 63
            \<or> starts_with ''-'' segment \<or> ends_with ''-'' segment)"

definition normalize_wildcard :: "string \<Rightarrow> string option" where
  "normalize_wildcard s0 =
     (let s = lower_strip s0 in
      if s = [] \<or> length s > 253 \<or> \<not> list_ex is_ascii_alphanumeric s then None
      else if \<not> list_all (\<lambda>b. is_ascii_lowercase b \<or> is_ascii_digit b
                \<or> b = CHR ''-'' \<or> b = CHR ''_'' \<or> b = CHR ''.'' \<or> b = CHR ''*'') s then None
      else if \<not> list_all valid_segment (split_on CHR ''.'' s) then None
      else Some s)"

section \<open>Lines\<close>

definition issue_at :: "nat \<Rightarrow> string \<Rightarrow> issue_reason \<Rightarrow> line_issue" where
  "issue_at line_no line reason = \<lparr>li_line = line_no, li_text = line, li_reason = reason\<rparr>"

definition skip_or_report_comment :: "string \<Rightarrow> nat \<Rightarrow> bool \<times> line_issue list" where
  "skip_or_report_comment line line_no =
     (if line = [] \<or> starts_with ''!'' line then (True, [])
      else if starts_with ''['' line \<and> ends_with '']'' line then (True, [])
      else if starts_with ''#'' line then
        (let cosmetic =
           list_ex (\<lambda>m. starts_with m line) [''#@#'', ''#?#'', ''#$#'', ''#%#'']
           \<or> (starts_with ''##'' line
               \<and> (let r = drop 2 line in r \<noteq> [] \<and> hd r \<noteq> CHR ''#'' \<and> ws_len r = 0))
         in (True, if cosmetic then [issue_at line_no line CosmeticRule] else []))
      else (False, []))"

definition is_localhost :: "string \<Rightarrow> bool" where
  "is_localhost name =
     (let bare = (case strip_suffix ''.'' name of Some r \<Rightarrow> r | None \<Rightarrow> name)
      in list_ex (\<lambda>l. eq_ignore_ascii_case l bare) LOCALHOST_NAMES)"

definition hosts_names :: "string \<Rightarrow> string list" where
  "hosts_names line =
     (let effective = trim (hd (split_on CHR ''#'' line))
      in filter (\<lambda>n. \<not> is_localhost n) (drop 1 (split_whitespace effective)))"

fun emit_hosts :: "string \<Rightarrow> nat \<Rightarrow> string list \<Rightarrow> rule_ref list \<times> line_issue list" where
  "emit_hosts line line_no [] = ([], [])"
| "emit_hosts line line_no (name # names) =
     (case emit_hosts line line_no names of (rs, is) \<Rightarrow>
        (case normalize_domain name of
           Some domain \<Rightarrow>
             (\<lparr>rr_action = ActBlock, rr_pattern = PExact domain, rr_text = line,
               rr_line = line_no\<rparr> # rs, is)
         | None \<Rightarrow> (rs, issue_at line_no line InvalidDomain # is)))"

definition parse_hosts_line ::
    "string \<Rightarrow> ip_addr \<Rightarrow> nat \<Rightarrow> rule_ref list \<times> line_issue list" where
  "parse_hosts_line line ip line_no =
     (let names = hosts_names line in
      if names = [] then ([], [])
      else if \<not> (ip_is_unspecified ip \<or> ip_is_loopback ip)
      then ([], [issue_at line_no line UnsupportedHostsEntry])
      else emit_hosts line line_no names)"

definition hosts_ip :: "string \<Rightarrow> ip_addr option" where
  "hosts_ip line =
     (case split_whitespace line of
        [] \<Rightarrow> None
      | first # _ \<Rightarrow> parse_ip_addr (hd (split_on CHR ''%'' first)))"

definition parse_line :: "string \<Rightarrow> nat \<Rightarrow> rule_ref list \<times> line_issue list" where
  "parse_line line line_no =
     (case hosts_ip line of
        Some ip \<Rightarrow> parse_hosts_line line ip line_no
      | None \<Rightarrow>
          if list_ex (\<lambda>m. contains_str m line) COSMETIC_MARKERS
          then ([], [issue_at line_no line CosmeticRule])
          else if contains_char CHR ''$'' line
          then ([], [issue_at line_no line UnsupportedModifier])
          else if length line > 1 \<and> starts_with ''/'' line \<and> ends_with ''/'' line
          then ([], [issue_at line_no line UnsupportedSyntax])
          else
            (case (case strip_prefix ''@@'' line of
                     Some rest \<Rightarrow> (ActExcept, rest) | None \<Rightarrow> (ActBlock, line))
             of (action, rest1) \<Rightarrow>
               (case (case strip_prefix ''||'' rest1 of
                        Some rest \<Rightarrow> (True, rest) | None \<Rightarrow> (False, rest1))
                of (subtree, rest2) \<Rightarrow>
                  (let rest = (case strip_suffix ''^'' rest2 of Some r \<Rightarrow> r | None \<Rightarrow> rest2) in
                   if contains_char CHR ''^'' rest \<or> starts_with ''|'' rest
                   then ([], [issue_at line_no line UnsupportedSyntax])
                   else
                     (case (if contains_char CHR ''*'' rest
                            then map_option (\<lambda>expr. PWildcard expr subtree) (normalize_wildcard rest)
                            else map_option (\<lambda>d. if subtree then PSubtree d else PExact d)
                                   (normalize_domain rest))
                      of None \<Rightarrow> ([], [issue_at line_no line InvalidDomain])
                       | Some pat \<Rightarrow>
                           ([\<lparr>rr_action = action, rr_pattern = pat, rr_text = line,
                              rr_line = line_no\<rparr>], []))))))"

section \<open>Whole lists\<close>

definition line_number :: "nat \<Rightarrow> nat" where
  "line_number idx = sat_add_u32 (case try_u32 idx of Some n \<Rightarrow> n | None \<Rightarrow> u32_max) 1"

fun parse_lines :: "nat \<Rightarrow> string list \<Rightarrow> rule_ref list \<times> line_issue list" where
  "parse_lines idx [] = ([], [])"
| "parse_lines idx (raw # raws) =
     (let line_no = line_number idx;
          line = trim raw
      in case skip_or_report_comment line line_no of
           (skip, is1) \<Rightarrow>
             (case (if skip then ([], []) else parse_line line line_no) of
                (rs, is2) \<Rightarrow>
                  (case parse_lines (Suc idx) raws of
                     (rs', is') \<Rightarrow> (rs @ rs', is1 @ is2 @ is'))))"

definition parse_list_streamed :: "string \<Rightarrow> rule_ref list \<times> line_issue list" where
  "parse_list_streamed text = parse_lines 0 (lines text)"

definition parse_list :: "string \<Rightarrow> parsed_list" where
  "parse_list text =
     (case parse_list_streamed text of
        (rs, is) \<Rightarrow> \<lparr>pl_rules = map to_owned_rule rs, pl_issues = is\<rparr>)"

definition count_rules :: "string \<Rightarrow> list_counts" where
  "count_rules text =
     (case parse_list_streamed text of
        (rs, is) \<Rightarrow> \<lparr>lc_rules = length rs, lc_issues = length is\<rparr>)"

section \<open>Normalised patterns\<close>

definition domain_char :: "char \<Rightarrow> bool" where
  "domain_char b \<longleftrightarrow> is_ascii_lowercase b \<or> is_ascii_digit b \<or> b = CHR ''-'' \<or> b = CHR ''_''"

definition domain_wf :: "string \<Rightarrow> bool" where
  "domain_wf d \<longleftrightarrow> d \<noteq> [] \<and> length d \<le> 253 \<and> list_all valid_label (labels d)"

definition wildcard_wf :: "string \<Rightarrow> bool" where
  "wildcard_wf e \<longleftrightarrow>
     e \<noteq> [] \<and> length e \<le> 253 \<and> contains_char CHR ''*'' e \<and> list_ex is_ascii_alphanumeric e
     \<and> list_all (\<lambda>b. domain_char b \<or> b = CHR ''.'' \<or> b = CHR ''*'') e
     \<and> list_all valid_segment (labels e)"

fun pattern_wf :: "pattern_ref \<Rightarrow> bool" where
  "pattern_wf (PExact d) \<longleftrightarrow> domain_wf d"
| "pattern_wf (PSubtree d) \<longleftrightarrow> domain_wf d"
| "pattern_wf (PWildcard e b) \<longleftrightarrow> wildcard_wf e"

definition line_out :: "nat \<Rightarrow> string \<Rightarrow> rule_ref list \<times> line_issue list" where
  "line_out idx raw =
     (case skip_or_report_comment (trim raw) (line_number idx) of
        (skip, is1) \<Rightarrow>
          (case (if skip then ([], []) else parse_line (trim raw) (line_number idx)) of
             (rs, is2) \<Rightarrow> (rs, is1 @ is2)))"

lemma valid_label_chars: "valid_label l \<Longrightarrow> c \<in> set l \<Longrightarrow> domain_char c"
  by (auto simp: valid_label_def domain_char_def list_all_iff)

lemma set_labels: "c \<in> set s \<Longrightarrow> c \<noteq> d \<Longrightarrow> \<exists>l \<in> set (split_on d s). c \<in> set l"
proof (induction s)
  case (Cons a s)
  then show ?case
    by (cases "split_on d s") (auto split: if_splits)
qed simp

lemma domain_wf_chars: "domain_wf d \<Longrightarrow> c \<in> set d \<Longrightarrow> domain_char c \<or> c = CHR ''.''"
  using set_labels [of c d "CHR ''.''"] by (auto simp: domain_wf_def list_all_iff dest: valid_label_chars)

lemma domain_char_byte: "domain_char c \<or> c = CHR ''.'' \<Longrightarrow>
    45 \<le> byte c \<and> byte c \<le> 122 \<and> \<not> is_ascii_uppercase c \<and> byte c \<noteq> 47 \<and> byte c \<noteq> 64"
  by (auto simp: domain_char_def is_ascii_lowercase_def is_ascii_digit_def is_ascii_uppercase_def)

lemma domain_char_not [simp]:
  "\<not> domain_char CHR ''*''" "\<not> domain_char CHR ''^''" "\<not> domain_char CHR ''|''"
  "\<not> domain_char CHR ''#''" "\<not> domain_char CHR ''$''" "\<not> domain_char CHR ''/''"
  "\<not> domain_char CHR ''@''" "\<not> domain_char CHR ''%''" "\<not> domain_char CHR ''.''" "\<not> domain_char CHR '' ''"
  by (simp_all add: domain_char_def is_ascii_lowercase_def is_ascii_digit_def)

lemma lower_strip_alt: "lower_strip s =
    to_ascii_lowercase (case strip_suffix ''.'' s of Some r \<Rightarrow> r | None \<Rightarrow> s)"
  by (auto simp: lower_strip_def Let_def to_ascii_lowercase_id)

lemma lower_strip_no_upper: "\<not> list_ex is_ascii_uppercase (lower_strip s)"
  by (auto simp: lower_strip_alt list_ex_iff dest: lower_no_upper)

lemma wf_not_ends_dot:
  assumes "list_all valid_segment (labels d)"
  shows "\<not> ends_with ''.'' d"
proof
  assume "ends_with ''.'' d"
  then obtain r where "d = r @ ''.''" by (auto simp: ends_with_iff)
  then have "labels d = labels r @ [[]]" using split_on_append [of "CHR ''.''" r "[]"] by simp
  with assms show False by (simp add: valid_segment_def contains_char_def)
qed

lemma valid_label_segment: "valid_label l \<Longrightarrow> valid_segment l"
  by (auto simp: valid_label_def valid_segment_def)

lemma domain_wf_not_ends_dot: "domain_wf d \<Longrightarrow> \<not> ends_with ''.'' d"
  by (rule wf_not_ends_dot) (auto simp: domain_wf_def list_all_iff valid_label_segment)

lemma lower_strip_id:
  assumes "\<not> ends_with ''.'' d" "\<And>c. c \<in> set d \<Longrightarrow> \<not> is_ascii_uppercase c"
  shows "lower_strip d = d"
  using assms by (simp add: lower_strip_alt strip_suffix_None [symmetric] to_ascii_lowercase_id list_ex_iff)

lemma lower_strip_domain: "domain_wf d \<Longrightarrow> lower_strip d = d"
  by (rule lower_strip_id) (metis domain_wf_not_ends_dot domain_wf_chars domain_char_byte)+

lemma normalize_domain_Some:
  "normalize_domain s = Some d \<longleftrightarrow> d = lower_strip s \<and> domain_wf d"
  by (auto simp: normalize_domain_def Let_def domain_wf_def not_less)

lemma normalize_domain_id: "domain_wf d \<Longrightarrow> normalize_domain d = Some d"
  by (simp add: normalize_domain_Some lower_strip_domain)

lemma normalize_wildcard_Some:
  "contains_char CHR ''*'' s \<Longrightarrow> normalize_wildcard s = Some e \<longleftrightarrow> e = lower_strip s \<and> wildcard_wf e"
proof -
  assume s: "contains_char CHR ''*'' s"
  have "contains_char CHR ''*'' (lower_strip s)"
  proof (cases "strip_suffix ''.'' s")
    case None
    with s show ?thesis by (force simp: lower_strip_alt contains_char_def to_ascii_lowercase_def ascii_lower_def is_ascii_uppercase_def)
  next
    case (Some r)
    with s have "CHR ''*'' \<in> set r" by (auto simp: strip_suffix_Some contains_char_def)
    with Some show ?thesis by (force simp: lower_strip_alt contains_char_def to_ascii_lowercase_def ascii_lower_def is_ascii_uppercase_def)
  qed
  then show ?thesis
    by (auto simp: normalize_wildcard_def Let_def wildcard_wf_def not_less domain_char_def list_all_iff list_ex_iff)
qed

section \<open>What one line gives\<close>

lemma emit_hosts_rules: "r \<in> set (fst (emit_hosts line n names)) \<Longrightarrow>
    pattern_wf (rr_pattern r) \<and> rr_text r = line \<and> rr_line r = n \<and> rr_action r = ActBlock"
  by (induction line n names rule: emit_hosts.induct)
     (auto split: prod.splits option.splits simp: normalize_domain_Some)

lemma emit_hosts_issues: "i \<in> set (snd (emit_hosts line n names)) \<Longrightarrow> li_text i = line \<and> li_line i = n"
  by (induction line n names rule: emit_hosts.induct)
     (auto split: prod.splits option.splits simp: issue_at_def)

lemma emit_hosts_length: "length (fst (emit_hosts line n names)) + length (snd (emit_hosts line n names)) = length names"
  by (induction line n names rule: emit_hosts.induct) (auto split: prod.splits option.splits)

lemma parse_hosts_line_rules: "r \<in> set (fst (parse_hosts_line line ip n)) \<Longrightarrow>
    pattern_wf (rr_pattern r) \<and> rr_text r = line \<and> rr_line r = n"
  by (auto simp: parse_hosts_line_def Let_def dest: emit_hosts_rules split: if_splits)

lemma parse_line_rules:
  assumes "r \<in> set (fst (parse_line line n))"
  shows "pattern_wf (rr_pattern r) \<and> rr_text r = line \<and> rr_line r = n"
proof (cases "hosts_ip line")
  case (Some ip)
  with assms show ?thesis by (auto simp: parse_line_def dest: parse_hosts_line_rules)
next
  case None
  with assms show ?thesis
    by (auto simp: parse_line_def Let_def normalize_domain_Some normalize_wildcard_Some
        split: if_splits prod.splits option.splits)
qed

lemma parse_line_issues:
  assumes "i \<in> set (snd (parse_line line n))"
  shows "li_text i = line \<and> li_line i = n"
proof (cases "hosts_ip line")
  case (Some ip)
  with assms show ?thesis
    by (auto simp: parse_line_def parse_hosts_line_def Let_def issue_at_def dest: emit_hosts_issues split: if_splits)
next
  case None
  with assms show ?thesis
    by (auto simp: parse_line_def Let_def issue_at_def split: if_splits prod.splits option.splits)
qed

lemma parse_line_plain_one:
  "hosts_ip line = None \<Longrightarrow> length (fst (parse_line line n)) + length (snd (parse_line line n)) = 1"
  by (auto simp: parse_line_def Let_def split: if_splits prod.splits option.splits)

lemma parse_line_hosts_some:
  "hosts_ip line = Some ip \<Longrightarrow> hosts_names line \<noteq> [] \<Longrightarrow>
     0 < length (fst (parse_line line n)) + length (snd (parse_line line n))"
  using emit_hosts_length [of line n "hosts_names line"]
  by (auto simp: parse_line_def parse_hosts_line_def Let_def)

lemma parse_lines_concat:
  "parse_lines idx raws =
     (concat (map (\<lambda>(i, raw). fst (line_out i raw)) (enumerate idx raws)),
      concat (map (\<lambda>(i, raw). snd (line_out i raw)) (enumerate idx raws)))"
  by (induction idx raws rule: parse_lines.induct)
     (auto simp: line_out_def Let_def split: prod.splits)

lemma parse_list_rules: "pl_rules (parse_list text) =
    concat (map (\<lambda>(i, raw). map to_owned_rule (fst (line_out i raw))) (enumerate 0 (lines text)))"
  by (simp add: parse_list_def parse_list_streamed_def parse_lines_concat map_concat comp_def
      split_def)

lemma parse_list_issues: "pl_issues (parse_list text) =
    concat (map (\<lambda>(i, raw). snd (line_out i raw)) (enumerate 0 (lines text)))"
  by (simp add: parse_list_def parse_list_streamed_def parse_lines_concat)

lemma line_out_rules:
  "r \<in> set (fst (line_out i raw)) \<Longrightarrow>
     pattern_wf (rr_pattern r) \<and> rr_text r = trim raw \<and> rr_line r = line_number i \<and>
     \<not> fst (skip_or_report_comment (trim raw) (line_number i))"
  by (auto simp: line_out_def case_prod_beta dest: parse_line_rules split: if_splits)

lemma skip_issues: "i \<in> set (snd (skip_or_report_comment line n)) \<Longrightarrow> i = issue_at n line CosmeticRule"
  by (auto simp: skip_or_report_comment_def Let_def split: if_splits)

lemma line_out_issues:
  "i \<in> set (snd (line_out k raw)) \<Longrightarrow> li_text i = trim raw \<and> li_line i = line_number k"
  by (auto simp: line_out_def case_prod_beta issue_at_def dest: parse_line_issues skip_issues
      split: if_splits)

lemma line_number_le: "1 \<le> line_number i \<and> line_number i \<le> u32_max"
  by (auto simp: line_number_def sat_add_u32_def u32_max_def try_u32_def split: option.splits)

lemma line_number_exact: "i < 2 ^ 32 - 1 \<Longrightarrow> line_number i = Suc i"
  by (simp add: line_number_def sat_add_u32_def u32_max_def try_u32_def)

lemma to_from_rule [simp]: "to_owned_rule (from_rule r) = r"
  by (cases r) (auto simp: to_owned_rule_def from_rule_def split: pattern.splits)

lemma from_to_rule [simp]: "from_rule (to_owned_rule r) = r"
  by (cases r) (auto simp: to_owned_rule_def from_rule_def split: pattern_ref.splits)

lemma to_owned_sel [simp]:
  "ru_text (to_owned_rule r) = rr_text r" "ru_line (to_owned_rule r) = rr_line r"
  "ru_action (to_owned_rule r) = rr_action r"
  by (simp_all add: to_owned_rule_def)

lemma from_rule_sel [simp]:
  "rr_text (from_rule r) = ru_text r" "rr_line (from_rule r) = ru_line r"
  "rr_action (from_rule r) = ru_action r"
  by (simp_all add: from_rule_def)

section \<open>Canonical texts parse back\<close>

lemma ws_len_plain: "33 \<le> byte c \<Longrightarrow> byte c < 128 \<Longrightarrow> ws_len (c # cs) = 0"
  by (auto simp: ws_len_def split: list.splits)

lemma split_ws_aux_plain:
  "(\<And>c. c \<in> set s \<Longrightarrow> 33 \<le> byte c \<and> byte c < 128) \<Longrightarrow>
     split_ws_aux acc s = (if acc = [] \<and> s = [] then [] else [rev acc @ s])"
  by (induction acc s rule: split_ws_aux.induct) (auto simp: ws_len_plain Let_def)

lemma split_whitespace_plain:
  "s \<noteq> [] \<Longrightarrow> (\<And>c. c \<in> set s \<Longrightarrow> 33 \<le> byte c \<and> byte c < 128) \<Longrightarrow> split_whitespace s = [s]"
  by (simp add: split_whitespace_def split_ws_aux_plain)

lemma parse_ip_addr_nondigit:
  assumes "to_digit 16 c = None" "c \<noteq> CHR '':''"
  shows "parse_ip_addr (c # s) = None"
proof -
  have d10: "to_digit 10 c = None"
    using assms(1) by (auto simp: to_digit_def Let_def split: option.splits if_splits)
  have r10: "read_number 10 3 False 255 (c # s) = None"
    by (simp add: read_number_def d10)
  have r16: "read_number 16 4 True 65535 (c # s) = None"
    by (simp add: read_number_def assms(1))
  have "read_octets 0 (Suc 3) (c # s) = None"
    unfolding read_octets.simps by (simp add: read_separator_def r10)
  then have v4: "read_ipv4_addr (c # s) = None"
    by (simp add: read_ipv4_addr_def)
  have "read_groups 0 (Suc 7) (c # s) = ([], False, c # s)"
    unfolding read_groups.simps by (simp add: read_separator_def r16 v4)
  then have "read_groups 0 8 (c # s) = ([], False, c # s)" by simp
  then show ?thesis
    using assms(2) v4 by (simp add: parse_ip_addr_def read_ipv6_addr_def strip_prefix_def)
qed

lemma hosts_ip_bar:
  assumes "c = CHR ''|'' \<or> c = CHR ''@''" "\<And>x. x \<in> set s \<Longrightarrow> 33 \<le> byte x \<and> byte x < 128"
  shows "hosts_ip (c # s) = None"
proof -
  have w: "split_whitespace (c # s) = [c # s]"
    by (rule split_whitespace_plain) (use assms in auto)
  have "parse_ip_addr (c # t) = None" for t
    by (rule parse_ip_addr_nondigit) (use assms(1) in \<open>auto simp: to_digit_def\<close>)
  moreover have "hd (split_on CHR ''%'' (c # s)) = c # hd (split_on CHR ''%'' s)"
    using assms(1) by (auto simp: split_on_Cons simp del: split_on.simps)
  ultimately show ?thesis by (simp add: hosts_ip_def w)
qed

lemma no_markers: "CHR ''#'' \<notin> set s \<Longrightarrow> \<not> list_ex (\<lambda>m. contains_str m s) COSMETIC_MARKERS"
  by (auto simp: COSMETIC_MARKERS_def contains_str_iff)

lemma domain_free:
  "domain_wf d \<Longrightarrow> CHR ''*'' \<notin> set d \<and> CHR ''^'' \<notin> set d \<and> CHR ''|'' \<notin> set d \<and> CHR ''#'' \<notin> set d
     \<and> CHR ''$'' \<notin> set d \<and> CHR ''/'' \<notin> set d \<and> CHR ''@'' \<notin> set d \<and> CHR ''%'' \<notin> set d"
  using domain_wf_chars [of d] by fastforce

lemma domain_plain: "domain_wf d \<Longrightarrow> c \<in> set d \<Longrightarrow> 33 \<le> byte c \<and> byte c < 128"
  using domain_wf_chars [of d c] domain_char_byte [of c] by auto

lemma starts_with_free: "p \<noteq> [] \<Longrightarrow> hd p \<notin> set s \<Longrightarrow> \<not> starts_with p s"
  by (cases p) (auto simp: starts_with_iff)

lemma ends_with_free: "p \<noteq> [] \<Longrightarrow> hd p \<notin> set s \<Longrightarrow> \<not> ends_with p s"
  by (cases p) (auto simp: ends_with_iff)

lemma ends_with_last: "ends_with p (s @ [c]) \<longleftrightarrow> p = [] \<or> (last p = c \<and> ends_with (butlast p) s)"
  by (cases p rule: rev_cases) (auto simp: ends_with_iff)

lemma parse_line_core:
  assumes wf: "domain_wf d" and h: "hosts_ip line = None"
    and line: "line = pre @ (if sub then ''||'' else []) @ d @ suf"
    and pre: "pre = (case act of ActExcept \<Rightarrow> ''@@'' | ActBlock \<Rightarrow> [])"
    and suf: "suf = [] \<or> suf = ''^''"
  shows "parse_line line n =
    ([\<lparr>rr_action = act, rr_pattern = (if sub then PSubtree d else PExact d), rr_text = line, rr_line = n\<rparr>], [])"
proof -
  note f = domain_free [OF wf]
  let ?r1 = "(if sub then ''||'' else []) @ d @ suf"
  have chars: "CHR ''#'' \<notin> set line" "CHR ''$'' \<notin> set line" "CHR ''/'' \<notin> set line"
    using f suf by (auto simp: line pre split: rule_action.splits)
  have a: "(case strip_prefix ''@@'' line of Some rest \<Rightarrow> (ActExcept, rest) | None \<Rightarrow> (ActBlock, line))
      = (act, ?r1)"
  proof (cases act)
    case ActBlock
    then have "\<not> starts_with ''@@'' line"
      using f suf by (intro starts_with_free) (auto simp: line pre)
    then show ?thesis using ActBlock by (simp add: strip_prefix_None [symmetric] line pre)
  qed (simp add: line pre strip_prefix_def)
  have b: "(case strip_prefix ''||'' ?r1 of Some rest \<Rightarrow> (True, rest) | None \<Rightarrow> (False, ?r1)) = (sub, d @ suf)"
  proof (cases sub)
    case False
    then have "\<not> starts_with ''||'' ?r1"
      using f suf by (intro starts_with_free) auto
    then show ?thesis using False by (simp add: strip_prefix_None [symmetric])
  qed (simp add: strip_prefix_def)
  have c: "(case strip_suffix ''^'' (d @ suf) of Some r \<Rightarrow> r | None \<Rightarrow> d @ suf) = d"
    using suf
  proof
    assume "suf = []"
    then show ?thesis using ends_with_free [of "''^''" d] f by (simp add: strip_suffix_None [symmetric])
  qed simp
  have e: "\<not> (length line > 1 \<and> starts_with ''/'' line \<and> ends_with ''/'' line)"
    using chars(3) by (auto simp: starts_with_iff)
  have g: "\<not> (contains_char CHR ''^'' d \<or> starts_with ''|'' d)"
    using f by (auto simp: contains_char_def starts_with_iff)
  show ?thesis
    unfolding parse_line_def h option.case a prod.case b Let_def c
    using no_markers [OF chars(1)] chars(2) e g f normalize_domain_id [OF wf]
    by (simp add: contains_char_def)
qed

lemma hosts_ip_canonical:
  assumes "domain_wf d" "sub \<or> act = ActExcept" "suf = [] \<or> suf = ''^''"
  shows "hosts_ip ((case act of ActExcept \<Rightarrow> ''@@'' | ActBlock \<Rightarrow> [])
    @ (if sub then ''||'' else []) @ d @ suf) = None"
proof -
  have p: "33 \<le> byte x \<and> byte x < 128" if "x \<in> set (d @ suf)" for x
    using that assms(3) domain_plain [OF assms(1)] by auto
  then have q: "hosts_ip (c # x @ d @ suf) = None"
    if "c = CHR ''|'' \<or> c = CHR ''@''" "set x \<subseteq> {CHR ''|'', CHR ''@''}" for c x
    using that by (intro hosts_ip_bar) auto
  show ?thesis
    using assms(2) q [of "CHR ''|''" "''|''"] q [of "CHR ''@''" "''@||''"] q [of "CHR ''@''" "''@''"]
    by (cases act; cases sub) auto
qed

section \<open>Properties\<close>

text \<open>Every rule \<open>parse_list\<close> returns comes from one line of the text, carries that line
  trimmed and its saturated one-based number, and its pattern is normalised: a lower-case DNS name
  of at most 253 bytes whose labels all pass the label check, or a wildcard with at least one
  star and one alphanumeric byte.\<close>
theorem parse_list_rules_wf:
  assumes "r \<in> set (pl_rules (parse_list text))"
  shows "pattern_wf (rr_pattern (from_rule r)) \<and>
    (\<exists>i < length (lines text). ru_text r = trim (lines text ! i) \<and> ru_line r = line_number i
       \<and> \<not> fst (skip_or_report_comment (trim (lines text ! i)) (line_number i)))"
proof -
  from assms obtain i where i: "i < length (lines text)"
    and r: "r \<in> to_owned_rule ` set (fst (line_out i (lines text ! i)))"
    unfolding parse_list_rules in_concat_enumerate by auto
  from r obtain q where q: "r = to_owned_rule q" "q \<in> set (fst (line_out i (lines text ! i)))" by auto
  from line_out_rules [OF q(2)] i show ?thesis by (auto simp: q(1))
qed

theorem parse_list_rules_wf_witness:
  "pattern_wf (rr_pattern (from_rule (pl_rules (parse_list ''# c
||Ads.COM^'') ! 0)))"
proof -
  have "pl_rules (parse_list ''# c
||Ads.COM^'') ! 0 \<in> set (pl_rules (parse_list ''# c
||Ads.COM^''))"
    by code_simp
  from parse_list_rules_wf [OF this] show ?thesis by blast
qed

text \<open>No line is dropped silently: a line that is neither blank nor a comment nor a hosts line
  without effective names leaves a rule or an issue that carries its text and number.\<close>
theorem parse_list_no_silent_drop:
  assumes "i < length (lines text)"
    and "line = trim (lines text ! i)"
    and "\<not> fst (skip_or_report_comment line (line_number i))"
    and "hosts_ip line \<noteq> None \<Longrightarrow> hosts_names line \<noteq> []"
  shows "(\<exists>r \<in> set (pl_rules (parse_list text)). ru_text r = line \<and> ru_line r = line_number i)
    \<or> (\<exists>e \<in> set (pl_issues (parse_list text)). li_text e = line \<and> li_line e = line_number i)"
proof -
  let ?o = "line_out i (lines text ! i)"
  have "0 < length (fst (parse_line line (line_number i))) + length (snd (parse_line line (line_number i)))"
    using assms(4) parse_line_plain_one [of line "line_number i"] parse_line_hosts_some
    by (cases "hosts_ip line") auto
  then have "fst ?o \<noteq> [] \<or> snd ?o \<noteq> []"
    using assms(2,3) by (auto simp: line_out_def case_prod_beta)
  then consider r where "r \<in> set (fst ?o)" | e where "e \<in> set (snd ?o)"
    by (metis list.set_sel(1))
  then show ?thesis
  proof cases
    case 1
    then have "to_owned_rule r \<in> set (pl_rules (parse_list text))"
      unfolding parse_list_rules in_concat_enumerate using assms(1) by auto
    then show ?thesis using line_out_rules [OF 1] assms(2) by force
  next
    case 2
    then have "e \<in> set (pl_issues (parse_list text))"
      unfolding parse_list_issues in_concat_enumerate using assms(1) by auto
    then show ?thesis using line_out_issues [OF 2] assms(2) by auto
  qed
qed

theorem parse_list_no_silent_drop_witness:
  "(\<exists>r \<in> set (pl_rules (parse_list ''a.com$x'')). ru_text r = ''a.com$x'' \<and> ru_line r = line_number 0)
    \<or> (\<exists>e \<in> set (pl_issues (parse_list ''a.com$x'')). li_text e = ''a.com$x'' \<and> li_line e = line_number 0)"
  by (rule parse_list_no_silent_drop) code_simp+

text \<open>C34: \<open>parse_list\<close> accounts for its text: every rule comes from one line that is no comment, keeps
  that line trimmed and its saturated one-based number, and has a normalised pattern (a lower-case DNS
  name of at most 253 bytes whose labels all pass the label check, or a wildcard with at least one
  star and one alphanumeric byte); and every line that is neither blank nor a comment nor a hosts line
  without effective names leaves a rule or an issue that carries its text and number.\<close>
theorem parse_list_accounts:
  "(\<forall>r \<in> set (pl_rules (parse_list text)). pattern_wf (rr_pattern (from_rule r))
      \<and> (\<exists>i < length (lines text). ru_text r = trim (lines text ! i) \<and> ru_line r = line_number i
           \<and> \<not> fst (skip_or_report_comment (trim (lines text ! i)) (line_number i))))
   \<and> (\<forall>i < length (lines text). let line = trim (lines text ! i) in
        \<not> fst (skip_or_report_comment line (line_number i)) \<and> (hosts_ip line = None \<or> hosts_names line \<noteq> [])
        \<longrightarrow> (\<exists>r \<in> set (pl_rules (parse_list text)). ru_text r = line \<and> ru_line r = line_number i)
          \<or> (\<exists>e \<in> set (pl_issues (parse_list text)). li_text e = line \<and> li_line e = line_number i))"
  unfolding Let_def using parse_list_rules_wf parse_list_no_silent_drop [OF _ refl] by blast

theorem parse_list_accounts_witness:
  "(\<exists>r \<in> set (pl_rules (parse_list ''a.com$x'')). ru_text r = ''a.com$x'' \<and> ru_line r = line_number 0)
    \<or> (\<exists>e \<in> set (pl_issues (parse_list ''a.com$x'')). li_text e = ''a.com$x'' \<and> li_line e = line_number 0)"
proof -
  have l: "0 < length (lines ''a.com$x'')" "trim (lines ''a.com$x'' ! 0) = ''a.com$x''"
    "\<not> fst (skip_or_report_comment ''a.com$x'' (line_number 0))" "hosts_ip ''a.com$x'' = None" by code_simp+
  from parse_list_accounts [of "''a.com$x''", THEN conjunct2, rule_format, OF l(1)] l(2-4) show ?thesis
    by (simp add: Let_def)
qed

text \<open>The canonical rule texts parse back: for a normalised name \<open>d\<close>, the lines
  \<open>||d^\<close>, \<open>||d\<close>, \<open>@@||d^\<close>, \<open>@@d\<close> and so on give exactly one rule with the pattern and
  action they spell, and no issue; a bare \<open>d\<close> or \<open>d^\<close> does so unless its first word reads as an IP address.\<close>
theorem parse_line_canonical:
  assumes "domain_wf d"
    and "suf = [] \<or> suf = ''^''"
    and "line = (case act of ActExcept \<Rightarrow> ''@@'' | ActBlock \<Rightarrow> []) @ (if sub then ''||'' else []) @ d @ suf"
    and "sub \<or> act = ActExcept \<or> hosts_ip line = None"
  shows "parse_line line n =
    ([\<lparr>rr_action = act, rr_pattern = (if sub then PSubtree d else PExact d),
       rr_text = line, rr_line = n\<rparr>], [])"
proof (rule parse_line_core [OF assms(1) _ assms(3) refl assms(2)])
  show "hosts_ip line = None"
    using assms(4) hosts_ip_canonical [OF assms(1) _ assms(2), of sub act] assms(3) by auto
qed

theorem parse_line_canonical_witness:
  "parse_line ''@@||ads.com^'' 7 =
    ([\<lparr>rr_action = ActExcept, rr_pattern = PSubtree ''ads.com'', rr_text = ''@@||ads.com^'', rr_line = 7\<rparr>], [])"
proof -
  have d: "domain_wf ''ads.com''" by code_simp
  show ?thesis using parse_line_canonical [OF d, of "''^''" "''@@||ads.com^''" ActExcept True 7] by simp
qed

lemma lower_strip_lower: "lower_strip (to_ascii_lowercase s) = lower_strip s"
proof (cases "strip_suffix ''.'' s")
  case (Some r)
  then have "to_ascii_lowercase s = to_ascii_lowercase r @ ''.''"
    by (auto simp: strip_suffix_Some to_ascii_lowercase_def)
  with Some show ?thesis by (simp add: lower_strip_alt)
next
  case None
  have "\<not> ends_with ''.'' (to_ascii_lowercase s)"
  proof
    assume "ends_with ''.'' (to_ascii_lowercase s)"
    then obtain r where "to_ascii_lowercase s = r @ ''.''" by (auto simp: ends_with_iff)
    then have "s = butlast s @ ''.''"
      by (cases s rule: rev_cases) (auto simp: to_ascii_lowercase_def)
    then show False using None by (metis option.distinct(1) strip_suffix_append)
  qed
  with None show ?thesis by (simp add: lower_strip_alt strip_suffix_None [symmetric])
qed

text \<open>\<open>normalize_domain\<close> is a canonical form: its result is a well-formed name that it maps to
  itself, with or without the final dot, and letter case does not matter.\<close>
theorem normalize_domain_canonical:
  "(case normalize_domain s of
      None \<Rightarrow> \<not> domain_wf (lower_strip s)
    | Some d \<Rightarrow> domain_wf d \<and> normalize_domain d = Some d \<and> normalize_domain (d @ ''.'') = Some d)
   \<and> normalize_domain (to_ascii_lowercase s) = normalize_domain s"
proof
  have *: "normalize_domain (d @ ''.'') = Some d" if "domain_wf d" for d
  proof -
    have "lower_strip (d @ ''.'') = to_ascii_lowercase d" by (simp add: lower_strip_alt)
    also have "\<dots> = d" using that by (auto intro!: to_ascii_lowercase_id simp: list_ex_iff
          dest: domain_wf_chars [OF that, THEN domain_char_byte])
    finally show ?thesis using that by (simp add: normalize_domain_Some)
  qed
  show "case normalize_domain s of
      None \<Rightarrow> \<not> domain_wf (lower_strip s)
    | Some d \<Rightarrow> domain_wf d \<and> normalize_domain d = Some d \<and> normalize_domain (d @ ''.'') = Some d"
  proof (cases "domain_wf (lower_strip s)")
    case True
    then have "normalize_domain s = Some (lower_strip s)" by (simp add: normalize_domain_Some)
    then show ?thesis using True * by (simp add: normalize_domain_id)
  next
    case False
    then have "normalize_domain s = None"
      using normalize_domain_Some [of s] by (cases "normalize_domain s") auto
    then show ?thesis using False by simp
  qed
  show "normalize_domain (to_ascii_lowercase s) = normalize_domain s"
    by (simp add: normalize_domain_def lower_strip_lower)
qed

end
