(* ===== verification/Filter_Glob.thy ===== *)
theory Filter_Glob
  imports Prelude
begin

text \<open>
  Wildcard expressions: \<open>wildcard_anchor\<close>, \<open>wildcard_matches\<close> and \<open>glob_match\<close> of
  \<open>crates/filter/src/engine.rs\<close>.  The matcher is the code's two-pointer loop over indices
  with one backtrack point; \<open>glob\<close> is the reference it is compared with.  The loop is sound for
  every name and complete for every name without a literal star; a name with one may escape a
  pattern that should match it.
\<close>

section \<open>The matcher\<close>

definition glob_rank :: "string \<Rightarrow> nat \<Rightarrow> (nat \<times> nat) option \<Rightarrow> nat" where
  "glob_rank pat p star =
     max (length pat - p) (case star of None \<Rightarrow> 0 | Some (sp, _) \<Rightarrow> length pat - Suc sp)"

text \<open>The \<open>while t < text.len()\<close> loop: \<open>Some p\<close> is the pattern position it ends with,
  \<open>None\<close> the early \<open>return false\<close>.\<close>

function glob_loop ::
    "string \<Rightarrow> string \<Rightarrow> nat \<Rightarrow> nat \<Rightarrow> (nat \<times> nat) option \<Rightarrow> nat option" where
  "glob_loop pat text p t star =
     (if t < length text then
        (if p < length pat \<and> pat ! p = text ! t then glob_loop pat text (p + 1) (t + 1) star
         else if p < length pat \<and> pat ! p = CHR ''*'' then
           glob_loop pat text (p + 1) t (Some (p, t))
         else (case star of
                 Some (sp, st) \<Rightarrow> glob_loop pat text (sp + 1) (st + 1) (Some (sp, st + 1))
               | None \<Rightarrow> None))
      else Some p)"
  by pat_completeness auto
termination
  by (relation "measures [\<lambda>(pat, text, p, t, star). glob_rank pat p star,
                          \<lambda>(pat, text, p, t, star).
                             case star of None \<Rightarrow> 0 | Some (_, st) \<Rightarrow> length text - st,
                          \<lambda>(pat, text, p, t, star). length text - t]")
     (auto simp: glob_rank_def split: option.splits)

declare glob_loop.simps [simp del]

text \<open>The trailing \<open>while p < pat.len() && pat[p] == b'*'\<close> loop.\<close>

function skip_stars :: "string \<Rightarrow> nat \<Rightarrow> nat" where
  "skip_stars pat p =
     (if p < length pat \<and> pat ! p = CHR ''*'' then skip_stars pat (p + 1) else p)"
  by pat_completeness auto
termination
  by (relation "measure (\<lambda>(pat, p). length pat - p)") auto

declare skip_stars.simps [simp del]

definition glob_match :: "string \<Rightarrow> string \<Rightarrow> bool" where
  "glob_match pat text =
     (case glob_loop pat text 0 0 None of
        None \<Rightarrow> False
      | Some p \<Rightarrow> skip_stars pat p = length pat)"

function suffix_loop :: "string \<Rightarrow> string \<Rightarrow> bool" where
  "suffix_loop expr rest =
     (case find_char CHR ''.'' rest of
        None \<Rightarrow> False
      | Some dot \<Rightarrow>
          (let rest' = drop (dot + 1) rest in
           if glob_match expr rest' then True else suffix_loop expr rest'))"
  by pat_completeness auto
termination
  by (relation "measure (\<lambda>(expr, rest). length rest)") (auto dest: find_char_Some)

declare suffix_loop.simps [simp del]

definition wildcard_matches :: "string \<Rightarrow> string \<Rightarrow> bool \<Rightarrow> bool" where
  "wildcard_matches expr name include_subdomains =
     (if glob_match expr name then True
      else if include_subdomains then suffix_loop expr name
      else False)"

definition wildcard_anchor :: "string \<Rightarrow> string option" where
  "wildcard_anchor expr =
     (case rfind_char CHR ''*'' expr of
        None \<Rightarrow> None
      | Some i \<Rightarrow>
          (let tail = drop (i + 1) expr in
           case find_char CHR ''.'' tail of
             None \<Rightarrow> None
           | Some dot \<Rightarrow>
               (let anchor = drop (dot + 1) tail in
                if anchor \<noteq> [] then Some anchor else None)))"

section \<open>The reference\<close>

fun glob :: "string \<Rightarrow> string \<Rightarrow> bool" where
  "glob [] t \<longleftrightarrow> t = []"
| "glob (c # p) [] \<longleftrightarrow> c = CHR ''*'' \<and> glob p []"
| "glob (c # p) (x # t) \<longleftrightarrow>
     (if c = CHR ''*'' then glob p (x # t) \<or> glob (c # p) t else c = x \<and> glob p t)"

lemma glob_star: "glob (CHR ''*'' # p) t \<longleftrightarrow> (\<exists>k. glob p (drop k t))"
proof (induction t)
  case Nil
  then show ?case by simp
next
  case (Cons x t)
  have "(\<exists>k. glob p (drop k (x # t))) \<longleftrightarrow> glob p (x # t) \<or> (\<exists>k. glob p (drop k t))"
    by (metis drop0 drop_Suc_Cons not0_implies_Suc)
  with Cons show ?case by simp
qed

lemma glob_literal: "CHR ''*'' \<notin> set a \<Longrightarrow> glob (a @ p) t \<longleftrightarrow> (\<exists>t'. t = a @ t' \<and> glob p t')"
proof (induction a arbitrary: t)
  case (Cons c a)
  then show ?case by (cases t) auto
qed simp

lemma glob_empty: "glob p [] \<longleftrightarrow> set p \<subseteq> {CHR ''*''}"
  by (induction p) auto

lemma skip_stars_end: "p \<le> length pat \<Longrightarrow> skip_stars pat p = length pat \<longleftrightarrow> glob (drop p pat) []"
proof (induction pat p rule: skip_stars.induct)
  case (1 pat p)
  show ?case
  proof (cases "p < length pat")
    case True
    then have "drop p pat = pat ! p # drop (Suc p) pat" by (simp add: Cons_nth_drop_Suc)
    with 1 True show ?thesis by (subst skip_stars.simps) auto
  next
    case False
    with 1 show ?thesis by (subst skip_stars.simps) auto
  qed
qed

section \<open>Soundness and completeness of the loop\<close>

text \<open>What the loop can still find: a match of the rest of the pattern here, or, after the last
  star, a match that gives that star more bytes than it has now.\<close>

definition glob_hope :: "string \<Rightarrow> string \<Rightarrow> nat \<Rightarrow> nat \<Rightarrow> (nat \<times> nat) option \<Rightarrow> bool" where
  "glob_hope pat text p t star \<longleftrightarrow>
     glob (drop p pat) (drop t text)
     \<or> (\<exists>sp st k. star = Some (sp, st) \<and> st < k \<and> glob (drop (Suc sp) pat) (drop k text))"

text \<open>Since the last star the loop has read a literal segment.\<close>

definition glob_inv :: "string \<Rightarrow> string \<Rightarrow> nat \<Rightarrow> nat \<Rightarrow> (nat \<times> nat) option \<Rightarrow> bool" where
  "glob_inv pat text p t star \<longleftrightarrow> p \<le> length pat \<and>
     (\<forall>sp st. star = Some (sp, st) \<longrightarrow>
        sp < p \<and> st \<le> t \<and> p - Suc sp = t - st
        \<and> CHR ''*'' \<notin> set (take (p - Suc sp) (drop (Suc sp) pat)))"

abbreviation glob_run :: "string \<Rightarrow> string \<Rightarrow> nat \<Rightarrow> nat \<Rightarrow> (nat \<times> nat) option \<Rightarrow> bool" where
  "glob_run pat text p t star \<equiv>
     (case glob_loop pat text p t star of None \<Rightarrow> False | Some p' \<Rightarrow> skip_stars pat p' = length pat)"

lemma drop_nth_Cons: "i < length xs \<Longrightarrow> drop i xs = xs ! i # drop (Suc i) xs"
  by (simp add: Cons_nth_drop_Suc)

lemma glob_loop_le: "p \<le> length pat \<Longrightarrow> (\<And>sp st. star = Some (sp, st) \<Longrightarrow> sp < length pat) \<Longrightarrow>
    glob_loop pat s p t star = Some p' \<Longrightarrow> p' \<le> length pat"
proof (induction pat s p t star rule: glob_loop.induct)
  case (1 pat s p t star)
  note unf = "1.prems"(3) [unfolded glob_loop.simps [of pat s p t star]]
  from unf "1.IH" "1.prems"(1,2) show ?case
    by (auto split: if_splits option.splits simp: Suc_le_eq)
qed

lemma glob_loop_sound:
  "p \<le> length pat \<Longrightarrow> (\<And>sp st. star = Some (sp, st) \<Longrightarrow> sp < length pat) \<Longrightarrow>
     glob_run pat s p t star \<Longrightarrow> glob_hope pat s p t star"
proof (induction pat s p t star rule: glob_loop.induct)
  case (1 pat s p t star)
  note unf = "1.prems"(3) [unfolded glob_loop.simps [of pat s p t star]]
  show ?case
  proof (cases "t < length s")
    case False
    with unf "1.prems"(1) show ?thesis by (simp add: glob_hope_def skip_stars_end)
  next
    case t: True
    show ?thesis
    proof (cases "p < length pat \<and> pat ! p = s ! t")
      case True
      with t unf "1.IH"(1) "1.prems"(2) have "glob_hope pat s (p + 1) (t + 1) star" by auto
      with True t show ?thesis
        by (auto simp: glob_hope_def drop_nth_Cons [of p] drop_nth_Cons [of t] glob_star
            intro: exI [of _ 0])
    next
      case neq: False
      show ?thesis
      proof (cases "p < length pat \<and> pat ! p = CHR ''*''")
        case True
        with t neq unf "1.IH"(2) have "glob_hope pat s (p + 1) t (Some (p, t))" by auto
        then have "\<exists>k. glob (drop (Suc p) pat) (drop k (drop t s))"
          unfolding glob_hope_def
        proof (elim disjE exE conjE)
          fix sp st k
          assume "Some (p, t) = Some (sp, st)" "st < k" "glob (drop (Suc sp) pat) (drop k s)"
          then show ?thesis by (auto intro!: exI [of _ "k - t"])
        qed (auto intro: exI [of _ 0])
        with True show ?thesis by (auto simp: glob_hope_def drop_nth_Cons [of p] glob_star)
      next
        case False
        with t neq unf obtain sp st where s: "star = Some (sp, st)"
          by (auto split: option.splits)
        with t neq unf False "1.IH"(3) [OF t neq False s refl] "1.prems"(2) [OF s]
        have "glob_hope pat s (sp + 1) (st + 1) (Some (sp, st + 1))" by auto
        then show ?thesis using s by (auto simp: glob_hope_def dest: Suc_lessD)
      qed
    qed
  qed
qed

lemma glob_inv_match:
  assumes "glob_inv pat s p t star" "p < length pat" "pat ! p \<noteq> CHR ''*''"
  shows "glob_inv pat s (Suc p) (Suc t) star"
proof -
  have "take (Suc p - Suc sp) (drop (Suc sp) pat) = take (p - Suc sp) (drop (Suc sp) pat) @ [pat ! p]"
    if "sp < p" for sp
    using that assms(2) take_Suc_conv_app_nth [of "p - Suc sp" "drop (Suc sp) pat"]
    by (simp add: Suc_diff_Suc)
  with assms show ?thesis by (auto simp: glob_inv_def)
qed

text \<open>A new star takes over from the last one: what the last one could still reach lies behind the
  literal segment between them.\<close>

lemma glob_hope_star:
  assumes inv: "glob_inv pat s p t star" and hope: "glob_hope pat s p t star"
    and p: "p < length pat" "pat ! p = CHR ''*''"
  shows "glob_hope pat s (Suc p) t (Some (p, t))"
proof -
  have "\<exists>k \<ge> t. glob (drop (Suc p) pat) (drop k s)"
    using hope unfolding glob_hope_def
  proof (elim disjE exE conjE)
    assume "glob (drop p pat) (drop t s)"
    then obtain k where "glob (drop (Suc p) pat) (drop k (drop t s))"
      using p by (auto simp: drop_nth_Cons [of p] glob_star)
    then show ?thesis by (auto intro: exI [of _ "k + t"])
  next
    fix sp st k
    assume s: "star = Some (sp, st)" "st < k" and g: "glob (drop (Suc sp) pat) (drop k s)"
    let ?n = "p - Suc sp"
    from inv s have i: "sp < p" "st \<le> t" "?n = t - st" "CHR ''*'' \<notin> set (take ?n (drop (Suc sp) pat))"
      by (auto simp: glob_inv_def)
    have "drop (Suc sp) pat = take ?n (drop (Suc sp) pat) @ drop p pat"
      using append_take_drop_id [of ?n "drop (Suc sp) pat"] i(1) by simp
    with g i(4) obtain r where r: "drop k s = take ?n (drop (Suc sp) pat) @ r" "glob (drop p pat) r"
      by (metis glob_literal)
    have "length (take ?n (drop (Suc sp) pat)) = ?n" using p i(1) by simp
    then have "r = drop (?n + k) s" using arg_cong [OF r(1), of "drop ?n"] by simp
    with r(2) obtain j where "glob (drop (Suc p) pat) (drop (j + (?n + k)) s)"
      using p by (auto simp: drop_nth_Cons [of p] glob_star)
    moreover have "t \<le> j + (?n + k)" using i s by simp
    ultimately show ?thesis by blast
  qed
  then show ?thesis by (auto simp: glob_hope_def order.order_iff_strict)
qed

lemma glob_hope_end:
  assumes inv: "glob_inv pat s p t star" and hope: "glob_hope pat s p t star" and t: "length s \<le> t"
  shows "glob (drop p pat) []"
  using hope unfolding glob_hope_def
proof (elim disjE exE conjE)
  assume "glob (drop p pat) (drop t s)"
  with t show ?thesis by simp
next
  fix sp st k
  assume s: "star = Some (sp, st)" "st < k" and g: "glob (drop (Suc sp) pat) (drop k s)"
  let ?n = "p - Suc sp"
  from inv s have i: "sp < p" "st \<le> t" "?n = t - st" "CHR ''*'' \<notin> set (take ?n (drop (Suc sp) pat))"
    and p: "p \<le> length pat"
    by (auto simp: glob_inv_def)
  have "drop (Suc sp) pat = take ?n (drop (Suc sp) pat) @ drop p pat"
    using append_take_drop_id [of ?n "drop (Suc sp) pat"] i(1) by simp
  with g i(4) obtain r where r: "drop k s = take ?n (drop (Suc sp) pat) @ r" "glob (drop p pat) r"
    by (metis glob_literal)
  have "length s - k = ?n + length r" using arg_cong [OF r(1), of length] p i(1) by simp
  then have "r = []" using i s t by (cases r) auto
  with r(2) show ?thesis by simp
qed

lemma glob_loop_complete:
  "CHR ''*'' \<notin> set s \<Longrightarrow> glob_inv pat s p t star \<Longrightarrow> glob_hope pat s p t star \<Longrightarrow>
     glob_run pat s p t star"
proof (induction pat s p t star rule: glob_loop.induct)
  case (1 pat s p t star)
  note unf = glob_loop.simps [of pat s p t star] and inv = "1.prems"(2) and hope = "1.prems"(3)
  show ?case
  proof (cases "t < length s")
    case False
    with inv hope have "glob (drop p pat) []" by (intro glob_hope_end) auto
    with False inv show ?thesis by (simp add: unf skip_stars_end glob_inv_def)
  next
    case t: True
    show ?thesis
    proof (cases "p < length pat \<and> pat ! p = s ! t")
      case True
      with "1.prems"(1) t have ns: "pat ! p \<noteq> CHR ''*''" by (metis nth_mem)
      have "glob_hope pat s (p + 1) (t + 1) star"
        using hope True t ns by (auto simp: glob_hope_def drop_nth_Cons [of p] drop_nth_Cons [of t])
      with "1.IH"(1) [OF t True "1.prems"(1)] glob_inv_match [OF inv _ ns] True t
      show ?thesis by (simp add: unf)
    next
      case neq: False
      show ?thesis
      proof (cases "p < length pat \<and> pat ! p = CHR ''*''")
        case True
        have "glob_inv pat s (p + 1) t (Some (p, t))" using True by (auto simp: glob_inv_def)
        with "1.IH"(2) [OF t neq True "1.prems"(1)] glob_hope_star [OF inv hope] True t neq
        show ?thesis by (simp add: unf)
      next
        case False
        have "\<not> glob (drop p pat) (drop t s)"
          using t neq False by (cases "p < length pat") (auto simp: drop_nth_Cons)
        with hope obtain sp st k where s: "star = Some (sp, st)" "st < k"
          and k: "glob (drop (Suc sp) pat) (drop k s)" by (auto simp: glob_hope_def)
        have "glob_hope pat s (sp + 1) (st + 1) (Some (sp, st + 1))"
          using k s(2) by (cases "k = Suc st") (auto simp: glob_hope_def)
        moreover have "glob_inv pat s (sp + 1) (st + 1) (Some (sp, st + 1))"
          using inv s by (auto simp: glob_inv_def)
        moreover have "glob_loop pat s p t star = glob_loop pat s (sp + 1) (st + 1) (Some (sp, st + 1))"
          using t neq False s(1) by (subst glob_loop.simps) auto
        ultimately show ?thesis
          using "1.IH"(3) [OF t neq False s(1) refl "1.prems"(1)] by simp
      qed
    qed
  qed
qed

lemma glob_match_sound: "glob_match pat s \<Longrightarrow> glob pat s"
  using glob_loop_sound [of 0 pat None s 0] by (simp add: glob_match_def glob_hope_def)

lemma glob_match_iff: "CHR ''*'' \<notin> set s \<Longrightarrow> glob_match pat s \<longleftrightarrow> glob pat s"
  using glob_loop_complete [of s pat 0 0 None] glob_match_sound [of pat s]
  by (auto simp: glob_match_def glob_hope_def glob_inv_def)

section \<open>Subdomains and anchors\<close>

lemma label_suffixes_hd: "label_suffixes s = s # tl (label_suffixes s)"
  by (subst label_suffixes.simps, subst (2) label_suffixes.simps) simp

lemma suffix_loop_iff:
  "suffix_loop e s \<longleftrightarrow> (\<exists>x \<in> set (tl (label_suffixes s)). glob_match e x)"
proof (induction e s rule: suffix_loop.induct)
  case (1 e s)
  show ?case
  proof (cases "find_char CHR ''.'' s")
    case None
    then show ?thesis by (subst suffix_loop.simps, subst label_suffixes.simps) (simp add: None del: find_char_None)
  next
    case (Some i)
    have "set (label_suffixes (drop (Suc i) s)) = insert (drop (Suc i) s) (set (tl (label_suffixes (drop (Suc i) s))))"
      by (subst label_suffixes_hd) simp
    moreover have "tl (label_suffixes s) = label_suffixes (drop (Suc i) s)"
      by (subst label_suffixes.simps) (simp add: Some)
    ultimately show ?thesis
      using "1" [OF Some refl] Some by (subst suffix_loop.simps) (auto simp: Let_def)
  qed
qed

lemma wildcard_matches_iff:
  "wildcard_matches e n inc \<longleftrightarrow>
     glob_match e n \<or> (inc \<and> (\<exists>x \<in> set (label_suffixes n). glob_match e x))"
  by (subst label_suffixes_hd) (auto simp: wildcard_matches_def suffix_loop_iff)

lemma glob_tail: "glob (a @ CHR ''*'' # b) s \<Longrightarrow> CHR ''*'' \<notin> set b \<Longrightarrow> \<exists>r. s = r @ b"
proof (induction a s rule: glob.induct)
  case (1 t)
  then obtain k where "glob (b @ []) (drop k t)" by (auto simp: glob_star)
  with 1 have "drop k t = b" by (subst (asm) glob_literal) auto
  then show ?case by (metis append_take_drop_id)
next
  case (2 c p)
  then show ?case by auto
next
  case (3 c p x t)
  then show ?case by (auto split: if_splits intro: exI [of _ "_ # _"])
qed

lemma wildcard_anchor_Some:
  assumes "wildcard_anchor e = Some a"
  shows "\<exists>pre mid. e = pre @ CHR ''*'' # mid @ CHR ''.'' # a \<and> CHR ''*'' \<notin> set (mid @ CHR ''.'' # a)
    \<and> CHR ''.'' \<notin> set mid \<and> a \<noteq> []"
proof -
  from assms obtain i where i: "rfind_char CHR ''*'' e = Some i"
    by (auto simp: wildcard_anchor_def split: option.splits)
  with assms obtain j where j: "find_char CHR ''.'' (drop (i + 1) e) = Some j"
    and a: "a = drop (j + 1) (drop (i + 1) e)" "a \<noteq> []"
    by (auto simp: wildcard_anchor_def Let_def split: option.splits if_splits)
  from find_char_Some [OF j] a have t: "drop (Suc i) e = take j (drop (Suc i) e) @ CHR ''.'' # a"
    and m: "CHR ''.'' \<notin> set (take j (drop (Suc i) e))" by auto
  from rfind_char_Some [OF i] have e: "e = take i e @ CHR ''*'' # drop (Suc i) e"
    and s: "CHR ''*'' \<notin> set (drop (Suc i) e)" by auto
  show ?thesis using e s t m a by metis
qed

lemma wildcard_anchor_suffix:
  assumes "wildcard_anchor e = Some a" "wildcard_matches e n inc"
  shows "a \<in> set (label_suffixes n)"
proof -
  from assms(2) obtain x where x: "x \<in> set (label_suffixes n)" "glob e x"
    by (metis wildcard_matches_iff glob_match_sound self_in_label_suffixes)
  from wildcard_anchor_Some [OF assms(1)] obtain pre mid
    where e: "e = pre @ CHR ''*'' # mid @ CHR ''.'' # a" "CHR ''*'' \<notin> set (mid @ CHR ''.'' # a)" by auto
  from glob_tail [of pre "mid @ CHR ''.'' # a" x] x(2) e obtain r where "x = r @ mid @ CHR ''.'' # a"
    by auto
  then have "a \<in> set (label_suffixes x)" by (auto simp: in_label_suffixes intro: exI [of _ "r @ mid"])
  from label_suffixes_trans [OF this x(1)] show ?thesis .
qed

section \<open>Properties\<close>

text \<open>C29: the two-pointer loop of \<open>glob_match\<close> decides the reference relation in which a star
  stands for any byte sequence, dots included: it accepts only names the reference accepts, and,
  for names without a literal star, all of them.  The loop always ends, as its definition is total.\<close>
theorem glob_match_correct:
  "(glob_match pat s \<longrightarrow> glob pat s) \<and> (CHR ''*'' \<notin> set s \<longrightarrow> glob pat s \<longrightarrow> glob_match pat s)"
  by (simp add: glob_match_sound glob_match_iff)

theorem glob_match_correct_witness:
  "glob_match ''ad*.x*.com'' ''ads.ad.x1.com''"
proof -
  have "glob ''ad*.x*.com'' ''ads.ad.x1.com''" by code_simp
  moreover have "CHR ''*'' \<notin> set ''ads.ad.x1.com''" by code_simp
  ultimately show ?thesis using glob_match_correct [of "''ad*.x*.com''" "''ads.ad.x1.com''"] by blast
qed

text \<open>The restriction is needed: in a name with a literal star the loop consumes the pattern's star
  as that byte and never records a backtrack point.\<close>
theorem glob_match_literal_star_escapes:
  "glob ''*ads.com'' ''*x.ads.com'' \<and> \<not> glob_match ''*ads.com'' ''*x.ads.com''"
  by code_simp

text \<open>The anchor of a wildcard is sound as a bucket key: whatever \<open>wildcard_matches\<close> accepts,
  with or without subdomains, has the anchor among its suffixes at label boundaries, so looking up
  only those suffixes misses no wildcard rule.\<close>
theorem wildcard_anchor_sound:
  "wildcard_anchor e = Some a \<Longrightarrow> wildcard_matches e n inc \<Longrightarrow>
     a \<noteq> [] \<and> a \<in> set (label_suffixes n) \<and> suffix (labels a) (labels n)"
  using wildcard_anchor_Some [of e a] wildcard_anchor_suffix [of e a n inc]
  by (auto simp: label_suffixes_labels)

theorem wildcard_anchor_sound_witness:
  "''ads.com'' \<in> set (label_suffixes ''www.b7.ads.com'')"
proof -
  have "wildcard_anchor ''b*.ads.com'' = Some ''ads.com''" by code_simp
  moreover have "wildcard_matches ''b*.ads.com'' ''www.b7.ads.com'' True" by code_simp
  ultimately show ?thesis using wildcard_anchor_sound by blast
qed

end
