(* ===== verification/Filter_Index.thy ===== *)
theory Filter_Index
  imports Prelude
begin

text \<open>
  The sorted key index of \<open>crates/filter/src/engine.rs\<close>: \<open>KeyIndex\<close> with \<open>insert\<close>,
  \<open>key\<close>, \<open>finish\<close> and \<open>equal_range\<close>, the helper \<open>partition_point\<close>, and
  \<open>reverse_labels_into\<close>.  Every index expression that can panic is an option.
  \<open>slice::sort_unstable_by\<close> is an argument \<open>srt\<close>: the library promises a permutation
  sorted by the key and leaves the order of equal keys open (\<open>sort_ok\<close>).  The \<open>relocate\<close>
  callback of \<open>finish\<close> is a state transformer.  Iterators are read to the end; a caller that
  stops early sees a prefix of what they give.

  The lemmas show that \<open>partition_point\<close> finds the boundary of a monotone predicate, that
  \<open>finish\<close> keeps the entries and sorts them without a panic while the key bytes stay below
  4 GiB, and that \<open>equal_range\<close> then gives exactly the rules filed under a key.
\<close>

section \<open>Binary search\<close>

function pp_loop :: "(nat \<Rightarrow> bool option) \<Rightarrow> nat \<Rightarrow> nat \<Rightarrow> nat option" where
  "pp_loop pred lo hi =
     (if lo < hi then
        (let mid = lo + (hi - lo) div 2 in
         case pred mid of
           None \<Rightarrow> None
         | Some True \<Rightarrow> pp_loop pred (mid + 1) hi
         | Some False \<Rightarrow> pp_loop pred lo mid)
      else Some lo)"
  by pat_completeness auto
termination
  by (relation "measure (\<lambda>(pred, lo, hi). hi - lo)") auto

declare pp_loop.simps [simp del]

definition partition_point :: "nat \<Rightarrow> (nat \<Rightarrow> bool option) \<Rightarrow> nat option" where
  "partition_point len pred = pp_loop pred 0 len"

section \<open>The index\<close>

record key_index =
  ki_arena :: string
  ki_offs :: "nat list"
  ki_lens :: "nat list"
  ki_rules :: "nat list"

definition ki_default :: key_index where
  "ki_default = \<lparr>ki_arena = [], ki_offs = [], ki_lens = [], ki_rules = []\<rparr>"

definition ki_insert :: "string \<Rightarrow> nat \<Rightarrow> key_index \<Rightarrow> key_index option" where
  "ki_insert key rule ki = do {
     off \<leftarrow> try_u32 (length (ki_arena ki));
     len \<leftarrow> try_u8 (length key);
     Some \<lparr>ki_arena = ki_arena ki @ key, ki_offs = ki_offs ki @ [off],
           ki_lens = ki_lens ki @ [len], ki_rules = ki_rules ki @ [rule]\<rparr>
   }"

definition ki_key :: "key_index \<Rightarrow> nat \<Rightarrow> string option" where
  "ki_key ki i = do {
     off \<leftarrow> nth_opt (ki_offs ki) i;
     len \<leftarrow> nth_opt (ki_lens ki) i;
     slice (ki_arena ki) off (off + len)
   }"

type_synonym sorter = "(nat \<Rightarrow> string) \<Rightarrow> nat list \<Rightarrow> nat list"

definition sort_ok :: "sorter \<Rightarrow> bool" where
  "sort_ok srt \<longleftrightarrow> (\<forall>f xs. mset (srt f xs) = mset xs \<and> sorted (map f (srt f xs)))"

text \<open>The loop of \<open>finish\<close> over \<open>order\<close>, from position \<open>pos\<close>: \<open>prev\<close> is the sorted position and
  new offset of the last distinct key.\<close>

fun ki_rebuild ::
    "(nat \<Rightarrow> nat \<Rightarrow> 's \<Rightarrow> 's option) \<Rightarrow> key_index \<Rightarrow> nat list \<Rightarrow> nat list \<Rightarrow> nat
     \<Rightarrow> (nat \<times> nat) option \<Rightarrow> key_index \<Rightarrow> 's \<Rightarrow> (key_index \<times> 's) option" where
  "ki_rebuild relocate ki order [] pos prev new st = Some (new, st)"
| "ki_rebuild relocate ki order (i # is) pos prev new st = do {
     k \<leftarrow> ki_key ki i;
     same \<leftarrow> (case prev of
                None \<Rightarrow> Some None
              | Some (p, off) \<Rightarrow> do {
                  j \<leftarrow> nth_opt order p;
                  k' \<leftarrow> ki_key ki j;
                  Some (if k' = k then Some off else None)
                });
     (new_off, arena, prev') \<leftarrow>
        (case same of
           Some off \<Rightarrow> Some (off, ki_arena new, prev)
         | None \<Rightarrow> do {
             off \<leftarrow> try_u32 (length (ki_arena new));
             Some (off, ki_arena new @ k, Some (pos, off))
           });
     len \<leftarrow> nth_opt (ki_lens ki) i;
     rule \<leftarrow> nth_opt (ki_rules ki) i;
     st' \<leftarrow> relocate rule new_off st;
     ki_rebuild relocate ki order is (pos + 1) prev'
       \<lparr>ki_arena = arena, ki_offs = ki_offs new @ [new_off],
        ki_lens = ki_lens new @ [len], ki_rules = ki_rules new @ [rule]\<rparr> st'
   }"

fun opt_all :: "'a option list \<Rightarrow> 'a list option" where
  "opt_all [] = Some []"
| "opt_all (x # xs) = do { v \<leftarrow> x; vs \<leftarrow> opt_all xs; Some (v # vs) }"

definition ki_finish ::
    "sorter \<Rightarrow> (nat \<Rightarrow> nat \<Rightarrow> 's \<Rightarrow> 's option) \<Rightarrow> key_index \<Rightarrow> 's \<Rightarrow> (key_index \<times> 's) option" where
  "ki_finish srt relocate ki st = do {
     n \<leftarrow> try_u32 (length (ki_rules ki));
     keys \<leftarrow> opt_all (map (ki_key ki) [0..<n]);
     let order = srt (\<lambda>i. keys ! i) [0..<n];
     ki_rebuild relocate ki order order 0 None ki_default st
   }"

function er_loop :: "key_index \<Rightarrow> string \<Rightarrow> nat \<Rightarrow> nat list option" where
  "er_loop ki needle i =
     (if i < length (ki_rules ki) then
        (case ki_key ki i of
           None \<Rightarrow> None
         | Some k \<Rightarrow>
             if k = needle
             then map_option ((#) (ki_rules ki ! i)) (er_loop ki needle (i + 1))
             else Some [])
      else Some [])"
  by pat_completeness auto
termination
  by (relation "measure (\<lambda>(ki, needle, i). length (ki_rules ki) - i)") auto

declare er_loop.simps [simp del]

definition equal_range :: "key_index \<Rightarrow> string \<Rightarrow> nat list option" where
  "equal_range ki needle = do {
     lo \<leftarrow> partition_point (length (ki_rules ki)) (\<lambda>i. map_option (\<lambda>k. k < needle) (ki_key ki i));
     er_loop ki needle lo
   }"

section \<open>Reversed labels\<close>

definition copy_at :: "string \<Rightarrow> nat \<Rightarrow> string \<Rightarrow> string option" where
  "copy_at out w s =
     (if w + length s \<le> length out then Some (take w out @ s @ drop (w + length s) out) else None)"

fun rl_loop :: "string list \<Rightarrow> nat \<Rightarrow> string \<Rightarrow> (nat \<times> string) option" where
  "rl_loop [] w out = Some (w, out)"
| "rl_loop (label # ls) w out = do {
     (w1, out1) \<leftarrow> (if w > 0
                     then map_option (\<lambda>o'. (w + 1, o')) (vec_set out w CHR ''.'')
                     else Some (w, out));
     out2 \<leftarrow> copy_at out1 w1 label;
     rl_loop ls (w1 + length label) out2
   }"

definition reverse_labels_into :: "string \<Rightarrow> string \<Rightarrow> (nat \<times> string) option" where
  "reverse_labels_into domain out = rl_loop (rev (split_on CHR ''.'' domain)) 0 out"

text \<open>\<open>let mut buf = [0u8; 256]; let n = reverse_labels_into(d, &mut buf); &buf[..n]\<close>\<close>

definition reverse_labels :: "string \<Rightarrow> string option" where
  "reverse_labels domain = do {
     (n, buf) \<leftarrow> reverse_labels_into domain (replicate 256 (char_of (0::nat)));
     slice buf 0 n
   }"

text \<open>The label boundaries of a reversed name: every dot and the end.\<close>

definition boundaries :: "string \<Rightarrow> nat list" where
  "boundaries s = filter (\<lambda>i. s ! i = CHR ''.'') [0..<length s] @ [length s]"

section \<open>Specification\<close>

definition ki_wf :: "key_index \<Rightarrow> bool" where
  "ki_wf ki \<longleftrightarrow>
     length (ki_offs ki) = length (ki_rules ki) \<and> length (ki_lens ki) = length (ki_rules ki)
     \<and> (\<forall>i < length (ki_rules ki). ki_offs ki ! i + ki_lens ki ! i \<le> length (ki_arena ki))"

definition key_at :: "key_index \<Rightarrow> nat \<Rightarrow> string" where
  "key_at ki i = take (ki_lens ki ! i) (drop (ki_offs ki ! i) (ki_arena ki))"

definition ki_entries :: "key_index \<Rightarrow> (string \<times> nat) list" where
  "ki_entries ki = map (\<lambda>i. (key_at ki i, ki_rules ki ! i)) [0..<length (ki_rules ki)]"

fun run_calls :: "(nat \<Rightarrow> nat \<Rightarrow> 's \<Rightarrow> 's option) \<Rightarrow> (nat \<times> nat) list \<Rightarrow> 's \<Rightarrow> 's option" where
  "run_calls f [] st = Some st"
| "run_calls f ((r, off) # cs) st = do { st' \<leftarrow> f r off st; run_calls f cs st' }"

definition rev_name :: "string \<Rightarrow> string" where
  "rev_name d = join_with CHR ''.'' (rev (labels d))"

fun rl_text :: "string \<Rightarrow> string list \<Rightarrow> string" where
  "rl_text acc [] = acc"
| "rl_text acc (l # ls) = rl_text ((if acc = [] then [] else acc @ ''.'') @ l) ls"

section \<open>Lemmas on the binary search\<close>

lemma pp_loop_correct:
  assumes "\<And>i. i < n \<Longrightarrow> pred i = Some (P i)" "hi \<le> n" "lo \<le> hi"
    and "\<And>i j. i \<le> j \<Longrightarrow> j < n \<Longrightarrow> P j \<Longrightarrow> P i"
    and "\<And>i. i < lo \<Longrightarrow> P i" "\<And>i. hi \<le> i \<Longrightarrow> i < n \<Longrightarrow> \<not> P i"
  shows "\<exists>k \<le> n. pp_loop pred lo hi = Some k \<and> (\<forall>i < k. P i) \<and> (\<forall>i. k \<le> i \<longrightarrow> i < n \<longrightarrow> \<not> P i)"
  using assms
proof (induction pred lo hi rule: pp_loop.induct)
  case (1 pred lo hi)
  show ?case
  proof (cases "lo < hi")
    case False
    with 1 show ?thesis by (subst pp_loop.simps) auto
  next
    case True
    define mid where "mid = lo + (hi - lo) div 2"
    then have m: "lo \<le> mid" "mid < hi" using True by auto
    have e: "pred mid = Some (P mid)" using "1.prems"(1,2) m by simp
    show ?thesis
    proof (cases "P mid")
      case p: True
      have "\<And>i. i < Suc mid \<Longrightarrow> P i" using "1.prems"(2,4) p m by (meson less_Suc_eq_le order.strict_trans2)
      with "1.IH"(1) [OF True mid_def _ _ "1.prems"(1,2)] e p m "1.prems"(4,6)
      show ?thesis by (subst pp_loop.simps) (simp add: True mid_def [symmetric] Let_def)
    next
      case p: False
      have "\<And>i. mid \<le> i \<Longrightarrow> i < n \<Longrightarrow> \<not> P i" using "1.prems"(4) p by blast
      with "1.IH"(2) [OF True mid_def _ _ "1.prems"(1), of False] e p m "1.prems"(2,4,5)
      show ?thesis by (subst pp_loop.simps) (simp add: True mid_def [symmetric] Let_def)
    qed
  qed
qed

lemma partition_point_correct:
  assumes "\<And>i. i < n \<Longrightarrow> pred i = Some (P i)" "\<And>i j. i \<le> j \<Longrightarrow> j < n \<Longrightarrow> P j \<Longrightarrow> P i"
  shows "\<exists>k \<le> n. partition_point n pred = Some k \<and> (\<forall>i < k. P i) \<and> (\<forall>i. k \<le> i \<longrightarrow> i < n \<longrightarrow> \<not> P i)"
  unfolding partition_point_def by (rule pp_loop_correct [of n pred P]) (use assms in auto)

section \<open>Lemmas on the index\<close>

lemma opt_all_Some: "(\<And>x. x \<in> set xs \<Longrightarrow> f x = Some (g x)) \<Longrightarrow> opt_all (map f xs) = Some (map g xs)"
  by (induction xs) auto

lemma ki_key_eq [simp]: "ki_wf ki \<Longrightarrow> i < length (ki_rules ki) \<Longrightarrow> ki_key ki i = Some (key_at ki i)"
  by (simp add: ki_wf_def ki_key_def key_at_def slice_def)

lemma length_key_at: "ki_wf ki \<Longrightarrow> i < length (ki_rules ki) \<Longrightarrow> length (key_at ki i) = ki_lens ki ! i"
  by (auto simp: ki_wf_def key_at_def)

lemma ki_entries_length [simp]: "length (ki_entries ki) = length (ki_rules ki)"
  by (simp add: ki_entries_def)

lemma ki_entries_nth: "i < length (ki_rules ki) \<Longrightarrow> ki_entries ki ! i = (key_at ki i, ki_rules ki ! i)"
  by (simp add: ki_entries_def)

lemma ki_default_wf: "ki_wf ki_default" and ki_default_entries: "ki_entries ki_default = []"
  by (simp_all add: ki_wf_def ki_entries_def ki_default_def)

lemma ki_insert_spec:
  assumes wf: "ki_wf ki" and "length (ki_arena ki) < 2 ^ 32" "length key < 256"
  shows "\<exists>ki'. ki_insert key rule ki = Some ki' \<and> ki_wf ki' \<and>
    ki_entries ki' = ki_entries ki @ [(key, rule)] \<and> ki_arena ki' = ki_arena ki @ key \<and>
    ki_lens ki' = ki_lens ki @ [length key]"
proof -
  let ?ki = "\<lparr>ki_arena = ki_arena ki @ key, ki_offs = ki_offs ki @ [length (ki_arena ki)],
      ki_lens = ki_lens ki @ [length key], ki_rules = ki_rules ki @ [rule]\<rparr>"
  have old: "key_at ?ki i = key_at ki i" if "i < length (ki_rules ki)" for i
    using that wf by (auto simp: key_at_def ki_wf_def nth_append)
  have new: "key_at ?ki (length (ki_rules ki)) = key"
    using wf by (simp add: key_at_def ki_wf_def nth_append)
  have "ki_wf ?ki" using wf by (auto simp: ki_wf_def nth_append less_Suc_eq trans_le_add1)
  moreover have "ki_entries ?ki = ki_entries ki @ [(key, rule)]"
    using old new by (auto simp: ki_entries_def nth_append)
  moreover have "ki_insert key rule ki = Some ?ki"
    using assms by (simp add: ki_insert_def try_u32_def try_u8_def)
  ultimately show ?thesis by simp
qed

text \<open>What \<open>prev\<close> refers to: a key of the old index that the new arena already holds.\<close>

definition prev_ok :: "key_index \<Rightarrow> nat list \<Rightarrow> (nat \<times> nat) option \<Rightarrow> string \<Rightarrow> bool" where
  "prev_ok ki order prev arena \<longleftrightarrow>
     (\<forall>p off. prev = Some (p, off) \<longrightarrow> p < length order \<and> order ! p < length (ki_rules ki)
        \<and> off + ki_lens ki ! (order ! p) \<le> length arena
        \<and> take (ki_lens ki ! (order ! p)) (drop off arena) = key_at ki (order ! p))"

lemma ki_rebuild_spec:
  assumes wf: "ki_wf ki"
  shows "\<lbrakk>\<forall>i \<in> set is. i < length (ki_rules ki); drop pos order = is; prev_ok ki order prev (ki_arena new);
      length (ki_arena new) + sum_list (map (\<lambda>i. ki_lens ki ! i) is) < 2 ^ 32\<rbrakk> \<Longrightarrow>
    \<exists>offs ext. length offs = length is
      \<and> (\<forall>(relocate :: nat \<Rightarrow> nat \<Rightarrow> 's \<Rightarrow> 's option) st. ki_rebuild relocate ki order is pos prev new st =
          map_option (Pair \<lparr>ki_arena = ki_arena new @ ext, ki_offs = ki_offs new @ offs,
             ki_lens = ki_lens new @ map ((!) (ki_lens ki)) is,
             ki_rules = ki_rules new @ map ((!) (ki_rules ki)) is\<rparr>)
            (run_calls relocate (zip (map ((!) (ki_rules ki)) is) offs) st))
      \<and> (\<forall>j < length is. offs ! j + ki_lens ki ! (is ! j) \<le> length (ki_arena new @ ext)
           \<and> take (ki_lens ki ! (is ! j)) (drop (offs ! j) (ki_arena new @ ext)) = key_at ki (is ! j))
      \<and> length ext \<le> sum_list (map (\<lambda>i. ki_lens ki ! i) is)"
proof (induction "is" arbitrary: pos prev new)
  case Nil
  then show ?case by (intro exI [of _ "[]"]) (cases new, simp)
next
  case (Cons i "is")
  from Cons.prems(1) have i: "i < length (ki_rules ki)" by simp
  have pos: "pos < length order" "order ! pos = i" "drop (Suc pos) order = is"
    using Cons.prems(2) by (metis drop_all linorder_not_less list.distinct(1), metis hd_drop_conv_nth
        drop_all linorder_not_less list.distinct(1) list.sel(1), metis drop_Suc list.sel(3) tl_drop)
  define same where "same = (case prev of None \<Rightarrow> None | Some (p, off) \<Rightarrow>
      if key_at ki (order ! p) = key_at ki i then Some off else None)"
  have same: "(case prev of None \<Rightarrow> Some None | Some (p, off) \<Rightarrow> do {
                  j \<leftarrow> nth_opt order p; k' \<leftarrow> ki_key ki j;
                  Some (if k' = key_at ki i then Some off else None) }) = Some same"
    using Cons.prems(3) wf by (auto simp: same_def prev_ok_def split: option.splits)
  define noff where "noff = (case same of Some off \<Rightarrow> off | None \<Rightarrow> length (ki_arena new))"
  define ext1 where "ext1 = (case same of Some _ \<Rightarrow> [] | None \<Rightarrow> key_at ki i)"
  define prev' where "prev' = (case same of Some _ \<Rightarrow> prev | None \<Rightarrow> Some (pos, noff))"
  define new' where "new' = \<lparr>ki_arena = ki_arena new @ ext1, ki_offs = ki_offs new @ [noff],
      ki_lens = ki_lens new @ [ki_lens ki ! i], ki_rules = ki_rules new @ [ki_rules ki ! i]\<rparr>"
  have li: "i < length (ki_lens ki)" using wf i by (simp add: ki_wf_def)
  have step: "ki_rebuild relocate ki order (i # is) pos prev new st =
      do { st' \<leftarrow> relocate (ki_rules ki ! i) noff st;
           ki_rebuild relocate ki order is (Suc pos) prev' new' st' }" for relocate and st :: 's
    using wf i li Cons.prems(4)
    by (simp add: same noff_def ext1_def prev'_def new'_def try_u32_def split: option.splits)
  have key: "noff + ki_lens ki ! i \<le> length (ki_arena new @ ext1)
      \<and> take (ki_lens ki ! i) (drop noff (ki_arena new @ ext1)) = key_at ki i"
  proof (cases same)
    case None
    then show ?thesis using length_key_at [OF wf i] by (simp add: noff_def ext1_def)
  next
    case (Some off)
    then obtain p where p: "prev = Some (p, off)" "key_at ki (order ! p) = key_at ki i"
      by (auto simp: same_def split: option.splits if_splits)
    with Cons.prems(3) have q: "order ! p < length (ki_rules ki)"
      "off + ki_lens ki ! (order ! p) \<le> length (ki_arena new)"
      "take (ki_lens ki ! (order ! p)) (drop off (ki_arena new)) = key_at ki (order ! p)"
      by (auto simp: prev_ok_def)
    have "ki_lens ki ! (order ! p) = ki_lens ki ! i"
      using length_key_at [OF wf i] length_key_at [OF wf q(1)] p(2) by simp
    with q p show ?thesis by (simp add: noff_def ext1_def Some)
  qed
  have ok': "prev_ok ki order prev' (ki_arena new')"
    using Cons.prems(3) key pos i by (auto simp: prev_ok_def prev'_def new'_def ext1_def split: option.splits)
  have len1: "length ext1 \<le> ki_lens ki ! i"
    using length_key_at [OF wf i] by (simp add: ext1_def split: option.splits)
  have pre: "\<forall>i \<in> set is. i < length (ki_rules ki)"
      "length (ki_arena new') + sum_list (map (\<lambda>i. ki_lens ki ! i) is) < 2 ^ 32"
    using Cons.prems(1,4) len1 by (simp_all add: new'_def)
  from Cons.IH [OF pre(1) pos(3) ok' pre(2)] obtain offs ext where ih: "length offs = length is"
    "\<forall>(relocate :: nat \<Rightarrow> nat \<Rightarrow> 's \<Rightarrow> 's option) st. ki_rebuild relocate ki order is (Suc pos) prev' new' st =
       map_option (Pair \<lparr>ki_arena = ki_arena new' @ ext, ki_offs = ki_offs new' @ offs,
          ki_lens = ki_lens new' @ map ((!) (ki_lens ki)) is,
          ki_rules = ki_rules new' @ map ((!) (ki_rules ki)) is\<rparr>)
         (run_calls relocate (zip (map ((!) (ki_rules ki)) is) offs) st)"
    "\<forall>j < length is. offs ! j + ki_lens ki ! (is ! j) \<le> length (ki_arena new' @ ext)
        \<and> take (ki_lens ki ! (is ! j)) (drop (offs ! j) (ki_arena new' @ ext)) = key_at ki (is ! j)"
    "length ext \<le> sum_list (map (\<lambda>i. ki_lens ki ! i) is)"
    by metis
  have run: "ki_rebuild relocate ki order (i # is) pos prev new st =
      map_option (Pair \<lparr>ki_arena = ki_arena new @ ext1 @ ext, ki_offs = ki_offs new @ noff # offs,
             ki_lens = ki_lens new @ map ((!) (ki_lens ki)) (i # is),
             ki_rules = ki_rules new @ map ((!) (ki_rules ki)) (i # is)\<rparr>)
            (run_calls relocate (zip (map ((!) (ki_rules ki)) (i # is)) (noff # offs)) st)"
    for relocate and st :: 's
    unfolding step using ih(2)
    by (cases "relocate (ki_rules ki ! i) noff st") (simp_all add: new'_def)
  have "\<forall>j < length (i # is). (noff # offs) ! j + ki_lens ki ! ((i # is) ! j) \<le> length (ki_arena new @ ext1 @ ext)
      \<and> take (ki_lens ki ! ((i # is) ! j)) (drop ((noff # offs) ! j) (ki_arena new @ ext1 @ ext))
          = key_at ki ((i # is) ! j)"
  proof (intro allI impI)
    fix j
    assume j: "j < length (i # is)"
    show "(noff # offs) ! j + ki_lens ki ! ((i # is) ! j) \<le> length (ki_arena new @ ext1 @ ext)
      \<and> take (ki_lens ki ! ((i # is) ! j)) (drop ((noff # offs) ! j) (ki_arena new @ ext1 @ ext))
          = key_at ki ((i # is) ! j)"
    proof (cases j)
      case 0
      have "take (ki_lens ki ! i) (drop noff ((ki_arena new @ ext1) @ ext)) =
          take (ki_lens ki ! i) (drop noff (ki_arena new @ ext1))"
        using key by (subst drop_append, subst take_append) auto
      with 0 key show ?thesis by simp
    next
      case (Suc m)
      with j ih(3) show ?thesis by (simp add: new'_def)
    qed
  qed
  with run ih(1,4) len1 show ?case
    by (intro exI [of _ "noff # offs"] exI [of _ "ext1 @ ext"]) simp
qed

lemma ki_entries_eqI:
  assumes "length (ki_rules ki) = length es"
    "\<And>i. i < length es \<Longrightarrow> key_at ki i = fst (es ! i) \<and> ki_rules ki ! i = snd (es ! i)"
  shows "ki_entries ki = es"
  using assms by (intro nth_equalityI) (auto simp: ki_entries_nth prod_eq_iff)

lemma mset_map_sort:
  assumes "sort_ok srt"
  shows "mset (map g (srt f xs)) = mset (map g xs)"
  using assms by (simp add: sort_ok_def)

text \<open>\<open>finish\<close> keeps the entries, sorts them by key, and tells \<open>relocate\<close> of each rule's new offset,
  in order.\<close>

lemma ki_finish_spec:
  assumes srt: "sort_ok srt" and wf: "ki_wf ki"
    and "sum_list (ki_lens ki) < 2 ^ 32" "length (ki_rules ki) < 2 ^ 32"
  shows "\<exists>ki'. ki_wf ki' \<and> mset (ki_entries ki') = mset (ki_entries ki)
    \<and> sorted (map fst (ki_entries ki'))
    \<and> (\<forall>(relocate :: nat \<Rightarrow> nat \<Rightarrow> 's \<Rightarrow> 's option) st. ki_finish srt relocate ki st =
          map_option (Pair ki') (run_calls relocate (zip (ki_rules ki') (ki_offs ki')) st))"
proof -
  let ?n = "length (ki_rules ki)"
  define keys where "keys = map (key_at ki) [0..<?n]"
  define order where "order = srt (\<lambda>i. keys ! i) [0..<?n]"
  have ms: "mset order = mset [0..<?n]" and so: "sorted (map (\<lambda>i. keys ! i) order)"
    using srt by (auto simp: order_def sort_ok_def)
  have o: "i < ?n" if "i \<in> set order" for i
    using mset_eq_setD [OF ms] that by simp
  have lens: "map ((!) (ki_lens ki)) [0..<?n] = ki_lens ki"
    using wf by (intro nth_equalityI) (auto simp: ki_wf_def)
  have "sum_list (map ((!) (ki_lens ki)) order) = sum_list (ki_lens ki)"
    by (metis lens ms mset_map sum_mset_sum_list)
  then have sz: "length (ki_arena ki_default) + sum_list (map ((!) (ki_lens ki)) order) < 2 ^ 32"
    using assms(3) by (simp add: ki_default_def)
  have no: "\<forall>i \<in> set order. i < length (ki_rules ki)" using o by blast
  have d0: "drop 0 order = order" by simp
  have p0: "prev_ok ki order None (ki_arena ki_default)" by (simp add: prev_ok_def)
  from ki_rebuild_spec [OF wf no d0 p0 sz] obtain offs ext where spec: "length offs = length order"
    "\<forall>(relocate :: nat \<Rightarrow> nat \<Rightarrow> 's \<Rightarrow> 's option) st. ki_rebuild relocate ki order order 0 None ki_default st =
       map_option (Pair \<lparr>ki_arena = ext, ki_offs = offs, ki_lens = map ((!) (ki_lens ki)) order,
          ki_rules = map ((!) (ki_rules ki)) order\<rparr>)
         (run_calls relocate (zip (map ((!) (ki_rules ki)) order) offs) st)"
    "\<forall>j < length order. offs ! j + ki_lens ki ! (order ! j) \<le> length ext
       \<and> take (ki_lens ki ! (order ! j)) (drop (offs ! j) ext) = key_at ki (order ! j)"
    by (auto simp: ki_default_def)
  define ki' where "ki' = \<lparr>ki_arena = ext, ki_offs = offs, ki_lens = map ((!) (ki_lens ki)) order,
      ki_rules = map ((!) (ki_rules ki)) order\<rparr>"
  have wf': "ki_wf ki'" using spec by (auto simp: ki_wf_def ki'_def)
  have ent: "ki_entries ki' = map (\<lambda>i. (key_at ki i, ki_rules ki ! i)) order"
    using spec by (intro ki_entries_eqI) (auto simp: ki'_def key_at_def [of "\<lparr>ki_arena = _, ki_offs = _, ki_lens = _, ki_rules = _\<rparr>"])
  have "mset (ki_entries ki') = mset (ki_entries ki)"
    unfolding ent by (simp add: ki_entries_def ms)
  moreover have "map fst (ki_entries ki') = map (\<lambda>i. keys ! i) order"
    using o by (auto simp: ent keys_def)
  moreover have "ki_finish srt relocate ki st =
      map_option (Pair ki') (run_calls relocate (zip (ki_rules ki') (ki_offs ki')) st)"
    for relocate and st :: 's
  proof -
    have "opt_all (map (ki_key ki) [0..<?n]) = Some keys"
      unfolding keys_def by (rule opt_all_Some) (use wf in simp)
    with assms(4) spec(2) show ?thesis
      by (simp add: ki_finish_def try_u32_def order_def [symmetric] Let_def ki'_def)
  qed
  ultimately show ?thesis using wf' so by auto
qed

section \<open>Lookup\<close>

lemma er_loop_takeWhile:
  "ki_wf ki \<Longrightarrow> er_loop ki needle i = Some (map snd (takeWhile (\<lambda>(k, _). k = needle) (drop i (ki_entries ki))))"
proof (induction ki needle i rule: er_loop.induct)
  case (1 ki needle i)
  show ?case
  proof (cases "i < length (ki_rules ki)")
    case True
    then have "drop i (ki_entries ki) = (key_at ki i, ki_rules ki ! i) # drop (Suc i) (ki_entries ki)"
      by (metis Cons_nth_drop_Suc ki_entries_length ki_entries_nth)
    with 1 True show ?thesis by (subst er_loop.simps) simp
  next
    case False
    then show ?thesis by (subst er_loop.simps) simp
  qed
qed

lemma takeWhile_filter_sorted:
  "sorted (map fst es) \<Longrightarrow> (\<And>e. e \<in> set es \<Longrightarrow> (x::string) \<le> fst e) \<Longrightarrow>
     takeWhile (\<lambda>(k, _). k = x) es = filter (\<lambda>(k, _). k = x) es"
proof (induction es)
  case (Cons e es)
  show ?case
  proof (cases "fst e = x")
    case False
    have "x < fst e" using False Cons.prems(2) [of e] by (simp add: order.order_iff_strict)
    then have "fst e' \<noteq> x" if "e' \<in> set es" for e'
      using Cons.prems(1) that by (simp add: linorder_not_le [symmetric]) blast
    with False show ?thesis by (auto simp: case_prod_beta filter_empty_conv)
  next
    case True
    with Cons show ?thesis by (simp add: case_prod_beta)
  qed
qed simp

lemma equal_range_spec:
  assumes wf: "ki_wf ki" and so: "sorted (map fst (ki_entries ki))"
  shows "equal_range ki needle = Some (map snd (filter (\<lambda>(k, _). k = needle) (ki_entries ki)))"
proof -
  let ?n = "length (ki_rules ki)" and ?es = "ki_entries ki"
  have mono: "key_at ki i \<le> key_at ki j" if "i \<le> j" "j < ?n" for i j
    using so that sorted_nth_mono [of "map fst ?es" i j] by (simp add: ki_entries_nth)
  have "\<exists>k \<le> ?n. partition_point ?n (\<lambda>i. map_option (\<lambda>k. k < needle) (ki_key ki i)) = Some k
      \<and> (\<forall>i < k. key_at ki i < needle) \<and> (\<forall>i. k \<le> i \<longrightarrow> i < ?n \<longrightarrow> \<not> key_at ki i < needle)"
    by (rule partition_point_correct) (use wf mono in \<open>auto dest: order.strict_trans1\<close>)
  then obtain k where k: "k \<le> ?n"
    "partition_point ?n (\<lambda>i. map_option (\<lambda>k. k < needle) (ki_key ki i)) = Some k"
    "\<forall>i < k. key_at ki i < needle" "\<forall>i. k \<le> i \<longrightarrow> i < ?n \<longrightarrow> needle \<le> key_at ki i"
    by (auto simp: not_less)
  have "x \<noteq> needle" if "(x, r) \<in> set (take k ?es)" for x r
    using that k(1,3) by (auto simp: in_set_conv_nth ki_entries_nth)
  then have pre: "filter (\<lambda>(k, _). k = needle) (take k ?es) = []"
    by (auto simp: filter_empty_conv)
  have "takeWhile (\<lambda>(k, _). k = needle) (drop k ?es) = filter (\<lambda>(k, _). k = needle) (drop k ?es)"
  proof (rule takeWhile_filter_sorted)
    show "sorted (map fst (drop k ?es))" using so by (metis drop_map sorted_wrt_drop)
    show "needle \<le> fst e" if "e \<in> set (drop k ?es)" for e
      using that k(4) by (auto simp: in_set_conv_nth ki_entries_nth)
  qed
  also have "\<dots> = filter (\<lambda>(k, _). k = needle) ?es"
    using pre by (metis append_Nil append_take_drop_id filter_append)
  finally show ?thesis
    by (simp add: equal_range_def k(2) er_loop_takeWhile [OF wf])
qed

section \<open>Lemmas on reversed labels\<close>

lemma length_rl_text: "length acc \<le> length (rl_text acc ls)"
proof (induction acc ls rule: rl_text.induct)
  case (2 acc l ls)
  then show ?case by (cases "acc = []") auto
qed simp

lemma vec_set_dot: "w < length out \<Longrightarrow>
    \<exists>out1. vec_set out w c = Some out1 \<and> take (Suc w) out1 = take w out @ [c] \<and> length out1 = length out"
  by (simp add: vec_set_def take_Suc_conv_app_nth)

lemma copy_at_Some: "w + length l \<le> length out \<Longrightarrow>
    \<exists>out1. copy_at out w l = Some out1 \<and> take (w + length l) out1 = take w out @ l
      \<and> length out1 = length out"
  by (simp add: copy_at_def)

lemma rl_loop_spec:
  "w \<le> length out \<Longrightarrow> length (rl_text (take w out) ls) \<le> length out \<Longrightarrow>
     \<exists>w' out'. rl_loop ls w out = Some (w', out') \<and> take w' out' = rl_text (take w out) ls
       \<and> length out' = length out \<and> w' = length (rl_text (take w out) ls)"
proof (induction ls arbitrary: w out)
  case Nil
  then show ?case by simp
next
  case (Cons l ls)
  let ?acc = "take w out"
  let ?acc' = "(if ?acc = [] then [] else ?acc @ ''.'') @ l"
  have len: "length ?acc' \<le> length out"
    using length_rl_text [of ?acc' ls] Cons.prems(2) by simp
  obtain w1 out1 where 1: "(if w > 0 then map_option (\<lambda>o'. (w + 1, o')) (vec_set out w CHR ''.'')
      else Some (w, out)) = Some (w1, out1)"
    and t1: "take w1 out1 @ l = ?acc'" "w1 + length l = length ?acc'" "length out1 = length out"
  proof (cases "w > 0")
    case True
    then have ne: "?acc \<noteq> []" using Cons.prems(1) by auto
    then have w: "w < length out" using len Cons.prems(1) by (simp split: if_splits)
    from vec_set_dot [OF w, of "CHR ''.''"] obtain o1 where
      "vec_set out w CHR ''.'' = Some o1" "take (Suc w) o1 = take w out @ ''.''" "length o1 = length out"
      by auto
    then show ?thesis using True ne w by (intro that [of "Suc w" o1]) auto
  next
    case False
    then show ?thesis by (intro that [of w out]) auto
  qed
  from copy_at_Some [of w1 l out1] t1 len obtain out2 where
    2: "copy_at out1 w1 l = Some out2" "take (length ?acc') out2 = ?acc'" "length out2 = length out"
    by auto
  have "rl_text (take (length ?acc') out2) ls = rl_text ?acc (l # ls)"
    unfolding 2(2) by simp
  with Cons.IH [of "length ?acc'" out2] len 2 Cons.prems(2)
  have "\<exists>w' out'. rl_loop ls (length ?acc') out2 = Some (w', out')
      \<and> take w' out' = rl_text ?acc (l # ls) \<and> length out' = length out
      \<and> w' = length (rl_text ?acc (l # ls))"
    by simp
  moreover have "rl_loop (l # ls) w out = rl_loop ls (length ?acc') out2"
    using 1 2(1) t1(2) by simp
  ultimately show ?case by simp
qed

lemma rl_text_join: "acc \<noteq> [] \<Longrightarrow> rl_text acc ls = join_with CHR ''.'' (acc # ls)"
proof (induction acc ls rule: rl_text.induct)
  case (2 acc l ls)
  then show ?case by (cases ls) auto
qed simp

lemma length_rev_name [simp]: "length (rev_name d) = length d"
    using length_join_with [of "rev (labels d)" "CHR ''.''"] length_join_with [of "labels d" "CHR ''.''"]
    by (simp add: rev_name_def rev_map [symmetric] sum_list_rev)

lemma reverse_labels_spec:
  assumes "length d \<le> 256" "last (labels d) \<noteq> []"
  shows "reverse_labels d = Some (rev_name d)"
proof -
  obtain l ls where l: "rev (labels d) = l # ls" by (metis neq_Nil_conv rev_is_Nil_conv split_on_ne)
  then have ne: "l \<noteq> []" using assms(2) by (metis last_rev list.sel(1) rev_rev_ident rev_is_Nil_conv split_on_ne hd_rev)
  let ?buf = "replicate 256 (char_of (0::nat))"
  have t: "rl_text (take 0 ?buf) (rev (labels d)) = rev_name d"
    using ne by (simp add: l rl_text_join rev_name_def)
  with assms(1) t rl_loop_spec [of 0 ?buf "rev (labels d)"]
  show ?thesis
    by (auto simp: reverse_labels_def reverse_labels_into_def slice_def)
qed

lemma labels_rev_name: "labels (rev_name d) = rev (labels d)"
  unfolding rev_name_def by (rule split_join) (auto dest: split_on_free)

lemma rev_name_rev [simp]: "rev_name (rev_name d) = d"
  by (subst rev_name_def) (simp add: labels_rev_name)

lemma rev_name_inj: "rev_name a = rev_name b \<longleftrightarrow> a = b"
  by (metis rev_name_rev)

lemma set_rev_name: "set (rev_name d) = set d"
proof -
  have j: "set (join_with c ls) = (if length ls \<le> 1 then {} else {c}) \<union> \<Union> (set ` set ls)" for c ls
    by (induction c ls rule: join_with.induct) auto
  have "set d = set (join_with CHR ''.'' (labels d))" by simp
  also have "\<dots> = set (rev_name d)" unfolding rev_name_def by (simp only: j) simp
  finally show ?thesis by simp
qed

lemma boundary_prefix:
  "k \<in> (\<lambda>e. take e s) ` set (boundaries s) \<longleftrightarrow> k = s \<or> (\<exists>q. s = k @ CHR ''.'' # q)"
proof -
  have "(\<exists>i < length s. s ! i = CHR ''.'' \<and> k = take i s) \<longleftrightarrow> (\<exists>q. s = k @ CHR ''.'' # q)"
  proof
    assume "\<exists>i < length s. s ! i = CHR ''.'' \<and> k = take i s"
    then show "\<exists>q. s = k @ CHR ''.'' # q" by (metis id_take_nth_drop)
  next
    assume "\<exists>q. s = k @ CHR ''.'' # q"
    then obtain q where "s = k @ CHR ''.'' # q" ..
    then have "length k < length s" "s ! length k = CHR ''.''" "k = take (length k) s" by auto
    then show "\<exists>i < length s. s ! i = CHR ''.'' \<and> k = take i s" by blast
  qed
  then show ?thesis by (auto simp: boundaries_def)
qed

lemma boundary_labels: "(k = s \<or> (\<exists>q. s = k @ CHR ''.'' # q)) \<longleftrightarrow> prefix (labels k) (labels s)"
proof
  assume "k = s \<or> (\<exists>q. s = k @ CHR ''.'' # q)"
  then show "prefix (labels k) (labels s)" by (auto simp: split_on_append)
next
  assume "prefix (labels k) (labels s)"
  then obtain qs where q: "labels s = labels k @ qs" by (auto simp: prefix_def)
  show "k = s \<or> (\<exists>q. s = k @ CHR ''.'' # q)"
  proof (cases "qs = []")
    case True
    with q show ?thesis by (auto dest: split_on_inj)
  next
    case False
    have "s = join_with CHR ''.'' (labels k @ qs)" using q by (metis join_split)
    with False show ?thesis by (auto simp: join_with_append)
  qed
qed

lemma boundary_rev_name:
  "rev_name d \<in> (\<lambda>e. take e (rev_name n)) ` set (boundaries (rev_name n)) \<longleftrightarrow> d \<in> set (label_suffixes n)"
  unfolding boundary_prefix boundary_labels labels_rev_name label_suffixes_labels
  by (simp add: suffix_to_prefix)

end
