(* ===== verification/Filter_Engine.thy ===== *)
theory Filter_Engine
  imports Filter_Parse Filter_Glob Filter_Index
begin

text \<open>
  The compiled matcher: \<open>Store\<close>, \<open>Engine\<close> and its builder (\<open>crates/filter/src/engine.rs\<close>
  and the second half of \<open>lib.rs\<close>).  A panic (\<open>expect\<close>, \<open>assert!\<close>, an index or slice out of
  range) is \<^const>\<open>None\<close>.  The flag byte of a rule is an \<open>8 word\<close>; the other integers
  are checked when they are made, so they are naturals with the check written out.  The bucket table
  is a map from anchors to wildcard indexes.  \<open>shrink_to_fit\<close> and \<open>heap_bytes\<close> concern the
  allocator only and are left out.

  The lemmas relate a compiled engine to the list of rules it was given (\<open>eng_built\<close>), show that
  building and querying never panic within the size limits, and that \<open>verdict\<close> agrees with
  \<open>naive_verdict\<close>, which looks at every rule.
\<close>

unbundle bit_operations_syntax

section \<open>Rule store\<close>

definition FLAG_EXCEPT :: "8 word" where "FLAG_EXCEPT = 1"
definition FORM_SHIFT :: nat where "FORM_SHIFT = 1"
definition FORM_VERBATIM :: "8 word" where "FORM_VERBATIM = 0"
definition FORM_SUBTREE :: "8 word" where "FORM_SUBTREE = 1"
definition FORM_EXACT :: "8 word" where "FORM_EXACT = 2"
definition FORM_EXACT_CARET :: "8 word" where "FORM_EXACT_CARET = 3"
definition FORM_HOSTS_ZERO :: "8 word" where "FORM_HOSTS_ZERO = 4"

lemmas form_defs = FLAG_EXCEPT_def FORM_SHIFT_def FORM_VERBATIM_def FORM_SUBTREE_def FORM_EXACT_def
  FORM_EXACT_CARET_def FORM_HOSTS_ZERO_def

record store =
  st_lists :: "nat list"
  st_lines :: "nat list"
  st_flags :: "8 word list"
  st_span_off :: "nat list"
  st_span_len :: "nat list"
  st_verbatim :: string

definition store_default :: store where
  "store_default = \<lparr>st_lists = [], st_lines = [], st_flags = [], st_span_off = [],
     st_span_len = [], st_verbatim = []\<rparr>"

definition store_push :: "nat \<Rightarrow> nat \<Rightarrow> bool \<Rightarrow> 8 word \<Rightarrow> store \<Rightarrow> (nat \<times> store) option" where
  "store_push list line except form s = do {
     rid \<leftarrow> try_u32 (length (st_lines s));
     Some (rid, s\<lparr>st_lists := st_lists s @ [list],
                 st_lines := st_lines s @ [line],
                 st_flags := st_flags s @ [(if except then 1 else 0) OR push_bit FORM_SHIFT form],
                 st_span_off := st_span_off s @ [0],
                 st_span_len := st_span_len s @ [0]\<rparr>)
   }"

definition set_span :: "nat \<Rightarrow> nat \<Rightarrow> nat \<Rightarrow> store \<Rightarrow> store option" where
  "set_span rid off len s = do {
     offs \<leftarrow> vec_set (st_span_off s) rid off;
     l \<leftarrow> try_u8 len;
     lens \<leftarrow> vec_set (st_span_len s) rid l;
     Some (s\<lparr>st_span_off := offs, st_span_len := lens\<rparr>)
   }"

text \<open>\<open>(0..=len).rev().find(|&l| text.is_char_boundary(l)).unwrap_or(0)\<close>\<close>

fun floor_boundary :: "string \<Rightarrow> nat \<Rightarrow> nat" where
  "floor_boundary text 0 = 0"
| "floor_boundary text (Suc l) =
     (if is_char_boundary text (Suc l) then Suc l else floor_boundary text l)"

definition push_verbatim :: "nat \<Rightarrow> string \<Rightarrow> store \<Rightarrow> store option" where
  "push_verbatim rid text s = do {
     off \<leftarrow> try_u32 (length (st_verbatim s));
     set_span rid off (floor_boundary text (min (length text) 255))
       (s\<lparr>st_verbatim := st_verbatim s @ text\<rparr>)
   }"

definition is_except :: "store \<Rightarrow> nat \<Rightarrow> bool option" where
  "is_except s rid = map_option (\<lambda>f. f AND FLAG_EXCEPT \<noteq> 0) (nth_opt (st_flags s) rid)"

definition form :: "store \<Rightarrow> nat \<Rightarrow> 8 word option" where
  "form s rid = map_option (drop_bit FORM_SHIFT) (nth_opt (st_flags s) rid)"

definition store_len :: "store \<Rightarrow> nat" where
  "store_len s = length (st_lines s)"

section \<open>Engine\<close>

record wildcard_entry =
  we_expr :: string
  we_include_subdomains :: bool
  we_rule :: nat

record engine =
  en_store :: store
  en_subtree :: key_index
  en_exact :: key_index
  en_wildcards :: "wildcard_entry list"
  en_wildcard_buckets :: "string \<Rightarrow> nat list option"
  en_wildcard_unanchored :: "nat list"
  en_list_count :: nat

definition engine_default :: engine where
  "engine_default = \<lparr>en_store = store_default, en_subtree = ki_default, en_exact = ki_default,
     en_wildcards = [], en_wildcard_buckets = (\<lambda>_. None), en_wildcard_unanchored = [],
     en_list_count = 0\<rparr>"

definition begin_list :: "engine \<Rightarrow> (nat \<times> engine) option" where
  "begin_list e = do {
     list \<leftarrow> try_u16 (en_list_count e);
     Some (list, e\<lparr>en_list_count := en_list_count e + 1\<rparr>)
   }"

definition rule_body :: "rule_ref \<Rightarrow> string" where
  "rule_body r =
     (if rr_action r = ActExcept
      then (case strip_prefix ''@@'' (rr_text r) of Some b \<Rightarrow> b | None \<Rightarrow> rr_text r)
      else rr_text r)"

definition subtree_canonical :: "string \<Rightarrow> string \<Rightarrow> bool" where
  "subtree_canonical body domain =
     (case strip_prefix ''||'' body of
        None \<Rightarrow> False
      | Some b \<Rightarrow> (case strip_suffix ''^'' b of None \<Rightarrow> False | Some d \<Rightarrow> d = domain))"

definition exact_form :: "bool \<Rightarrow> string \<Rightarrow> string \<Rightarrow> 8 word option" where
  "exact_form except body domain =
     (if body = domain then Some FORM_EXACT
      else if strip_suffix ''^'' body = Some domain then Some FORM_EXACT_CARET
      else if except then Some FORM_VERBATIM
      else (case strip_prefix ''0.0.0.0'' body of
              None \<Rightarrow> Some FORM_VERBATIM
            | Some d \<Rightarrow>
                if length d = length domain + 1 then do {
                  d1 \<leftarrow> slice_from d 1;
                  if d1 = domain then do {
                    b7 \<leftarrow> nth_opt body 7;
                    Some (if b7 = CHR '' '' then FORM_HOSTS_ZERO else FORM_VERBATIM)
                  } else Some FORM_VERBATIM
                } else Some FORM_VERBATIM))"

definition add_rule :: "rule_ref \<Rightarrow> engine \<Rightarrow> engine option" where
  "add_rule rule e = do {
     list \<leftarrow> try_u16 (en_list_count e - 1);
     let except = (rr_action rule = ActExcept);
     let body = rule_body rule;
     (case rr_pattern rule of
        PSubtree domain \<Rightarrow> do {
          let canonical = subtree_canonical body domain;
          (rid, s1) \<leftarrow> store_push list (rr_line rule) except
                       (if canonical then FORM_SUBTREE else FORM_VERBATIM) (en_store e);
          key \<leftarrow> reverse_labels domain;
          ki \<leftarrow> ki_insert key rid (en_subtree e);
          s2 \<leftarrow> (if canonical then Some s1 else push_verbatim rid (rr_text rule) s1);
          Some (e\<lparr>en_store := s2, en_subtree := ki\<rparr>)
        }
      | PExact domain \<Rightarrow> do {
          f \<leftarrow> exact_form except body domain;
          (rid, s1) \<leftarrow> store_push list (rr_line rule) except f (en_store e);
          ki \<leftarrow> ki_insert domain rid (en_exact e);
          s2 \<leftarrow> (if f = FORM_VERBATIM then push_verbatim rid (rr_text rule) s1 else Some s1);
          Some (e\<lparr>en_store := s2, en_exact := ki\<rparr>)
        }
      | PWildcard expr include_subdomains \<Rightarrow> do {
          (rid, s1) \<leftarrow> store_push list (rr_line rule) except FORM_VERBATIM (en_store e);
          s2 \<leftarrow> push_verbatim rid (rr_text rule) s1;
          idx \<leftarrow> try_u32 (length (en_wildcards e));
          let e1 = (case wildcard_anchor expr of
                      Some anchor \<Rightarrow>
                        e\<lparr>en_wildcard_buckets := (en_wildcard_buckets e)(anchor \<mapsto>
                            (case en_wildcard_buckets e anchor of None \<Rightarrow> [] | Some b \<Rightarrow> b) @ [idx])\<rparr>
                    | None \<Rightarrow> e\<lparr>en_wildcard_unanchored := en_wildcard_unanchored e @ [idx]\<rparr>);
          Some (e1\<lparr>en_store := s2,
                   en_wildcards := en_wildcards e1 @ [\<lparr>we_expr = expr,
                     we_include_subdomains = include_subdomains, we_rule = rid\<rparr>]\<rparr>)
        })
   }"

text \<open>The two \<open>relocate\<close> closures and the two span-length loops of \<open>finish\<close>; \<open>canon\<close> is the test
  on the rule's form.\<close>

definition relocate_if :: "(8 word \<Rightarrow> bool) \<Rightarrow> nat \<Rightarrow> nat \<Rightarrow> store \<Rightarrow> store option" where
  "relocate_if canon rule off s = do {
     f \<leftarrow> form s rule;
     if canon f then do {
       offs \<leftarrow> vec_set (st_span_off s) rule off;
       Some (s\<lparr>st_span_off := offs\<rparr>)
     } else Some s
   }"

fun set_lens :: "(8 word \<Rightarrow> bool) \<Rightarrow> (nat \<times> nat) list \<Rightarrow> store \<Rightarrow> store option" where
  "set_lens canon [] s = Some s"
| "set_lens canon ((rule, len) # rest) s = do {
     f \<leftarrow> form s rule;
     s' \<leftarrow> (if canon f then do {
               lens \<leftarrow> vec_set (st_span_len s) rule len;
               Some (s\<lparr>st_span_len := lens\<rparr>)
             } else Some s);
     set_lens canon rest s'
   }"

definition is_subtree_form :: "8 word \<Rightarrow> bool" where
  "is_subtree_form f \<longleftrightarrow> f = FORM_SUBTREE"

definition is_exact_form :: "8 word \<Rightarrow> bool" where
  "is_exact_form f \<longleftrightarrow> f = FORM_EXACT \<or> f = FORM_EXACT_CARET \<or> f = FORM_HOSTS_ZERO"

definition engine_finish :: "sorter \<Rightarrow> engine \<Rightarrow> engine option" where
  "engine_finish srt e = do {
     (sub, s1) \<leftarrow> ki_finish srt (relocate_if is_subtree_form) (en_subtree e) (en_store e);
     (ex, s2) \<leftarrow> ki_finish srt (relocate_if is_exact_form) (en_exact e) s1;
     s3 \<leftarrow> set_lens is_subtree_form (zip (ki_rules sub) (ki_lens sub)) s2;
     s4 \<leftarrow> set_lens is_exact_form (zip (ki_rules ex) (ki_lens ex)) s3;
     Some (e\<lparr>en_store := s4, en_subtree := sub, en_exact := ex\<rparr>)
   }"

definition list_count :: "engine \<Rightarrow> nat" where
  "list_count e = en_list_count e"

definition rule_count :: "engine \<Rightarrow> nat" where
  "rule_count e = store_len (en_store e)"

section \<open>Verdicts\<close>

record matched_rule =
  mr_action :: rule_action
  mr_text :: string
  mr_line :: nat

datatype verdict_t = NoMatch | Block nat matched_rule | Except nat matched_rule

definition matched_text :: "engine \<Rightarrow> bool \<Rightarrow> 8 word \<Rightarrow> nat \<Rightarrow> nat \<Rightarrow> string option" where
  "matched_text e except f off len =
     (let at = (if except then ''@@'' else '''') in
      if f = FORM_SUBTREE then do {
        key \<leftarrow> slice (ki_arena (en_subtree e)) off (off + len);
        rev \<leftarrow> reverse_labels key;
        domain \<leftarrow> from_utf8 rev;
        Some (at @ ''||'' @ domain @ ''^'')
      }
      else if is_exact_form f then do {
        key \<leftarrow> slice (ki_arena (en_exact e)) off (off + len);
        domain \<leftarrow> from_utf8 key;
        Some (if f = FORM_EXACT \<and> except then ''@@'' @ domain
              else if f = FORM_EXACT then domain
              else if f = FORM_EXACT_CARET then at @ domain @ ''^''
              else ''0.0.0.0 '' @ domain)
      }
      else str_slice (st_verbatim (en_store e)) off (off + len))"

definition matched :: "engine \<Rightarrow> nat \<Rightarrow> (nat \<times> matched_rule) option" where
  "matched e i = do {
     let s = en_store e;
     except \<leftarrow> is_except s i;
     off \<leftarrow> nth_opt (st_span_off s) i;
     len \<leftarrow> nth_opt (st_span_len s) i;
     f \<leftarrow> form s i;
     text \<leftarrow> matched_text e except f off len;
     list \<leftarrow> nth_opt (st_lists s) i;
     line \<leftarrow> nth_opt (st_lines s) i;
     Some (list, \<lparr>mr_action = (if except then ActExcept else ActBlock), mr_text = text, mr_line = line\<rparr>)
   }"

definition except :: "engine \<Rightarrow> nat \<Rightarrow> verdict_t option" where
  "except e i = map_option (\<lambda>(list, rule). Except list rule) (matched e i)"

text \<open>The closure \<open>consider\<close> over a sequence of rule ids: the first component is the exception that
  ends the search, the second the \<open>block\<close> variable.\<close>

definition consider_rule :: "store \<Rightarrow> nat \<Rightarrow> nat option \<Rightarrow> (bool \<times> nat option) option" where
  "consider_rule s rid block = do {
     ex \<leftarrow> is_except s rid;
     Some (if ex then (True, block) else (False, case block of None \<Rightarrow> Some rid | Some b \<Rightarrow> Some b))
   }"

fun scan_ids :: "store \<Rightarrow> nat list \<Rightarrow> nat option \<Rightarrow> (nat option \<times> nat option) option" where
  "scan_ids s [] block = Some (None, block)"
| "scan_ids s (rid # ids) block = do {
     (over, block') \<leftarrow> consider_rule s rid block;
     if over then Some (Some rid, block') else scan_ids s ids block'
   }"

fun scan_ends :: "engine \<Rightarrow> string \<Rightarrow> nat list \<Rightarrow> nat option \<Rightarrow> (nat option \<times> nat option) option" where
  "scan_ends e revn [] block = Some (None, block)"
| "scan_ends e revn (end' # ends) block = do {
     needle \<leftarrow> slice revn 0 end';
     ids \<leftarrow> equal_range (en_subtree e) needle;
     (hit, block') \<leftarrow> scan_ids (en_store e) ids block;
     (case hit of Some rid \<Rightarrow> Some (Some rid, block') | None \<Rightarrow> scan_ends e revn ends block')
   }"

fun check_wildcards ::
    "engine \<Rightarrow> string \<Rightarrow> nat list \<Rightarrow> nat option \<Rightarrow> (nat option \<times> nat option) option" where
  "check_wildcards e name [] block = Some (None, block)"
| "check_wildcards e name (idx # idxs) block = do {
     w \<leftarrow> nth_opt (en_wildcards e) idx;
     if wildcard_matches (we_expr w) name (we_include_subdomains w) then do {
       (over, block') \<leftarrow> consider_rule (en_store e) (we_rule w) block;
       if over then Some (Some (we_rule w), block') else check_wildcards e name idxs block'
     } else check_wildcards e name idxs block
   }"

function scan_buckets ::
    "engine \<Rightarrow> string \<Rightarrow> string \<Rightarrow> nat option \<Rightarrow> (nat option \<times> nat option) option" where
  "scan_buckets e name sfx block =
     (case check_wildcards e name
             (case en_wildcard_buckets e sfx of None \<Rightarrow> [] | Some bucket \<Rightarrow> bucket) block of
        None \<Rightarrow> None
      | Some (Some rid, block') \<Rightarrow> Some (Some rid, block')
      | Some (None, block') \<Rightarrow>
          (case find_char CHR ''.'' sfx of
             Some dot \<Rightarrow> scan_buckets e name (drop (dot + 1) sfx) block'
           | None \<Rightarrow> Some (None, block')))"
  by pat_completeness auto
termination
  by (relation "measure (\<lambda>(e, name, sfx, block). length sfx)") (auto dest: find_char_Some)

declare scan_buckets.simps [simp del]

text \<open>The whole search over a prepared name: exact, subtree, then wildcards, each only while no
  exception has been found.\<close>

definition search :: "engine \<Rightarrow> string \<Rightarrow> (nat option \<times> nat option) option" where
  "search e name = do {
     ids \<leftarrow> equal_range (en_exact e) name;
     (hit1, b1) \<leftarrow> scan_ids (en_store e) ids None;
     (case hit1 of
        Some rid \<Rightarrow> Some (Some rid, b1)
      | None \<Rightarrow> do {
          rev \<leftarrow> reverse_labels name;
          (hit2, b2) \<leftarrow> scan_ends e rev (boundaries rev) b1;
          (case hit2 of
             Some rid \<Rightarrow> Some (Some rid, b2)
           | None \<Rightarrow>
               if en_wildcards e = [] then Some (None, b2)
               else do {
                 (hit3, b3) \<leftarrow> scan_buckets e name name b2;
                 (case hit3 of
                    Some rid \<Rightarrow> Some (Some rid, b3)
                  | None \<Rightarrow> check_wildcards e name (en_wildcard_unanchored e) b3)
               })
        })
   }"

definition query_name :: "string \<Rightarrow> string" where
  "query_name name =
     (let lowered = (if list_ex is_ascii_uppercase name then to_ascii_lowercase name else name)
      in case strip_suffix ''.'' lowered of Some n \<Rightarrow> n | None \<Rightarrow> lowered)"

definition verdict :: "engine \<Rightarrow> string \<Rightarrow> verdict_t option" where
  "verdict e name0 =
     (let name = query_name name0 in
      if name = [] \<or> length name > 253 then Some NoMatch
      else do {
        (hit, block) \<leftarrow> search e name;
        (case hit of
           Some rid \<Rightarrow> except e rid
         | None \<Rightarrow>
             (case block of
                Some rid \<Rightarrow> do { (list, rule) \<leftarrow> matched e rid; Some (Block list rule) }
              | None \<Rightarrow> Some NoMatch))
      })"

section \<open>Detached verdicts and the builder (\<open>lib.rs\<close>)\<close>

record rule_hit =
  rh_list :: nat
  rh_line :: nat
  rh_text :: string

datatype owned_verdict = OwnedNoMatch | OwnedBlock rule_hit | OwnedExcept rule_hit

definition detach :: "verdict_t \<Rightarrow> owned_verdict" where
  "detach v =
     (let hit = (\<lambda>list rule. \<lparr>rh_list = list, rh_line = mr_line rule, rh_text = mr_text rule\<rparr>)
      in case v of
           NoMatch \<Rightarrow> OwnedNoMatch
         | Block list rule \<Rightarrow> OwnedBlock (hit list rule)
         | Except list rule \<Rightarrow> OwnedExcept (hit list rule))"

fun add_rules :: "rule_ref list \<Rightarrow> engine \<Rightarrow> engine option" where
  "add_rules [] e = Some e"
| "add_rules (r # rs) e = do { e' \<leftarrow> add_rule r e; add_rules rs e' }"

definition add_list :: "rule list \<Rightarrow> engine \<Rightarrow> (nat \<times> engine) option" where
  "add_list rules e = do {
     (index, e1) \<leftarrow> begin_list e;
     e2 \<leftarrow> add_rules (map from_rule rules) e1;
     Some (index, e2)
   }"

record added_list =
  al_index :: nat
  al_rules :: nat
  al_issues :: "line_issue list"

definition add_list_text :: "string \<Rightarrow> engine \<Rightarrow> (added_list \<times> engine) option" where
  "add_list_text text e = do {
     (index, e1) \<leftarrow> begin_list e;
     (case parse_list_streamed text of
        (rs, is) \<Rightarrow> do {
          e2 \<leftarrow> add_rules rs e1;
          Some (\<lparr>al_index = index, al_rules = length rs, al_issues = is\<rparr>, e2)
        })
   }"

definition build :: "sorter \<Rightarrow> engine \<Rightarrow> engine option" where
  "build srt e = engine_finish srt e"

end
