(* ===== verification/Filter_Correct.thy ===== *)
theory Filter_Correct
  imports Filter_Engine
begin

text \<open>
  Correctness of the compiled matcher.  An engine under construction represents a sequence of
  rules with their list indexes (\<open>eng_rep\<close>); \<open>finish\<close> turns it into a searchable one
  (\<open>eng_built\<close>); every search loop reports an exception or the first block among the rules it
  covers (\<open>search_res\<close>), and these reports compose.  The key lookup the search relies on is the locale
  \<open>key_lookup\<close>, interpreted on \<open>equal_range\<close>.  The theorems at the end relate a compiled
  engine to the list texts it came from.
\<close>

unbundle bit_operations_syntax

section \<open>What an engine represents\<close>

text \<open>An entry of the specification: the index of the list a rule belongs to, and the rule.  Rule
  ids are positions in this sequence.\<close>

type_synonym rule_seq = "(nat \<times> rule_ref) list"

definition rule_form :: "rule_ref \<Rightarrow> 8 word" where
  "rule_form r =
     (case rr_pattern r of
        PSubtree d \<Rightarrow> if subtree_canonical (rule_body r) d then FORM_SUBTREE else FORM_VERBATIM
      | PExact d \<Rightarrow>
          (case exact_form (rr_action r = ActExcept) (rule_body r) d of
             Some f \<Rightarrow> f | None \<Rightarrow> FORM_VERBATIM)
      | PWildcard _ _ \<Rightarrow> FORM_VERBATIM)"

definition shown_text :: "rule_ref \<Rightarrow> string" where
  "shown_text r =
     (if rule_form r = FORM_VERBATIM
      then take (floor_boundary (rr_text r) (min (length (rr_text r)) 255)) (rr_text r)
      else rr_text r)"

definition starts_char :: "string \<Rightarrow> bool" where
  "starts_char s \<longleftrightarrow> s = [] \<or> \<not> is_cont (hd s)"

definition rule_ok :: "rule_ref \<Rightarrow> bool" where
  "rule_ok r \<longleftrightarrow>
     pattern_wf (rr_pattern r) \<and> starts_char (rr_text r)
     \<and> (rr_action r = ActExcept \<longrightarrow> starts_with ''@@'' (rr_text r))
     \<and> (\<forall>d. rr_pattern r = PExact d \<longrightarrow>
           exact_form (rr_action r = ActExcept) (rule_body r) d \<noteq> None)"

fun pat_len :: "pattern_ref \<Rightarrow> nat" where
  "pat_len (PExact d) = length d"
| "pat_len (PSubtree d) = length d"
| "pat_len (PWildcard e _) = length e"

definition rule_size :: "rule_ref \<Rightarrow> nat" where
  "rule_size r = 1 + length (rr_text r) + pat_len (rr_pattern r)"

definition seq_size :: "rule_seq \<Rightarrow> nat" where
  "seq_size rs = sum_list (map (\<lambda>(_, r). rule_size r) rs)"

fun sub_key :: "pattern_ref \<Rightarrow> string option" where
  "sub_key (PSubtree d) = Some (rev_name d)"
| "sub_key _ = None"

fun exact_key :: "pattern_ref \<Rightarrow> string option" where
  "exact_key (PExact d) = Some d"
| "exact_key _ = None"

definition keyed :: "(pattern_ref \<Rightarrow> string option) \<Rightarrow> rule_seq \<Rightarrow> (string \<times> nat) list" where
  "keyed f rs = List.map_filter (\<lambda>(i, (_, r)). map_option (\<lambda>k. (k, i)) (f (rr_pattern r))) (enumerate 0 rs)"

definition wild_of :: "nat \<Rightarrow> rule_ref \<Rightarrow> wildcard_entry option" where
  "wild_of i r =
     (case rr_pattern r of
        PWildcard expr b \<Rightarrow> Some \<lparr>we_expr = expr, we_include_subdomains = b, we_rule = i\<rparr>
      | _ \<Rightarrow> None)"

definition wild_ents :: "rule_seq \<Rightarrow> wildcard_entry list" where
  "wild_ents rs = List.map_filter (\<lambda>(i, (_, r)). wild_of i r) (enumerate 0 rs)"

definition flag_byte :: "rule_ref \<Rightarrow> 8 word" where
  "flag_byte r = (if rr_action r = ActExcept then 1 else 0) OR push_bit FORM_SHIFT (rule_form r)"

definition store_rep :: "store \<Rightarrow> rule_seq \<Rightarrow> bool" where
  "store_rep s rs \<longleftrightarrow>
     st_lists s = map fst rs \<and> st_lines s = map (\<lambda>(_, r). rr_line r) rs
     \<and> st_flags s = map (\<lambda>(_, r). flag_byte r) rs
     \<and> length (st_span_off s) = length rs \<and> length (st_span_len s) = length rs
     \<and> (\<forall>i < length rs. rule_form (snd (rs ! i)) = FORM_VERBATIM \<longrightarrow>
          str_slice (st_verbatim s) (st_span_off s ! i) (st_span_off s ! i + st_span_len s ! i)
            = Some (shown_text (snd (rs ! i))))"

definition buckets_ok :: "engine \<Rightarrow> bool" where
  "buckets_ok e \<longleftrightarrow>
     (\<forall>idx < length (en_wildcards e).
        case wildcard_anchor (we_expr (en_wildcards e ! idx)) of
          Some a \<Rightarrow> \<exists>b. en_wildcard_buckets e a = Some b \<and> idx \<in> set b
        | None \<Rightarrow> idx \<in> set (en_wildcard_unanchored e))
     \<and> (\<forall>a b. en_wildcard_buckets e a = Some b \<longrightarrow> set b \<subseteq> {..<length (en_wildcards e)})
     \<and> set (en_wildcard_unanchored e) \<subseteq> {..<length (en_wildcards e)}"

text \<open>The engine while rules are being added.\<close>

definition eng_rep :: "engine \<Rightarrow> rule_seq \<Rightarrow> bool" where
  "eng_rep e rs \<longleftrightarrow>
     store_rep (en_store e) rs \<and> length (st_verbatim (en_store e)) \<le> seq_size rs
     \<and> ki_wf (en_subtree e) \<and> ki_entries (en_subtree e) = keyed sub_key rs
     \<and> sum_list (ki_lens (en_subtree e)) = length (ki_arena (en_subtree e))
     \<and> length (ki_arena (en_subtree e)) \<le> seq_size rs
     \<and> ki_wf (en_exact e) \<and> ki_entries (en_exact e) = keyed exact_key rs
     \<and> sum_list (ki_lens (en_exact e)) = length (ki_arena (en_exact e))
     \<and> length (ki_arena (en_exact e)) \<le> seq_size rs
     \<and> en_wildcards e = wild_ents rs \<and> buckets_ok e"

text \<open>The engine after \<open>finish\<close>.\<close>

definition eng_built :: "engine \<Rightarrow> rule_seq \<Rightarrow> bool" where
  "eng_built e rs \<longleftrightarrow>
     store_rep (en_store e) rs
     \<and> ki_wf (en_subtree e) \<and> mset (ki_entries (en_subtree e)) = mset (keyed sub_key rs)
     \<and> sorted (map fst (ki_entries (en_subtree e)))
     \<and> ki_wf (en_exact e) \<and> mset (ki_entries (en_exact e)) = mset (keyed exact_key rs)
     \<and> sorted (map fst (ki_entries (en_exact e)))
     \<and> en_wildcards e = wild_ents rs \<and> buckets_ok e
     \<and> (\<forall>i < length rs. \<forall>d. rr_pattern (snd (rs ! i)) = PSubtree d \<longrightarrow>
          rule_form (snd (rs ! i)) = FORM_SUBTREE \<longrightarrow>
          slice (ki_arena (en_subtree e)) (st_span_off (en_store e) ! i)
            (st_span_off (en_store e) ! i + st_span_len (en_store e) ! i) = Some (rev_name d))
     \<and> (\<forall>i < length rs. \<forall>d. rr_pattern (snd (rs ! i)) = PExact d \<longrightarrow>
          is_exact_form (rule_form (snd (rs ! i))) \<longrightarrow>
          slice (ki_arena (en_exact e)) (st_span_off (en_store e) ! i)
            (st_span_off (en_store e) ! i + st_span_len (en_store e) ! i) = Some d)"

section \<open>Sequences and flags\<close>

lemma map_filter_append: "List.map_filter f (xs @ ys) = List.map_filter f xs @ List.map_filter f ys"
  by (simp add: List.map_filter_def)

lemma length_map_filter: "length (List.map_filter f xs) \<le> length xs"
  by (simp add: List.map_filter_def)

lemma enumerate_snoc: "enumerate n (xs @ [x]) = enumerate n xs @ [(n + length xs, x)]"
  by (simp add: enumerate_append_eq)

lemma keyed_snoc: "keyed f (rs @ [(l, r)]) =
    keyed f rs @ (case f (rr_pattern r) of None \<Rightarrow> [] | Some k \<Rightarrow> [(k, length rs)])"
  by (simp add: keyed_def enumerate_snoc map_filter_append List.map_filter_def split: option.splits)

lemma wild_ents_snoc: "wild_ents (rs @ [(l, r)]) =
    wild_ents rs @ (case wild_of (length rs) r of None \<Rightarrow> [] | Some w \<Rightarrow> [w])"
  by (simp add: wild_ents_def enumerate_snoc map_filter_append List.map_filter_def split: option.splits)

lemma seq_size_snoc: "seq_size (rs @ [(l, r)]) = seq_size rs + rule_size r"
  by (simp add: seq_size_def)

lemma length_le_seq_size: "length rs \<le> seq_size rs"
  by (induction rs) (auto simp: seq_size_def rule_size_def)

lemma in_map_filter: "y \<in> set (List.map_filter f xs) \<longleftrightarrow> (\<exists>x \<in> set xs. f x = Some y)"
  by (force simp: List.map_filter_def)

lemma in_keyed: "(k, i) \<in> set (keyed f rs) \<longleftrightarrow> i < length rs \<and> f (rr_pattern (snd (rs ! i))) = Some k"
  by (auto simp: keyed_def in_map_filter set_enumerate0 case_prod_beta)

lemma in_wild_ents: "w \<in> set (wild_ents rs) \<longleftrightarrow> (\<exists>i < length rs. wild_of i (snd (rs ! i)) = Some w)"
  by (auto simp: wild_ents_def in_map_filter set_enumerate0 case_prod_beta)

lemma distinct_keyed: "distinct (map snd (keyed f rs))"
proof (induction rs rule: rev_induct)
  case (snoc x rs)
  have "i < length rs" if "i \<in> set (map snd (keyed f rs))" for i
    using that by (auto simp: in_keyed)
  with snoc show ?case by (cases x) (auto simp: keyed_snoc split: option.splits)
qed (simp add: keyed_def List.map_filter_def)

lemma exact_form_range: "exact_form ex b d = Some f \<Longrightarrow> f = FORM_VERBATIM \<or> is_exact_form f"
  by (auto simp: exact_form_def is_exact_form_def split: if_splits option.splits Option.bind_splits)

lemma rule_form_range: "rule_form r = FORM_VERBATIM \<or> rule_form r = FORM_SUBTREE \<or> is_exact_form (rule_form r)"
  by (auto simp: rule_form_def split: pattern_ref.splits option.splits dest: exact_form_range)

lemma rule_form_subtree: "rule_form r = FORM_SUBTREE \<Longrightarrow> \<exists>d. rr_pattern r = PSubtree d"
  by (auto simp: rule_form_def split: pattern_ref.splits option.splits if_splits dest!: exact_form_range)
     (auto simp: is_exact_form_def form_defs)

lemma rule_form_exact: "is_exact_form (rule_form r) \<Longrightarrow> \<exists>d. rr_pattern r = PExact d"
  by (auto simp: rule_form_def is_exact_form_def form_defs split: pattern_ref.splits if_splits)

lemma flag_byte_parts:
  "(flag_byte r AND FLAG_EXCEPT \<noteq> 0) = (rr_action r = ActExcept)" "drop_bit FORM_SHIFT (flag_byte r) = rule_form r"
proof -
  from rule_form_range [of r] have "rule_form r \<in> {0, 1, 2, 3, 4}"
    by (auto simp: is_exact_form_def form_defs)
  then show "(flag_byte r AND FLAG_EXCEPT \<noteq> 0) = (rr_action r = ActExcept)"
    "drop_bit FORM_SHIFT (flag_byte r) = rule_form r"
    by (auto simp: flag_byte_def form_defs)
qed

lemma store_rep_is_except: "store_rep s rs \<Longrightarrow> i < length rs \<Longrightarrow>
    is_except s i = Some (rr_action (snd (rs ! i)) = ActExcept)"
  using flag_byte_parts(1) [of "snd (rs ! i)"] by (simp add: store_rep_def is_except_def case_prod_beta)

lemma store_rep_form: "store_rep s rs \<Longrightarrow> i < length rs \<Longrightarrow> form s i = Some (rule_form (snd (rs ! i)))"
  by (simp add: store_rep_def form_def case_prod_beta flag_byte_parts(2))

section \<open>Adding rules\<close>

lemma form_neq: "FORM_SUBTREE \<noteq> FORM_VERBATIM" "\<not> is_exact_form FORM_VERBATIM" "\<not> is_exact_form FORM_SUBTREE"
  by (simp_all add: is_exact_form_def form_defs)

lemma is_char_boundary_append:
  "is_char_boundary s i \<Longrightarrow> i \<le> length s \<Longrightarrow> starts_char t \<Longrightarrow> is_char_boundary (s @ t) i"
  by (cases t) (auto simp: is_char_boundary_def starts_char_def is_cont_def nth_append not_le not_less)

lemma is_char_boundary_le: "is_char_boundary s i \<Longrightarrow> i \<le> length s"
  by (auto simp: is_char_boundary_def)

lemma str_slice_append:
  "str_slice s a b = Some x \<Longrightarrow> starts_char t \<Longrightarrow> str_slice (s @ t) a b = Some x"
  by (auto simp: str_slice_def slice_def is_char_boundary_append split: if_splits)

lemma floor_boundary_ok: "is_char_boundary t (floor_boundary t l) \<and> floor_boundary t l \<le> l"
  by (induction t l rule: floor_boundary.induct) (auto simp: is_char_boundary_def)

lemma str_slice_new:
  assumes "starts_char t" "is_char_boundary t l"
  shows "str_slice (s @ t) (length s) (length s + l) = Some (take l t)"
proof -
  have "is_char_boundary (s @ t) (length s)"
    using assms(1) by (cases t) (auto simp: is_char_boundary_def starts_char_def is_cont_def nth_append)
  moreover have "is_char_boundary (s @ t) (length s + l)"
    using assms by (cases t) (auto simp: is_char_boundary_def starts_char_def is_cont_def nth_append)
  ultimately show ?thesis
    using is_char_boundary_le [OF assms(2)] by (simp add: str_slice_def slice_def)
qed

text \<open>Pushing a rule and, for the verbatim form, its text.\<close>

definition push_rule :: "nat \<Rightarrow> rule_ref \<Rightarrow> store \<Rightarrow> store option" where
  "push_rule l r s = do {
     (rid, s1) \<leftarrow> store_push l (rr_line r) (rr_action r = ActExcept) (rule_form r) s;
     if rule_form r = FORM_VERBATIM then push_verbatim rid (rr_text r) s1 else Some s1 }"

lemma store_push_Some: "store_rep s rs \<Longrightarrow> length rs < 2 ^ 32 \<Longrightarrow>
    \<exists>s1. store_push l n ex f s = Some (length rs, s1)"
  by (simp add: store_push_def store_rep_def try_u32_def)

lemma push_rule_rep:
  assumes rep: "store_rep s rs" and ok: "rule_ok r" and n: "length rs < 2 ^ 32"
    and v: "length (st_verbatim s) < 2 ^ 32"
  shows "\<exists>s'. push_rule l r s = Some s' \<and> store_rep s' (rs @ [(l, r)])
    \<and> length (st_verbatim s') \<le> length (st_verbatim s) + length (rr_text r)"
proof -
  let ?t = "rr_text r"
  let ?k = "floor_boundary ?t (min (length ?t) 255)"
  have t: "starts_char ?t" using ok by (simp add: rule_ok_def)
  have k: "is_char_boundary ?t ?k" "?k \<le> 255" using floor_boundary_ok [of ?t "min (length ?t) 255"] by auto
  define s1 where "s1 = s\<lparr>st_lists := st_lists s @ [l], st_lines := st_lines s @ [rr_line r],
      st_flags := st_flags s @ [flag_byte r], st_span_off := st_span_off s @ [0],
      st_span_len := st_span_len s @ [0]\<rparr>"
  have push: "store_push l (rr_line r) (rr_action r = ActExcept) (rule_form r) s = Some (length rs, s1)"
    using rep n by (simp add: store_push_def store_rep_def try_u32_def s1_def flag_byte_def)
  define s' where "s' = (if rule_form r = FORM_VERBATIM
      then s1\<lparr>st_verbatim := st_verbatim s @ ?t, st_span_off := st_span_off s @ [length (st_verbatim s)],
              st_span_len := st_span_len s @ [?k]\<rparr>
      else s1)"
  have lens: "length (st_span_off s) = length rs" "length (st_span_len s) = length rs"
    using rep by (simp_all add: store_rep_def)
  have run: "push_rule l r s = Some s'"
    using push v k(2) lens
    by (simp add: push_rule_def push_verbatim_def set_span_def vec_set_def try_u32_def try_u8_def s'_def
        s1_def list_update_append)
  have old: "str_slice (st_verbatim s') (st_span_off s' ! i) (st_span_off s' ! i + st_span_len s' ! i)
      = Some (shown_text (snd (rs ! i)))"
    if "i < length rs" "rule_form (snd (rs ! i)) = FORM_VERBATIM" for i
    using rep that str_slice_append [OF _ t] lens
    by (auto simp: s'_def s1_def store_rep_def nth_append)
  have new: "str_slice (st_verbatim s') (st_span_off s' ! length rs) (st_span_off s' ! length rs + st_span_len s' ! length rs)
      = Some (shown_text r)" if "rule_form r = FORM_VERBATIM"
    using that str_slice_new [OF t k(1)] lens by (simp add: s'_def s1_def nth_append shown_text_def)
  have "store_rep s' (rs @ [(l, r)])"
    unfolding store_rep_def
  proof (intro conjI allI impI)
    fix i
    assume "i < length (rs @ [(l, r)])" "rule_form (snd ((rs @ [(l, r)]) ! i)) = FORM_VERBATIM"
    then show "str_slice (st_verbatim s') (st_span_off s' ! i) (st_span_off s' ! i + st_span_len s' ! i)
        = Some (shown_text (snd ((rs @ [(l, r)]) ! i)))"
      using old [of i] new by (cases "i < length rs") (auto simp: nth_append less_Suc_eq)
  qed (use rep lens in \<open>auto simp: s'_def s1_def store_rep_def\<close>)
  moreover have "length (st_verbatim s') \<le> length (st_verbatim s) + length ?t"
    by (simp add: s'_def s1_def)
  ultimately show ?thesis using run by blast
qed

lemma buckets_ok_other:
  assumes "buckets_ok e" "en_wildcards e' = en_wildcards e" "en_wildcard_buckets e' = en_wildcard_buckets e"
    "en_wildcard_unanchored e' = en_wildcard_unanchored e"
  shows "buckets_ok e'"
  using assms(1) unfolding buckets_ok_def assms(2-4) .

lemma buckets_ok_add:
  assumes ok: "buckets_ok e"
    and e': "e' = (case wildcard_anchor (we_expr w) of
       Some a \<Rightarrow> e\<lparr>en_wildcard_buckets := (en_wildcard_buckets e)(a \<mapsto>
            (case en_wildcard_buckets e a of None \<Rightarrow> [] | Some b \<Rightarrow> b) @ [length (en_wildcards e)])\<rparr>
     | None \<Rightarrow> e\<lparr>en_wildcard_unanchored := en_wildcard_unanchored e @ [length (en_wildcards e)]\<rparr>)"
  shows "buckets_ok (e'\<lparr>en_store := s, en_wildcards := en_wildcards e' @ [w]\<rparr>)"
proof -
  let ?n = "length (en_wildcards e)"
  have w: "en_wildcards e' = en_wildcards e" by (simp add: e' split: option.splits)
  have sub: "set b \<subseteq> {..<Suc ?n}" if "en_wildcard_buckets e a = Some b" for a b
    using ok that by (fastforce simp: buckets_ok_def)
  have un: "set (en_wildcard_unanchored e) \<subseteq> {..<Suc ?n}" using ok by (fastforce simp: buckets_ok_def)
  show ?thesis
    unfolding buckets_ok_def
  proof (intro conjI allI impI)
    fix idx
    assume "idx < length (en_wildcards (e'\<lparr>en_store := s, en_wildcards := en_wildcards e' @ [w]\<rparr>))"
    then consider "idx < ?n" | "idx = ?n" by (auto simp: w less_Suc_eq)
    then show "case wildcard_anchor (we_expr (en_wildcards (e'\<lparr>en_store := s, en_wildcards := en_wildcards e' @ [w]\<rparr>) ! idx)) of
          Some a \<Rightarrow> \<exists>b. en_wildcard_buckets (e'\<lparr>en_store := s, en_wildcards := en_wildcards e' @ [w]\<rparr>) a = Some b \<and> idx \<in> set b
        | None \<Rightarrow> idx \<in> set (en_wildcard_unanchored (e'\<lparr>en_store := s, en_wildcards := en_wildcards e' @ [w]\<rparr>))"
    proof cases
      case 1
      with ok have "case wildcard_anchor (we_expr (en_wildcards e ! idx)) of
          Some a \<Rightarrow> \<exists>b. en_wildcard_buckets e a = Some b \<and> idx \<in> set b
        | None \<Rightarrow> idx \<in> set (en_wildcard_unanchored e)" by (simp add: buckets_ok_def)
      with 1 show ?thesis
        by (auto simp: e' nth_append split: option.splits)
    next
      case 2
      then show ?thesis by (auto simp: e' nth_append split: option.splits)
    qed
  next
    fix a b
    assume "en_wildcard_buckets (e'\<lparr>en_store := s, en_wildcards := en_wildcards e' @ [w]\<rparr>) a = Some b"
    then show "set b \<subseteq> {..<length (en_wildcards (e'\<lparr>en_store := s, en_wildcards := en_wildcards e' @ [w]\<rparr>))}"
      using sub by (fastforce simp: e' w split: option.splits if_splits)
  next
    show "set (en_wildcard_unanchored (e'\<lparr>en_store := s, en_wildcards := en_wildcards e' @ [w]\<rparr>))
        \<subseteq> {..<length (en_wildcards (e'\<lparr>en_store := s, en_wildcards := en_wildcards e' @ [w]\<rparr>))}"
      using un by (auto simp: e' w split: option.splits)
  qed
qed

lemma domain_wf_last: "domain_wf d \<Longrightarrow> last (labels d) \<noteq> []"
  using last_in_set [OF split_on_ne, of "CHR ''.''" d]
  by (auto simp: domain_wf_def list_all_iff valid_label_def)

lemma seq_size_mono: "seq_size (rs @ [x]) < N \<Longrightarrow> length rs < N \<and> seq_size rs < N"
  using length_le_seq_size [of rs] by (cases x) (auto simp: seq_size_snoc)

lemma add_rule_rep:
  assumes rep: "eng_rep e rs" and ok: "rule_ok r" and c: "en_list_count e = Suc l" "l < 2 ^ 16"
    and sz: "seq_size (rs @ [(l, r)]) < 2 ^ 32"
  shows "\<exists>e'. add_rule r e = Some e' \<and> eng_rep e' (rs @ [(l, r)]) \<and> en_list_count e' = en_list_count e"
proof -
  note bnd = seq_size_mono [OF sz]
  have list: "try_u16 (en_list_count e - 1) = Some l" using c by (simp add: try_u16_def)
  have st: "store_rep (en_store e) rs" and v: "length (st_verbatim (en_store e)) \<le> seq_size rs"
    using rep by (simp_all add: eng_rep_def)
  from push_rule_rep [OF st ok _ _, of l] bnd v obtain s' where s': "push_rule l r (en_store e) = Some s'"
    "store_rep s' (rs @ [(l, r)])" "length (st_verbatim s') \<le> length (st_verbatim (en_store e)) + length (rr_text r)"
    by auto
  have v': "length (st_verbatim s') \<le> seq_size (rs @ [(l, r)])"
    using s'(3) v by (simp add: seq_size_snoc rule_size_def)
  obtain s1 where push: "store_push l (rr_line r) (rr_action r = ActExcept) (rule_form r) (en_store e) = Some (length rs, s1)"
    using store_push_Some [OF st] bnd by blast
  have tail: "(if rule_form r = FORM_VERBATIM then push_verbatim (length rs) (rr_text r) s1 else Some s1) = Some s'"
    using s'(1) push by (simp add: push_rule_def)
  show ?thesis
  proof (cases "rr_pattern r")
    case (PSubtree d)
    then have wf: "domain_wf d" using ok by (simp add: rule_ok_def)
    then have key: "reverse_labels d = Some (rev_name d)" and ld: "length d < 256"
      by (auto intro!: reverse_labels_spec domain_wf_last simp: domain_wf_def)
    from rep bnd ki_insert_spec [of "en_subtree e" "rev_name d" "length rs"] ld obtain ki where
      ki: "ki_insert (rev_name d) (length rs) (en_subtree e) = Some ki" "ki_wf ki"
        "ki_entries ki = ki_entries (en_subtree e) @ [(rev_name d, length rs)]"
        "ki_arena ki = ki_arena (en_subtree e) @ rev_name d" "ki_lens ki = ki_lens (en_subtree e) @ [length d]"
      by (auto simp: eng_rep_def)
    have f: "rule_form r = (if subtree_canonical (rule_body r) d then FORM_SUBTREE else FORM_VERBATIM)"
      using PSubtree by (simp add: rule_form_def)
    have "add_rule r e = Some (e\<lparr>en_store := s', en_subtree := ki\<rparr>)"
      using list push tail key ki(1) form_neq
      by (cases "subtree_canonical (rule_body r) d") (simp_all add: add_rule_def PSubtree Let_def f)
    moreover have "eng_rep (e\<lparr>en_store := s', en_subtree := ki\<rparr>) (rs @ [(l, r)])"
      using rep s'(2) v' ki PSubtree
      by (auto simp: eng_rep_def keyed_snoc wild_ents_snoc wild_of_def seq_size_snoc rule_size_def
          intro: buckets_ok_other)
    ultimately show ?thesis by simp
  next
    case (PExact d)
    then have wf: "domain_wf d" using ok by (simp add: rule_ok_def)
    then have ld: "length d < 256" by (simp add: domain_wf_def)
    from rep bnd ki_insert_spec [of "en_exact e" d "length rs"] ld obtain ki where
      ki: "ki_insert d (length rs) (en_exact e) = Some ki" "ki_wf ki"
        "ki_entries ki = ki_entries (en_exact e) @ [(d, length rs)]"
        "ki_arena ki = ki_arena (en_exact e) @ d" "ki_lens ki = ki_lens (en_exact e) @ [length d]"
      by (auto simp: eng_rep_def)
    have f: "exact_form (rr_action r = ActExcept) (rule_body r) d = Some (rule_form r)"
      using PExact ok by (auto simp: rule_form_def rule_ok_def)
    have "add_rule r e = Some (e\<lparr>en_store := s', en_exact := ki\<rparr>)"
      using list push tail ki(1) by (auto simp: add_rule_def PExact Let_def f split: if_splits)
    moreover have "eng_rep (e\<lparr>en_store := s', en_exact := ki\<rparr>) (rs @ [(l, r)])"
      using rep s'(2) v' ki PExact
      by (auto simp: eng_rep_def keyed_snoc wild_ents_snoc wild_of_def seq_size_snoc rule_size_def
          intro: buckets_ok_other)
    ultimately show ?thesis by simp
  next
    case (PWildcard x b)
    then have f: "rule_form r = FORM_VERBATIM" by (simp add: rule_form_def)
    have wl: "length (en_wildcards e) \<le> length rs"
    proof -
      have "length (wild_ents rs) \<le> length (enumerate 0 rs)" unfolding wild_ents_def by (rule length_map_filter)
      then show ?thesis using rep by (simp add: eng_rep_def)
    qed
    let ?w = "\<lparr>we_expr = x, we_include_subdomains = b, we_rule = length rs\<rparr>"
    define e1 where "e1 = (case wildcard_anchor (we_expr ?w) of
       Some a \<Rightarrow> e\<lparr>en_wildcard_buckets := (en_wildcard_buckets e)(a \<mapsto>
            (case en_wildcard_buckets e a of None \<Rightarrow> [] | Some b \<Rightarrow> b) @ [length (en_wildcards e)])\<rparr>
     | None \<Rightarrow> e\<lparr>en_wildcard_unanchored := en_wildcard_unanchored e @ [length (en_wildcards e)]\<rparr>)"
    have e1: "en_subtree e1 = en_subtree e" "en_exact e1 = en_exact e" "en_wildcards e1 = en_wildcards e"
      "en_list_count e1 = en_list_count e"
      by (simp_all add: e1_def split: option.splits)
    let ?e = "e1\<lparr>en_store := s', en_wildcards := en_wildcards e1 @ [?w]\<rparr>"
    have "add_rule r e = Some ?e"
      using list push tail wl bnd f
      by (simp add: add_rule_def PWildcard Let_def try_u32_def e1_def)
    moreover have "buckets_ok ?e"
      by (rule buckets_ok_add [OF _ e1_def]) (use rep in \<open>simp add: eng_rep_def\<close>)
    then have "eng_rep ?e (rs @ [(l, r)])"
      using rep s'(2) v' PWildcard
      by (auto simp: eng_rep_def e1 keyed_snoc wild_ents_snoc wild_of_def seq_size_snoc rule_size_def)
    ultimately show ?thesis by (simp add: e1)
  qed
qed

section \<open>Finishing\<close>

text \<open>The effect of a sequence of span updates: rules with a canonical form get the value given for
  them, the others keep theirs.\<close>

definition spans_set ::
    "(8 word \<Rightarrow> bool) \<Rightarrow> 8 word list \<Rightarrow> (nat \<times> nat) list \<Rightarrow> nat list \<Rightarrow> nat list \<Rightarrow> bool" where
  "spans_set canon flags cs old new \<longleftrightarrow> length new = length flags
     \<and> (\<forall>(i, v) \<in> set cs. canon (drop_bit FORM_SHIFT (flags ! i)) \<longrightarrow> new ! i = v)
     \<and> (\<forall>i < length flags. \<not> canon (drop_bit FORM_SHIFT (flags ! i)) \<or> i \<notin> fst ` set cs \<longrightarrow>
          new ! i = old ! i)"

lemma run_calls_relocate:
  assumes "length (st_span_off s) = n" "length (st_flags s) = n"
  shows "\<lbrakk>\<forall>(i, off) \<in> set cs. i < n; distinct (map fst cs)\<rbrakk> \<Longrightarrow>
    \<exists>offs. run_calls (relocate_if canon) cs s = Some (s\<lparr>st_span_off := offs\<rparr>)
      \<and> spans_set canon (st_flags s) cs (st_span_off s) offs"
  using assms
proof (induction cs arbitrary: s)
  case Nil
  then show ?case by (intro exI [of _ "st_span_off s"]) (simp add: spans_set_def)
next
  case (Cons c cs)
  obtain i off where c: "c = (i, off)" by force
  have i: "i < n" using Cons.prems(1) c by auto
  let ?c = "canon (drop_bit FORM_SHIFT (st_flags s ! i))"
  define s' where "s' = (if ?c then s\<lparr>st_span_off := (st_span_off s)[i := off]\<rparr> else s)"
  have s': "st_flags s' = st_flags s" "length (st_span_off s') = n"
      "s'\<lparr>st_span_off := x\<rparr> = s\<lparr>st_span_off := x\<rparr>"
      "st_span_off s' = (if ?c then (st_span_off s)[i := off] else st_span_off s)" for x
    using Cons.prems by (simp_all add: s'_def)
  have step: "relocate_if canon i off s = Some s'"
    using Cons.prems i by (simp add: relocate_if_def form_def vec_set_def s'_def)
  have "length (st_flags s') = n" using Cons.prems by (simp add: s')
  from Cons.IH [OF _ _ s'(2) this] Cons.prems(1,2) obtain offs where
    o: "run_calls (relocate_if canon) cs s' = Some (s\<lparr>st_span_off := offs\<rparr>)"
      "spans_set canon (st_flags s) cs (st_span_off s') offs"
    unfolding s'(1,3) by auto
  have "i \<notin> fst ` set cs" using Cons.prems(2) c by simp
  with o i Cons.prems(3,4) show ?case
    by (intro exI [of _ offs]) (auto simp: c step s'(4) nth_list_update spans_set_def)
qed

lemma set_lens_spec:
  assumes "length (st_span_len s) = n" "length (st_flags s) = n"
  shows "\<lbrakk>\<forall>(i, l) \<in> set cs. i < n; distinct (map fst cs)\<rbrakk> \<Longrightarrow>
    \<exists>lens. set_lens canon cs s = Some (s\<lparr>st_span_len := lens\<rparr>)
      \<and> spans_set canon (st_flags s) cs (st_span_len s) lens"
  using assms
proof (induction cs arbitrary: s)
  case Nil
  then show ?case by (intro exI [of _ "st_span_len s"]) (simp add: spans_set_def)
next
  case (Cons c cs)
  obtain i l where c: "c = (i, l)" by force
  have i: "i < n" using Cons.prems(1) c by auto
  let ?c = "canon (drop_bit FORM_SHIFT (st_flags s ! i))"
  define s' where "s' = (if ?c then s\<lparr>st_span_len := (st_span_len s)[i := l]\<rparr> else s)"
  have s': "st_flags s' = st_flags s" "length (st_span_len s') = n"
      "s'\<lparr>st_span_len := x\<rparr> = s\<lparr>st_span_len := x\<rparr>"
      "st_span_len s' = (if ?c then (st_span_len s)[i := l] else st_span_len s)" for x
    using Cons.prems by (simp_all add: s'_def)
  have step: "set_lens canon (c # cs) s = set_lens canon cs s'"
    using Cons.prems i by (simp add: c form_def vec_set_def s'_def)
  have "length (st_flags s') = n" using Cons.prems by (simp add: s')
  from Cons.IH [OF _ _ s'(2) this] Cons.prems(1,2) obtain lens where
    o: "set_lens canon cs s' = Some (s\<lparr>st_span_len := lens\<rparr>)"
      "spans_set canon (st_flags s) cs (st_span_len s') lens"
    unfolding s'(1,3) by auto
  have "i \<notin> fst ` set cs" using Cons.prems(2) c by simp
  with o i Cons.prems(3,4) show ?case
    unfolding step by (intro exI [of _ lens]) (auto simp: c s'(4) nth_list_update spans_set_def)
qed

text \<open>An index that holds the given entries, sorted: each rule id occurs once, at a position whose
  span is its key.\<close>

lemma ki_position:
  assumes "ki_wf ki" "mset (ki_entries ki) = mset (keyed f rs)" "i < length rs"
    "f (rr_pattern (snd (rs ! i))) = Some k"
  shows "\<exists>j < length (ki_rules ki). ki_rules ki ! j = i
    \<and> slice (ki_arena ki) (ki_offs ki ! j) (ki_offs ki ! j + ki_lens ki ! j) = Some k"
proof -
  have "(k, i) \<in> set (ki_entries ki)"
    using assms(2-4) by (metis in_keyed set_mset_mset)
  then obtain j where j: "j < length (ki_rules ki)" "key_at ki j = k" "ki_rules ki ! j = i"
    by (auto simp: ki_entries_def)
  with assms(1) show ?thesis
    by (auto simp: ki_wf_def key_at_def slice_def intro!: exI [of _ j])
qed

lemma ki_rules_keyed:
  assumes "mset (ki_entries ki) = mset (keyed f rs)"
  shows "distinct (ki_rules ki)" "\<And>i. i \<in> set (ki_rules ki) \<Longrightarrow> i < length rs"
proof -
  have r: "ki_rules ki = map snd (ki_entries ki)"
    by (intro nth_equalityI) (auto simp: ki_entries_nth)
  have "mset (map snd (ki_entries ki)) = mset (map snd (keyed f rs))" using assms by simp
  then show "distinct (ki_rules ki)" unfolding r using distinct_keyed mset_eq_imp_distinct_iff by blast
  show "i < length rs" if "i \<in> set (ki_rules ki)" for i
    using that assms unfolding r by (metis (no_types, lifting) imageE in_keyed list.set_map prod.collapse set_mset_mset)
qed

lemma engine_finish_built:
  assumes srt: "sort_ok srt" and rep: "eng_rep e rs" and sz: "seq_size rs < 2 ^ 32"
  shows "\<exists>e'. engine_finish srt e = Some e' \<and> eng_built e' rs \<and> en_list_count e' = en_list_count e"
proof -
  have klen: "length (ki_rules ki) \<le> length rs" if "ki_entries ki = keyed f rs" for ki f
  proof -
    have "length (keyed f rs) \<le> length (enumerate 0 rs)" unfolding keyed_def by (rule length_map_filter)
    then show ?thesis using that by (metis ki_entries_length length_enumerate)
  qed
  have n: "length rs < 2 ^ 32" using sz length_le_seq_size [of rs] by simp
  have st: "store_rep (en_store e) rs" using rep by (simp add: eng_rep_def)
  have flag: "drop_bit FORM_SHIFT (st_flags (en_store e) ! i) = rule_form (snd (rs ! i))" if "i < length rs" for i
    using st that by (simp add: store_rep_def case_prod_beta flag_byte_parts(2))
  have lens: "length (st_span_off (en_store e)) = length rs" "length (st_span_len (en_store e)) = length rs"
    "length (st_flags (en_store e)) = length rs" using st by (simp_all add: store_rep_def)
  have "ki_wf (en_subtree e)" "sum_list (ki_lens (en_subtree e)) < 2 ^ 32" "length (ki_rules (en_subtree e)) < 2 ^ 32"
    using rep sz n klen [of "en_subtree e" sub_key] by (auto simp: eng_rep_def)
  from ki_finish_spec [OF srt this, where 's = store] obtain sub where sub: "ki_wf sub"
    "mset (ki_entries sub) = mset (keyed sub_key rs)" "sorted (map fst (ki_entries sub))"
    "\<And>rl s. ki_finish srt rl (en_subtree e) (s :: store) =
        map_option (Pair sub) (run_calls rl (zip (ki_rules sub) (ki_offs sub)) s)"
    using rep by (auto simp: eng_rep_def)
  have "ki_wf (en_exact e)" "sum_list (ki_lens (en_exact e)) < 2 ^ 32" "length (ki_rules (en_exact e)) < 2 ^ 32"
    using rep sz n klen [of "en_exact e" exact_key] by (auto simp: eng_rep_def)
  from ki_finish_spec [OF srt this, where 's = store] obtain ex where ex: "ki_wf ex"
    "mset (ki_entries ex) = mset (keyed exact_key rs)" "sorted (map fst (ki_entries ex))"
    "\<And>rl s. ki_finish srt rl (en_exact e) (s :: store) =
        map_option (Pair ex) (run_calls rl (zip (ki_rules ex) (ki_offs ex)) s)"
    using rep by (auto simp: eng_rep_def)
  note sr = ki_rules_keyed [OF sub(2)] and er = ki_rules_keyed [OF ex(2)]
  have zl: "length (ki_offs sub) = length (ki_rules sub)" "length (ki_lens sub) = length (ki_rules sub)"
    "length (ki_offs ex) = length (ki_rules ex)" "length (ki_lens ex) = length (ki_rules ex)"
    using sub(1) ex(1) by (simp_all add: ki_wf_def)
  have c1: "\<forall>(i, off) \<in> set (zip (ki_rules sub) xs). i < length rs" "\<forall>(i, off) \<in> set (zip (ki_rules ex) xs). i < length rs" for xs :: "nat list"
    using sr(2) er(2) by (auto dest: set_zip_leftD)
  have d: "distinct (map fst (zip (ki_rules sub) (ki_offs sub)))" "distinct (map fst (zip (ki_rules sub) (ki_lens sub)))"
    "distinct (map fst (zip (ki_rules ex) (ki_offs ex)))" "distinct (map fst (zip (ki_rules ex) (ki_lens ex)))"
    using sr(1) er(1) zl by simp_all
  let ?fl = "st_flags (en_store e)"
  obtain o1 where o1: "run_calls (relocate_if is_subtree_form) (zip (ki_rules sub) (ki_offs sub)) (en_store e)
        = Some (en_store e\<lparr>st_span_off := o1\<rparr>)"
      "spans_set is_subtree_form ?fl (zip (ki_rules sub) (ki_offs sub)) (st_span_off (en_store e)) o1"
    using run_calls_relocate [OF lens(1,3) c1(1) d(1), of is_subtree_form] by blast
  let ?s1 = "en_store e\<lparr>st_span_off := o1\<rparr>"
  have "length (st_span_off ?s1) = length rs" "length (st_flags ?s1) = length rs"
    using o1(2) lens by (simp_all add: spans_set_def)
  from run_calls_relocate [OF this c1(2) d(3), of is_exact_form]
  obtain o2 where o2: "run_calls (relocate_if is_exact_form) (zip (ki_rules ex) (ki_offs ex)) ?s1
        = Some (?s1\<lparr>st_span_off := o2\<rparr>)"
      "spans_set is_exact_form ?fl (zip (ki_rules ex) (ki_offs ex)) o1 o2"
    by auto
  let ?s2 = "en_store e\<lparr>st_span_off := o2\<rparr>"
  have "length (st_span_len ?s2) = length rs" "length (st_flags ?s2) = length rs"
    using lens by simp_all
  from set_lens_spec [OF this c1(1) d(2), of is_subtree_form]
  obtain l1 where l1: "set_lens is_subtree_form (zip (ki_rules sub) (ki_lens sub)) ?s2 = Some (?s2\<lparr>st_span_len := l1\<rparr>)"
      "spans_set is_subtree_form ?fl (zip (ki_rules sub) (ki_lens sub)) (st_span_len (en_store e)) l1"
    by auto
  let ?s3 = "?s2\<lparr>st_span_len := l1\<rparr>"
  have "length (st_span_len ?s3) = length rs" "length (st_flags ?s3) = length rs"
    using l1(2) lens by (simp_all add: spans_set_def)
  from set_lens_spec [OF this c1(2) d(4), of is_exact_form]
  obtain l2 where l2: "set_lens is_exact_form (zip (ki_rules ex) (ki_lens ex)) ?s3 = Some (?s3\<lparr>st_span_len := l2\<rparr>)"
      "spans_set is_exact_form ?fl (zip (ki_rules ex) (ki_lens ex)) l1 l2"
    by auto
  let ?e = "e\<lparr>en_store := en_store e\<lparr>st_span_off := o2, st_span_len := l2\<rparr>, en_subtree := sub, en_exact := ex\<rparr>"
  have run: "engine_finish srt e = Some ?e"
    by (simp add: engine_finish_def sub(4) ex(4) o1(1) o2(1) l1(1) l2(1))
  have verb: "o2 ! i = st_span_off (en_store e) ! i \<and> l2 ! i = st_span_len (en_store e) ! i"
    if "i < length rs" "rule_form (snd (rs ! i)) = FORM_VERBATIM" for i
    using that o1(2) o2(2) l1(2) l2(2) flag form_neq lens by (simp add: spans_set_def is_subtree_form_def)
  have subt: "slice (ki_arena sub) (o2 ! i) (o2 ! i + l2 ! i) = Some (rev_name dm)"
    if i: "i < length rs" "rule_form (snd (rs ! i)) = FORM_SUBTREE" "rr_pattern (snd (rs ! i)) = PSubtree dm" for i dm
  proof -
    from ki_position [OF sub(1,2) i(1), of "rev_name dm"] i(3) obtain j where j: "j < length (ki_rules sub)" "ki_rules sub ! j = i"
      "slice (ki_arena sub) (ki_offs sub ! j) (ki_offs sub ! j + ki_lens sub ! j) = Some (rev_name dm)" by auto
    have "(i, ki_offs sub ! j) \<in> set (zip (ki_rules sub) (ki_offs sub))" "(i, ki_lens sub ! j) \<in> set (zip (ki_rules sub) (ki_lens sub))"
      using j zl by (auto simp: set_zip)
    then have "o1 ! i = ki_offs sub ! j" "l1 ! i = ki_lens sub ! j"
      using o1(2) l1(2) i flag by (auto simp: is_subtree_form_def spans_set_def)
    moreover have "o2 ! i = o1 ! i" "l2 ! i = l1 ! i"
      using o2(2) l2(2) i flag form_neq lens by (simp_all add: spans_set_def)
    ultimately show ?thesis using j(3) by simp
  qed
  have exct: "slice (ki_arena ex) (o2 ! i) (o2 ! i + l2 ! i) = Some dm"
    if i: "i < length rs" "is_exact_form (rule_form (snd (rs ! i)))" "rr_pattern (snd (rs ! i)) = PExact dm" for i dm
  proof -
    from ki_position [OF ex(1,2) i(1), of dm] i(3) obtain j where j: "j < length (ki_rules ex)" "ki_rules ex ! j = i"
      "slice (ki_arena ex) (ki_offs ex ! j) (ki_offs ex ! j + ki_lens ex ! j) = Some dm" by auto
    have "(i, ki_offs ex ! j) \<in> set (zip (ki_rules ex) (ki_offs ex))" "(i, ki_lens ex ! j) \<in> set (zip (ki_rules ex) (ki_lens ex))"
      using j zl by (auto simp: set_zip)
    then have "o2 ! i = ki_offs ex ! j" "l2 ! i = ki_lens ex ! j"
      using o2(2) l2(2) i flag by (auto simp: spans_set_def)
    then show ?thesis using j(3) by simp
  qed
  have "store_rep (en_store ?e) rs"
    using st o2(2) l2(2) verb lens by (simp add: store_rep_def spans_set_def)
  then have "eng_built ?e rs"
    using rep sub(1-3) ex(1-3) subt exct by (auto simp: eng_built_def eng_rep_def intro: buckets_ok_other)
  with run show ?thesis by simp
qed

section \<open>Searching\<close>

text \<open>The contract of a key lookup, as the search uses it: the rules filed under a key.\<close>

locale key_lookup =
  fixes inv :: "'ix \<Rightarrow> bool"
    and entries :: "'ix \<Rightarrow> (string \<times> nat) list"
    and look :: "'ix \<Rightarrow> string \<Rightarrow> nat list option"
  assumes look_eq: "inv ix \<Longrightarrow> look ix k = Some (map snd (filter (\<lambda>(k', _). k' = k) (entries ix)))"
begin

lemma look_total: "inv ix \<Longrightarrow> \<exists>ids. look ix k = Some ids \<and> (\<forall>i. i \<in> set ids \<longleftrightarrow> (k, i) \<in> set (entries ix))"
  by (force simp: look_eq)

lemma look_mset:
  assumes "inv ix" "mset (entries ix) = mset es"
  shows "\<exists>ids. look ix k = Some ids \<and> (\<forall>i. i \<in> set ids \<longleftrightarrow> (k, i) \<in> set es)"
  using look_total [OF assms(1), of k] mset_eq_setD [OF assms(2)] by simp

end

definition ki_ready :: "key_index \<Rightarrow> bool" where
  "ki_ready ki \<longleftrightarrow> ki_wf ki \<and> sorted (map fst (ki_entries ki))"

interpretation kl: key_lookup ki_ready ki_entries equal_range
  by unfold_locales (simp add: ki_ready_def equal_range_spec)

text \<open>What a search over the rules \<open>M\<close> may report, starting with \<open>b\<close>: an exception of \<open>M\<close>, or that
  there is none, together with the first block found.\<close>

definition search_res :: "(nat \<Rightarrow> bool) \<Rightarrow> nat set \<Rightarrow> nat option \<Rightarrow> nat option \<times> nat option \<Rightarrow> bool" where
  "search_res exc M b res \<longleftrightarrow>
     (case res of
        (Some i, _) \<Rightarrow> i \<in> M \<and> exc i
      | (None, b') \<Rightarrow> (\<forall>i \<in> M. \<not> exc i) \<and>
          (case b of
             Some x \<Rightarrow> b' = Some x
           | None \<Rightarrow> (case b' of None \<Rightarrow> M = {} | Some y \<Rightarrow> y \<in> M)))"

lemma search_res_empty: "search_res exc {} b (None, b)"
  by (simp add: search_res_def split: option.splits)

lemma search_res_hit: "search_res exc M b (Some i, x) \<Longrightarrow> M \<subseteq> N \<Longrightarrow> search_res exc N b' (Some i, x')"
  by (auto simp: search_res_def)

lemma search_res_trans:
  "search_res exc M b (None, b1) \<Longrightarrow> search_res exc N b1 r \<Longrightarrow> search_res exc (M \<union> N) b r"
  by (cases r) (auto simp: search_res_def split: option.splits)

abbreviation is_exc :: "rule_seq \<Rightarrow> nat \<Rightarrow> bool" where
  "is_exc rs i \<equiv> rr_action (snd (rs ! i)) = ActExcept"

lemma consider_rule_spec:
  assumes "store_rep s rs" "i < length rs"
  shows "\<exists>b'. consider_rule s i b = Some (is_exc rs i, b') \<and>
    search_res (is_exc rs) {i} b (if is_exc rs i then Some i else None, b')"
  using store_rep_is_except [OF assms]
  by (auto simp: consider_rule_def search_res_def split: option.splits)

lemma scan_ids_spec:
  assumes "store_rep s rs"
  shows "\<forall>i \<in> set ids. i < length rs \<Longrightarrow>
    \<exists>res. scan_ids s ids b = Some res \<and> search_res (is_exc rs) (set ids) b res"
proof (induction ids arbitrary: b)
  case Nil
  then show ?case by (simp add: search_res_empty)
next
  case (Cons i ids)
  then obtain b' where b': "consider_rule s i b = Some (is_exc rs i, b')"
    "search_res (is_exc rs) {i} b (if is_exc rs i then Some i else None, b')"
    using consider_rule_spec [OF assms, of i b] by auto
  show ?case
  proof (cases "is_exc rs i")
    case True
    with b' show ?thesis by (auto intro: search_res_hit)
  next
    case False
    have "\<forall>i \<in> set ids. i < length rs" using Cons.prems by simp
    from Cons.IH [OF this, of b'] obtain res where
      "scan_ids s ids b' = Some res" "search_res (is_exc rs) (set ids) b' res" by blast
    with False b' search_res_trans [of "is_exc rs" "{i}" b b' "set ids" res] show ?thesis by auto
  qed
qed

text \<open>Both inner loops continue a search: run one part, return its hit, else go on with the block
  found.\<close>

definition then_search ::
    "(nat option \<times> nat option) option \<Rightarrow> (nat option \<Rightarrow> (nat option \<times> nat option) option)
     \<Rightarrow> (nat option \<times> nat option) option" where
  "then_search p q =
     (case p of
        None \<Rightarrow> None
      | Some (Some i, b) \<Rightarrow> Some (Some i, b)
      | Some (None, b) \<Rightarrow> q b)"

lemma then_search_spec:
  assumes "\<exists>res. p = Some res \<and> search_res exc M b res"
    and "\<And>b'. \<exists>res. q b' = Some res \<and> search_res exc N b' res"
  shows "\<exists>res. then_search p q = Some res \<and> search_res exc (M \<union> N) b res"
proof -
  from assms(1) obtain h b1 where p: "p = Some (h, b1)" "search_res exc M b (h, b1)" by auto
  show ?thesis
  proof (cases h)
    case None
    with p assms(2) [of b1] show ?thesis by (auto simp: then_search_def intro: search_res_trans)
  next
    case (Some i)
    with p show ?thesis by (auto simp: then_search_def intro: search_res_hit)
  qed
qed

lemma scan_ends_Cons: "scan_ends e revn (n # ns) b =
    do { needle \<leftarrow> slice revn 0 n; ids \<leftarrow> equal_range (en_subtree e) needle;
         then_search (scan_ids (en_store e) ids b) (scan_ends e revn ns) }"
  by (auto simp: then_search_def split: option.splits Option.bind_splits)

lemma scan_ends_spec:
  assumes "eng_built e rs"
  shows "\<forall>n \<in> set ns. n \<le> length revn \<Longrightarrow>
    \<exists>res. scan_ends e revn ns b = Some res \<and>
      search_res (is_exc rs) {i. i < length rs \<and> (\<exists>n \<in> set ns. sub_key (rr_pattern (snd (rs ! i))) = Some (take n revn))} b res"
proof (induction ns arbitrary: b)
  case Nil
  then show ?case by (simp add: search_res_empty)
next
  case (Cons n ns)
  have st: "store_rep (en_store e) rs" using assms by (simp add: eng_built_def)
  have "ki_ready (en_subtree e)" "mset (ki_entries (en_subtree e)) = mset (keyed sub_key rs)"
    using assms by (auto simp: eng_built_def ki_ready_def)
  from kl.look_mset [OF this, of "take n revn"] obtain ids where
    ids: "equal_range (en_subtree e) (take n revn) = Some ids"
      "\<And>i. i \<in> set ids \<longleftrightarrow> i < length rs \<and> sub_key (rr_pattern (snd (rs ! i))) = Some (take n revn)"
    by (auto simp: in_keyed)
  have sl: "slice revn 0 n = Some (take n revn)" using Cons.prems by (simp add: slice_def)
  have "\<exists>res. then_search (scan_ids (en_store e) ids b) (scan_ends e revn ns) = Some res \<and>
    search_res (is_exc rs) (set ids \<union> {i. i < length rs \<and> (\<exists>n \<in> set ns. sub_key (rr_pattern (snd (rs ! i))) = Some (take n revn))}) b res"
    by (rule then_search_spec [OF scan_ids_spec [OF st]]) (use ids Cons in auto)
  moreover have "set ids \<union> {i. i < length rs \<and> (\<exists>n \<in> set ns. sub_key (rr_pattern (snd (rs ! i))) = Some (take n revn))}
      = {i. i < length rs \<and> (\<exists>n \<in> set (n # ns). sub_key (rr_pattern (snd (rs ! i))) = Some (take n revn))}"
    using ids(2) by auto
  ultimately show ?case by (simp add: scan_ends_Cons sl ids(1) del: scan_ends.simps)
qed

text \<open>The rules behind a set of wildcard indexes that match a name.\<close>

definition wild_hits :: "engine \<Rightarrow> string \<Rightarrow> nat set \<Rightarrow> nat set" where
  "wild_hits e name I =
     {we_rule w | w idx. idx \<in> I \<and> idx < length (en_wildcards e) \<and> w = en_wildcards e ! idx
        \<and> wildcard_matches (we_expr w) name (we_include_subdomains w)}"

lemma wild_hits_Un: "wild_hits e name (I \<union> J) = wild_hits e name I \<union> wild_hits e name J"
  by (auto simp: wild_hits_def)

lemma wild_hits_empty [simp]: "wild_hits e name {} = {}"
  by (simp add: wild_hits_def)

lemma wild_of_Some: "wild_of i r = Some w \<longleftrightarrow>
    (\<exists>x b. rr_pattern r = PWildcard x b \<and> w = \<lparr>we_expr = x, we_include_subdomains = b, we_rule = i\<rparr>)"
  by (auto simp: wild_of_def split: pattern_ref.splits)

lemma we_rule_less:
  assumes "eng_built e rs" "idx < length (en_wildcards e)"
  shows "we_rule (en_wildcards e ! idx) < length rs"
proof -
  have "en_wildcards e ! idx \<in> set (wild_ents rs)" using assms by (simp add: eng_built_def)
  then show ?thesis
    by (auto simp: in_wild_ents wild_of_Some)
qed

lemma check_wildcards_spec:
  assumes "eng_built e rs"
  shows "\<forall>idx \<in> set idxs. idx < length (en_wildcards e) \<Longrightarrow>
    \<exists>res. check_wildcards e name idxs b = Some res \<and>
      search_res (is_exc rs) (wild_hits e name (set idxs)) b res"
proof (induction idxs arbitrary: b)
  case Nil
  then show ?case by (simp add: search_res_empty)
next
  case (Cons idx idxs)
  let ?w = "en_wildcards e ! idx"
  have idx: "idx < length (en_wildcards e)" using Cons.prems by simp
  have un: "wild_hits e name (set (idx # idxs)) = wild_hits e name {idx} \<union> wild_hits e name (set idxs)"
    using wild_hits_Un [of e name "{idx}" "set idxs"] by simp
  show ?case
  proof (cases "wildcard_matches (we_expr ?w) name (we_include_subdomains ?w)")
    case False
    then have "wild_hits e name {idx} = {}" by (auto simp: wild_hits_def)
    with False Cons idx un show ?thesis by simp
  next
    case True
    then have h: "wild_hits e name {idx} = {we_rule ?w}" using idx by (auto simp: wild_hits_def)
    have st: "store_rep (en_store e) rs" using assms by (simp add: eng_built_def)
    from consider_rule_spec [OF st we_rule_less [OF assms idx], of b] obtain b' where
      b': "consider_rule (en_store e) (we_rule ?w) b = Some (is_exc rs (we_rule ?w), b')"
        "search_res (is_exc rs) {we_rule ?w} b (if is_exc rs (we_rule ?w) then Some (we_rule ?w) else None, b')" by auto
    have "\<exists>res. then_search (Some (if is_exc rs (we_rule ?w) then Some (we_rule ?w) else None, b'))
          (check_wildcards e name idxs) = Some res \<and>
        search_res (is_exc rs) (wild_hits e name {idx} \<union> wild_hits e name (set idxs)) b res"
      by (rule then_search_spec) (use b'(2) h Cons in auto)
    with True idx b'(1) show ?thesis
      unfolding un by (auto simp: then_search_def split: if_splits)
  qed
qed

fun pat_matches :: "pattern_ref \<Rightarrow> string \<Rightarrow> bool" where
  "pat_matches (PExact d) name \<longleftrightarrow> name = d"
| "pat_matches (PSubtree d) name \<longleftrightarrow> d \<in> set (label_suffixes name)"
| "pat_matches (PWildcard x b) name \<longleftrightarrow> wildcard_matches x name b"

definition match_ids :: "rule_seq \<Rightarrow> string \<Rightarrow> nat set" where
  "match_ids rs name = {i. i < length rs \<and> pat_matches (rr_pattern (snd (rs ! i))) name}"

definition bucket_of :: "engine \<Rightarrow> string \<Rightarrow> nat list" where
  "bucket_of e x = (case en_wildcard_buckets e x of None \<Rightarrow> [] | Some b \<Rightarrow> b)"

lemma bucket_of_less:
  assumes "buckets_ok e" "idx \<in> set (bucket_of e x)"
  shows "idx < length (en_wildcards e)"
proof (cases "en_wildcard_buckets e x")
  case None
  with assms(2) show ?thesis by (simp add: bucket_of_def)
next
  case (Some b)
  have "\<forall>a b. en_wildcard_buckets e a = Some b \<longrightarrow> set b \<subseteq> {..<length (en_wildcards e)}"
    using assms(1) unfolding buckets_ok_def by blast
  then have "set b \<subseteq> {..<length (en_wildcards e)}" using Some by blast
  with assms(2) Some show ?thesis by (auto simp: bucket_of_def)
qed

lemma scan_buckets_then: "scan_buckets e name sfx b =
    then_search (check_wildcards e name (bucket_of e sfx) b)
      (\<lambda>b'. case find_char CHR ''.'' sfx of
               Some dot \<Rightarrow> scan_buckets e name (drop (dot + 1) sfx) b' | None \<Rightarrow> Some (None, b'))"
  by (subst scan_buckets.simps) (simp add: then_search_def bucket_of_def split: option.splits prod.splits)

lemma scan_buckets_spec:
  assumes "eng_built e rs"
  shows "\<exists>res. scan_buckets e name sfx b = Some res \<and>
    search_res (is_exc rs) (wild_hits e name (\<Union>x \<in> set (label_suffixes sfx). set (bucket_of e x))) b res"
proof (induction sfx arbitrary: b rule: label_suffixes.induct)
  case (1 sfx)
  have bo: "buckets_ok e" using assms by (simp add: eng_built_def)
  have here: "\<exists>res. check_wildcards e name (bucket_of e sfx) b = Some res \<and>
      search_res (is_exc rs) (wild_hits e name (set (bucket_of e sfx))) b res" for b
    by (rule check_wildcards_spec [OF assms]) (use bucket_of_less [OF bo] in blast)
  let ?tl = "case find_char CHR ''.'' sfx of Some dot \<Rightarrow> label_suffixes (drop (Suc dot) sfx) | None \<Rightarrow> []"
  have rest: "\<exists>res. (case find_char CHR ''.'' sfx of
        Some dot \<Rightarrow> scan_buckets e name (drop (dot + 1) sfx) b' | None \<Rightarrow> Some (None, b')) = Some res \<and>
      search_res (is_exc rs) (wild_hits e name (\<Union>x \<in> set ?tl. set (bucket_of e x))) b' res" for b'
  proof (cases "find_char CHR ''.'' sfx")
    case None
    then show ?thesis by (simp add: search_res_empty del: find_char_None)
  next
    case (Some dot)
    with "1.IH" [OF Some, of b'] show ?thesis by simp
  qed
  have "(\<Union>x \<in> set (label_suffixes sfx). set (bucket_of e x)) =
      set (bucket_of e sfx) \<union> (\<Union>x \<in> set ?tl. set (bucket_of e x))"
    by (subst label_suffixes.simps) (simp split: option.splits)
  with then_search_spec [OF here rest] show ?case
    by (simp add: scan_buckets_then [of e name sfx] wild_hits_Un)
qed

text \<open>Looking only into the buckets of the name's own suffixes, and at the wildcards without an
  anchor, finds every wildcard rule that matches.\<close>

lemma wild_hits_all:
  assumes "eng_built e rs"
  shows "wild_hits e name ((\<Union>x \<in> set (label_suffixes name). set (bucket_of e x)) \<union> set (en_wildcard_unanchored e))
    = {i. i < length rs \<and> (\<exists>x b. rr_pattern (snd (rs ! i)) = PWildcard x b \<and> wildcard_matches x name b)}"
    (is "wild_hits e name ?I = ?R")
proof (intro equalityI subsetI)
  have w: "en_wildcards e = wild_ents rs" and bo: "buckets_ok e" using assms by (auto simp: eng_built_def)
  fix i
  {
    assume "i \<in> wild_hits e name ?I"
    then obtain idx where idx: "idx < length (en_wildcards e)" "i = we_rule (en_wildcards e ! idx)"
      "wildcard_matches (we_expr (en_wildcards e ! idx)) name (we_include_subdomains (en_wildcards e ! idx))"
      by (auto simp: wild_hits_def)
    have "en_wildcards e ! idx \<in> set (wild_ents rs)" using idx(1) w by simp
    then show "i \<in> ?R" using idx(2,3) by (auto simp: in_wild_ents wild_of_Some)
  next
    assume "i \<in> ?R"
    then obtain x b where i: "i < length rs" "rr_pattern (snd (rs ! i)) = PWildcard x b" "wildcard_matches x name b"
      by auto
    let ?w = "\<lparr>we_expr = x, we_include_subdomains = b, we_rule = i\<rparr>"
    have "?w \<in> set (wild_ents rs)" using i by (auto simp: in_wild_ents wild_of_Some)
    then obtain idx where idx: "idx < length (en_wildcards e)" "en_wildcards e ! idx = ?w"
      using w by (auto simp: in_set_conv_nth)
    have "idx \<in> ?I"
    proof (cases "wildcard_anchor x")
      case None
      with bo idx have "idx \<in> set (en_wildcard_unanchored e)" by (fastforce simp: buckets_ok_def)
      then show ?thesis by simp
    next
      case (Some a)
      with bo idx have "idx \<in> set (bucket_of e a)" by (fastforce simp: buckets_ok_def bucket_of_def)
      with wildcard_anchor_suffix [OF Some i(3)] show ?thesis by blast
    qed
    then show "i \<in> wild_hits e name ?I"
      using idx i(3) unfolding wild_hits_def by (intro CollectI exI [of _ ?w] exI [of _ idx]) simp
  }
qed

lemma search_then: "search e name =
    do { ids \<leftarrow> equal_range (en_exact e) name;
         then_search (scan_ids (en_store e) ids None) (\<lambda>b1.
           do { revn \<leftarrow> reverse_labels name;
                then_search (scan_ends e revn (boundaries revn) b1) (\<lambda>b2.
                  if en_wildcards e = [] then Some (None, b2)
                  else then_search (scan_buckets e name name b2)
                         (check_wildcards e name (en_wildcard_unanchored e))) }) }"
  by (auto simp: search_def then_search_def split: option.splits Option.bind_splits)

lemma search_spec:
  assumes built: "eng_built e rs" and n: "length name \<le> 253" "last (labels name) \<noteq> []"
  shows "\<exists>res. search e name = Some res \<and> search_res (is_exc rs) (match_ids rs name) None res"
proof -
  have st: "store_rep (en_store e) rs" and bo: "buckets_ok e" and w: "en_wildcards e = wild_ents rs"
    using built by (simp_all add: eng_built_def)
  let ?X = "{i. i < length rs \<and> rr_pattern (snd (rs ! i)) = PExact name}"
  let ?S = "{i. i < length rs \<and> (\<exists>d. rr_pattern (snd (rs ! i)) = PSubtree d \<and> d \<in> set (label_suffixes name))}"
  let ?W = "{i. i < length rs \<and> (\<exists>x b. rr_pattern (snd (rs ! i)) = PWildcard x b \<and> wildcard_matches x name b)}"
  have "ki_ready (en_exact e)" "mset (ki_entries (en_exact e)) = mset (keyed exact_key rs)"
    using built by (auto simp: eng_built_def ki_ready_def)
  from kl.look_mset [OF this, of name] obtain ids where ids: "equal_range (en_exact e) name = Some ids"
    "\<And>i. i \<in> set ids \<longleftrightarrow> i < length rs \<and> exact_key (rr_pattern (snd (rs ! i))) = Some name"
    by (auto simp: in_keyed)
  have ek: "exact_key p = Some k \<longleftrightarrow> p = PExact k" and
    sk: "sub_key p = Some k \<longleftrightarrow> (\<exists>d. p = PSubtree d \<and> k = rev_name d)" for p k
    by (cases p; auto)+
  have X: "set ids = ?X" using ids(2) by (auto simp: ek)
  have rv: "reverse_labels name = Some (rev_name name)" by (rule reverse_labels_spec) (use n in auto)
  have 1: "\<exists>res. scan_ids (en_store e) ids None = Some res \<and> search_res (is_exc rs) ?X None res"
    using scan_ids_spec [OF st, of ids None] ids(2) X by auto
  have 2: "\<exists>res. scan_ends e (rev_name name) (boundaries (rev_name name)) b = Some res \<and> search_res (is_exc rs) ?S b res" for b
  proof -
    have "\<forall>n \<in> set (boundaries (rev_name name)). n \<le> length (rev_name name)" by (auto simp: boundaries_def)
    moreover have "{i. i < length rs \<and> (\<exists>n \<in> set (boundaries (rev_name name)).
        sub_key (rr_pattern (snd (rs ! i))) = Some (take n (rev_name name)))} = ?S"
      unfolding sk boundary_rev_name [symmetric] by (auto simp: image_iff) metis
    ultimately show ?thesis using scan_ends_spec [OF built, of "boundaries (rev_name name)" "rev_name name" b] by simp
  qed
  have 3: "\<exists>res. (if en_wildcards e = [] then Some (None, b) else then_search (scan_buckets e name name b)
        (check_wildcards e name (en_wildcard_unanchored e))) = Some res \<and> search_res (is_exc rs) ?W b res" for b
  proof (cases "en_wildcards e = []")
    case True
    then have W: "?W = {}" using wild_hits_all [OF built, of name] by (simp add: wild_hits_def)
    have "search_res (is_exc rs) ?W b (None, b)" unfolding W by (rule search_res_empty)
    with True show ?thesis by simp
  next
    case False
    have "\<exists>res. check_wildcards e name (en_wildcard_unanchored e) b' = Some res \<and>
        search_res (is_exc rs) (wild_hits e name (set (en_wildcard_unanchored e))) b' res" for b'
      by (rule check_wildcards_spec [OF built]) (use bo in \<open>auto simp: buckets_ok_def\<close>)
    from then_search_spec [OF scan_buckets_spec [OF built, of name name b] this] False
    show ?thesis by (simp add: wild_hits_Un [symmetric] wild_hits_all [OF built])
  qed
  have M: "match_ids rs name = ?X \<union> (?S \<union> ?W)"
  proof -
    have "pat_matches p name \<longleftrightarrow> p = PExact name \<or> (\<exists>d. p = PSubtree d \<and> d \<in> set (label_suffixes name))
        \<or> (\<exists>x b. p = PWildcard x b \<and> wildcard_matches x name b)" for p
      by (cases p) auto
    then show ?thesis by (auto simp: match_ids_def)
  qed
  show ?thesis
    unfolding search_then ids(1) M rv Option.bind.bind_lunit
    by (intro then_search_spec 1 2 3)
qed

section \<open>Reported rules\<close>

lemma domain_ascii: "domain_wf d \<Longrightarrow> utf8_valid d"
  by (rule utf8_valid_ascii) (use domain_plain in blast)

lemma rev_name_wf: "domain_wf d \<Longrightarrow> domain_wf (rev_name d)"
  by (auto simp: domain_wf_def labels_rev_name list_all_iff) (metis length_0_conv length_rev_name)

lemma rule_body_text:
  assumes "rule_ok r"
  shows "rr_text r = (if rr_action r = ActExcept then ''@@'' else []) @ rule_body r"
  using assms by (auto simp: rule_ok_def rule_body_def starts_with_iff strip_prefix_def)

lemma exact_form_hosts:
  assumes "exact_form ex b d = Some FORM_HOSTS_ZERO"
  shows "b = ''0.0.0.0 '' @ d \<and> \<not> ex"
proof -
  have ne: "FORM_HOSTS_ZERO \<noteq> FORM_EXACT" "FORM_HOSTS_ZERO \<noteq> FORM_EXACT_CARET" "FORM_HOSTS_ZERO \<noteq> FORM_VERBATIM"
    by (simp_all add: form_defs)
  from assms ne obtain t where t: "strip_prefix ''0.0.0.0'' b = Some t" "length t = length d + 1" "\<not> ex"
    and u: "slice_from t 1 = Some d" "nth_opt b 7 = Some CHR '' ''"
    by (auto simp: exact_form_def bind_eq_Some_conv split: if_splits option.splits)
  obtain c u where "t = c # u" using t(2) by (cases t) auto
  with t u show ?thesis by (auto simp: strip_prefix_Some slice_from_def nth_opt_def split: if_splits)
qed

lemma exact_form_text:
  assumes "exact_form ex b d = Some f" "is_exact_form f"
  shows "b = (if f = FORM_EXACT then d else if f = FORM_EXACT_CARET then d @ ''^'' else ''0.0.0.0 '' @ d)
    \<and> (f = FORM_HOSTS_ZERO \<longrightarrow> \<not> ex)"
proof -
  have ne: "FORM_EXACT \<noteq> FORM_EXACT_CARET" "FORM_VERBATIM \<noteq> FORM_EXACT" "FORM_VERBATIM \<noteq> FORM_EXACT_CARET"
    "FORM_HOSTS_ZERO \<noteq> FORM_EXACT" "FORM_HOSTS_ZERO \<noteq> FORM_EXACT_CARET"
    by (simp_all add: form_defs)
  have "f = FORM_EXACT \<longrightarrow> b = d" "f = FORM_EXACT_CARET \<longrightarrow> b = d @ ''^''"
    using assms(1) ne by (auto simp: exact_form_def strip_suffix_Some bind_eq_Some_conv split: if_splits option.splits)
  then show ?thesis using assms ne exact_form_hosts [of ex b d] by (auto simp: is_exact_form_def)
qed

lemma matched_spec:
  assumes built: "eng_built e rs" and i: "i < length rs" and ok: "rule_ok (snd (rs ! i))"
  shows "matched e i = Some (fst (rs ! i),
    \<lparr>mr_action = rr_action (snd (rs ! i)), mr_text = shown_text (snd (rs ! i)), mr_line = rr_line (snd (rs ! i))\<rparr>)"
proof -
  define r where "r = snd (rs ! i)"
  let ?s = "en_store e"
  let ?o = "st_span_off ?s ! i" and ?l = "st_span_len ?s ! i" and ?ex = "rr_action r = ActExcept"
  have st: "store_rep ?s rs" using built by (simp add: eng_built_def)
  note body = rule_body_text [OF ok, folded r_def]
  have "matched_text e ?ex (rule_form r) ?o ?l = Some (shown_text r)"
  proof -
    from rule_form_range [of r] consider "rule_form r = FORM_VERBATIM" | "rule_form r = FORM_SUBTREE"
      | "is_exact_form (rule_form r)" by blast
    then show ?thesis
    proof cases
      case 1
      with st i form_neq show ?thesis by (simp add: store_rep_def matched_text_def Let_def r_def)
    next
      case 2
      then obtain d where d: "rr_pattern r = PSubtree d" by (blast dest: rule_form_subtree)
      then have wf: "domain_wf d" using ok by (simp add: rule_ok_def r_def)
      have sl: "slice (ki_arena (en_subtree e)) ?o (?o + ?l) = Some (rev_name d)"
        using built i 2 d by (simp add: eng_built_def r_def)
      have rv: "reverse_labels (rev_name d) = Some d"
        using reverse_labels_spec [OF _ domain_wf_last [OF rev_name_wf [OF wf]]] wf by (simp add: domain_wf_def)
      have "rule_body r = ''||'' @ d @ ''^''"
        using 2 d form_neq by (auto simp: rule_form_def subtree_canonical_def strip_prefix_Some strip_suffix_Some
            split: if_splits option.splits)
      with 2 sl rv wf body form_neq show ?thesis
        by (simp add: matched_text_def Let_def from_utf8_def domain_ascii shown_text_def)
    next
      case 3
      then obtain d where d: "rr_pattern r = PExact d" by (blast dest: rule_form_exact)
      then have wf: "domain_wf d" using ok by (simp add: rule_ok_def r_def)
      have sl: "slice (ki_arena (en_exact e)) ?o (?o + ?l) = Some d"
        using built i 3 d by (simp add: eng_built_def r_def)
      have f: "exact_form ?ex (rule_body r) d = Some (rule_form r)"
        using ok d by (auto simp: rule_ok_def rule_form_def r_def)
      have ne: "rule_form r \<noteq> FORM_SUBTREE" "rule_form r \<noteq> FORM_VERBATIM" using 3 form_neq by auto
      from exact_form_text [OF f 3] 3 sl wf body ne show ?thesis
        by (auto simp: matched_text_def Let_def from_utf8_def domain_ascii shown_text_def is_exact_form_def)
    qed
  qed
  moreover have "(if ?ex then ActExcept else ActBlock) = rr_action r" by (cases "rr_action r") auto
  ultimately show ?thesis
    using st i store_rep_is_except [OF st i] store_rep_form [OF st i]
    by (simp add: matched_def store_rep_def r_def Let_def case_prod_beta)
qed

section \<open>The reference and the builder\<close>

fun naive_matches :: "pattern_ref \<Rightarrow> string \<Rightarrow> bool" where
  "naive_matches (PExact d) name \<longleftrightarrow> name = d"
| "naive_matches (PSubtree d) name \<longleftrightarrow> name = d \<or> ends_with (CHR ''.'' # d) name"
| "naive_matches (PWildcard x b) name \<longleftrightarrow>
     glob x name \<or> (b \<and> list_ex (glob x) (label_suffixes name))"

datatype kind = KNoMatch | KBlock | KExcept

definition naive_verdict :: "rule_ref list \<Rightarrow> string \<Rightarrow> kind" where
  "naive_verdict rules name0 =
     (let name = query_name name0;
          hits = filter (\<lambda>r. naive_matches (rr_pattern r) name) rules
      in if name = [] \<or> length name > 253 then KNoMatch
         else if list_ex (\<lambda>r. rr_action r = ActExcept) hits then KExcept
         else if hits \<noteq> [] then KBlock else KNoMatch)"

fun kind_of :: "verdict_t \<Rightarrow> kind" where
  "kind_of NoMatch = KNoMatch"
| "kind_of (Block _ _) = KBlock"
| "kind_of (Except _ _) = KExcept"

text \<open>The rule a verdict reports is one of the given rules that matches the name.\<close>

fun reports_real_rule :: "rule_seq \<Rightarrow> string \<Rightarrow> verdict_t \<Rightarrow> bool" where
  "reports_real_rule rs name NoMatch \<longleftrightarrow> True"
| "reports_real_rule rs name (Block l m) \<longleftrightarrow>
     list_ex (\<lambda>(l', r). l' = l \<and> naive_matches (rr_pattern r) name \<and> mr_action m = ActBlock
        \<and> rr_action r = ActBlock \<and> mr_line m = rr_line r \<and> mr_text m = shown_text r) rs"
| "reports_real_rule rs name (Except l m) \<longleftrightarrow>
     list_ex (\<lambda>(l', r). l' = l \<and> naive_matches (rr_pattern r) name \<and> mr_action m = ActExcept
        \<and> rr_action r = ActExcept \<and> mr_line m = rr_line r \<and> mr_text m = shown_text r) rs"

lemma pat_matches_naive:
  assumes "CHR ''*'' \<notin> set name"
  shows "pat_matches p name \<longleftrightarrow> naive_matches p name"
proof (cases p)
  case (PSubtree d)
  then show ?thesis by (simp add: in_label_suffixes ends_with_iff) blast
next
  case (PWildcard x b)
  have "glob_match x s \<longleftrightarrow> glob x s" if "s \<in> set (label_suffixes name)" for s
    using that assms by (intro glob_match_iff) (auto simp: in_label_suffixes)
  then show ?thesis using PWildcard assms
    by (auto simp: wildcard_matches_iff glob_match_iff list_ex_iff)
qed simp

lemma query_name_alt: "query_name name =
    (case strip_suffix ''.'' (to_ascii_lowercase name) of Some m \<Rightarrow> m | None \<Rightarrow> to_ascii_lowercase name)"
  by (cases "list_ex is_ascii_uppercase name") (simp_all add: query_name_def Let_def to_ascii_lowercase_id split: option.splits)

lemma query_name_star: "CHR ''*'' \<notin> set name \<Longrightarrow> CHR ''*'' \<notin> set (query_name name)"
proof -
  assume star: "CHR ''*'' \<notin> set name"
  have "ascii_lower c = CHR ''*'' \<Longrightarrow> c = CHR ''*''" for c
    by (auto simp: ascii_lower_def is_ascii_uppercase_def split: if_splits dest: arg_cong [of _ _ byte])
  then have "CHR ''*'' \<notin> set (to_ascii_lowercase name)" using star by (force simp: to_ascii_lowercase_def)
  then show ?thesis by (auto simp: query_name_alt strip_suffix_Some split: option.splits)
qed

lemma last_labels_empty:
  assumes "last (labels s) = []" "s \<noteq> []"
  shows "\<exists>r. s = r @ ''.''"
proof -
  have l: "labels s = butlast (labels s) @ [[]]"
    using assms(1) by (metis append_butlast_last_id split_on_ne)
  have s: "s = join_with CHR ''.'' (butlast (labels s) @ [[]])" using l by (metis join_split)
  show ?thesis
  proof (cases "butlast (labels s) = []")
    case True
    with s assms(2) show ?thesis by simp
  next
    case False
    with join_with_append [OF False, of "[[]]" "CHR ''.''"] s show ?thesis by auto
  qed
qed

lemma lower_snoc_dot: "to_ascii_lowercase s = r @ ''.'' \<Longrightarrow> \<exists>r'. s = r' @ ''.'' \<and> to_ascii_lowercase r' = r"
  by (cases s rule: rev_cases) (auto simp: to_ascii_lowercase_def)

lemma query_name_last:
  assumes "\<not> ends_with ''..'' name" "query_name name \<noteq> []"
  shows "last (labels (query_name name)) \<noteq> []"
proof
  assume "last (labels (query_name name)) = []"
  from last_labels_empty [OF this assms(2)] obtain r where r: "query_name name = r @ ''.''" by auto
  show False
  proof (cases "strip_suffix ''.'' (to_ascii_lowercase name)")
    case None
    with r have "to_ascii_lowercase name = r @ ''.''" by (simp add: query_name_alt)
    with None show False by (metis option.distinct(1) strip_suffix_append)
  next
    case (Some m)
    with r have "to_ascii_lowercase name = (r @ ''.'') @ ''.''" by (simp add: query_name_alt strip_suffix_Some)
    then obtain n1 where n1: "name = n1 @ ''.''" "to_ascii_lowercase n1 = r @ ''.''" using lower_snoc_dot by blast
    then obtain n2 where "n1 = n2 @ ''.''" using lower_snoc_dot by blast
    with n1 assms(1) show False by (simp add: ends_with_iff)
  qed
qed

lemma naive_verdict_ids:
  assumes "query_name name \<noteq> []" "length (query_name name) \<le> 253"
    and M: "M = {i. i < length rs \<and> naive_matches (rr_pattern (snd (rs ! i))) (query_name name)}"
  shows "naive_verdict (map snd rs) name =
    (if \<exists>i \<in> M. is_exc rs i then KExcept else if M \<noteq> {} then KBlock else KNoMatch)"
proof -
  let ?hits = "filter (\<lambda>r. naive_matches (rr_pattern r) (query_name name)) (map snd rs)"
  have "set rs = (!) rs ` {..<length rs}" by (auto simp: set_conv_nth)
  then have h: "set ?hits = (\<lambda>i. snd (rs ! i)) ` M" by (auto simp: M)
  have "(\<exists>r \<in> set ?hits. rr_action r = ActExcept) \<longleftrightarrow> (\<exists>i \<in> M. is_exc rs i)" unfolding h by blast
  moreover have "?hits \<noteq> [] \<longleftrightarrow> M \<noteq> {}" using h by (metis image_is_empty set_empty)
  ultimately show ?thesis using assms(1,2)
    by (simp add: naive_verdict_def Let_def list_ex_iff)
qed

lemma verdict_spec:
  assumes built: "eng_built e rs" and ok: "\<forall>(l, r) \<in> set rs. rule_ok r"
    and star: "CHR ''*'' \<notin> set name" and dd: "\<not> ends_with ''..'' name"
  shows "\<exists>v. verdict e name = Some v \<and> kind_of v = naive_verdict (map snd rs) name
    \<and> reports_real_rule rs (query_name name) v"
proof (cases "query_name name = [] \<or> length (query_name name) > 253")
  case True
  then show ?thesis by (auto simp: verdict_def naive_verdict_def Let_def)
next
  case False
  let ?n = "query_name name" and ?M = "match_ids rs (query_name name)"
  from search_spec [OF built _ query_name_last [OF dd]] False obtain h b where
    s: "search e ?n = Some (h, b)" "search_res (is_exc rs) ?M None (h, b)" by auto
  have M: "?M = {i. i < length rs \<and> naive_matches (rr_pattern (snd (rs ! i))) ?n}"
    by (simp add: match_ids_def pat_matches_naive [OF query_name_star [OF star]])
  have m: "matched e i = Some (fst (rs ! i), \<lparr>mr_action = rr_action (snd (rs ! i)),
      mr_text = shown_text (snd (rs ! i)), mr_line = rr_line (snd (rs ! i))\<rparr>)" if "i \<in> ?M" for i
    by (rule matched_spec [OF built]) (use that ok in \<open>auto simp: match_ids_def dest!: nth_mem\<close>)
  have real: "\<exists>x \<in> set rs. fst x = fst (rs ! i) \<and> naive_matches (rr_pattern (snd x)) ?n \<and>
      x = rs ! i" if "i \<in> ?M" for i
    using that by (auto simp: M)
  have nv: "naive_verdict (map snd rs) name =
      (if \<exists>i \<in> ?M. is_exc rs i then KExcept else if ?M \<noteq> {} then KBlock else KNoMatch)"
    by (rule naive_verdict_ids) (use False M in auto)
  have v: "verdict e name = (case h of Some rid \<Rightarrow> except e rid
      | None \<Rightarrow> (case b of Some rid \<Rightarrow> do { (list, rule) \<leftarrow> matched e rid; Some (Block list rule) } | None \<Rightarrow> Some NoMatch))"
    using False s(1) by (auto simp: verdict_def Let_def)
  show ?thesis
  proof (cases h)
    case (Some i)
    with s(2) have i: "i \<in> ?M" "is_exc rs i" by (auto simp: search_res_def)
    with m [OF i(1)] nv v Some M show ?thesis
      by (force simp: except_def list_ex_iff)
  next
    case None
    with s(2) have ne: "\<forall>i \<in> ?M. \<not> is_exc rs i" by (simp add: search_res_def)
    show ?thesis
    proof (cases b)
      case b: None
      with None s(2) have "?M = {}" by (simp add: search_res_def)
      with v None b nv show ?thesis by simp
    next
      case (Some i)
      with None s(2) have i: "i \<in> ?M" by (simp add: search_res_def)
      with ne have "rr_action (snd (rs ! i)) = ActBlock" using rule_action.exhaust by blast
      with m [OF i] nv v None Some M ne i show ?thesis by (force simp: list_ex_iff)
    qed
  qed
qed

section \<open>Whole lists\<close>

lemma engine_default_rep: "eng_rep engine_default []"
  by (simp add: eng_rep_def engine_default_def store_rep_def store_default_def seq_size_def ki_default_wf
      ki_default_entries keyed_def wild_ents_def List.map_filter_def buckets_ok_def)
     (simp add: ki_default_def)

lemma add_rules_rep:
  "eng_rep e rs \<Longrightarrow> \<forall>r \<in> set xs. rule_ok r \<Longrightarrow> en_list_count e = Suc l \<Longrightarrow> l < 2 ^ 16 \<Longrightarrow>
     seq_size (rs @ map (Pair l) xs) < 2 ^ 32 \<Longrightarrow>
     \<exists>e'. add_rules xs e = Some e' \<and> eng_rep e' (rs @ map (Pair l) xs) \<and> en_list_count e' = Suc l"
proof (induction xs arbitrary: e rs)
  case (Cons x xs)
  have "seq_size (rs @ [(l, x)]) < 2 ^ 32" using Cons.prems(5) by (simp add: seq_size_def)
  from add_rule_rep [OF Cons.prems(1) _ Cons.prems(3,4) this] Cons.prems(2) obtain e1 where
    e1: "add_rule x e = Some e1" "eng_rep e1 (rs @ [(l, x)])" "en_list_count e1 = Suc l"
    using Cons.prems(3) by auto
  from Cons.IH [OF e1(2) _ e1(3) Cons.prems(4)] Cons.prems(2,5) e1(1) show ?case by simp
qed simp

lemma add_rules_append: "add_rules (xs @ ys) e = do { e' \<leftarrow> add_rules xs e; add_rules ys e' }"
  by (induction xs arbitrary: e) (auto split: Option.bind_splits)

section \<open>Parsed rules never make \<open>add_rule\<close> panic\<close>

lemma split_ws_aux_sub: "x \<in> set (split_ws_aux acc s) \<Longrightarrow> \<exists>a b. rev acc @ s = a @ x @ b"
proof (induction acc s rule: split_ws_aux.induct)
  case (1 acc)
  then show ?case by (auto split: if_splits intro: exI [of _ "[]"])
next
  case (2 acc c cs)
  show ?case
  proof (cases "ws_len (c # cs) = 0")
    case True
    with 2 show ?thesis by simp
  next
    case False
    with "2.prems" consider "x = rev acc" | "x \<in> set (split_ws_aux [] (drop (ws_len (c # cs)) (c # cs)))"
      by (auto simp: Let_def split: if_splits)
    then show ?thesis
    proof cases
      case 1
      then show ?thesis by (metis append_Nil)
    next
      case 2
      with "2.IH"(2) [OF refl False] obtain a b where "drop (ws_len (c # cs)) (c # cs) = a @ x @ b" by auto
      then have "rev acc @ c # cs = (rev acc @ take (ws_len (c # cs)) (c # cs) @ a) @ x @ b"
        by (metis append.assoc append_take_drop_id)
      then show ?thesis by blast
    qed
  qed
qed

lemma split_ws_aux_later:
  "acc \<noteq> [] \<Longrightarrow> x \<in> set (drop 1 (split_ws_aux acc s)) \<Longrightarrow> \<exists>a b. s = a @ x @ b \<and> a \<noteq> []"
proof (induction acc s rule: split_ws_aux.induct)
  case (2 acc c cs)
  show ?case
  proof (cases "ws_len (c # cs) = 0")
    case True
    with 2 obtain a b where "cs = a @ x @ b" by auto
    then show ?thesis by (metis append_Cons list.distinct(1))
  next
    case False
    with "2.prems" have "x \<in> set (split_ws_aux [] (drop (ws_len (c # cs)) (c # cs)))" by (simp add: Let_def)
    from split_ws_aux_sub [OF this] obtain a b where "drop (ws_len (c # cs)) (c # cs) = a @ x @ b" by auto
    then have "c # cs = (take (ws_len (c # cs)) (c # cs) @ a) @ x @ b" by (metis append.assoc append_take_drop_id)
    moreover have "take (ws_len (c # cs)) (c # cs) \<noteq> []" using False by simp
    ultimately show ?thesis by (metis append_is_Nil_conv)
  qed
qed simp

abbreviation plain :: "string \<Rightarrow> bool" where
  "plain p \<equiv> \<forall>c \<in> set p. 33 \<le> byte c \<and> byte c < 128"

lemma split_ws_aux_plain_prefix: "plain p \<Longrightarrow> split_ws_aux acc (p @ s) = split_ws_aux (rev p @ acc) s"
  by (induction p arbitrary: acc) (auto simp: ws_len_plain Let_def)

lemma trim_end_prefix: "\<exists>k. trim_end s = take k s"
proof (induction s rule: trim_end.induct)
  case (1 s)
  show ?case
  proof (cases "ws_len_end s = 0 \<or> s = []")
    case True
    then show ?thesis by (subst trim_end.simps) (auto intro: exI [of _ "length s"])
  next
    case False
    from "1" [OF False] obtain k where "trim_end (take (length s - ws_len_end s) s) = take k (take (length s - ws_len_end s) s)" by blast
    with False show ?thesis by (subst trim_end.simps) (auto simp: min_def)
  qed
qed

lemma hosts_names_later:
  assumes p: "plain p" "p \<noteq> []" "CHR ''#'' \<notin> set p" and x: "x \<in> set (hosts_names (p @ d))"
  shows "\<exists>a b. d = a @ x @ b \<and> a \<noteq> []"
proof -
  obtain d1 d2 where d1: "hd (split_on CHR ''#'' (p @ d)) = p @ d1" "d = d1 @ d2"
  proof (cases "find_char CHR ''#'' d")
    case None
    then have "CHR ''#'' \<notin> set (p @ d)" using p(3) by simp
    then show ?thesis using that [of d "[]"] by (simp add: split_on_no)
  next
    case (Some i)
    from find_char_Some [OF this] have d: "d = take i d @ CHR ''#'' # drop (Suc i) d" "CHR ''#'' \<notin> set (take i d)" by auto
    have "split_on CHR ''#'' ((p @ take i d) @ CHR ''#'' # drop (Suc i) d) = split_on CHR ''#'' (p @ take i d) @ split_on CHR ''#'' (drop (Suc i) d)"
      by (rule split_on_append)
    also have "split_on CHR ''#'' (p @ take i d) = [p @ take i d]" using p(3) d(2) by (intro split_on_no) simp
    finally have "hd (split_on CHR ''#'' (p @ d)) = p @ take i d" using d(1) by simp
    then show ?thesis using that [of "take i d" "CHR ''#'' # drop (Suc i) d"] d(1) by simp
  qed
  have "ws_len (p @ d1) = 0" using p by (cases p) (auto simp: ws_len_plain)
  then have "trim_start (p @ d1) = p @ d1" by (subst trim_start.simps) simp
  then obtain k where k: "trim (hd (split_on CHR ''#'' (p @ d))) = take k (p @ d1)"
    using trim_end_prefix [of "p @ d1"] by (auto simp: trim_def d1(1))
  with x have x': "x \<in> set (drop 1 (split_ws_aux [] (take k p @ take (k - length p) d1)))"
    by (simp add: hosts_names_def split_whitespace_def)
  have kp: "plain (take k p)" using p(1) by (auto dest: in_set_takeD)
  show ?thesis
  proof (cases "k < length p")
    case True
    then have "x \<in> set (drop 1 (split_ws_aux [] (take k p @ [])))" using x' by simp
    then have "x \<in> set (drop 1 (split_ws_aux (rev (take k p)) []))" using kp by (simp add: split_ws_aux_plain_prefix del: append_Nil2)
    then show ?thesis by (simp split: if_splits)
  next
    case False
    then have "x \<in> set (drop 1 (split_ws_aux (rev p) (take (k - length p) d1)))"
      using x' p(1) by (simp add: split_ws_aux_plain_prefix)
    from split_ws_aux_later [OF _ this] p(2) obtain a b where "take (k - length p) d1 = a @ x @ b" "a \<noteq> []" by auto
    then have "d = a @ x @ (b @ drop (k - length p) d1 @ d2)" using d1(2)
      by (metis append.assoc append_take_drop_id)
    then show ?thesis using \<open>a \<noteq> []\<close> by blast
  qed
qed

lemma length_lower_strip: "length (lower_strip s) \<le> length s" "length s \<le> Suc (length (lower_strip s))"
  by (auto simp: lower_strip_alt strip_suffix_Some split: option.splits)

lemma ascii_lower_byte: "byte (ascii_lower c) < 128 \<Longrightarrow> byte c < 128"
  by (auto simp: ascii_lower_def is_ascii_uppercase_def split: if_splits)

lemma lower_strip_hd:
  assumes "lower_strip s \<noteq> []" "\<And>c. c \<in> set (lower_strip s) \<Longrightarrow> byte c < 128"
  shows "s \<noteq> [] \<and> byte (hd s) < 128"
proof -
  have "ascii_lower (hd s) \<in> set (lower_strip s) \<and> s \<noteq> []"
  proof (cases "strip_suffix ''.'' s")
    case None
    with assms(1) show ?thesis by (cases s) (auto simp: lower_strip_alt to_ascii_lowercase_def)
  next
    case (Some r)
    then have "s = r @ ''.''" by (simp add: strip_suffix_Some)
    with Some assms(1) show ?thesis by (cases r) (auto simp: lower_strip_alt to_ascii_lowercase_def)
  qed
  then show ?thesis using assms(2) ascii_lower_byte by blast
qed


lemma starts_char_ascii: "s \<noteq> [] \<Longrightarrow> byte (hd s) < 128 \<Longrightarrow> starts_char s"
  by (simp add: starts_char_def is_cont_def)

lemma split_ws_aux_first:
  "acc \<noteq> [] \<Longrightarrow> \<exists>x xs. split_ws_aux acc s = x # xs \<and> prefix (rev acc) x"
proof (induction acc s rule: split_ws_aux.induct)
  case (2 acc c cs)
  show ?case
  proof (cases "ws_len (c # cs) = 0")
    case True
    from "2.IH"(1) [OF refl True] True show ?thesis by (auto dest: append_prefixD)
  next
    case False
    with "2.prems" show ?thesis by (simp add: Let_def)
  qed
qed simp

lemma hosts_ip_starts_char:
  assumes "hosts_ip line = Some ip"
  shows "starts_char line"
proof (cases line)
  case (Cons c cs)
  show ?thesis
  proof (cases "ws_len line = 0")
    case False
    then have "\<not> is_cont c"
      by (auto simp: Cons ws_len_def is_cont_def split: list.splits if_splits)
    then show ?thesis by (simp add: starts_char_def Cons)
  next
    case True
    from split_ws_aux_first [of "[c]" cs] obtain x xs where x: "split_whitespace line = (c # x) # xs"
      using True by (auto simp: split_whitespace_def Cons prefix_def)
    from assms have p: "parse_ip_addr (hd (split_on CHR ''%'' (c # x))) = Some ip" by (simp add: hosts_ip_def x)
    have e: "parse_ip_addr [] = None" by code_simp
    then have "c \<noteq> CHR ''%''" using p by auto
    then have "hd (split_on CHR ''%'' (c # x)) = c # hd (split_on CHR ''%'' x)"
      by (simp add: split_on_Cons del: split_on.simps)
    with p have "to_digit 16 c \<noteq> None \<or> c = CHR '':''" using parse_ip_addr_nondigit by (metis option.distinct(1))
    then have "byte c < 128" by (auto simp: to_digit_def Let_def split: if_splits option.splits)
    then show ?thesis by (simp add: starts_char_def is_cont_def Cons)
  qed
qed (simp add: starts_char_def)

lemma exact_form_total:
  assumes "\<And>t. b = ''0.0.0.0'' @ t \<Longrightarrow> \<not> ex \<Longrightarrow> length t = Suc (length d) \<Longrightarrow> is_char_boundary t 1"
  shows "exact_form ex b d \<noteq> None"
proof (cases "strip_prefix ''0.0.0.0'' b")
  case None
  then show ?thesis by (simp add: exact_form_def)
next
  case (Some t)
  then have b: "b = ''0.0.0.0'' @ t" by (simp add: strip_prefix_Some)
  show ?thesis
  proof (cases "\<not> ex \<and> length t = Suc (length d)")
    case True
    with assms [OF b] have "slice_from t 1 = Some (drop 1 t)" by (simp add: slice_from_def)
    moreover have "7 < length b" using True by (simp add: b)
    ultimately show ?thesis using Some by (simp add: exact_form_def)
  next
    case False
    with Some show ?thesis by (auto simp: exact_form_def)
  qed
qed

lemma plain_zero: "plain ''0.0.0.0''" "CHR ''#'' \<notin> set ''0.0.0.0''"
  by simp_all

lemma emit_hosts_names:
  assumes r: "r \<in> set (fst (emit_hosts line n names))"
  shows "\<exists>x \<in> set names. \<exists>d. rr_pattern r = PExact d \<and> d = lower_strip x \<and> domain_wf d"
  using assms
  by (induction line n names rule: emit_hosts.induct)
     (auto split: prod.splits option.splits simp: normalize_domain_Some)

lemma domain_wf_byte: "domain_wf d \<Longrightarrow> c \<in> set d \<Longrightarrow> byte c < 128"
  using domain_plain by blast

lemma hosts_boundary:
  assumes x: "x \<in> set (hosts_names (''0.0.0.0'' @ t))" and d: "d = lower_strip x" "domain_wf d"
    and l: "length t = Suc (length d)"
  shows "is_char_boundary t 1"
proof -
  have "\<exists>a b. t = a @ x @ b \<and> a \<noteq> []"
    by (rule hosts_names_later [OF plain_zero(1) _ plain_zero(2) x]) simp
  then obtain a b where t: "t = a @ x @ b" "a \<noteq> []" by blast
  have x': "x \<noteq> [] \<and> byte (hd x) < 128"
    by (rule lower_strip_hd) (use d domain_wf_byte in \<open>auto simp: domain_wf_def\<close>)
  have "length t = length a + length x + length b" using t(1) by simp
  then have "length a \<le> 1" using l length_lower_strip(1) [of x] by (simp add: d(1))
  with t(2) obtain w where "a = [w]" by (cases a) auto
  with t x' show ?thesis by (cases x) (auto simp: is_char_boundary_def)
qed

lemma strip_prefix_case: "(case strip_prefix p s of Some r \<Rightarrow> (x, r) | None \<Rightarrow> (y, s)) = (a, b) \<Longrightarrow>
    (a = x \<and> s = p @ b) \<or> (a = y \<and> s = b)"
  by (auto simp: strip_prefix_Some split: option.splits)

text \<open>The shape of a line that the plain syntax accepts.\<close>

lemma parse_line_plain_shape:
  assumes h: "hosts_ip line = None" and r: "r \<in> set (fst (parse_line line n))"
  shows "\<exists>pre bar rest suf. line = pre @ bar @ rest @ suf
    \<and> (rr_action r = ActExcept \<and> pre = ''@@'' \<or> rr_action r = ActBlock \<and> pre = [])
    \<and> (bar = [] \<or> bar = ''||'') \<and> (suf = [] \<or> suf = ''^'')
    \<and> (rr_pattern r = PWildcard (lower_strip rest) (bar \<noteq> []) \<or> rr_pattern r = PSubtree (lower_strip rest)
        \<or> bar = [] \<and> rr_pattern r = PExact (lower_strip rest))"
proof -
  define A where "A = (case strip_prefix ''@@'' line of Some rest \<Rightarrow> (ActExcept, rest) | None \<Rightarrow> (ActBlock, line))"
  obtain act r1 where A: "A = (act, r1)" by force
  define B where "B = (case strip_prefix ''||'' r1 of Some rest \<Rightarrow> (True, rest) | None \<Rightarrow> (False, r1))"
  obtain sub r2 where B: "B = (sub, r2)" by force
  define rest where "rest = (case strip_suffix ''^'' r2 of Some r \<Rightarrow> r | None \<Rightarrow> r2)"
  have a: "(act = ActExcept \<and> line = ''@@'' @ r1) \<or> (act = ActBlock \<and> line = r1)"
    by (rule strip_prefix_case) (use A in \<open>simp add: A_def\<close>)
  have b: "(sub \<and> r1 = ''||'' @ r2) \<or> (\<not> sub \<and> r1 = r2)"
    using strip_prefix_case [OF B [unfolded B_def]] by auto
  have c: "r2 = rest @ ''^'' \<or> r2 = rest"
    by (auto simp: rest_def strip_suffix_Some split: option.splits)
  have p: "rr_action r = act \<and> (rr_pattern r = PWildcard (lower_strip rest) sub
      \<or> rr_pattern r = (if sub then PSubtree (lower_strip rest) else PExact (lower_strip rest)))"
    using r unfolding parse_line_def h option.case A_def [symmetric] A prod.case B_def [symmetric] B
      rest_def [symmetric] Let_def
    by (auto simp: normalize_domain_Some normalize_wildcard_Some split: if_splits option.splits)
  show ?thesis
    by (rule exI [of _ "if act = ActExcept then ''@@'' else []"], rule exI [of _ "if sub then ''||'' else []"],
        rule exI [of _ rest], rule exI [of _ "if r2 = rest then [] else ''^''"])
       (use a b c p in auto)
qed

lemma pattern_ascii:
  assumes "pattern_wf p" "p = PWildcard s b \<or> p = PSubtree s \<or> p = PExact s"
  shows "s \<noteq> [] \<and> (\<forall>c \<in> set s. byte c < 128)"
proof -
  have "byte c < 128" if "domain_char c \<or> c = CHR ''.'' \<or> c = CHR ''*''" for c
    using that domain_char_byte [of c] by auto
  then have w: "wildcard_wf s \<Longrightarrow> ?thesis" by (auto simp: wildcard_wf_def list_all_iff)
  have d: "domain_wf s \<Longrightarrow> ?thesis" using domain_wf_byte by (auto simp: domain_wf_def)
  show ?thesis using assms w d by (elim disjE) simp_all
qed

lemma parse_line_rule_ok:
  assumes r: "r \<in> set (fst (parse_line line n))"
  shows "rule_ok r"
proof (cases "hosts_ip line")
  case (Some ip)
  from r Some have e: "r \<in> set (fst (emit_hosts line n (hosts_names line)))"
    by (auto simp: parse_line_def parse_hosts_line_def Let_def split: if_splits)
  from emit_hosts_rules [OF e] have p: "pattern_wf (rr_pattern r)" "rr_text r = line" "rr_action r = ActBlock" by auto
  from emit_hosts_names [OF e] obtain x d where x: "x \<in> set (hosts_names line)" "rr_pattern r = PExact d"
    "d = lower_strip x" "domain_wf d" by auto
  have "exact_form False line d \<noteq> None"
    by (rule exact_form_total) (use hosts_boundary x in blast)
  with p x hosts_ip_starts_char [OF Some] show ?thesis by (simp add: rule_ok_def rule_body_def)
next
  case None
  have pw: "pattern_wf (rr_pattern r)" "rr_text r = line" using parse_line_rules [OF r] by auto
  from parse_line_plain_shape [OF None r] obtain pre bar rest suf where line: "line = pre @ bar @ rest @ suf"
    and pre: "rr_action r = ActExcept \<and> pre = ''@@'' \<or> rr_action r = ActBlock \<and> pre = []"
    and bar: "bar = [] \<or> bar = ''||''" and suf: "suf = [] \<or> suf = ''^''"
    and pat: "rr_pattern r = PWildcard (lower_strip rest) (bar \<noteq> []) \<or> rr_pattern r = PSubtree (lower_strip rest)
        \<or> bar = [] \<and> rr_pattern r = PExact (lower_strip rest)" by blast
  have rest: "rest \<noteq> [] \<and> byte (hd rest) < 128"
    by (rule lower_strip_hd) (use pattern_ascii [OF pw(1)] pat in blast)+
  have s: "starts_char line"
    by (rule starts_char_ascii) (use rest pre bar in \<open>auto simp: line\<close>)
  have "exact_form (rr_action r = ActExcept) (rule_body r) d \<noteq> None" if d: "rr_pattern r = PExact d" for d
  proof (rule exact_form_total)
    fix t
    assume t: "rule_body r = ''0.0.0.0'' @ t" "rr_action r \<noteq> ActExcept" "length t = Suc (length d)"
    then have "line = ''0.0.0.0'' @ t" by (simp add: rule_body_def pw(2))
    moreover have "line = rest @ suf" "d = lower_strip rest" using pre bar pat d t(2) by (auto simp: line)
    ultimately have "length rest + length suf = 8 + length d" "length suf \<le> 1" "length rest \<le> Suc (length d)"
      using t(3) suf length_lower_strip(2) [of rest] by (auto dest: arg_cong [of _ _ length])
    then show "is_char_boundary t 1" by simp
  qed
  moreover have "rr_action r = ActExcept \<longrightarrow> starts_with ''@@'' line" using pre by (auto simp: line starts_with_iff)
  ultimately show ?thesis using pw s by (simp add: rule_ok_def)
qed

lemma streamed_rule_ok: "r \<in> set (fst (parse_list_streamed s)) \<Longrightarrow> rule_ok r"
proof -
  assume "r \<in> set (fst (parse_list_streamed s))"
  then have "r \<in> set (concat (map (\<lambda>(i, raw). fst (line_out i raw)) (enumerate 0 (lines s))))"
    by (simp add: parse_list_streamed_def parse_lines_concat)
  then obtain i where "r \<in> set (fst (line_out i (lines s ! i)))"
    unfolding in_concat_enumerate by blast
  then show ?thesis
    by (auto simp: line_out_def case_prod_beta dest: parse_line_rule_ok split: if_splits)
qed

section \<open>From list texts to verdicts\<close>

text \<open>The loop of a caller that adds several texts, and the rules they hold with their list
  indexes.\<close>

fun add_texts :: "string list \<Rightarrow> engine \<Rightarrow> engine option" where
  "add_texts [] e = Some e"
| "add_texts (t # ts) e = do { (_, e') \<leftarrow> add_list_text t e; add_texts ts e' }"

definition compile :: "sorter \<Rightarrow> string list \<Rightarrow> engine option" where
  "compile srt texts = do { e \<leftarrow> add_texts texts engine_default; build srt e }"

definition rules_of :: "string list \<Rightarrow> rule_seq" where
  "rules_of texts =
     concat (map (\<lambda>(i, t). map (Pair i) (fst (parse_list_streamed t))) (enumerate 0 texts))"

lemma rules_of_snoc: "rules_of (ts @ [t]) = rules_of ts @ map (Pair (length ts)) (fst (parse_list_streamed t))"
  by (simp add: rules_of_def enumerate_snoc)

lemma rules_of_ok: "(l, r) \<in> set (rules_of texts) \<Longrightarrow> rule_ok r"
  by (auto simp: rules_of_def dest: streamed_rule_ok)

lemma add_texts_snoc: "add_texts (ts @ [t]) e = do { e1 \<leftarrow> add_texts ts e; (_, e2) \<leftarrow> add_list_text t e1; Some e2 }"
  by (induction ts arbitrary: e) (auto split: Option.bind_splits)

lemma eng_rep_list_count: "eng_rep (e\<lparr>en_list_count := n\<rparr>) rs \<longleftrightarrow> eng_rep e rs"
  by (simp add: eng_rep_def buckets_ok_def cong: option.case_cong)

lemma seq_size_append: "seq_size (a @ b) = seq_size a + seq_size b"
  by (simp add: seq_size_def)

lemma add_list_text_rep:
  assumes rep: "eng_rep e rs" and l: "en_list_count e < 2 ^ 16"
    and sz: "seq_size (rs @ map (Pair (en_list_count e)) (fst (parse_list_streamed t))) < 2 ^ 32"
  shows "\<exists>e'. add_list_text t e = Some (\<lparr>al_index = en_list_count e,
        al_rules = length (fst (parse_list_streamed t)), al_issues = snd (parse_list_streamed t)\<rparr>, e')
    \<and> eng_rep e' (rs @ map (Pair (en_list_count e)) (fst (parse_list_streamed t)))
    \<and> en_list_count e' = Suc (en_list_count e)"
proof -
  let ?e = "e\<lparr>en_list_count := Suc (en_list_count e)\<rparr>"
  have b: "begin_list e = Some (en_list_count e, ?e)" using l by (simp add: begin_list_def try_u16_def)
  have "\<exists>e'. add_rules (fst (parse_list_streamed t)) ?e = Some e' \<and>
      eng_rep e' (rs @ map (Pair (en_list_count e)) (fst (parse_list_streamed t))) \<and> en_list_count e' = Suc (en_list_count e)"
    by (rule add_rules_rep) (use rep l sz streamed_rule_ok in \<open>auto simp: eng_rep_list_count\<close>)
  then show ?thesis by (auto simp: add_list_text_def b case_prod_beta)
qed

lemma add_texts_rep:
  "length texts \<le> 2 ^ 16 \<Longrightarrow> seq_size (rules_of texts) < 2 ^ 32 \<Longrightarrow>
     \<exists>e. add_texts texts engine_default = Some e \<and> eng_rep e (rules_of texts) \<and> en_list_count e = length texts"
proof (induction texts rule: rev_induct)
  case Nil
  then show ?case using engine_default_rep by (simp add: rules_of_def) (simp add: engine_default_def)
next
  case (snoc t ts)
  have "seq_size (rules_of ts) < 2 ^ 32" using snoc.prems(2) by (simp add: rules_of_snoc seq_size_append)
  with snoc obtain e where e: "add_texts ts engine_default = Some e" "eng_rep e (rules_of ts)" "en_list_count e = length ts"
    by auto
  from add_list_text_rep [OF e(2), of t] snoc.prems e(1,3) show ?case
    by (auto simp: add_texts_snoc rules_of_snoc)
qed

lemma compile_built:
  assumes "sort_ok srt" "length texts \<le> 2 ^ 16" "seq_size (rules_of texts) < 2 ^ 32"
  shows "\<exists>e. compile srt texts = Some e \<and> eng_built e (rules_of texts) \<and> en_list_count e = length texts"
proof -
  from add_texts_rep [OF assms(2,3)] obtain e where
    e: "add_texts texts engine_default = Some e" "eng_rep e (rules_of texts)" "en_list_count e = length texts" by auto
  from engine_finish_built [OF assms(1) e(2) assms(3)] e show ?thesis by (auto simp: compile_def build_def)
qed

lemma sort_ok_sort_key: "sort_ok (\<lambda>f xs. sort_key f xs)"
  by (simp add: sort_ok_def)

section \<open>Properties\<close>



text \<open>Two final dots make \<open>reverse_labels_into\<close> drop the empty last label, so a subtree rule
  matches a name the reference does not.\<close>
theorem verdict_double_dot:
  "do { e \<leftarrow> compile (\<lambda>f xs. sort_key f xs) [''||com^'']; v \<leftarrow> verdict e ''com..''; Some (kind_of v) } = Some KBlock
    \<and> naive_verdict (map snd (rules_of [''||com^''])) ''com..'' = KNoMatch"
  by code_simp

text \<open>Letter case and one final dot do not change a verdict, and a name that is empty or longer
  than 253 bytes after that matches nothing.\<close>
theorem verdict_name_normal:
  "verdict e (to_ascii_lowercase name) = verdict e name
   \<and> (\<not> ends_with ''.'' name \<longrightarrow> verdict e (name @ ''.'') = verdict e name)
   \<and> (length name > 254 \<longrightarrow> verdict e name = Some NoMatch)"
proof (intro conjI impI)
  show "verdict e (to_ascii_lowercase name) = verdict e name"
    by (simp add: verdict_def query_name_alt cong: option.case_cong)
  show "verdict e (name @ ''.'') = verdict e name" if "\<not> ends_with ''.'' name"
  proof -
    have "\<not> ends_with ''.'' (to_ascii_lowercase name)"
      using that lower_snoc_dot by (fastforce simp: ends_with_iff)
    moreover have "to_ascii_lowercase (name @ ''.'') = to_ascii_lowercase name @ ''.''"
      by (simp add: to_ascii_lowercase_def ascii_lower_def is_ascii_uppercase_def)
    ultimately have "query_name (name @ ''.'') = query_name name"
      by (simp add: query_name_alt strip_suffix_None [symmetric])
    then show ?thesis by (simp add: verdict_def)
  qed
  show "verdict e name = Some NoMatch" if "length name > 254"
  proof -
    have "length name \<le> Suc (length (query_name name))"
      unfolding query_name_alt by (cases "strip_suffix ''.'' (to_ascii_lowercase name)")
        (auto simp: strip_suffix_Some dest: arg_cong [of _ _ length])
    with that show ?thesis by (simp add: verdict_def Let_def)
  qed
qed

theorem verdict_name_normal_witness:
  "verdict engine_default ''a.com.'' = verdict engine_default ''a.com''"
proof -
  have "\<not> ends_with ''.'' ''a.com''" by code_simp
  with verdict_name_normal [of engine_default "''a.com''"] show ?thesis by simp
qed

text \<open>Adding a text gives the list the next index, adds exactly the rules \<open>parse_list\<close> finds, and
  reports its issues; the rule count of the engine grows by that number.\<close>
theorem add_list_text_counts:
  assumes "compile srt (ts @ [t]) = Some e" and "sort_ok srt" and "length (ts @ [t]) \<le> 2 ^ 16"
    and "seq_size (rules_of (ts @ [t])) < 2 ^ 32"
  shows "list_count e = Suc (length ts)
    \<and> rule_count e = length (rules_of ts) + lc_rules (count_rules t)
    \<and> (\<exists>e1 a e2. add_texts ts engine_default = Some e1 \<and> add_list_text t e1 = Some (a, e2)
         \<and> al_index a = length ts \<and> al_rules a = length (pl_rules (parse_list t))
         \<and> al_issues a = pl_issues (parse_list t))"
proof -
  from compile_built [OF assms(2-4)] assms(1) have b: "eng_built e (rules_of (ts @ [t]))" "en_list_count e = Suc (length ts)" by auto
  then have "rule_count e = length (rules_of (ts @ [t]))"
    by (simp add: rule_count_def store_len_def eng_built_def store_rep_def)
  then have 1: "rule_count e = length (rules_of ts) + lc_rules (count_rules t)"
    by (simp add: rules_of_snoc count_rules_def case_prod_beta)
  have "length ts \<le> 2 ^ 16" "seq_size (rules_of ts) < 2 ^ 32"
    using assms(3,4) by (simp_all add: rules_of_snoc seq_size_append)
  from add_texts_rep [OF this] obtain e1 where
    e1: "add_texts ts engine_default = Some e1" "eng_rep e1 (rules_of ts)" "en_list_count e1 = length ts" by auto
  from add_list_text_rep [OF e1(2), of t] e1(3) assms(3,4)
  have "\<exists>a e2. add_list_text t e1 = Some (a, e2) \<and> al_index a = length ts \<and> al_rules a = length (pl_rules (parse_list t))
      \<and> al_issues a = pl_issues (parse_list t)"
    by (auto simp: rules_of_snoc parse_list_def case_prod_beta)
  with 1 b e1(1) show ?thesis by (auto simp: list_count_def)
qed

theorem add_list_text_counts_witness:
  "\<exists>e. compile (\<lambda>f xs. sort_key f xs) ([] @ [''||ads.com^'']) = Some e \<and> rule_count e = 1"
proof -
  have 1: "length ([] @ [''||ads.com^'']) \<le> 2 ^ 16" by simp
  have 2: "seq_size (rules_of ([] @ [''||ads.com^''])) < 2 ^ 32" by code_simp
  from compile_built [OF sort_ok_sort_key 1 2] obtain e where
    e: "compile (\<lambda>f xs. sort_key f xs) ([] @ [''||ads.com^'']) = Some e" by auto
  have 3: "length (rules_of []) = 0" "lc_rules (count_rules ''||ads.com^'') = 1" by code_simp+
  from add_list_text_counts [OF e sort_ok_sort_key 1 2] 3 e show ?thesis by auto
qed

end
