(* ===== verification/Filter_Total.thy ===== *)
theory Filter_Total
  imports Filter_Correct
begin

text \<open>
  A built engine answers every name, the malformed ones included: no index of the search leaves
  its range.  This is what the request pipeline relies on; which answer it is for well-formed names
  is the subject of \<open>Filter_Correct\<close>.
\<close>

lemma rl_text_length: "length (rl_text acc ls) \<le> length acc + sum_list (map (\<lambda>l. Suc (length l)) ls)"
proof (induction acc ls rule: rl_text.induct)
  case (2 acc l ls)
  then show ?case by (auto split: if_splits)
qed simp

lemma split_on_length: "sum_list (map (\<lambda>l. Suc (length l)) (split_on d s)) = Suc (length s)"
  by (induction d s rule: split_on.induct) (auto split: list.splits)

lemma reverse_labels_total:
  assumes "length d \<le> 255"
  shows "\<exists>r. reverse_labels d = Some r"
proof -
  let ?buf = "replicate 256 (char_of (0::nat))"
  have "sum_list (map (\<lambda>l. Suc (length l)) (rev (labels d))) = Suc (length d)"
    using split_on_length [of "CHR ''.''" d] by (simp add: rev_map [symmetric])
  then have l: "length (rl_text [] (rev (labels d))) \<le> 256"
    using rl_text_length [of "[]" "rev (labels d)"] assms by simp
  then obtain w out where "rl_loop (rev (labels d)) 0 ?buf = Some (w, out)" "length out = 256"
      "w = length (rl_text [] (rev (labels d)))"
    using rl_loop_spec [of 0 ?buf "rev (labels d)"] by auto
  then show ?thesis using l by (simp add: reverse_labels_def reverse_labels_into_def slice_def)
qed

lemma search_total:
  assumes built: "eng_built e rs" and n: "length name \<le> 253"
  shows "\<exists>M h b. search e name = Some (h, b) \<and> search_res (is_exc rs) M None (h, b) \<and> M \<subseteq> {..<length rs}"
proof -
  have st: "store_rep (en_store e) rs" and bo: "buckets_ok e"
    using built by (simp_all add: eng_built_def)
  have "ki_ready (en_exact e)" "mset (ki_entries (en_exact e)) = mset (keyed exact_key rs)"
    using built by (auto simp: eng_built_def ki_ready_def)
  from kl.look_mset [OF this, of name] obtain ids where ids: "equal_range (en_exact e) name = Some ids"
    "\<And>i. i \<in> set ids \<Longrightarrow> i < length rs"
    by (auto simp: in_keyed)
  obtain revn where rv: "reverse_labels name = Some revn" using reverse_labels_total [of name] n by auto
  let ?S = "{i. i < length rs \<and> (\<exists>n \<in> set (boundaries revn). sub_key (rr_pattern (snd (rs ! i))) = Some (take n revn))}"
  let ?W = "{i. i < length rs \<and> (\<exists>x b. rr_pattern (snd (rs ! i)) = PWildcard x b \<and> wildcard_matches x name b)}"
  have 1: "\<exists>res. scan_ids (en_store e) ids None = Some res \<and> search_res (is_exc rs) (set ids) None res"
    using scan_ids_spec [OF st, of ids None] ids(2) by auto
  have 2: "\<exists>res. scan_ends e revn (boundaries revn) b = Some res \<and> search_res (is_exc rs) ?S b res" for b
    by (rule scan_ends_spec [OF built]) (auto simp: boundaries_def)
  have 3: "\<exists>res. (if en_wildcards e = [] then Some (None, b) else then_search (scan_buckets e name name b)
        (check_wildcards e name (en_wildcard_unanchored e))) = Some res \<and> search_res (is_exc rs) ?W b res" for b
  proof (cases "en_wildcards e = []")
    case True
    then have W: "?W = {}" using wild_hits_all [OF built, of name] by (simp add: wild_hits_def)
    have "search_res (is_exc rs) ?W b (None, b)" unfolding W by (rule search_res_empty)
    with True show ?thesis by simp
  next
    case False
    have "\<exists>res. check_wildcards e name (en_wildcard_unanchored e) b' = Some res \<and>
        search_res (is_exc rs) (wild_hits e name (set (en_wildcard_unanchored e))) b' res" for b'
      by (rule check_wildcards_spec [OF built]) (use bo in \<open>auto simp: buckets_ok_def\<close>)
    from then_search_spec [OF scan_buckets_spec [OF built, of name name b] this] False
    show ?thesis by (simp add: wild_hits_Un [symmetric] wild_hits_all [OF built])
  qed
  have "\<exists>res. search e name = Some res \<and> search_res (is_exc rs) (set ids \<union> (?S \<union> ?W)) None res"
    unfolding search_then ids(1) rv Option.bind.bind_lunit by (intro then_search_spec 1 2 3)
  moreover have "set ids \<union> (?S \<union> ?W) \<subseteq> {..<length rs}" using ids(2) by auto
  ultimately show ?thesis by (auto intro!: exI [of _ "set ids \<union> (?S \<union> ?W)"])
qed

lemma verdict_total:
  assumes built: "eng_built e rs" and ok: "\<forall>(l, r) \<in> set rs. rule_ok r"
  shows "\<exists>v. verdict e name = Some v"
proof (cases "query_name name = [] \<or> length (query_name name) > 253")
  case True
  then show ?thesis by (auto simp: verdict_def Let_def)
next
  case False
  from search_total [OF built, of "query_name name"] False obtain M h b where
    s: "search e (query_name name) = Some (h, b)" "search_res (is_exc rs) M None (h, b)" "M \<subseteq> {..<length rs}" by auto
  have m: "\<exists>l r. matched e i = Some (l, r)" if "i \<in> M" for i
  proof -
    have "i < length rs" using that s(3) by auto
    then show ?thesis using matched_spec [OF built, of i] ok nth_mem [of i rs] by (auto simp: case_prod_beta)
  qed
  have v: "verdict e name = (case h of Some rid \<Rightarrow> except e rid
      | None \<Rightarrow> (case b of Some rid \<Rightarrow> do { (list, rule) \<leftarrow> matched e rid; Some (Block list rule) } | None \<Rightarrow> Some NoMatch))"
    using False s(1) by (auto simp: verdict_def Let_def)
  show ?thesis
  proof (cases h)
    case (Some i)
    then have "i \<in> M" using s(2) by (simp add: search_res_def)
    then show ?thesis using m [of i] v Some by (auto simp: except_def)
  next
    case None
    show ?thesis
    proof (cases b)
      case (Some i)
      then have "i \<in> M" using s(2) None by (simp add: search_res_def)
      then show ?thesis using m [of i] v None Some by auto
    qed (use v None in simp)
  qed
qed

end
