(* ===== verification/Dns_Message.thy ===== *)
theory Dns_Message
  imports Prelude
begin

text \<open>
  The data of \<open>hickory_proto\<close> that the program reads and writes: a message with its header, its
  question and record sections and its EDNS part.  Only the public fields the sources name are here;
  what they carry along unread is kept in \<open>RData_Other\<close> and \<open>ed_rest\<close>.  A domain name is a
  value of the type variable \<open>'n\<close>, whose equality is \<open>Name\<close>'s own, so nothing is assumed of
  names; conversions of names are arguments of the definitions that use them.  Record types and
  classes are their numbers.
\<close>

datatype response_code =
  NoError | FormErr | ServFail | NXDomain | NotImp | Refused | RcOther nat

datatype message_type = MQuery | MResponse

datatype op_code = OpQuery | OpOther nat

record metadata =
  md_id :: nat
  md_message_type :: message_type
  md_op_code :: op_code
  md_authoritative :: bool
  md_truncation :: bool
  md_recursion_desired :: bool
  md_recursion_available :: bool
  md_authentic_data :: bool
  md_checking_disabled :: bool
  md_response_code :: response_code

record 'n dns_query =
  dq_name :: 'n
  dq_type :: nat
  dq_class :: nat

record 'n soa =
  soa_mname :: 'n
  soa_rname :: 'n
  soa_serial :: nat
  soa_refresh :: int
  soa_retry :: int
  soa_expire :: int
  soa_minimum :: nat

datatype 'n rdata =
    RData_A "nat list"
  | RData_AAAA "nat list"
  | RData_CNAME 'n
  | RData_SOA "'n soa"
  | RData_Other nat string

record 'n dns_record =
  dr_name :: 'n
  dr_class :: nat
  dr_ttl :: nat
  dr_data :: "'n rdata"

record edns =
  ed_max_payload :: nat
  ed_dnssec_ok :: bool
  ed_rest :: string

record 'n message =
  ms_metadata :: metadata
  ms_queries :: "'n dns_query list"
  ms_answers :: "'n dns_record list"
  ms_authorities :: "'n dns_record list"
  ms_additionals :: "'n dns_record list"
  ms_edns :: "edns option"

text \<open>\<open>Message::new(id, type, op)\<close>: every flag clear, \<open>NOERROR\<close>, empty sections.\<close>

definition new_message :: "nat \<Rightarrow> message_type \<Rightarrow> op_code \<Rightarrow> 'n message" where
  "new_message i ty op =
     \<lparr>ms_metadata = \<lparr>md_id = i, md_message_type = ty, md_op_code = op, md_authoritative = False,
        md_truncation = False, md_recursion_desired = False, md_recursion_available = False,
        md_authentic_data = False, md_checking_disabled = False, md_response_code = NoError\<rparr>,
      ms_queries = [], ms_answers = [], ms_authorities = [], ms_additionals = [], ms_edns = None\<rparr>"

definition add_query :: "'n dns_query \<Rightarrow> 'n message \<Rightarrow> 'n message" where
  "add_query q m = m\<lparr>ms_queries := ms_queries m @ [q]\<rparr>"

definition add_answer :: "'n dns_record \<Rightarrow> 'n message \<Rightarrow> 'n message" where
  "add_answer r m = m\<lparr>ms_answers := ms_answers m @ [r]\<rparr>"

definition add_authority :: "'n dns_record \<Rightarrow> 'n message \<Rightarrow> 'n message" where
  "add_authority r m = m\<lparr>ms_authorities := ms_authorities m @ [r]\<rparr>"

abbreviation rcode :: "'n message \<Rightarrow> response_code" where
  "rcode m \<equiv> md_response_code (ms_metadata m)"

definition set_rcode :: "response_code \<Rightarrow> 'n message \<Rightarrow> 'n message" where
  "set_rcode c m = m\<lparr>ms_metadata := (ms_metadata m)\<lparr>md_response_code := c\<rparr>\<rparr>"

text \<open>\<open>u16::from(ResponseCode)\<close>\<close>

fun rcode_num :: "response_code \<Rightarrow> nat" where
  "rcode_num NoError = 0"
| "rcode_num FormErr = 1"
| "rcode_num ServFail = 2"
| "rcode_num NXDomain = 3"
| "rcode_num NotImp = 4"
| "rcode_num Refused = 5"
| "rcode_num (RcOther n) = n"

end
