(* ===== verification/Cache_Correct.thy ===== *)
theory Cache_Correct
  imports Cache
begin

text \<open>
  Correctness of the response cache.  The slot vector holds a doubly linked list (\<open>dl\<close>) and a
  free list (\<open>fl\<close>); \<open>cache_inv\<close> ties them to the map and the byte account, \<open>cache_rep\<close>
  reads the structure as a list of entries, most recent first.  The locale \<open>lru_store\<close> is what a
  client may rely on, interpreted on \<open>insert_entry\<close>.
\<close>

section \<open>Linked lists in the slot vector\<close>

definition hd_or :: "nat list \<Rightarrow> nat" where
  "hd_or xs = (case xs of [] \<Rightarrow> NONE | x # _ \<Rightarrow> x)"

definition last_or :: "nat list \<Rightarrow> nat" where
  "last_or xs = (if xs = [] then NONE else last xs)"

lemma hd_or_Nil [simp]: "hd_or [] = NONE" and last_or_Nil [simp]: "last_or [] = NONE"
  by (simp_all add: hd_or_def last_or_def)

text \<open>\<open>dl s p xs n\<close>: the slots \<open>xs\<close> are occupied and linked both ways, with \<open>p\<close> before and \<open>n\<close>
  after them; \<open>fl s fs\<close>: the slots \<open>fs\<close> are free and chained.\<close>

fun dl :: "('k, 'n) slot list \<Rightarrow> nat \<Rightarrow> nat list \<Rightarrow> nat \<Rightarrow> bool" where
  "dl s p [] n \<longleftrightarrow> True"
| "dl s p (i # is) n \<longleftrightarrow>
     i < length s \<and> (\<exists>nd. s ! i = Occupied nd \<and> nd_prev nd = p
        \<and> nd_next nd = (case is of [] \<Rightarrow> n | j # _ \<Rightarrow> j))
     \<and> dl s i is n"

fun fl :: "('k, 'n) slot list \<Rightarrow> nat list \<Rightarrow> bool" where
  "fl s [] \<longleftrightarrow> True"
| "fl s (i # is) \<longleftrightarrow> i < length s \<and> s ! i = Free (hd_or is) \<and> fl s is"

text \<open>What a slot stores besides its links.\<close>

definition pay :: "('k, 'n) slot list \<Rightarrow> nat \<Rightarrow> ('k \<times> 'n entry \<times> nat) option" where
  "pay s i = (case s ! i of Occupied nd \<Rightarrow> Some (nd_key nd, nd_entry nd, nd_bytes nd) | Free _ \<Rightarrow> None)"

definition links :: "('k, 'n) inner \<Rightarrow> nat list \<Rightarrow> bool" where
  "links c xs \<longleftrightarrow> dl (in_slots c) NONE xs NONE \<and> distinct xs \<and> NONE \<notin> set xs
     \<and> in_head c = hd_or xs \<and> in_tail c = last_or xs"

text \<open>\<open>relinked I c c'\<close>: only links of the slots \<open>I\<close> and the ends of the list differ.\<close>

definition relinked :: "nat set \<Rightarrow> ('k, 'n) inner \<Rightarrow> ('k, 'n) inner \<Rightarrow> bool" where
  "relinked I c c' \<longleftrightarrow>
     length (in_slots c') = length (in_slots c) \<and> (\<forall>j. j \<notin> I \<longrightarrow> in_slots c' ! j = in_slots c ! j)
     \<and> (\<forall>j. pay (in_slots c') j = pay (in_slots c) j)
     \<and> c' = c\<lparr>in_slots := in_slots c', in_head := in_head c', in_tail := in_tail c'\<rparr>"

lemma dl_append:
  "dl s p (as @ bs) n \<longleftrightarrow> dl s p as (case bs of [] \<Rightarrow> n | b # _ \<Rightarrow> b) \<and> dl s (if as = [] then p else last as) bs n"
proof (induction as arbitrary: p)
  case (Cons a as)
  show ?case
  proof (cases as)
    case Nil
    then show ?thesis by (cases bs) auto
  next
    case (Cons b cs)
    then show ?thesis using Cons.IH [of a] by (auto split: list.splits)
  qed
qed simp

lemma dl_frame: "dl s p xs n \<Longrightarrow> length s' = length s \<Longrightarrow> (\<And>j. j \<in> set xs \<Longrightarrow> s' ! j = s ! j) \<Longrightarrow> dl s' p xs n"
  by (induction s p xs n rule: dl.induct) auto

lemma dl_bound: "dl s p xs n \<Longrightarrow> i \<in> set xs \<Longrightarrow> i < length s \<and> (\<exists>nd. s ! i = Occupied nd)"
  by (induction s p xs n rule: dl.induct) auto

lemma fl_frame: "fl s xs \<Longrightarrow> length s' = length s \<Longrightarrow> (\<And>j. j \<in> set xs \<Longrightarrow> s' ! j = s ! j) \<Longrightarrow> fl s' xs"
  by (induction s xs rule: fl.induct) auto

lemma dl_set_next:
  assumes "dl s p (as @ [i]) n" "distinct (as @ [i])" "s ! i = Occupied nd"
  shows "dl (s[i := Occupied (nd\<lparr>nd_next := m\<rparr>)]) p (as @ [i]) m"
proof -
  have "dl s p as i" "i < length s" "nd_prev nd = (if as = [] then p else last as)"
    using assms by (auto simp: dl_append)
  moreover have "dl (s[i := Occupied (nd\<lparr>nd_next := m\<rparr>)]) p as i"
    by (rule dl_frame [OF \<open>dl s p as i\<close>]) (use assms(2) in \<open>auto intro!: nth_list_update_neq\<close>)
  ultimately show ?thesis by (simp add: dl_append)
qed

lemma dl_set_prev:
  assumes "dl s p (i # bs) n" "distinct (i # bs)" "s ! i = Occupied nd"
  shows "dl (s[i := Occupied (nd\<lparr>nd_prev := q\<rparr>)]) q (i # bs) n"
proof -
  have "dl (s[i := Occupied (nd\<lparr>nd_prev := q\<rparr>)]) i bs n"
    by (rule dl_frame [of s i bs n]) (use assms in \<open>auto intro!: nth_list_update_neq\<close>)
  with assms show ?thesis by auto
qed

lemma upd_node_Occupied: "i < length (in_slots c) \<Longrightarrow> in_slots c ! i = Occupied nd \<Longrightarrow>
    upd_node i f c = Some (c\<lparr>in_slots := (in_slots c)[i := Occupied (f nd)]\<rparr>)"
  by (simp add: upd_node_def)

lemma pay_update:
  assumes "i < length s" "s ! i = Occupied nd" "nd_key nd' = nd_key nd" "nd_entry nd' = nd_entry nd" "nd_bytes nd' = nd_bytes nd"
  shows "pay (s[i := Occupied nd']) j = pay s j"
  using assms by (cases "j = i") (auto simp: pay_def)

text \<open>The two halves of \<open>unlink\<close>: the list before the slot gets a new end, the list behind it a new
  beginning.\<close>

lemma fix_left:
  assumes d: "dl (in_slots c) NONE as x" "distinct as" "NONE \<notin> set as"
  shows "\<exists>s1. (if last_or as = NONE then Some (c\<lparr>in_head := m\<rparr>) else upd_node (last_or as) (\<lambda>p. p\<lparr>nd_next := m\<rparr>) c)
      = Some (c\<lparr>in_slots := s1, in_head := (if as = [] then m else in_head c)\<rparr>)
    \<and> length s1 = length (in_slots c) \<and> (\<forall>j. j \<notin> set as \<longrightarrow> s1 ! j = in_slots c ! j)
    \<and> (\<forall>j. pay s1 j = pay (in_slots c) j) \<and> dl s1 NONE as m"
proof (cases as rule: rev_cases)
  case Nil
  then show ?thesis by (intro exI [of _ "in_slots c"]) (simp add: last_or_def)
next
  case (snoc bs a)
  from dl_bound [OF d(1), of a] snoc obtain nd where nd: "a < length (in_slots c)" "in_slots c ! a = Occupied nd" by auto
  let ?s = "(in_slots c)[a := Occupied (nd\<lparr>nd_next := m\<rparr>)]"
  have "dl ?s NONE (bs @ [a]) m" by (rule dl_set_next) (use d snoc nd in auto)
  with snoc d(3) nd show ?thesis
    by (intro exI [of _ ?s]) (auto simp: last_or_def upd_node_Occupied intro!: pay_update)
qed

lemma fix_right:
  assumes d: "dl (in_slots c) x bs NONE" "distinct bs" "NONE \<notin> set bs"
  shows "\<exists>s1. (if hd_or bs = NONE then Some (c\<lparr>in_tail := q\<rparr>) else upd_node (hd_or bs) (\<lambda>n. n\<lparr>nd_prev := q\<rparr>) c)
      = Some (c\<lparr>in_slots := s1, in_tail := (if bs = [] then q else in_tail c)\<rparr>)
    \<and> length s1 = length (in_slots c) \<and> (\<forall>j. j \<notin> set bs \<longrightarrow> s1 ! j = in_slots c ! j)
    \<and> (\<forall>j. pay s1 j = pay (in_slots c) j) \<and> dl s1 q bs NONE"
proof (cases bs)
  case Nil
  then show ?thesis by (intro exI [of _ "in_slots c"]) (simp add: hd_or_def)
next
  case (Cons b cs)
  from dl_bound [OF d(1), of b] Cons obtain nd where nd: "b < length (in_slots c)" "in_slots c ! b = Occupied nd" by auto
  let ?s = "(in_slots c)[b := Occupied (nd\<lparr>nd_prev := q\<rparr>)]"
  have "dl ?s q (b # cs) NONE" by (rule dl_set_prev) (use d Cons nd in auto)
  with Cons d(3) nd show ?thesis
    by (intro exI [of _ ?s]) (auto simp: hd_or_def upd_node_Occupied intro!: pay_update)
qed

lemma unlink_spec:
  assumes l: "links c (as @ i # bs)"
  shows "\<exists>c'. unlink i c = Some c' \<and> links c' (as @ bs) \<and> relinked (set (as @ i # bs)) c c'"
proof -
  let ?s = "in_slots c"
  from l have d: "dl ?s NONE (as @ i # bs) NONE" "distinct (as @ i # bs)" "NONE \<notin> set (as @ i # bs)"
    and ht: "in_head c = hd_or (as @ i # bs)" "in_tail c = last_or (as @ i # bs)"
    by (auto simp: links_def)
  from dl_bound [OF d(1), of i] obtain nd where nd: "i < length ?s" "?s ! i = Occupied nd" by auto
  have da: "dl ?s NONE as i" and db: "dl ?s i bs NONE" and pn: "nd_prev nd = last_or as" "nd_next nd = hd_or bs"
    using d(1) nd by (auto simp: dl_append last_or_def hd_or_def split: list.splits)
  from fix_left [OF da, of "hd_or bs"] d(2,3) obtain s1 where
    1: "(if last_or as = NONE then Some (c\<lparr>in_head := hd_or bs\<rparr>) else upd_node (last_or as) (\<lambda>p. p\<lparr>nd_next := hd_or bs\<rparr>) c)
        = Some (c\<lparr>in_slots := s1, in_head := (if as = [] then hd_or bs else in_head c)\<rparr>)"
      "length s1 = length ?s" "\<forall>j. j \<notin> set as \<longrightarrow> s1 ! j = ?s ! j" "\<forall>j. pay s1 j = pay ?s j" "dl s1 NONE as (hd_or bs)"
    by auto
  let ?c1 = "c\<lparr>in_slots := s1, in_head := (if as = [] then hd_or bs else in_head c)\<rparr>"
  have "dl (in_slots ?c1) i bs NONE"
    by (rule dl_frame [OF db]) (use 1 d(2) in auto)
  from fix_right [OF this, of "last_or as"] d(2,3) obtain s2 where
    2: "(if hd_or bs = NONE then Some (?c1\<lparr>in_tail := last_or as\<rparr>) else upd_node (hd_or bs) (\<lambda>n. n\<lparr>nd_prev := last_or as\<rparr>) ?c1)
        = Some (?c1\<lparr>in_slots := s2, in_tail := (if bs = [] then last_or as else in_tail c)\<rparr>)"
      "length s2 = length ?s" "\<forall>j. j \<notin> set bs \<longrightarrow> s2 ! j = s1 ! j" "\<forall>j. pay s2 j = pay ?s j" "dl s2 (last_or as) bs NONE"
    using 1(2,4) by (auto cong: if_cong)
  let ?nd = "nd\<lparr>nd_prev := NONE, nd_next := NONE\<rparr>"
  let ?c' = "c\<lparr>in_slots := s2[i := Occupied ?nd], in_head := (if as = [] then hd_or bs else in_head c),
      in_tail := (if bs = [] then last_or as else in_tail c)\<rparr>"
  have si: "s2 ! i = Occupied nd" using nd 1(3) 2(3) d(2) by simp
  have run: "unlink i c = Some ?c'"
    using nd 1(1) 2(1,2) si by (simp add: unlink_def pn upd_node_Occupied)
  have fr: "j \<notin> set (as @ i # bs) \<Longrightarrow> (s2[i := Occupied ?nd]) ! j = ?s ! j" for j
    using 1(3) 2(3) by (simp add: nth_list_update_neq)
  have py: "pay (s2[i := Occupied ?nd]) j = pay ?s j" for j
    using pay_update [OF _ si, of ?nd j] nd(1) 2(2,4) by simp
  have a': "dl (s2[i := Occupied ?nd]) NONE as (hd_or bs)"
  proof (rule dl_frame [OF 1(5)])
    fix j
    assume "j \<in> set as"
    then have "j \<noteq> i" "j \<notin> set bs" using d(2) by auto
    then show "(s2[i := Occupied ?nd]) ! j = s1 ! j" using 2(3) by simp
  qed (use 1(2) 2(2) in simp)
  have b': "dl (s2[i := Occupied ?nd]) (last_or as) bs NONE"
    by (rule dl_frame [OF 2(5)]) (use d(2) in \<open>auto intro!: nth_list_update_neq\<close>)
  have "dl (s2[i := Occupied ?nd]) NONE (as @ bs) NONE"
    using a' b' by (auto simp: dl_append last_or_def hd_or_def split: list.splits if_splits)
  then have "links ?c' (as @ bs)"
    using d(2,3) ht by (auto simp: links_def hd_or_def last_or_def split: list.splits)
  moreover have "relinked (set (as @ i # bs)) c ?c'"
    using fr py 2(2) by (simp add: relinked_def)
  ultimately show ?thesis using run by blast
qed

lemma push_head_spec:
  assumes l: "links c xs" and i: "i < length (in_slots c)" "in_slots c ! i = Occupied nd" "i \<notin> set xs" "i \<noteq> NONE"
  shows "\<exists>c'. push_head i c = Some c' \<and> links c' (i # xs) \<and> relinked (set (i # xs)) c c'"
proof -
  let ?s = "in_slots c"
  from l have d: "dl ?s NONE xs NONE" "distinct xs" "NONE \<notin> set xs" "in_head c = hd_or xs" "in_tail c = last_or xs"
    by (auto simp: links_def)
  let ?nd = "nd\<lparr>nd_prev := NONE, nd_next := hd_or xs\<rparr>"
  let ?c1 = "c\<lparr>in_slots := ?s[i := Occupied ?nd]\<rparr>"
  have r1: "upd_node i (\<lambda>n. n\<lparr>nd_prev := NONE, nd_next := hd_or xs\<rparr>) c = Some ?c1"
    using i by (simp add: upd_node_Occupied)
  have dx: "dl (in_slots ?c1) NONE xs NONE"
    by (rule dl_frame [OF d(1)]) (use i(3) in \<open>auto intro!: nth_list_update_neq\<close>)
  from fix_right [OF this d(2,3), of i] obtain s2 where
    2: "(if hd_or xs = NONE then Some (?c1\<lparr>in_tail := i\<rparr>) else upd_node (hd_or xs) (\<lambda>n. n\<lparr>nd_prev := i\<rparr>) ?c1)
        = Some (?c1\<lparr>in_slots := s2, in_tail := (if xs = [] then i else in_tail c)\<rparr>)"
      "length s2 = length ?s" "\<forall>j. j \<notin> set xs \<longrightarrow> s2 ! j = (?s[i := Occupied ?nd]) ! j"
      "\<forall>j. pay s2 j = pay (?s[i := Occupied ?nd]) j" "dl s2 i xs NONE"
    by (auto cong: if_cong)
  have hx: "hd_or xs = NONE \<longleftrightarrow> xs = []" using d(3) by (auto simp: hd_or_def split: list.splits)
  have lx: "last_or xs = NONE \<longleftrightarrow> xs = []" using d(3) by (metis last_in_set last_or_def)
  let ?c' = "c\<lparr>in_slots := s2, in_head := i, in_tail := (if xs = [] then i else in_tail c)\<rparr>"
  have run: "push_head i c = Some ?c'"
  proof (cases "xs = []")
    case True
    then have "in_slots ?c1 = s2" using arg_cong [OF 2(1), of "map_option in_slots"] by simp
    with True show ?thesis
      using d(4,5) by (simp add: push_head_def upd_node_Occupied [OF i(1,2)] Let_def)
  next
    case False
    with 2(1) show ?thesis by (auto simp: push_head_def r1 hx lx d(4,5) Let_def)
  qed
  have py: "pay s2 j = pay ?s j" for j using 2(4) pay_update [OF i(1,2), of ?nd j] by simp
  have si: "s2 ! i = Occupied ?nd" using 2(2,3) i by simp
  have "links ?c' (i # xs)"
    using d i si 2(2,5) by (auto simp: links_def hd_or_def last_or_def split: list.splits)
  moreover have "relinked (set (i # xs)) c ?c'"
    using py 2(2,3) by (auto simp: relinked_def nth_list_update_neq)
  ultimately show ?thesis using run by blast
qed

section \<open>The invariant and the view\<close>

definition vw :: "('k, 'n) inner \<Rightarrow> nat list \<Rightarrow> ('k \<times> 'n entry \<times> nat) list" where
  "vw c xs = map (\<lambda>i. the (pay (in_slots c) i)) xs"

definition bytes_of :: "('k \<times> 'e \<times> nat) list \<Rightarrow> nat" where
  "bytes_of L = sum_list (map (snd \<circ> snd) L)"

definition cache_inv :: "('k, 'n) inner \<Rightarrow> nat list \<Rightarrow> nat list \<Rightarrow> bool" where
  "cache_inv c xs fs \<longleftrightarrow>
     links c xs \<and> fl (in_slots c) fs \<and> in_free_head c = hd_or fs
     \<and> distinct (xs @ fs) \<and> set (xs @ fs) = {..<length (in_slots c)}
     \<and> distinct (map fst (vw c xs)) \<and> in_bytes_total c = bytes_of (vw c xs)
     \<and> distinct (map fst (in_map c)) \<and> length (in_map c) = length xs
     \<and> map_of (in_map c) = map_of (zip (map fst (vw c xs)) xs)
     \<and> length (in_slots c) \<le> in_capacity c \<and> 0 < in_capacity c \<and> in_capacity c \<le> NONE"

text \<open>\<open>cache_rep c L\<close>: the cache holds the entries \<open>L\<close>, most recently used first.\<close>

definition cache_rep :: "('k, 'n) inner \<Rightarrow> ('k \<times> 'n entry \<times> nat) list \<Rightarrow> bool" where
  "cache_rep c L \<longleftrightarrow> (\<exists>xs fs. cache_inv c xs fs \<and> vw c xs = L)"

definition same_cfg :: "('k, 'n) inner \<Rightarrow> ('k, 'n) inner \<Rightarrow> bool" where
  "same_cfg c c' \<longleftrightarrow> in_capacity c' = in_capacity c \<and> in_max_bytes c' = in_max_bytes c
     \<and> in_serve_stale_secs c' = in_serve_stale_secs c"

lemma same_cfg_refl [simp]: "same_cfg c c"
  by (simp add: same_cfg_def)

lemma same_cfg_trans: "same_cfg a b \<Longrightarrow> same_cfg b c \<Longrightarrow> same_cfg a c"
  by (simp add: same_cfg_def)

text \<open>The specification of each operation on the list of entries.\<close>

definition drop_key :: "'k \<Rightarrow> ('k \<times> 'e) list \<Rightarrow> ('k \<times> 'e) list" where
  "drop_key k L = filter (\<lambda>(k', _). k' \<noteq> k) L"

function evict_spec :: "nat \<Rightarrow> ('k \<times> 'e \<times> nat) list \<Rightarrow> ('k \<times> 'e \<times> nat) list" where
  "evict_spec mb L = (if bytes_of L > mb \<and> length L > 1 then evict_spec mb (butlast L) else L)"
  by pat_completeness auto
termination
  by (relation "measure (\<lambda>(mb, L). length L)") auto

declare evict_spec.simps [simp del]

definition insert_spec :: "nat \<Rightarrow> nat \<Rightarrow> 'k \<Rightarrow> 'e \<Rightarrow> nat \<Rightarrow> ('k \<times> 'e \<times> nat) list \<Rightarrow> ('k \<times> 'e \<times> nat) list" where
  "insert_spec cap mb k e b L =
     evict_spec mb ((k, e, b) #
       (if k \<in> fst ` set L then drop_key k L else if length L \<ge> cap then butlast L else L))"

definition get_spec ::
    "nat \<Rightarrow> 'k \<Rightarrow> instant \<Rightarrow> ('k \<times> 'n entry \<times> nat) list \<Rightarrow> 'n lookup \<times> ('k \<times> 'n entry \<times> nat) list" where
  "get_spec stale k now L =
     (case map_of L k of
        None \<Rightarrow> (Miss, L)
      | Some (e, b) \<Rightarrow>
          (let elapsed = as_secs (now - ce_inserted_at e) in
           if elapsed \<ge> sat_add_u64 (ce_effective_ttl_secs e) stale then (Miss, drop_key k L)
           else (answer_from e elapsed, (k, e, b) # drop_key k L)))"

section \<open>Helper lemmas\<close>

lemma vw_append [simp]: "vw c (as @ bs) = vw c as @ vw c bs"
  by (simp add: vw_def)

lemma vw_Cons [simp]: "vw c (i # bs) = the (pay (in_slots c) i) # vw c bs"
  by (simp add: vw_def)

lemma length_vw [simp]: "length (vw c xs) = length xs"
  by (simp add: vw_def)

lemma relinked_vw: "relinked I c c' \<Longrightarrow> vw c' xs = vw c xs"
  by (simp add: relinked_def vw_def)

lemma relinked_fields: "relinked I c c' \<Longrightarrow> in_map c' = in_map c \<and> in_free_head c' = in_free_head c
    \<and> in_capacity c' = in_capacity c \<and> in_bytes_total c' = in_bytes_total c \<and> in_max_bytes c' = in_max_bytes c
    \<and> in_serve_stale_secs c' = in_serve_stale_secs c \<and> length (in_slots c') = length (in_slots c)"
  unfolding relinked_def by (metis inner.select_convs(1,5,6,7,8,9) inner.surjective inner.update_convs(2,3,4))

lemma drop_key_append [simp]: "drop_key k (a @ b) = drop_key k a @ drop_key k b"
  by (simp add: drop_key_def)

lemma drop_key_notin: "k \<notin> fst ` set L \<Longrightarrow> drop_key k L = L"
  by (force simp: drop_key_def filter_id_conv)

lemma drop_key_mid: "distinct (map fst (a @ (k, v) # b)) \<Longrightarrow> drop_key k (a @ (k, v) # b) = a @ b"
  using drop_key_notin [of k a] drop_key_notin [of k b] by (force simp: drop_key_def)

lemma map_of_zip_mid:
  assumes "length ka = length as" "k \<notin> set ka" "k \<notin> set kb"
  shows "map_of (zip (ka @ kb) (as @ bs)) = (map_of (zip (ka @ k # kb) (as @ i # bs)))(k := None)"
proof -
  have "map_of (zip ka as) k = None" "map_of (zip kb bs) k = None"
    using assms by (auto simp: map_of_eq_None_iff dest: set_zip_leftD)
  with assms(1) show ?thesis
    by (intro ext, rename_tac x, case_tac "x = k"; case_tac "map_of (zip ka as) x")
       (simp_all add: map_add_def del: map_of_zip_is_None)
qed

lemma length_delete: "distinct (map fst m) \<Longrightarrow> k \<in> fst ` set m \<Longrightarrow> length (AList.delete k m) = length m - 1"
proof -
  assume d: "distinct (map fst m)" and k: "k \<in> fst ` set m"
  have "map fst (AList.delete k m) = remove1 k (map fst m)"
    by (simp add: AList.delete_keys distinct_remove1_removeAll [OF d])
  then show ?thesis using k by (metis length_map length_remove1 list.set_map)
qed

lemma length_update_new: "k \<notin> fst ` set m \<Longrightarrow> length (AList.update k v m) = Suc (length m)"
  by (induction m) auto

lemma map_of_mid:
  assumes "distinct (map fst (vw c (as @ i # bs)))" "map_of (in_map c) = map_of (zip (map fst (vw c (as @ i # bs))) (as @ i # bs))"
  shows "map_of (in_map c) (fst (the (pay (in_slots c) i))) = Some i"
  using assms by (auto simp: map_add_def map_of_eq_None_iff split: option.splits dest: set_zip_leftD)

lemma cache_inv_split:
  assumes "cache_inv c xs fs" "map_of (in_map c) k = Some i"
  shows "\<exists>as bs. xs = as @ i # bs \<and> (\<exists>nd. in_slots c ! i = Occupied nd \<and> nd_key nd = k) \<and> i < length (in_slots c)"
proof -
  let ?K = "map fst (vw c xs)"
  have m: "map_of (zip ?K xs) k = Some i" and l: "links c xs" using assms by (auto simp: cache_inv_def)
  from m have "(k, i) \<in> set (zip ?K xs)" by (rule map_of_SomeD)
  then obtain j where j: "j < length xs" "?K ! j = k" "xs ! j = i" by (auto simp: set_zip)
  then have "i \<in> set xs" by auto
  then obtain as bs where x: "xs = as @ i # bs" by (meson split_list)
  have "dl (in_slots c) NONE xs NONE" using l by (simp add: links_def)
  from dl_bound [OF this \<open>i \<in> set xs\<close>] obtain nd where nd: "i < length (in_slots c)" "in_slots c ! i = Occupied nd" by auto
  have "nd_key nd = k" using j nd by (auto simp: vw_def pay_def)
  with x nd show ?thesis by blast
qed

lemma map_of_vw_None:
  assumes "cache_inv c xs fs"
  shows "map_of (in_map c) k = None \<longleftrightarrow> k \<notin> fst ` set (vw c xs)"
proof -
  have "map_of (in_map c) = map_of (zip (map fst (vw c xs)) xs)" using assms by (simp add: cache_inv_def)
  then show ?thesis by (simp add: map_of_zip_is_None)
qed

section \<open>Removing and moving\<close>

lemma remove_spec:
  assumes inv: "cache_inv c (as @ i # bs) fs"
  shows "\<exists>c'. remove i c = Some c' \<and> cache_inv c' (as @ bs) (i # fs) \<and> vw c' (as @ bs) = vw c (as @ bs) \<and> same_cfg c c'"
proof -
  let ?xs = "as @ i # bs"
  have l: "links c ?xs" using inv by (simp add: cache_inv_def)
  from unlink_spec [OF l] obtain c1 where c1: "unlink i c = Some c1" "links c1 (as @ bs)" "relinked (set ?xs) c c1" by auto
  note f = relinked_fields [OF c1(3)]
  have il: "i < length (in_slots c)" using inv by (auto simp: cache_inv_def)
  have "dl (in_slots c) NONE ?xs NONE" using l by (simp add: links_def)
  from dl_bound [OF this, of i] obtain nd0 where nd0: "in_slots c ! i = Occupied nd0" by auto
  have "pay (in_slots c1) i = pay (in_slots c) i" using c1(3) by (simp add: relinked_def)
  then obtain nd where nd: "in_slots c1 ! i = Occupied nd" "pay (in_slots c) i = Some (nd_key nd, nd_entry nd, nd_bytes nd)"
    using nd0 by (auto simp: pay_def split: slot.splits)
  let ?s = "(in_slots c1)[i := Free (hd_or fs)]"
  let ?c' = "c1\<lparr>in_slots := ?s, in_bytes_total := in_bytes_total c1 - nd_bytes nd,
      in_map := AList.delete (nd_key nd) (in_map c1), in_free_head := i\<rparr>"
  have fh: "in_free_head c1 = hd_or fs" using inv f by (simp add: cache_inv_def)
  have run: "remove i c = Some ?c'"
    using c1(1) il nd(1) f fh by (simp add: remove_def vec_set_def Let_def)
  have d: "distinct (?xs @ fs)" "set (?xs @ fs) = {..<length (in_slots c)}" using inv by (auto simp: cache_inv_def)
  have vk: "vw ?c' ys = vw c ys" if "i \<notin> set ys" for ys
  proof -
    have "?s ! j = in_slots c1 ! j" if "j \<in> set ys" for j using that \<open>i \<notin> set ys\<close> by (metis nth_list_update_neq)
    then show ?thesis using c1(3) by (auto simp: vw_def pay_def relinked_def)
  qed
  have v: "vw ?c' (as @ bs) = vw c (as @ bs)" by (rule vk) (use d(1) in auto)
  have dlk: "links ?c' (as @ bs)"
  proof -
    have "dl ?s NONE (as @ bs) NONE"
      by (rule dl_frame [of "in_slots c1"]) (use c1(2) d(1) in \<open>auto simp: links_def intro!: nth_list_update_neq\<close>)
    then show ?thesis using c1(2) by (simp add: links_def)
  qed
  have flk: "fl ?s (i # fs)"
  proof -
    have "fl ?s fs"
    proof (rule fl_frame [of "in_slots c"])
      fix j
      assume "j \<in> set fs"
      then have "j \<noteq> i" "j \<notin> set ?xs" using d(1) by auto
      then show "?s ! j = in_slots c ! j" using c1(3) by (simp add: relinked_def)
    qed (use inv f in \<open>auto simp: cache_inv_def\<close>)
    then show ?thesis using il f by simp
  qed
  have dk: "distinct (map fst (vw c ?xs))" and mo: "map_of (in_map c) = map_of (zip (map fst (vw c ?xs)) ?xs)"
    using inv by (auto simp: cache_inv_def)
  have kin: "nd_key nd \<in> fst ` set (in_map c)"
    using map_of_mid [OF dk mo] nd(2) by (metis map_of_eq_None_iff option.distinct(1) fst_conv option.sel)
  have ln: "length (AList.delete (nd_key nd) (in_map c)) = length (as @ bs)"
    using length_delete [OF _ kin] inv by (simp add: cache_inv_def)
  have mo': "map_of (AList.delete (nd_key nd) (in_map c)) = map_of (zip (map fst (vw c (as @ bs))) (as @ bs))"
    using map_of_zip_mid [of "map fst (vw c as)" as "nd_key nd" "map fst (vw c bs)" bs i] dk nd(2)
    by (simp add: AList.delete_conv' mo)
  have bt: "in_bytes_total c - nd_bytes nd = bytes_of (vw c (as @ bs))"
    using inv nd(2) by (simp add: cache_inv_def bytes_of_def)
  have "cache_inv ?c' (as @ bs) (i # fs)"
    unfolding cache_inv_def v
    using inv dlk flk d f bt mo' ln dk
    by (auto simp: cache_inv_def hd_or_def distinct_delete)
  with run v f show ?thesis by (auto simp: same_cfg_def)
qed

lemma cache_inv_relinked:
  assumes inv: "cache_inv c xs fs" and r: "relinked (set xs) c c'" and l: "links c' ys" and m: "mset ys = mset xs"
    and map: "map_of (zip (map fst (vw c ys)) ys) = map_of (zip (map fst (vw c xs)) xs)"
  shows "cache_inv c' ys fs"
proof -
  note f = relinked_fields [OF r] and v = relinked_vw [OF r]
  have s: "set ys = set xs" "distinct ys = distinct xs" "length ys = length xs"
    using m mset_eq_setD mset_eq_imp_distinct_iff mset_eq_length by blast+
  have mv: "mset (vw c ys) = mset (vw c xs)" using m by (simp add: vw_def)
  have "distinct (map fst (vw c ys)) = distinct (map fst (vw c xs))"
    using mv by (metis mset_map mset_eq_imp_distinct_iff)
  moreover have "bytes_of (vw c ys) = bytes_of (vw c xs)"
    using mv unfolding bytes_of_def by (metis mset_map sum_mset_sum_list)
  moreover have "fl (in_slots c') fs"
    by (rule fl_frame [of "in_slots c"]) (use inv r in \<open>auto simp: cache_inv_def relinked_def\<close>)
  ultimately show ?thesis
    using inv f s l map unfolding cache_inv_def v by auto
qed

lemma map_of_zip_perm:
  assumes "distinct (map fst (vw c xs))" "mset ys = mset xs"
  shows "map_of (zip (map fst (vw c ys)) ys) = map_of (zip (map fst (vw c xs)) xs)"
proof -
  have z: "zip (map fst (vw c zs)) zs = map (\<lambda>i. (fst (the (pay (in_slots c) i)), i)) zs" for zs
    by (induction zs) auto
  let ?f = "\<lambda>i. fst (the (pay (in_slots c) i))"
  have "mset (map ?f ys) = mset (map ?f xs)" using assms(2) by simp
  then have "distinct (map ?f ys) = distinct (map ?f xs)" by (rule mset_eq_imp_distinct_iff)
  moreover have "distinct (map ?f xs)" using assms(1) by (simp add: vw_def comp_def)
  moreover have "set ys = set xs" using assms(2) by (rule mset_eq_setD)
  ultimately show ?thesis unfolding z
    by (intro map_of_inject_set [THEN iffD2]) (auto simp: comp_def)
qed

lemma relinked_trans: "relinked I a b \<Longrightarrow> relinked J b c \<Longrightarrow> relinked (I \<union> J) a c"
  by (cases a; cases b; cases c) (auto simp: relinked_def)

lemma move_to_head_spec:
  assumes inv: "cache_inv c (as @ i # bs) fs"
  shows "\<exists>c'. move_to_head i c = Some c' \<and> cache_inv c' (i # as @ bs) fs
    \<and> vw c' (i # as @ bs) = the (pay (in_slots c) i) # vw c (as @ bs) \<and> same_cfg c c'"
proof (cases "in_head c = i")
  case True
  have l: "in_head c = hd_or (as @ i # bs)" "distinct (as @ i # bs)" using inv by (auto simp: cache_inv_def links_def)
  then have "as = []" using True by (cases as) (auto simp: hd_or_def)
  with True inv show ?thesis by (simp add: move_to_head_def)
next
  case False
  let ?xs = "as @ i # bs"
  have l: "links c ?xs" using inv by (simp add: cache_inv_def)
  from unlink_spec [OF l] obtain c1 where c1: "unlink i c = Some c1" "links c1 (as @ bs)" "relinked (set ?xs) c c1" by auto
  have i: "i < length (in_slots c1)" "i \<notin> set (as @ bs)" "i \<noteq> NONE"
    using inv relinked_fields [OF c1(3)] by (auto simp: cache_inv_def links_def)
  have "dl (in_slots c) NONE ?xs NONE" using l by (simp add: links_def)
  from dl_bound [OF this, of i] have "pay (in_slots c) i \<noteq> None" by (auto simp: pay_def)
  then have "pay (in_slots c1) i \<noteq> None" using c1(3) by (simp add: relinked_def)
  then obtain nd where nd: "in_slots c1 ! i = Occupied nd" by (auto simp: pay_def split: slot.splits)
  from push_head_spec [OF c1(2) i(1) nd i(2,3)] obtain c2 where
    c2: "push_head i c1 = Some c2" "links c2 (i # as @ bs)" "relinked (set (i # as @ bs)) c1 c2" by auto
  have r: "relinked (set ?xs) c c2"
    using relinked_trans [OF c1(3) c2(3)] by (simp add: insert_absorb Un_absorb1 Un_commute)
  have dk: "distinct (map fst (vw c ?xs))" using inv by (simp add: cache_inv_def)
  have "cache_inv c2 (i # as @ bs) fs"
    by (rule cache_inv_relinked [OF inv r c2(2)]) (use map_of_zip_perm [OF dk, of "i # as @ bs"] in simp_all)
  moreover have "move_to_head i c = Some c2" using False c1(1) c2(1) by (simp add: move_to_head_def)
  moreover have "same_cfg c c2" using relinked_fields [OF r] by (simp add: same_cfg_def)
  ultimately show ?thesis using relinked_vw [OF r, of "i # as @ bs"] by auto
qed

lemma evict_tail_spec:
  assumes inv: "cache_inv c xs fs" and "xs \<noteq> []"
  shows "\<exists>c' fs'. evict_tail c = Some c' \<and> cache_inv c' (butlast xs) fs' \<and> vw c' (butlast xs) = butlast (vw c xs) \<and> same_cfg c c'"
proof -
  have x: "xs = butlast xs @ last xs # []" using assms(2) by simp
  have "in_tail c = last xs" "last xs \<noteq> NONE" using inv assms(2) by (auto simp: cache_inv_def links_def last_or_def dest: last_in_set)
  with remove_spec [of c "butlast xs" "last xs" "[]" fs] inv x show ?thesis
    by (auto simp: evict_tail_def vw_def map_butlast)
qed

lemma evict_loop_spec:
  assumes "cache_inv c xs fs"
  shows "\<exists>c' xs' fs'. evict_to_byte_budget c = Some c' \<and> cache_inv c' xs' fs'
    \<and> vw c' xs' = evict_spec (in_max_bytes c) (vw c xs) \<and> same_cfg c c'"
  using assms
proof (induction xs arbitrary: c fs rule: length_induct)
  case (1 xs)
  have g: "in_bytes_total c = bytes_of (vw c xs)" "length (in_map c) = length xs"
    using "1.prems" by (auto simp: cache_inv_def)
  show ?case
  proof (cases "in_max_bytes c < bytes_of (vw c xs) \<and> 1 < length xs")
    case True
    then have ne: "xs \<noteq> []" by auto
    from evict_tail_spec [OF "1.prems" ne] obtain c1 fs1 where
      c1: "evict_tail c = Some c1" "cache_inv c1 (butlast xs) fs1" "vw c1 (butlast xs) = butlast (vw c xs)" "same_cfg c c1" by auto
    have "length (butlast xs) < length xs" using ne by simp
    with "1.IH" c1(2) obtain c' xs' fs' where
      "evict_to_byte_budget c1 = Some c'" "cache_inv c' xs' fs'" "vw c' xs' = evict_spec (in_max_bytes c1) (vw c1 (butlast xs))" "same_cfg c1 c'"
      by blast
    with c1 True g show ?thesis
      by (subst evict_to_byte_budget.simps, subst evict_spec.simps)
         (auto simp: same_cfg_def)
  next
    case False
    with g "1.prems" show ?thesis
      by (subst evict_to_byte_budget.simps, subst evict_spec.simps) (auto intro: exI [of _ xs] exI [of _ fs])
  qed
qed

lemma cache_rep_evict:
  "cache_rep c L \<Longrightarrow> \<exists>c'. evict_to_byte_budget c = Some c' \<and> cache_rep c' (evict_spec (in_max_bytes c) L) \<and> same_cfg c c'"
  unfolding cache_rep_def using evict_loop_spec by metis

section \<open>Inserting\<close>

lemma alloc_slot_spec:
  assumes inv: "cache_inv c xs fs" and cap: "length xs < in_capacity c"
  shows "\<exists>i c1 fs'. alloc_slot nd c = Some (i, c1) \<and> links c1 xs \<and> in_slots c1 ! i = Occupied nd
    \<and> i < length (in_slots c1) \<and> i \<noteq> NONE \<and> fl (in_slots c1) fs' \<and> in_free_head c1 = hd_or fs'
    \<and> distinct (i # xs @ fs') \<and> set (i # xs @ fs') = {..<length (in_slots c1)}
    \<and> length (in_slots c1) \<le> in_capacity c \<and> vw c1 xs = vw c xs
    \<and> c1 = c\<lparr>in_slots := in_slots c1, in_free_head := in_free_head c1\<rparr>"
proof -
  let ?s = "in_slots c"
  have l: "links c xs" and f: "fl ?s fs" "in_free_head c = hd_or fs" and d: "distinct (xs @ fs)" "set (xs @ fs) = {..<length ?s}"
    and cp: "length ?s \<le> in_capacity c" "in_capacity c \<le> NONE"
    using inv by (auto simp: cache_inv_def)
  have frame: "links (c\<lparr>in_slots := s', in_free_head := h\<rparr>) xs \<and> vw (c\<lparr>in_slots := s', in_free_head := h\<rparr>) xs = vw c xs"
    if "\<And>j. j \<in> set xs \<Longrightarrow> s' ! j = ?s ! j" "length ?s \<le> length s'" for s' h
  proof -
    have "dl ?s p ys n \<Longrightarrow> set ys \<subseteq> set xs \<Longrightarrow> dl s' p ys n" for p ys n
      by (induction ?s p ys n rule: dl.induct) (use that in auto)
    then show ?thesis using l that(1) by (auto simp: links_def vw_def pay_def)
  qed
  show ?thesis
  proof (cases fs)
    case Nil
    have "card (set xs) = length ?s" using d(2) Nil by simp
    then have len: "length ?s = length xs" using d(1) Nil distinct_card [of xs] by simp
    let ?c = "c\<lparr>in_slots := ?s @ [Occupied nd], in_free_head := NONE\<rparr>"
    have sx: "set xs = {..<length ?s}" using d(2) Nil by simp
    have 1: "alloc_slot nd c = Some (length ?s, ?c)" using f(2) Nil by (simp add: alloc_slot_def)
    have 2: "set (length ?s # xs) = {..<length (in_slots ?c)}" "distinct (length ?s # xs)"
      using sx d(1) Nil by (simp_all add: lessThan_Suc)
    have 3: "links ?c xs \<and> vw ?c xs = vw c xs" by (rule frame) (simp_all add: sx nth_append)
    have 4: "length ?s \<noteq> NONE" "length (in_slots ?c) \<le> in_capacity c" using len cap cp by simp_all
    show ?thesis
      by (rule exI [of _ "length ?s"], rule exI [of _ ?c], rule exI [of _ "[]"])
         (use 1 2 3 4 in simp)
  next
    case (Cons i fs')
    have i: "i < length ?s" "?s ! i = Free (hd_or fs')" "fl ?s fs'" using f(1) Cons by auto
    have ne: "i \<noteq> NONE" using i(1) cp by simp
    let ?c = "c\<lparr>in_slots := ?s[i := Occupied nd], in_free_head := hd_or fs'\<rparr>"
    have "alloc_slot nd c = Some (i, ?c)"
      using f(2) Cons i ne by (simp add: alloc_slot_def hd_or_def vec_set_def Let_def)
    moreover have "links ?c xs \<and> vw ?c xs = vw c xs"
      by (rule frame) (use d Cons in \<open>auto intro!: nth_list_update_neq\<close>)
    moreover have "fl (?s[i := Occupied nd]) fs'"
      by (rule fl_frame [OF i(3)]) (use d Cons in \<open>auto intro!: nth_list_update_neq\<close>)
    ultimately show ?thesis using d Cons i ne cp
      by (intro exI [of _ i] exI [of _ ?c] exI [of _ fs']) auto
  qed
qed

lemma insert_new_spec:
  assumes inv: "cache_inv c xs fs" and cap: "length xs < in_capacity c" and k: "k \<notin> fst ` set (vw c xs)"
  shows "\<exists>c' i fs'. do { (idx, c2) \<leftarrow> alloc_slot \<lparr>nd_key = k, nd_entry = e, nd_bytes = b, nd_prev = NONE, nd_next = NONE\<rparr> c;
        c4 \<leftarrow> push_head idx (c2\<lparr>in_map := AList.update k idx (in_map c2)\<rparr>);
        Some (c4\<lparr>in_bytes_total := in_bytes_total c4 + b\<rparr>) } = Some c'
    \<and> cache_inv c' (i # xs) fs' \<and> vw c' (i # xs) = (k, e, b) # vw c xs \<and> same_cfg c c'"
proof -
  let ?nd = "\<lparr>nd_key = k, nd_entry = e, nd_bytes = b, nd_prev = NONE, nd_next = NONE\<rparr>"
  from alloc_slot_spec [OF inv cap, of ?nd] obtain i c1 fs' where
    a: "alloc_slot ?nd c = Some (i, c1)" "links c1 xs" "in_slots c1 ! i = Occupied ?nd" "i < length (in_slots c1)" "i \<noteq> NONE"
      "fl (in_slots c1) fs'" "in_free_head c1 = hd_or fs'" "distinct (i # xs @ fs')" "set (i # xs @ fs') = {..<length (in_slots c1)}"
      "length (in_slots c1) \<le> in_capacity c" "vw c1 xs = vw c xs"
      "c1 = c\<lparr>in_slots := in_slots c1, in_free_head := in_free_head c1\<rparr>"
    by blast
  define c2 where "c2 = c1\<lparr>in_map := AList.update k i (in_map c1)\<rparr>"
  have "links c2 xs" "i < length (in_slots c2)" "in_slots c2 ! i = Occupied ?nd" "i \<notin> set xs"
    using a(2,3,4,8) by (auto simp: c2_def links_def)
  from push_head_spec [OF this a(5)] obtain c3 where
    p: "push_head i c2 = Some c3" "links c3 (i # xs)" "relinked (set (i # xs)) c2 c3" by auto
  note f = relinked_fields [OF p(3)]
  have c1: "in_map c1 = in_map c" "in_capacity c1 = in_capacity c" "in_bytes_total c1 = in_bytes_total c"
    "in_max_bytes c1 = in_max_bytes c" "in_serve_stale_secs c1 = in_serve_stale_secs c"
    using a(12) by (metis inner.select_convs inner.surjective inner.update_convs(2,5))+
  let ?c' = "c3\<lparr>in_bytes_total := in_bytes_total c3 + b\<rparr>"
  have v: "vw ?c' (i # xs) = (k, e, b) # vw c xs"
  proof -
    have "vw ?c' (i # xs) = vw c2 (i # xs)" using p(3) by (simp add: relinked_def vw_def)
    also have "\<dots> = (k, e, b) # vw c1 xs" using a(3) by (simp add: c2_def vw_def pay_def)
    finally show ?thesis using a(11) by simp
  qed
  have km: "k \<notin> fst ` set (in_map c)"
    using map_of_vw_None [OF inv, of k] k by (simp add: map_of_eq_None_iff)
  have fl': "fl (in_slots c3) fs'"
  proof (rule fl_frame [OF a(6)])
    fix j
    assume "j \<in> set fs'"
    then have "j \<notin> set (i # xs)" using a(8) by auto
    then show "in_slots c3 ! j = in_slots c1 ! j" using p(3) by (simp add: relinked_def c2_def)
  qed (use f in \<open>simp add: c2_def\<close>)
  have "cache_inv ?c' (i # xs) fs'"
    unfolding cache_inv_def v
  proof (intro conjI)
    show "links ?c' (i # xs)" using p(2) by (simp add: links_def)
    show "map_of (in_map ?c') = map_of (zip (map fst ((k, e, b) # vw c xs)) (i # xs))"
      using inv f c1 by (auto simp: c2_def cache_inv_def update_conv')
  qed (use inv fl' a f c1 k km in \<open>auto simp: c2_def cache_inv_def bytes_of_def length_update_new distinct_update\<close>)
  moreover have "same_cfg c ?c'" using f c1 by (simp add: same_cfg_def c2_def)
  ultimately show ?thesis using a(1) p(1) v by (auto simp: c2_def)
qed

lemma insert_old_spec:
  assumes inv: "cache_inv c (as @ i # bs) fs" and nd: "in_slots c ! i = Occupied nd"
  shows "\<exists>c' . move_to_head i (c\<lparr>in_slots := (in_slots c)[i := Occupied (nd\<lparr>nd_entry := e, nd_bytes := b\<rparr>)],
            in_bytes_total := in_bytes_total c - nd_bytes nd + b\<rparr>) = Some c'
    \<and> cache_inv c' (i # as @ bs) fs \<and> vw c' (i # as @ bs) = (nd_key nd, e, b) # vw c (as @ bs) \<and> same_cfg c c'
    \<and> nd_bytes nd \<le> in_bytes_total c"
proof -
  let ?xs = "as @ i # bs"
  let ?nd = "nd\<lparr>nd_entry := e, nd_bytes := b\<rparr>"
  let ?s = "(in_slots c)[i := Occupied ?nd]"
  let ?c1 = "c\<lparr>in_slots := ?s, in_bytes_total := in_bytes_total c - nd_bytes nd + b\<rparr>"
  have d: "distinct (?xs @ fs)" "set (?xs @ fs) = {..<length (in_slots c)}" using inv by (auto simp: cache_inv_def)
  have i: "i < length (in_slots c)" "i \<notin> set as" "i \<notin> set bs" using d by auto
  have other: "vw ?c1 ys = vw c ys" if "i \<notin> set ys" for ys
  proof -
    have "?s ! j = in_slots c ! j" if "j \<in> set ys" for j using that \<open>i \<notin> set ys\<close> by (metis nth_list_update_neq)
    then show ?thesis by (simp add: vw_def pay_def)
  qed
  have self: "the (pay ?s i) = (nd_key nd, e, b)" using i by (simp add: pay_def)
  have old: "the (pay (in_slots c) i) = (nd_key nd, nd_entry nd, nd_bytes nd)" using nd by (simp add: pay_def)
  have dl': "dl ?s p ys n" if "dl (in_slots c) p ys n" for p ys n
    using that
  proof (induction "in_slots c" p ys n rule: dl.induct)
    case (2 p j js n)
    then show ?case using nd by (cases "j = i") auto
  qed simp
  have fl': "fl ?s fs" by (rule fl_frame [of "in_slots c"]) (use inv d in \<open>auto simp: cache_inv_def intro!: nth_list_update_neq\<close>)
  have v1: "vw ?c1 ?xs = vw c as @ (nd_key nd, e, b) # vw c bs" using other i self by simp
  have le: "nd_bytes nd \<le> in_bytes_total c" using inv old by (simp add: cache_inv_def bytes_of_def)
  have "cache_inv ?c1 ?xs fs"
    unfolding cache_inv_def v1
    using inv old dl' fl' le by (auto simp: cache_inv_def links_def bytes_of_def)
  from move_to_head_spec [OF this] other i self le show ?thesis
    by (auto simp: same_cfg_def)
qed

lemma cache_rep_insert:
  assumes rep: "cache_rep c L"
  shows "\<exists>c'. insert_entry k e b c = Some c' \<and> cache_rep c' (insert_spec (in_capacity c) (in_max_bytes c) k e b L) \<and> same_cfg c c'"
proof -
  from rep obtain xs fs where inv: "cache_inv c xs fs" and L: "vw c xs = L" by (auto simp: cache_rep_def)
  show ?thesis
  proof (cases "map_of (in_map c) k")
    case (Some i)
    from cache_inv_split [OF inv Some] obtain as bs nd where x: "xs = as @ i # bs" and nd: "in_slots c ! i = Occupied nd" "nd_key nd = k"
      and il: "i < length (in_slots c)" by auto
    from insert_old_spec [OF inv [unfolded x] nd(1), where e = e and b = b] obtain c1 where
      c1: "move_to_head i (c\<lparr>in_slots := (in_slots c)[i := Occupied (nd\<lparr>nd_entry := e, nd_bytes := b\<rparr>)],
            in_bytes_total := in_bytes_total c - nd_bytes nd + b\<rparr>) = Some c1"
        "cache_inv c1 (i # as @ bs) fs" "vw c1 (i # as @ bs) = (k, e, b) # vw c (as @ bs)" "same_cfg c c1" "nd_bytes nd \<le> in_bytes_total c"
      using nd(2) by auto
    have "L = vw c as @ (k, nd_entry nd, nd_bytes nd) # vw c bs" using L x nd by (simp add: pay_def)
    moreover have "distinct (map fst L)" using inv L by (simp add: cache_inv_def)
    ultimately have "k \<in> fst ` set L" "drop_key k L = vw c (as @ bs)"
      using drop_key_mid [of "vw c as" k "(nd_entry nd, nd_bytes nd)" "vw c bs"] by auto
    then have sp: "insert_spec (in_capacity c) (in_max_bytes c) k e b L = evict_spec (in_max_bytes c1) (vw c1 (i # as @ bs))"
      using c1(3,4) by (simp add: insert_spec_def same_cfg_def)
    have "cache_rep c1 (vw c1 (i # as @ bs))" using c1(2) by (auto simp: cache_rep_def)
    from cache_rep_evict [OF this] show ?thesis
      using Some il nd(1) c1(1,4,5) by (auto simp: insert_entry_def sp intro: same_cfg_trans)
  next
    case None
    have kn: "k \<notin> fst ` set L" using map_of_vw_None [OF inv] None L by simp
    have lm: "length (in_map c) = length xs" "0 < in_capacity c" using inv by (auto simp: cache_inv_def)
    obtain c1 xs1 fs1 where c1: "(if length (in_map c) \<ge> in_capacity c then evict_tail c else Some c) = Some c1"
      "cache_inv c1 xs1 fs1" "vw c1 xs1 = (if length L \<ge> in_capacity c then butlast L else L)" "same_cfg c c1" "length xs1 < in_capacity c"
    proof (cases "length (in_map c) \<ge> in_capacity c")
      case True
      then have "xs \<noteq> []" using lm by auto
      from evict_tail_spec [OF inv this] obtain c1 fs1 where
        e: "evict_tail c = Some c1" "cache_inv c1 (butlast xs) fs1" "vw c1 (butlast xs) = butlast (vw c xs)" "same_cfg c c1"
        by blast
      have "length (xs @ fs) = length (in_slots c)" "length (in_slots c) \<le> in_capacity c"
        using inv distinct_card [of "xs @ fs"] by (simp_all add: cache_inv_def)
      then have "length (butlast xs) < in_capacity c" using lm by simp
      then show ?thesis using True e lm L by (intro that [of c1 "butlast xs" fs1]) auto
    next
      case False
      with inv lm L show ?thesis by (intro that [of c xs fs]) auto
    qed
    have "k \<notin> fst ` set (vw c1 xs1)" using kn c1(3) by (auto dest: in_set_butlastD)
    from insert_new_spec [OF c1(2) _ this, where e = e and b = b] c1(4,5) obtain c2 i fs2 where
      c2: "do { (idx, c2) \<leftarrow> alloc_slot \<lparr>nd_key = k, nd_entry = e, nd_bytes = b, nd_prev = NONE, nd_next = NONE\<rparr> c1;
        c4 \<leftarrow> push_head idx (c2\<lparr>in_map := AList.update k idx (in_map c2)\<rparr>);
        Some (c4\<lparr>in_bytes_total := in_bytes_total c4 + b\<rparr>) } = Some c2"
        "cache_inv c2 (i # xs1) fs2" "vw c2 (i # xs1) = (k, e, b) # vw c1 xs1" "same_cfg c1 c2"
      by (auto simp: same_cfg_def)
    have ie: "insert_entry k e b c = evict_to_byte_budget c2"
      using c1(1) c2(1) None by (auto simp: insert_entry_def Let_def split: Option.bind_splits)
    have sp: "insert_spec (in_capacity c) (in_max_bytes c) k e b L = evict_spec (in_max_bytes c2) (vw c2 (i # xs1))"
      using c1(3,4) c2(3,4) kn by (simp add: insert_spec_def same_cfg_def)
    have "cache_rep c2 (vw c2 (i # xs1))" using c2(2) by (auto simp: cache_rep_def)
    from cache_rep_evict [OF this] c1(4) c2(4) show ?thesis
      unfolding ie sp by (auto intro: same_cfg_trans)
  qed
qed

section \<open>Looking up\<close>

lemma cache_rep_get:
  assumes rep: "cache_rep c L"
  shows "\<exists>c' r L'. cache_get k now c = Some (r, c') \<and> get_spec (in_serve_stale_secs c) k now L = (r, L')
    \<and> cache_rep c' L' \<and> same_cfg c c'"
proof -
  from rep obtain xs fs where inv: "cache_inv c xs fs" and L: "vw c xs = L" by (auto simp: cache_rep_def)
  have dL: "distinct (map fst L)" using inv L by (simp add: cache_inv_def)
  show ?thesis
  proof (cases "map_of (in_map c) k")
    case None
    then have "map_of L k = None" using map_of_vw_None [OF inv] L by (simp add: map_of_eq_None_iff)
    with None rep show ?thesis by (simp add: cache_get_def get_spec_def)
  next
    case (Some i)
    from cache_inv_split [OF inv Some] obtain as bs nd where x: "xs = as @ i # bs" and nd: "in_slots c ! i = Occupied nd" "nd_key nd = k"
      and il: "i < length (in_slots c)" by auto
    let ?e = "nd_entry nd" and ?b = "nd_bytes nd"
    let ?el = "as_secs (now - ce_inserted_at ?e)"
    have Ls: "L = vw c as @ (k, ?e, ?b) # vw c bs" using L x nd by (simp add: pay_def)
    then have mo: "map_of L k = Some (?e, ?b)" using dL by (intro map_of_is_SomeI) auto
    have dk: "drop_key k L = vw c (as @ bs)" using drop_key_mid [of "vw c as" k "(?e, ?b)" "vw c bs"] Ls dL by simp
    show ?thesis
    proof (cases "?el \<ge> sat_add_u64 (ce_effective_ttl_secs ?e) (in_serve_stale_secs c)")
      case True
      from remove_spec [OF inv [unfolded x]] obtain c1 where
        c1: "remove i c = Some c1" "cache_inv c1 (as @ bs) (i # fs)" "vw c1 (as @ bs) = vw c (as @ bs)" "same_cfg c c1" by auto
      have "cache_rep c1 (drop_key k L)" unfolding dk c1(3) [symmetric] cache_rep_def using c1(2) by blast
      with c1 Some il nd True mo show ?thesis
        by (auto simp: cache_get_def get_spec_def Let_def)
    next
      case False
      from move_to_head_spec [OF inv [unfolded x]] obtain c1 where
        c1: "move_to_head i c = Some c1" "cache_inv c1 (i # as @ bs) fs"
          "vw c1 (i # as @ bs) = the (pay (in_slots c) i) # vw c (as @ bs)" "same_cfg c c1" by auto
      have pi: "the (pay (in_slots c1) i) = (k, ?e, ?b)" using c1(3) nd by (simp add: pay_def)
      have "links c1 (i # as @ bs)" using c1(2) by (simp add: cache_inv_def)
      then have "dl (in_slots c1) NONE (i # as @ bs) NONE" by (simp add: links_def)
      from dl_bound [OF this, of i] pi obtain nd1 where nd1: "i < length (in_slots c1)" "in_slots c1 ! i = Occupied nd1" "nd_entry nd1 = ?e"
        by (auto simp: pay_def)
      have "cache_rep c1 ((k, ?e, ?b) # drop_key k L)"
        unfolding cache_rep_def using c1(2,3) dk nd by (intro exI [of _ "i # as @ bs"] exI [of _ fs]) (auto simp: pay_def)
      with c1 Some il nd nd1 False mo show ?thesis
        by (auto simp: cache_get_def get_spec_def Let_def)
    qed
  qed
qed

section \<open>The contract of the store\<close>

lemma evict_spec_prefix: "prefix (evict_spec mb L) L"
proof (induction mb L rule: evict_spec.induct)
  case (1 mb L)
  show ?case
  proof (cases "bytes_of L > mb \<and> length L > 1")
    case True
    then have "evict_spec mb L = evict_spec mb (butlast L)" using evict_spec.simps [of mb L] by simp
    then show ?thesis using 1 [OF True] prefixeq_butlast [of L] by (metis prefix_order.trans)
  next
    case False
    then have "evict_spec mb L = L" using evict_spec.simps [of mb L] by (simp only: if_False)
    then show ?thesis by simp
  qed
qed

lemma evict_spec_ne: "L \<noteq> [] \<Longrightarrow> evict_spec mb L \<noteq> []"
proof (induction mb L rule: evict_spec.induct)
  case (1 mb L)
  have "length L > 1 \<Longrightarrow> butlast L \<noteq> []" by (cases L rule: rev_cases) auto
  then show ?case using 1 evict_spec.simps [of mb L] by (auto split: if_splits)
qed

lemma evict_spec_budget: "bytes_of (evict_spec mb L) \<le> mb \<or> length (evict_spec mb L) \<le> 1"
proof (induction mb L rule: evict_spec.induct)
  case (1 mb L)
  then show ?case using evict_spec.simps [of mb L] by (auto split: if_splits)
qed

lemma evict_spec_hd: "\<exists>zs. evict_spec mb (x # L) = x # zs \<and> prefix zs L"
  using evict_spec_prefix [of mb "x # L"] evict_spec_ne [of "x # L" mb]
  by (cases "evict_spec mb (x # L)") auto

text \<open>What a client of the store relies on: one list of entries behind it, most recent first, and
  an insertion that changes this list as specified.\<close>

locale lru_store =
  fixes rep :: "'s \<Rightarrow> ('k \<times> 'v \<times> nat) list \<Rightarrow> bool"
    and cap :: "'s \<Rightarrow> nat"
    and budget :: "'s \<Rightarrow> nat"
    and ins :: "'k \<Rightarrow> 'v \<Rightarrow> nat \<Rightarrow> 's \<Rightarrow> 's option"
  assumes rep_ok: "rep s L \<Longrightarrow> distinct (map fst L) \<and> length L \<le> cap s \<and> 0 < cap s"
    and ins_ok: "rep s L \<Longrightarrow> \<exists>s'. ins k v b s = Some s' \<and> rep s' (insert_spec (cap s) (budget s) k v b L)
      \<and> cap s' = cap s \<and> budget s' = budget s"
begin

lemma ins_newest:
  assumes "rep s L"
  shows "\<exists>s' L'. ins k v b s = Some s' \<and> rep s' ((k, v, b) # L') \<and> set L' \<subseteq> set L \<and> k \<notin> fst ` set L'"
proof -
  from ins_ok [OF assms] obtain s' where s': "ins k v b s = Some s'" "rep s' (insert_spec (cap s) (budget s) k v b L)" by blast
  obtain zs where z: "insert_spec (cap s) (budget s) k v b L = (k, v, b) # zs" and
    p: "prefix zs (if k \<in> fst ` set L then drop_key k L else if length L \<ge> cap s then butlast L else L)"
    using evict_spec_hd unfolding insert_spec_def by metis
  have "set zs \<subseteq> set L"
    using set_mono_prefix [OF p] by (auto simp: drop_key_def dest: in_set_butlastD split: if_splits)
  moreover have "k \<notin> fst ` set zs"
    using rep_ok [OF s'(2)] by (auto simp: z)
  ultimately show ?thesis using s' z by auto
qed

lemma ins_bounds:
  assumes "rep s L" "ins k v b s = Some s'" "rep s' L'" "L' = insert_spec (cap s) (budget s) k v b L"
  shows "length L' \<le> cap s' \<and> (bytes_of L' \<le> budget s \<or> length L' \<le> 1)"
  using rep_ok [OF assms(3)] evict_spec_budget unfolding assms(4) insert_spec_def by blast

end

lemma cache_rep_ok: "cache_rep c L \<Longrightarrow> distinct (map fst L) \<and> length L \<le> in_capacity c \<and> 0 < in_capacity c
    \<and> cache_len c = length L \<and> in_bytes_total c = bytes_of L"
proof -
  assume "cache_rep c L"
  then obtain xs fs where inv: "cache_inv c xs fs" "vw c xs = L" by (auto simp: cache_rep_def)
  have "length (xs @ fs) = length (in_slots c)"
    using inv(1) distinct_card [of "xs @ fs"] by (simp add: cache_inv_def)
  moreover have "length L = length xs" using inv(2) by auto
  ultimately show ?thesis using inv by (auto simp: cache_inv_def cache_len_def)
qed

interpretation cs: lru_store cache_rep in_capacity in_max_bytes insert_entry
proof
  fix c :: "('k, 'n) inner" and L k v b
  assume rep: "cache_rep c L"
  show "distinct (map fst L) \<and> length L \<le> in_capacity c \<and> 0 < in_capacity c" using cache_rep_ok [OF rep] by blast
  show "\<exists>c'. insert_entry k v b c = Some c' \<and> cache_rep c' (insert_spec (in_capacity c) (in_max_bytes c) k v b L)
      \<and> in_capacity c' = in_capacity c \<and> in_max_bytes c' = in_max_bytes c"
    using cache_rep_insert [OF rep, of k v b] by (auto simp: same_cfg_def)
qed

section \<open>Sequences of operations\<close>

datatype ('k, 'n) cache_op = OpInsert 'k "'n message" instant | OpGet 'k instant

fun run_op :: "('n message \<Rightarrow> nat option) \<Rightarrow> ('k, 'n) cache_op \<Rightarrow> ('k, 'n) inner \<Rightarrow> ('k, 'n) inner option" where
  "run_op wire (OpInsert k msg now) c = cache_insert wire k msg now c"
| "run_op wire (OpGet k now) c = map_option snd (cache_get k now c)"

fun run_ops :: "('n message \<Rightarrow> nat option) \<Rightarrow> ('k, 'n) cache_op list \<Rightarrow> ('k, 'n) inner \<Rightarrow> ('k, 'n) inner option" where
  "run_ops wire [] c = Some c"
| "run_ops wire (o1 # os) c = do { c' \<leftarrow> run_op wire o1 c; run_ops wire os c' }"

definition within_limits :: "('k, 'n) inner \<Rightarrow> bool" where
  "within_limits c \<longleftrightarrow> (\<exists>L. cache_rep c L \<and> (bytes_of L \<le> in_max_bytes c \<or> length L \<le> 1))"

lemma drop_key_le: "bytes_of (drop_key k L) \<le> bytes_of L" "length (drop_key k L) \<le> length L"
  by (induction L) (auto simp: drop_key_def bytes_of_def intro: le_SucI)

lemma get_spec_sub:
  assumes "get_spec st k now L = (r, L')"
  shows "bytes_of L' \<le> bytes_of L \<and> length L' \<le> length L"
proof -
  have g: "bytes_of (drop_key k L) + b \<le> bytes_of L \<and> length (drop_key k L) < length L" if "map_of L k = Some (e, b)" for e b
    using that
  proof (induction L)
    case (Cons x L)
    with drop_key_le [of k L] show ?case by (cases x) (auto simp: drop_key_def bytes_of_def less_Suc_eq_le split: if_splits)
  qed simp
  show ?thesis using assms drop_key_le [of k L] g
    by (auto simp: get_spec_def Let_def split: option.splits prod.splits if_splits) (auto simp: bytes_of_def)
qed

lemma run_op_limits:
  assumes "within_limits c"
  shows "\<exists>c'. run_op wire op c = Some c' \<and> within_limits c' \<and> same_cfg c c'"
proof -
  from assms obtain L where L: "cache_rep c L" "bytes_of L \<le> in_max_bytes c \<or> length L \<le> 1" by (auto simp: within_limits_def)
  show ?thesis
  proof (cases op)
    case (OpInsert k msg now)
    show ?thesis
    proof (cases "make_entry msg now")
      case None
      with OpInsert assms show ?thesis by (simp add: cache_insert_def)
    next
      case (Some e)
      from cache_rep_insert [OF L(1), of k e "entry_bytes wire msg"] obtain c' where
        c': "insert_entry k e (entry_bytes wire msg) c = Some c'"
          "cache_rep c' (insert_spec (in_capacity c) (in_max_bytes c) k e (entry_bytes wire msg) L)" "same_cfg c c'" by auto
      from cs.ins_bounds [OF L(1) c'(1,2) refl] c' Some OpInsert show ?thesis
        by (auto simp: cache_insert_def within_limits_def same_cfg_def)
    qed
  next
    case (OpGet k now)
    from cache_rep_get [OF L(1), of k now] obtain c' r L' where
      g: "cache_get k now c = Some (r, c')" "get_spec (in_serve_stale_secs c) k now L = (r, L')" "cache_rep c' L'" "same_cfg c c'" by auto
    from get_spec_sub [OF g(2)] L(2) g OpGet show ?thesis
      by (force simp: within_limits_def same_cfg_def)
  qed
qed

lemma run_ops_limits: "within_limits c \<Longrightarrow> \<exists>c'. run_ops wire os c = Some c' \<and> within_limits c' \<and> same_cfg c c'"
proof (induction os arbitrary: c)
  case (Cons o1 os)
  from run_op_limits [OF Cons.prems, of wire o1] obtain c1 where c1: "run_op wire o1 c = Some c1" "within_limits c1" "same_cfg c c1" by auto
  from Cons.IH [OF c1(2)] c1 show ?case by (auto intro: same_cfg_trans)
qed simp

lemma with_limits_rep:
  assumes "with_limits cap mb st = Some c" "cap \<le> NONE"
  shows "cache_rep c [] \<and> in_capacity c = cap \<and> in_max_bytes c = mb \<and> in_serve_stale_secs c = st"
  using assms unfolding cache_rep_def
  by (auto simp: with_limits_def cache_inv_def links_def vw_def bytes_of_def split: if_splits
      intro!: exI [of _ "[]"])

section \<open>Properties\<close>

text \<open>C27: a cache made by \<open>with_limits\<close> never panics and its eviction loop always ends, whatever
  sequence of insertions and lookups runs on it, and at every point it holds at most \<open>capacity\<close>
  entries and at most \<open>max_bytes\<close> estimated bytes, unless a single entry is left.\<close>
theorem cache_never_panics_within_limits:
  assumes "with_limits cap mb st = Some (c0 :: ('k, 'n) inner)" and "cap \<le> NONE"
  shows "\<exists>c. run_ops wire os c0 = Some c \<and> cache_len c \<le> cap
    \<and> (in_bytes_total c \<le> mb \<or> cache_len c \<le> 1)"
proof -
  from with_limits_rep [OF assms] have r: "cache_rep c0 []" "in_capacity c0 = cap" "in_max_bytes c0 = mb" by auto
  then have "within_limits c0" by (auto simp: within_limits_def intro: exI [of _ "[]"])
  from run_ops_limits [OF this, of wire os] obtain c where c: "run_ops wire os c0 = Some c" "within_limits c" "same_cfg c0 c" by auto
  from c(2) obtain L where L: "cache_rep c L" "bytes_of L \<le> in_max_bytes c \<or> length L \<le> 1" by (auto simp: within_limits_def)
  from cache_rep_ok [OF L(1)] L(2) c r show ?thesis by (auto simp: same_cfg_def)
qed

text \<open>\<open>insert\<close> refines its specification on the list of entries, most recent first: a response that
  is neither \<open>NOERROR\<close> nor \<open>NXDOMAIN\<close>, or has no record, changes nothing; otherwise the entry
  goes to the front, an old entry of the key goes away, a full cache first loses its last entry, and
  entries are then dropped from the end while the byte budget is exceeded.\<close>
theorem cache_insert_refines:
  assumes "cache_rep c L"
  shows "\<exists>c'. cache_insert wire k msg now c = Some c'
    \<and> cache_rep c' (case make_entry msg now of
         None \<Rightarrow> L
       | Some e \<Rightarrow> insert_spec (in_capacity c) (in_max_bytes c) k e (entry_bytes wire msg) L)"
proof (cases "make_entry msg now")
  case None
  with assms show ?thesis by (simp add: cache_insert_def)
next
  case (Some e)
  from cache_rep_insert [OF assms, of k e "entry_bytes wire msg"] Some show ?thesis
    by (auto simp: cache_insert_def)
qed

text \<open>\<open>get\<close> refines its specification: a hit moves the entry to the front, an entry past its
  stale window is removed and reported as a miss, and nothing else changes.\<close>
theorem cache_get_refines:
  assumes "cache_rep c L"
  shows "\<exists>c' r L'. cache_get k now c = Some (r, c')
    \<and> get_spec (in_serve_stale_secs c) k now L = (r, L') \<and> cache_rep c' L'"
  using cache_rep_get [OF assms] by blast
text \<open>A sequence of operations on the cache with what the lookups return, and on the list of entries.\<close>

fun trace_ops ::
    "('n message \<Rightarrow> nat option) \<Rightarrow> ('k, 'n) cache_op list \<Rightarrow> ('k, 'n) inner \<Rightarrow> ('n lookup list \<times> ('k, 'n) inner) option" where
  "trace_ops wire [] c = Some ([], c)"
| "trace_ops wire (OpInsert k msg now # os) c = do { c' \<leftarrow> cache_insert wire k msg now c; trace_ops wire os c' }"
| "trace_ops wire (OpGet k now # os) c = do {
     (r, c') \<leftarrow> cache_get k now c;
     (rs, c'') \<leftarrow> trace_ops wire os c';
     Some (r # rs, c'')
   }"

fun list_ops ::
    "('n message \<Rightarrow> nat option) \<Rightarrow> nat \<Rightarrow> nat \<Rightarrow> nat \<Rightarrow> ('k, 'n) cache_op list \<Rightarrow> ('k \<times> 'n entry \<times> nat) list
       \<Rightarrow> 'n lookup list \<times> ('k \<times> 'n entry \<times> nat) list" where
  "list_ops wire cap mb st [] L = ([], L)"
| "list_ops wire cap mb st (OpInsert k msg now # os) L =
     list_ops wire cap mb st os
       (case make_entry msg now of None \<Rightarrow> L | Some e \<Rightarrow> insert_spec cap mb k e (entry_bytes wire msg) L)"
| "list_ops wire cap mb st (OpGet k now # os) L =
     (case get_spec st k now L of (r, L') \<Rightarrow> (case list_ops wire cap mb st os L' of (rs, L'') \<Rightarrow> (r # rs, L'')))"

lemma trace_ops_refines:
  "cache_rep c L \<Longrightarrow> in_capacity c = cap \<Longrightarrow> in_max_bytes c = mb \<Longrightarrow> in_serve_stale_secs c = st
    \<Longrightarrow> \<exists>c'. trace_ops wire os c = Some (fst (list_ops wire cap mb st os L), c') \<and> cache_rep c' (snd (list_ops wire cap mb st os L))"
proof (induction wire cap mb st os L arbitrary: c rule: list_ops.induct)
  case (2 wire cap mb st k msg now os L)
  show ?case
  proof (cases "make_entry msg now")
    case None
    with 2 show ?thesis by (simp add: cache_insert_def)
  next
    case (Some e)
    from cache_rep_insert [OF "2.prems"(1), of k e "entry_bytes wire msg"] obtain c' where
      "insert_entry k e (entry_bytes wire msg) c = Some c'" "cache_rep c' (insert_spec cap mb k e (entry_bytes wire msg) L)" "same_cfg c c'"
      using "2.prems" by auto
    with 2 Some show ?thesis by (simp add: cache_insert_def same_cfg_def)
  qed
next
  case (3 wire cap mb st k now os L)
  from cache_rep_get [OF "3.prems"(1), of k now] obtain c' r L' where
    g: "cache_get k now c = Some (r, c')" "get_spec st k now L = (r, L')" "cache_rep c' L'" "same_cfg c c'"
    using "3.prems" by auto
  from "3.IH" [OF g(2) [symmetric] g(3)] g(4) "3.prems" obtain c'' where
    "trace_ops wire os c' = Some (fst (list_ops wire cap mb st os L'), c'')" "cache_rep c'' (snd (list_ops wire cap mb st os L'))"
    by (auto simp: same_cfg_def)
  with g show ?case by (simp add: case_prod_beta)
qed simp

text \<open>C28: a cache made by \<open>with_limits\<close> is, to its clients, a list of entries, most recent first: any
  sequence of insertions and lookups runs without a panic and its lookups return exactly what they
  return on the list, where an insertion puts its entry in front, a full list first loses its last
  entry and entries then go from the end while the byte budget is exceeded, and a lookup moves a hit
  to the front and drops an entry past its stale window.\<close>
theorem cache_runs_as_list:
  assumes "with_limits cap mb st = Some (c0 :: ('k, 'n) inner)" and "cap \<le> NONE"
  shows "\<exists>c. trace_ops wire os c0 = Some (fst (list_ops wire cap mb st os []), c)
    \<and> cache_rep c (snd (list_ops wire cap mb st os []))"
  using trace_ops_refines [of c0 "[]" cap mb st wire os] with_limits_rep [OF assms] by blast


lemma effective_ttl_le:
  assumes "effective_ttl rs = Some t"
  shows "\<forall>r \<in> set rs. t \<le> record_lifetime r \<and> t \<le> or_original_ttl r" "\<exists>r \<in> set rs. t = record_lifetime r"
proof -
  have m: "fold min xs x = Min (set (x # xs))" for x :: nat and xs by (simp only: Min.set_eq_fold)
  obtain r0 rs' where rs: "rs = r0 # rs'" using assms by (cases rs) (auto simp: effective_ttl_def)
  have t: "t = Min (record_lifetime ` set rs)" using assms m by (simp add: effective_ttl_def rs)
  have le: "record_lifetime r \<le> or_original_ttl r" for r :: "'a original_record"
    by (simp add: record_lifetime_def split: rdata.splits)
  have "\<forall>r \<in> set rs. t \<le> record_lifetime r" unfolding t by simp
  then show "\<forall>r \<in> set rs. t \<le> record_lifetime r \<and> t \<le> or_original_ttl r" using le order_trans by blast
  have "t \<in> record_lifetime ` set rs" unfolding t by (rule Min_in) (auto simp: rs)
  then show "\<exists>r \<in> set rs. t = record_lifetime r" by auto
qed

lemma build_response_sections:
  "ms_answers (build_response e f) = map (\<lambda>r. (or_record r)\<lparr>dr_ttl := f (or_original_ttl r)\<rparr>) (ce_answers e)"
  "ms_authorities (build_response e f) = map (\<lambda>r. (or_record r)\<lparr>dr_ttl := f (or_original_ttl r)\<rparr>) (ce_authorities e)"
  "rcode (build_response e f) = ce_response_code e"
proof -
  have a: "fold (\<lambda>r m. add_answer (g r) m) xs m = m\<lparr>ms_answers := ms_answers m @ map g xs\<rparr>" for g :: "'x \<Rightarrow> 'n dns_record" and xs m
    by (induction xs arbitrary: m) (auto simp: add_answer_def)
  have b: "fold (\<lambda>r m. add_authority (g r) m) xs m = m\<lparr>ms_authorities := ms_authorities m @ map g xs\<rparr>" for g :: "'x \<Rightarrow> 'n dns_record" and xs m
    by (induction xs arbitrary: m) (auto simp: add_authority_def)
  show "ms_answers (build_response e f) = map (\<lambda>r. (or_record r)\<lparr>dr_ttl := f (or_original_ttl r)\<rparr>) (ce_answers e)"
    "ms_authorities (build_response e f) = map (\<lambda>r. (or_record r)\<lparr>dr_ttl := f (or_original_ttl r)\<rparr>) (ce_authorities e)"
    "rcode (build_response e f) = ce_response_code e"
    by (simp_all add: build_response_def Let_def a b new_message_def set_rcode_def)
qed

text \<open>The records of a message with every TTL replaced.\<close>

definition with_ttls :: "(nat \<Rightarrow> nat) \<Rightarrow> 'n message \<Rightarrow> 'n dns_record list \<times> 'n dns_record list \<times> response_code" where
  "with_ttls f m =
     (map (\<lambda>r. r\<lparr>dr_ttl := f (dr_ttl r)\<rparr>) (ms_answers m),
      map (\<lambda>r. r\<lparr>dr_ttl := f (dr_ttl r)\<rparr>) (ms_authorities m), rcode m)"

definition sections :: "'n message \<Rightarrow> 'n dns_record list \<times> 'n dns_record list \<times> response_code" where
  "sections m = (ms_answers m, ms_authorities m, rcode m)"

definition msg_lifetime :: "'n message \<Rightarrow> nat option" where
  "msg_lifetime m = effective_ttl (map to_original (ms_answers m @ ms_authorities m))"

lemma make_entry_Some:
  assumes "make_entry msg now = Some e"
  shows "msg_lifetime msg = Some (ce_effective_ttl_secs e)" "ce_inserted_at e = now"
    "ce_answers e = map to_original (ms_answers msg)" "ce_authorities e = map to_original (ms_authorities msg)"
    "ce_response_code e = rcode msg"
  using assms by (auto simp: make_entry_def msg_lifetime_def Let_def split: if_splits option.splits)

lemma sections_build:
  assumes "make_entry msg now = Some e"
  shows "sections (build_response e f) = with_ttls f msg"
  using make_entry_Some [OF assms]
  by (simp add: sections_def with_ttls_def build_response_sections to_original_def comp_def)

lemma fresh_ttl_exact:
  assumes "make_entry msg now = Some e" "s < ce_effective_ttl_secs e" "s < 2 ^ 32"
    and "r \<in> set (ms_answers msg @ ms_authorities msg)"
  shows "fresh_ttl s (dr_ttl r) = dr_ttl r - s \<and> s < dr_ttl r"
proof -
  have "\<forall>x \<in> set (map to_original (ms_answers msg @ ms_authorities msg)). ce_effective_ttl_secs e \<le> or_original_ttl x"
    using effective_ttl_le(1) make_entry_Some(1) [OF assms(1)] unfolding msg_lifetime_def by blast
  with assms(2,3,4) show ?thesis by (force simp: fresh_ttl_def try_u32_def to_original_def)
qed

text \<open>The time rules of RFC 1035, 2308 and 8767 as the code states them.  A response stored at
  \<open>t0\<close> and looked up at \<open>t\<close> is found whatever the cache held before; in whole seconds after
  \<open>t0\<close> it is fresh before its lifetime (the least TTL, an SOA counting as the minimum of TTL and
  MINIMUM), every TTL reduced by exactly the time passed and still positive; stale with TTL 30 up to
  the end of the stale window; and a miss after that.  Records and response code are kept.\<close>
theorem cache_insert_then_get:
  assumes "cache_rep c L" and "rcode msg = NoError \<or> rcode msg = NXDomain"
    and "msg_lifetime msg = Some life" and "life < 2 ^ 32"
    and "s = as_secs (t - t0)"
  shows "\<exists>c1 r c2. cache_insert wire k msg t0 c = Some c1 \<and> cache_get k t c1 = Some (r, c2)
    \<and> (if s \<ge> sat_add_u64 life (in_serve_stale_secs c) then r = Miss
       else if s < life
       then (\<exists>m. r = Fresh m \<and> sections m = with_ttls (\<lambda>ttl. ttl - s) msg
               \<and> (\<forall>x \<in> set (ms_answers m @ ms_authorities m). 0 < dr_ttl x))
       else (\<exists>m. r = Stale m \<and> sections m = with_ttls (\<lambda>_. STALE_ANSWER_TTL_SECS) msg))"
proof -
  from assms(2,3) obtain e where e: "make_entry msg t0 = Some e"
    by (auto simp: make_entry_def msg_lifetime_def Let_def)
  note me = make_entry_Some [OF e]
  have le: "ce_effective_ttl_secs e = life" using me(1) assms(3) by simp
  from cs.ins_newest [OF assms(1), of k e "entry_bytes wire msg"] obtain c1 L1 where
    i: "insert_entry k e (entry_bytes wire msg) c = Some c1" "cache_rep c1 ((k, e, entry_bytes wire msg) # L1)" by auto
  have cfg: "in_serve_stale_secs c1 = in_serve_stale_secs c"
    using cache_rep_insert [OF assms(1), of k e "entry_bytes wire msg"] i(1) by (auto simp: same_cfg_def)
  from cache_rep_get [OF i(2), of k t] obtain c2 r L2 where
    g: "cache_get k t c1 = Some (r, c2)" "get_spec (in_serve_stale_secs c1) k t ((k, e, entry_bytes wire msg) # L1) = (r, L2)" by auto
  have r: "r = (if s \<ge> sat_add_u64 life (in_serve_stale_secs c) then Miss else answer_from e s)"
    using g(2) by (auto simp: get_spec_def Let_def me(2) le cfg assms(5) split: if_splits)
  have ins: "cache_insert wire k msg t0 c = Some c1" using e i(1) by (simp add: cache_insert_def)
  have fresh: "sections (build_response e (fresh_ttl s)) = with_ttls (\<lambda>ttl. ttl - s) msg
      \<and> (\<forall>x \<in> set (ms_answers (build_response e (fresh_ttl s)) @ ms_authorities (build_response e (fresh_ttl s))). 0 < dr_ttl x)"
    if s: "s < life"
  proof -
    have f: "fresh_ttl s (dr_ttl x) = dr_ttl x - s \<and> s < dr_ttl x" if "x \<in> set (ms_answers msg @ ms_authorities msg)" for x
      using fresh_ttl_exact [OF e _ _ that, of s] s le assms(4) by simp
    then have "with_ttls (fresh_ttl s) msg = with_ttls (\<lambda>ttl. ttl - s) msg" by (simp add: with_ttls_def)
    moreover have "\<forall>x \<in> set (ms_answers (build_response e (fresh_ttl s)) @ ms_authorities (build_response e (fresh_ttl s))). 0 < dr_ttl x"
      by (auto simp: build_response_sections fresh_ttl_def)
    ultimately show ?thesis using sections_build [OF e] by simp
  qed
  show ?thesis
    using ins g(1) r fresh sections_build [OF e] le
    by (intro exI [of _ c1] exI [of _ r] exI [of _ c2]) (auto simp: answer_from_def)
qed

text \<open>Only \<open>NOERROR\<close> and \<open>NXDOMAIN\<close> responses with at least one answer or authority record
  are stored: any other response leaves the cache as it is.\<close>
theorem cache_insert_ignores:
  assumes "(rcode msg \<noteq> NoError \<and> rcode msg \<noteq> NXDomain) \<or> (ms_answers msg = [] \<and> ms_authorities msg = [])"
  shows "cache_insert wire k msg now c = Some c"
  using assms by (auto simp: cache_insert_def make_entry_def effective_ttl_def)

section \<open>Witnesses\<close>

definition cache_example_msg :: "string message" where
  "cache_example_msg = add_answer \<lparr>dr_name = ''a.com'', dr_class = 1, dr_ttl = 100, dr_data = RData_A [1, 2, 3, 4]\<rparr>
     (new_message 7 MResponse OpQuery)"

definition cache_example :: "(nat, string) inner" where
  "cache_example = \<lparr>in_map = [], in_slots = [], in_head = NONE, in_tail = NONE, in_free_head = NONE,
     in_capacity = 2, in_bytes_total = 0, in_max_bytes = 2000, in_serve_stale_secs = 60\<rparr>"

lemma cache_example_made: "with_limits 2 2000 60 = Some cache_example" "(2::nat) \<le> NONE"
  by (simp_all add: with_limits_def cache_example_def NONE_def u64_max_def)

theorem cache_never_panics_witness:
  "\<exists>c. run_ops (\<lambda>_. Some 40) [OpInsert 1 cache_example_msg 0, OpGet 1 5, OpInsert 2 cache_example_msg 7] cache_example = Some c
    \<and> cache_len c \<le> 2 \<and> (in_bytes_total c \<le> 2000 \<or> cache_len c \<le> 1)"
  by (rule cache_never_panics_within_limits [OF cache_example_made])

theorem cache_insert_refines_witness:
  "\<exists>c'. cache_insert (\<lambda>_. Some 40) 1 cache_example_msg 0 cache_example = Some c'
    \<and> cache_rep c' (case make_entry cache_example_msg 0 of None \<Rightarrow> []
        | Some e \<Rightarrow> insert_spec (in_capacity cache_example) (in_max_bytes cache_example) 1 e
            (entry_bytes (\<lambda>_. Some 40) cache_example_msg) [])"
  by (rule cache_insert_refines) (use with_limits_rep [OF cache_example_made] in simp)

theorem cache_get_refines_witness:
  "\<exists>c' r L'. cache_get 1 9 cache_example = Some (r, c')
    \<and> get_spec (in_serve_stale_secs cache_example) 1 9 [] = (r, L') \<and> cache_rep c' L'"
  by (rule cache_get_refines) (use with_limits_rep [OF cache_example_made] in simp)

theorem cache_runs_as_list_witness:
  "\<exists>c. trace_ops (\<lambda>_. Some 40) [OpInsert (1::nat) cache_example_msg 0, OpGet 1 5000000000, OpGet 2 7] cache_example
      = Some (fst (list_ops (\<lambda>_. Some 40) 2 2000 60 [OpInsert (1::nat) cache_example_msg 0, OpGet 1 5000000000, OpGet 2 7] []), c)
    \<and> cache_rep c (snd (list_ops (\<lambda>_. Some 40) 2 2000 60 [OpInsert (1::nat) cache_example_msg 0, OpGet 1 5000000000, OpGet 2 7] []))"
  by (rule cache_runs_as_list [OF cache_example_made])

theorem cache_insert_then_get_witness:
  "\<exists>c1 m c2. cache_insert (\<lambda>_. Some 40) 1 cache_example_msg 0 cache_example = Some c1
    \<and> cache_get 1 5000000000 c1 = Some (Fresh m, c2) \<and> sections m = with_ttls (\<lambda>ttl. ttl - 5) cache_example_msg"
proof -
  have r: "cache_rep cache_example []" "in_serve_stale_secs cache_example = 60"
    using with_limits_rep [OF cache_example_made] by auto
  have 1: "rcode cache_example_msg = NoError \<or> rcode cache_example_msg = NXDomain" by code_simp
  have 2: "msg_lifetime cache_example_msg = Some 100" by code_simp
  have 3: "(100::nat) < 2 ^ 32" "5 = as_secs (5000000000 - 0)" "\<not> 5 \<ge> sat_add_u64 100 60" by code_simp+
  from cache_insert_then_get [OF r(1) 1 2 3(1,2), of "\<lambda>_. Some 40" 1] 3(3) r(2) show ?thesis by auto
qed

theorem cache_insert_ignores_witness:
  "cache_insert (\<lambda>_. None) 1 (set_rcode ServFail cache_example_msg) 0 cache_example = Some cache_example"
  by (rule cache_insert_ignores) code_simp

end
