(* ===== verification/Failcache.thy ===== *)
theory Failcache
  imports Cache Assoc
begin

text \<open>
  The resolution-failure cache of \<open>crates/core/src/failcache.rs\<close> (RFC 9520).  The map behind the
  mutex is an association list with distinct keys; its order stands for the iteration order of the
  hash map, which the laws below do not depend on.  Instants and durations are nanoseconds.

  The locale \<open>failure_memory\<close> is what the resolution pipeline relies on: a recorded failure is
  held for the time reported, a success forgets it, other keys are not touched unless the table is
  full.  It is interpreted on the code's operations.
\<close>

section \<open>State and operations\<close>

definition FIRST_HOLD :: nat where "FIRST_HOLD = 5 * 10 ^ 9"
definition MAX_HOLD :: nat where "MAX_HOLD = 60 * 10 ^ 9"
definition MAX_KEYS :: nat where "MAX_KEYS = 4096"

record failure =
  fa_until :: instant
  fa_hold :: nat

type_synonym 'k failure_cache = "('k \<times> failure) list"

definition failcache_new :: "'k failure_cache" where
  "failcache_new = []"

definition held :: "'k \<Rightarrow> instant \<Rightarrow> 'k failure_cache \<Rightarrow> nat option" where
  "held key now m =
     (case map_of m key of
        None \<Rightarrow> None
      | Some f \<Rightarrow>
          if now \<le> fa_until f
          then (let left = fa_until f - now in if left \<noteq> 0 then Some left else None)
          else None)"

definition next_hold :: "'k \<Rightarrow> instant \<Rightarrow> 'k failure_cache \<Rightarrow> nat" where
  "next_hold key now m =
     (case map_of m key of
        Some prev \<Rightarrow> if now < fa_until prev + MAX_HOLD then min (fa_hold prev * 2) MAX_HOLD else FIRST_HOLD
      | None \<Rightarrow> FIRST_HOLD)"

fun oldest_key :: "'k failure_cache \<Rightarrow> 'k option" where
  "oldest_key [] = None"
| "oldest_key ((k, f) # m) =
     (case oldest_key m of
        None \<Rightarrow> Some k
      | Some k' \<Rightarrow>
          (case map_of m k' of
             None \<Rightarrow> Some k
           | Some f' \<Rightarrow> if fa_until f \<le> fa_until f' then Some k else Some k'))"

definition make_room :: "'k \<Rightarrow> instant \<Rightarrow> 'k failure_cache \<Rightarrow> 'k failure_cache" where
  "make_room key now m =
     (if length m \<ge> MAX_KEYS \<and> map_of m key = None then
        (let m1 = filter (\<lambda>(_, f). now < fa_until f + MAX_HOLD) m in
         if length m1 \<ge> MAX_KEYS then
           (case oldest_key m1 of Some k \<Rightarrow> AList.delete k m1 | None \<Rightarrow> m1)
         else m1)
      else m)"

definition record_failure :: "'k \<Rightarrow> instant \<Rightarrow> 'k failure_cache \<Rightarrow> nat \<times> 'k failure_cache" where
  "record_failure key now m =
     (let hold = next_hold key now m
      in (hold, AList.update key \<lparr>fa_until = now + hold, fa_hold = hold\<rparr> (make_room key now m)))"

definition clear :: "'k \<Rightarrow> 'k failure_cache \<Rightarrow> 'k failure_cache" where
  "clear key m = AList.delete key m"

definition failcache_len :: "'k failure_cache \<Rightarrow> nat" where
  "failcache_len m = length m"

definition failcache_is_empty :: "'k failure_cache \<Rightarrow> bool" where
  "failcache_is_empty m \<longleftrightarrow> failcache_len m = 0"

section \<open>Invariant\<close>

definition fc_inv :: "'k failure_cache \<Rightarrow> bool" where
  "fc_inv m \<longleftrightarrow> distinct (map fst m) \<and> length m \<le> MAX_KEYS
     \<and> (\<forall>(k, f) \<in> set m. FIRST_HOLD \<le> fa_hold f \<and> fa_hold f \<le> MAX_HOLD)"

lemma min_cap_mult: "1 \<le> p \<Longrightarrow> min (min a M * p) M = min (a * p) (M::nat)"
proof (cases "a \<le> M")
  case False
  assume "1 \<le> p"
  then have "M \<le> M * p" "M * p \<le> a * p" using False by auto
  then have "M \<le> a * p" by (rule order.trans)
  moreover have "min a M = M" using False by simp
  ultimately show ?thesis using \<open>M \<le> M * p\<close> by (simp only: min_absorb2)
qed simp

text \<open>What the pipeline relies on.\<close>

locale failure_memory =
  fixes inv :: "'s \<Rightarrow> bool"
    and hld :: "'k \<Rightarrow> instant \<Rightarrow> 's \<Rightarrow> nat option"
    and rec :: "'k \<Rightarrow> instant \<Rightarrow> 's \<Rightarrow> nat \<times> 's"
    and clr :: "'k \<Rightarrow> 's \<Rightarrow> 's"
  assumes rec_inv: "inv s \<Longrightarrow> inv (snd (rec k t s))"
    and clr_inv: "inv s \<Longrightarrow> inv (clr k s)"
    and rec_hold: "inv s \<Longrightarrow> FIRST_HOLD \<le> fst (rec k t s) \<and> fst (rec k t s) \<le> MAX_HOLD"
    and rec_held: "inv s \<Longrightarrow> t \<le> u \<Longrightarrow>
      hld k u (snd (rec k t s)) = (if u < t + fst (rec k t s) then Some (t + fst (rec k t s) - u) else None)"
    and rec_again: "inv s \<Longrightarrow> u < t + fst (rec k t s) + MAX_HOLD \<Longrightarrow>
      fst (rec k u (snd (rec k t s))) = min (fst (rec k t s) * 2) MAX_HOLD"
    and clr_held: "inv s \<Longrightarrow> hld k u (clr k s) = None"
    and clr_rec: "inv s \<Longrightarrow> fst (rec k t (clr k s)) = FIRST_HOLD"
begin

text \<open>Recording failures of one key at the given times, each soon enough after the last hold.\<close>

fun rec_all :: "'k \<Rightarrow> instant list \<Rightarrow> 's \<Rightarrow> nat list \<times> 's" where
  "rec_all k [] s = ([], s)"
| "rec_all k (t # ts) s = (case rec k t s of (h, s') \<Rightarrow> (case rec_all k ts s' of (hs, s'') \<Rightarrow> (h # hs, s'')))"

fun soon :: "nat \<Rightarrow> instant \<Rightarrow> instant list \<Rightarrow> bool" where
  "soon h t [] \<longleftrightarrow> True"
| "soon h t (u # us) \<longleftrightarrow> t \<le> u \<and> u < t + h + MAX_HOLD \<and> soon (min (h * 2) MAX_HOLD) u us"

lemma rec_all_backoff:
  "inv s \<Longrightarrow> soon (fst (rec k t s)) t ts \<Longrightarrow>
     fst (rec_all k ts (snd (rec k t s))) = map (\<lambda>i. min (fst (rec k t s) * 2 ^ Suc i) MAX_HOLD) [0..<length ts]"
proof (induction ts arbitrary: s t)
  case (Cons u us)
  let ?s = "snd (rec k t s)" and ?h = "fst (rec k t s)"
  have h: "fst (rec k u ?s) = min (?h * 2) MAX_HOLD" by (rule rec_again) (use Cons.prems in auto)
  have IH: "fst (rec_all k us (snd (rec k u ?s))) = map (\<lambda>i. min (min (?h * 2) MAX_HOLD * 2 ^ Suc i) MAX_HOLD) [0..<length us]"
    using Cons.IH [of ?s u] Cons.prems rec_inv h by simp
  have "min (min (?h * 2) MAX_HOLD * 2 ^ Suc i) MAX_HOLD = min (?h * 2 ^ Suc (Suc i)) MAX_HOLD" for i
    using min_cap_mult [of "2 ^ Suc i" "?h * 2" MAX_HOLD] by (simp add: ac_simps)
  then have "fst (rec_all k us (snd (rec k u ?s))) = map (\<lambda>i. min (?h * 2 ^ Suc (Suc i)) MAX_HOLD) [0..<length us]"
    using IH by simp
  then show ?case
    by (simp add: case_prod_beta h upt_conv_Cons map_Suc_upt [symmetric] comp_def del: upt_Suc power_Suc)
qed simp

end

section \<open>The laws hold for the code\<close>

lemma oldest_key_in: "oldest_key m = Some k \<Longrightarrow> k \<in> fst ` set m"
proof (induction m arbitrary: k rule: oldest_key.induct)
  case (2 k' f m)
  then show ?case by (fastforce split: option.splits if_splits)
qed simp

lemma oldest_key_ex: "m \<noteq> [] \<Longrightarrow> \<exists>k. oldest_key m = Some k"
  by (cases m rule: oldest_key.cases) (auto split: option.splits)

lemma length_delete_le: "length (AList.delete k m) \<le> length m"
  by (simp add: AList.delete_eq)

lemma length_delete_less: "k \<in> fst ` set m \<Longrightarrow> length (AList.delete k m) < length m"
proof -
  assume "k \<in> fst ` set m"
  then obtain v where "(k, v) \<in> set m" by auto
  then show ?thesis unfolding AList.delete_eq by (intro length_filter_less [of "(k, v)"]) auto
qed

lemma set_update_sub: "x \<in> set (AList.update k v m) \<Longrightarrow> x \<in> insert (k, v) (set m)"
  by (induction m) (auto split: if_splits)

lemma length_update_le: "length (AList.update k v m) \<le> Suc (length m)"
  by (induction m) auto

lemma length_update_same: "k \<in> fst ` set m \<Longrightarrow> length (AList.update k v m) = length m"
  by (induction m) auto

lemma make_room_length:
  assumes "length m \<le> MAX_KEYS" "map_of m key = None"
  shows "length (make_room key now m) < MAX_KEYS"
proof -
  let ?m1 = "filter (\<lambda>(_, f). now < fa_until f + MAX_HOLD) m"
  have l: "length ?m1 \<le> length m" by simp
  show ?thesis
  proof (cases "length m \<ge> MAX_KEYS \<and> length ?m1 \<ge> MAX_KEYS")
    case True
    then have "?m1 \<noteq> []" by (auto simp: MAX_KEYS_def)
    then obtain k where k1: "oldest_key ?m1 = Some k" using oldest_key_ex by blast
    have k: "k \<in> fst ` set ?m1" by (rule oldest_key_in [OF k1])
    have r: "make_room key now m = AList.delete k ?m1"
      using True assms(2) k1 by (simp add: make_room_def)
    show ?thesis unfolding r using length_delete_less [OF k] l assms(1) by linarith
  next
    case False
    with assms l show ?thesis by (auto simp: make_room_def Let_def)
  qed
qed

lemma make_room_sub: "set (make_room key now m) \<subseteq> set m"
  by (auto simp: make_room_def Let_def AList.delete_eq split: option.splits if_splits)

lemma make_room_distinct: "distinct (map fst m) \<Longrightarrow> distinct (map fst (make_room key now m))"
  by (auto simp: make_room_def Let_def distinct_delete distinct_map_filter split: option.splits)

lemma make_room_same: "map_of m key \<noteq> None \<Longrightarrow> make_room key now m = m"
  by (auto simp: make_room_def)

lemma next_hold_range: "fc_inv m \<Longrightarrow> FIRST_HOLD \<le> next_hold key now m \<and> next_hold key now m \<le> MAX_HOLD"
  by (auto simp: next_hold_def fc_inv_def FIRST_HOLD_def MAX_HOLD_def split: option.splits dest!: map_of_SomeD)

lemma record_failure_inv:
  assumes "fc_inv m"
  shows "fc_inv (snd (record_failure key now m))"
proof -
  let ?r = "make_room key now m" and ?f = "\<lparr>fa_until = now + next_hold key now m, fa_hold = next_hold key now m\<rparr>"
  have "length (AList.update key ?f ?r) \<le> MAX_KEYS"
  proof (cases "map_of m key")
    case None
    then have "length ?r < MAX_KEYS" using make_room_length [OF _ None] assms by (simp add: fc_inv_def)
    then show ?thesis using length_update_le [of key ?f ?r] by simp
  next
    case (Some f)
    then have "key \<in> fst ` set m" by (metis map_of_eq_None_iff option.distinct(1))
    then have "length (AList.update key ?f m) = length m" by (rule length_update_same)
    then show ?thesis using assms Some by (simp add: make_room_same fc_inv_def)
  qed
  moreover have "set (AList.update key ?f ?r) \<subseteq> insert (key, ?f) (set m)"
    using make_room_sub [of key now m] set_update_sub [of _ key ?f] by blast
  moreover have "distinct (map fst (AList.update key ?f ?r))"
    using make_room_distinct [of m key now] assms by (simp add: distinct_update fc_inv_def)
  ultimately show ?thesis using assms next_hold_range [OF assms, of key now]
    by (fastforce simp: fc_inv_def record_failure_def Let_def)
qed

lemma record_failure_lookup: "map_of (snd (record_failure key now m)) key =
    Some \<lparr>fa_until = now + next_hold key now m, fa_hold = next_hold key now m\<rparr>"
  by (simp add: record_failure_def Let_def update_conv')

interpretation fm: failure_memory fc_inv held record_failure clear
proof
  fix s :: "'k failure_cache" and k t u
  assume inv: "fc_inv s"
  show "fc_inv (snd (record_failure k t s))" by (rule record_failure_inv [OF inv])
  show "fc_inv (clear k s)"
    using inv length_delete_le [of k s]
    by (auto simp: fc_inv_def clear_def distinct_delete dest: delete_sub)
  have h: "fst (record_failure k t s) = next_hold k t s" for t s by (simp add: record_failure_def Let_def)
  show "FIRST_HOLD \<le> fst (record_failure k t s) \<and> fst (record_failure k t s) \<le> MAX_HOLD"
    using next_hold_range [OF inv] by (simp add: h)
  show "held k u (snd (record_failure k t s)) =
      (if u < t + fst (record_failure k t s) then Some (t + fst (record_failure k t s) - u) else None)" if "t \<le> u"
    by (auto simp: held_def record_failure_lookup h Let_def)
  show "fst (record_failure k u (snd (record_failure k t s))) = min (fst (record_failure k t s) * 2) MAX_HOLD"
    if "u < t + fst (record_failure k t s) + MAX_HOLD"
    using that by (simp add: h next_hold_def [of k u] record_failure_lookup)
  show "held k u (clear k s) = None" by (simp add: held_def clear_def AList.delete_conv')
  show "fst (record_failure k t (clear k s)) = FIRST_HOLD" by (simp add: h next_hold_def clear_def AList.delete_conv')
qed

section \<open>Properties\<close>

text \<open>The failures of one key at the given times, in order: the holds applied.\<close>

fun record_all :: "'k \<Rightarrow> instant list \<Rightarrow> 'k failure_cache \<Rightarrow> nat list \<times> 'k failure_cache" where
  "record_all k [] m = ([], m)"
| "record_all k (t # ts) m =
     (case record_failure k t m of (h, m1) \<Rightarrow> (case record_all k ts m1 of (hs, m2) \<Rightarrow> (h # hs, m2)))"

lemma record_all_eq: "record_all k ts m = fm.rec_all k ts m"
  by (induction k ts m rule: record_all.induct) (auto split: prod.splits)

text \<open>Every failure comes before the backoff memory of the one before it ends.\<close>

fun consecutive :: "nat \<Rightarrow> instant \<Rightarrow> instant list \<Rightarrow> bool" where
  "consecutive h t [] \<longleftrightarrow> True"
| "consecutive h t (u # us) \<longleftrightarrow> t \<le> u \<and> u < t + h + MAX_HOLD \<and> consecutive (min (h * 2) MAX_HOLD) u us"

lemma consecutive_eq: "consecutive h t ts = fm.soon h t ts"
  by (induction h t ts rule: consecutive.induct) auto

text \<open>Repeated failures back off.  For a key with no failure on record, failures at times that
  each fall within a minute of the end of the previous hold apply holds of 5 s, 10 s, 20 s, 40 s
  and then 60 s: the \<open>i\<close>-th is 5 s times 2 to the \<open>i\<close>, at most 60 s.\<close>

theorem failure_backoff:
  assumes "fc_inv m" "map_of m key = None" "consecutive FIRST_HOLD t ts"
  shows "fst (record_all key (t # ts) m) = map (\<lambda>i. min (FIRST_HOLD * 2 ^ i) MAX_HOLD) [0..<Suc (length ts)]"
proof -
  have h: "fst (record_failure key t m) = FIRST_HOLD"
    using assms(2) by (simp add: record_failure_def Let_def next_hold_def)
  have "fst (fm.rec_all key ts (snd (record_failure key t m))) = map (\<lambda>i. min (FIRST_HOLD * 2 ^ Suc i) MAX_HOLD) [0..<length ts]"
    using fm.rec_all_backoff [OF assms(1), of key t ts] assms(3) by (simp add: h consecutive_eq)
  moreover have "min FIRST_HOLD MAX_HOLD = FIRST_HOLD" by (simp add: FIRST_HOLD_def MAX_HOLD_def)
  ultimately show ?thesis
    by (simp add: case_prod_beta record_all_eq h upt_conv_Cons map_Suc_upt [symmetric] comp_def del: upt_Suc power_Suc)
qed

theorem failure_backoff_witness:
  "fst (record_all ''k'' [0, 6 * 10 ^ 9, 20 * 10 ^ 9, 50 * 10 ^ 9, 100 * 10 ^ 9] failcache_new) =
     [5 * 10 ^ 9, 10 * 10 ^ 9, 20 * 10 ^ 9, 40 * 10 ^ 9, 60 * 10 ^ 9]"
proof -
  have "fc_inv (failcache_new :: string failure_cache)" by (simp add: fc_inv_def failcache_new_def)
  moreover have "map_of failcache_new ''k'' = None" by (simp add: failcache_new_def)
  moreover have "consecutive FIRST_HOLD 0 [6 * 10 ^ 9, 20 * 10 ^ 9, 50 * 10 ^ 9, 100 * 10 ^ 9]" by code_simp
  ultimately have "fst (record_all ''k'' (0 # [6 * 10 ^ 9, 20 * 10 ^ 9, 50 * 10 ^ 9, 100 * 10 ^ 9]) failcache_new) =
      map (\<lambda>i. min (FIRST_HOLD * 2 ^ i) MAX_HOLD) [0..<Suc (length [6 * 10 ^ 9, 20 * 10 ^ 9, 50 * 10 ^ 9, 100 * 10 ^ 9 :: nat])]"
    by (rule failure_backoff)
  moreover have "map (\<lambda>i. min (FIRST_HOLD * 2 ^ i) MAX_HOLD) [0..<Suc (length [6 * 10 ^ 9, 20 * 10 ^ 9, 50 * 10 ^ 9, 100 * 10 ^ 9 :: nat])]
      = [5 * 10 ^ 9, 10 * 10 ^ 9, 20 * 10 ^ 9, 40 * 10 ^ 9, 60 * 10 ^ 9]" by code_simp
  ultimately show ?thesis by simp
qed

text \<open>C35: recording a failure holds the key.  The table keeps its invariant (distinct keys, at most
  4096 of them, every hold between 5 s and 60 s), the hold applied is between 5 s and 60 s as
  RFC 9520 asks, the key is held for exactly that long, and, when the table had room, no other
  key's hold changes.\<close>

theorem failure_held_after_record:
  assumes "fc_inv m" "record_failure key now m = (hold, m')"
  shows "fc_inv m' \<and> FIRST_HOLD \<le> hold \<and> hold \<le> MAX_HOLD
       \<and> (\<forall>u \<ge> now. held key u m' = (if u < now + hold then Some (now + hold - u) else None))
       \<and> (failcache_len m < MAX_KEYS \<longrightarrow> (\<forall>k u. k \<noteq> key \<longrightarrow> held k u m' = held k u m))"
proof (intro conjI allI impI)
  show "fc_inv m'" using fm.rec_inv [OF assms(1), of key now] assms(2) by simp
  show "FIRST_HOLD \<le> hold" "hold \<le> MAX_HOLD" using fm.rec_hold [OF assms(1), of key now] assms(2) by auto
  show "held key u m' = (if u < now + hold then Some (now + hold - u) else None)" if "now \<le> u" for u
    using fm.rec_held [OF assms(1) that, of key] assms(2) by simp
  fix k u assume *: "failcache_len m < MAX_KEYS" "k \<noteq> key"
  then have "m' = AList.update key \<lparr>fa_until = now + hold, fa_hold = hold\<rparr> m"
    using assms(2) by (auto simp: record_failure_def Let_def make_room_def failcache_len_def)
  then show "held k u m' = held k u m" using *(2) by (simp add: held_def update_conv')
qed

theorem failure_held_after_record_witness:
  "\<exists>m'. record_failure ''k'' 7 failcache_new = (5 * 10 ^ 9, m') \<and> held ''k'' 7 m' = Some (5 * 10 ^ 9)
     \<and> held ''k'' (7 + 5 * 10 ^ 9) m' = None"
proof -
  obtain h m' where r: "record_failure ''k'' 7 failcache_new = (h, m')" by fastforce
  have h: "h = 5 * 10 ^ 9" using r by (auto simp: record_failure_def next_hold_def Let_def failcache_new_def FIRST_HOLD_def)
  have "fc_inv (failcache_new :: string failure_cache)" by (simp add: fc_inv_def failcache_new_def)
  from failure_held_after_record [OF this r]
  have "\<forall>u \<ge> 7. held ''k'' u m' = (if u < 7 + h then Some (7 + h - u) else None)" by blast
  then show ?thesis using r h by (intro exI [of _ m']) simp
qed

end
