(* ===== verification/Safesearch.thy ===== *)
theory Safesearch
  imports Prelude
begin

text \<open>
  Safe-search rewrites of \<open>crates/core/src/safesearch.rs\<close>: the host tables, the provider bits
  kept in a byte, and \<open>SafeSearch::rewrite\<close>, whose lookups are binary searches.  The standard
  library's \<open>binary_search\<close> is written out as its loop; on a sorted table it decides
  membership, and the tables are shown to be sorted.
\<close>

section \<open>\<open>slice::binary_search\<close>\<close>

function bs_loop :: "'a::linorder list \<Rightarrow> 'a \<Rightarrow> nat \<Rightarrow> nat \<Rightarrow> nat" where
  "bs_loop xs x base sz =
     (if sz > 1
      then (let half = sz div 2; mid = base + half
            in bs_loop xs x (if xs ! mid > x then base else mid) (sz - half))
      else base)"
  by pat_completeness auto
termination
  by (relation "measure (\<lambda>(_, _, _, sz). sz)") auto

declare bs_loop.simps [simp del]

definition binary_search_ok :: "'a::linorder list \<Rightarrow> 'a \<Rightarrow> bool" where
  "binary_search_ok xs x \<longleftrightarrow> xs \<noteq> [] \<and> xs ! bs_loop xs x 0 (length xs) = x"

lemma bs_loop_correct:
  assumes "sorted xs" "0 < sz" "base + sz \<le> length xs"
    and "\<And>i. i < length xs \<Longrightarrow> xs ! i = x \<Longrightarrow> \<exists>j. base \<le> j \<and> j < base + sz \<and> xs ! j = x"
  shows "bs_loop xs x base sz < length xs \<and> (x \<in> set xs \<longrightarrow> xs ! bs_loop xs x base sz = x)"
  using assms
proof (induction xs x base sz rule: bs_loop.induct)
  case (1 xs x base sz)
  show ?case
  proof (cases "sz > 1")
    case True
    let ?half = "sz div 2" and ?b = "if xs ! (base + sz div 2) > x then base else base + sz div 2"
    have step: "\<exists>j. ?b \<le> j \<and> j < ?b + (sz - ?half) \<and> xs ! j = x" if i: "i < length xs" "xs ! i = x" for i
    proof -
      obtain j where j: "base \<le> j" "j < base + sz" "xs ! j = x" using "1.prems"(4) [OF i] by blast
      show ?thesis
      proof (cases "xs ! (base + ?half) > x")
        case gt: True
        then have "j < base + ?half" using sorted_nth_mono [OF "1.prems"(1), of "base + ?half" j] j "1.prems"(3)
          by (meson leD leI order.strict_trans1 order_less_le_trans)
        then show ?thesis using gt j by (intro exI [of _ j]) auto
      next
        case le: False
        show ?thesis
        proof (cases "j < base + ?half")
          case True
          then have "xs ! j \<le> xs ! (base + ?half)" using sorted_nth_mono [OF "1.prems"(1), of j "base + ?half"] "1.prems"(2,3) by auto
          with le j(3) have "xs ! (base + ?half) = x" by simp
          then show ?thesis using le "1.prems"(2) by (intro exI [of _ "base + ?half"]) auto
        next
          case False
          then show ?thesis using le j by (intro exI [of _ j]) auto
        qed
      qed
    qed
    have "0 < sz - ?half" "?b + (sz - ?half) \<le> length xs" using "1.prems"(2,3) by auto
    with step have "bs_loop xs x ?b (sz - ?half) < length xs \<and> (x \<in> set xs \<longrightarrow> xs ! bs_loop xs x ?b (sz - ?half) = x)"
      by (intro "1.IH" [OF True refl refl "1.prems"(1)]) blast+
    then show ?thesis using True by (subst (1 2) bs_loop.simps) (simp add: Let_def)
  next
    case False
    with "1.prems" have "sz = 1" by simp
    moreover have "x \<in> set xs \<longrightarrow> xs ! base = x"
      using "1.prems"(4) \<open>sz = 1\<close> by (metis Suc_eq_plus1 in_set_conv_nth le_antisym less_Suc_eq_le)
    ultimately show ?thesis using "1.prems"(3) by (subst (1 2) bs_loop.simps) simp
  qed
qed

lemma binary_search_sorted: "sorted xs \<Longrightarrow> binary_search_ok xs x \<longleftrightarrow> x \<in> set xs"
proof (cases "xs = []")
  case False
  assume "sorted xs"
  then have *: "bs_loop xs x 0 (length xs) < length xs \<and> (x \<in> set xs \<longrightarrow> xs ! bs_loop xs x 0 (length xs) = x)"
    using False by (intro bs_loop_correct) auto
  then show ?thesis using False by (auto simp: binary_search_ok_def dest: nth_mem)
qed (simp add: binary_search_ok_def)

section \<open>Tables and provider bits\<close>

definition SUPPORTED_PROVIDERS :: "string list" where
  "SUPPORTED_PROVIDERS = [
    ''google'', ''youtube'', ''bing'', ''duckduckgo'']"

definition GOOGLE_TLDS :: "string list" where
  "GOOGLE_TLDS = [
    ''ad'', ''ae'', ''al'', ''am'', ''as'', ''at'', ''az'', ''ba'', ''be'', ''bf'', ''bg'',
    ''bi'', ''bj'', ''bs'', ''bt'', ''by'', ''ca'', ''cat'', ''cd'', ''cf'', ''cg'', ''ch'',
    ''ci'', ''cl'', ''cm'', ''cn'', ''co'', ''co.ao'', ''co.bw'', ''co.ck'', ''co.cr'',
    ''co.id'', ''co.il'', ''co.in'', ''co.jp'', ''co.ke'', ''co.kr'', ''co.ls'', ''co.ma'',
    ''co.mz'', ''co.nz'', ''co.th'', ''co.tz'', ''co.ug'', ''co.uk'', ''co.uz'', ''co.ve'',
    ''co.vi'', ''co.za'', ''co.zm'', ''co.zw'', ''com'', ''com.af'', ''com.ag'', ''com.ai'',
    ''com.ar'', ''com.au'', ''com.bd'', ''com.bh'', ''com.bn'', ''com.bo'', ''com.br'',
    ''com.bz'', ''com.co'', ''com.cu'', ''com.cy'', ''com.do'', ''com.ec'', ''com.eg'',
    ''com.et'', ''com.fj'', ''com.gh'', ''com.gi'', ''com.gt'', ''com.hk'', ''com.jm'',
    ''com.kh'', ''com.kw'', ''com.lb'', ''com.ly'', ''com.mm'', ''com.mt'', ''com.mx'',
    ''com.my'', ''com.na'', ''com.nf'', ''com.ng'', ''com.ni'', ''com.np'', ''com.om'',
    ''com.pa'', ''com.pe'', ''com.pg'', ''com.ph'', ''com.pk'', ''com.pr'', ''com.py'',
    ''com.qa'', ''com.sa'', ''com.sb'', ''com.sg'', ''com.sl'', ''com.sv'', ''com.tj'',
    ''com.tr'', ''com.tw'', ''com.ua'', ''com.uy'', ''com.vc'', ''com.vn'', ''cv'', ''cz'',
    ''de'', ''dj'', ''dk'', ''dm'', ''dz'', ''ee'', ''es'', ''fi'', ''fm'', ''fr'', ''ga'',
    ''ge'', ''gg'', ''gl'', ''gm'', ''gp'', ''gr'', ''gy'', ''hn'', ''hr'', ''ht'', ''hu'',
    ''ie'', ''im'', ''iq'', ''is'', ''it'', ''je'', ''jo'', ''kg'', ''ki'', ''kz'', ''la'',
    ''li'', ''lk'', ''lt'', ''lu'', ''lv'', ''md'', ''me'', ''mg'', ''mk'', ''ml'', ''mn'',
    ''ms'', ''mu'', ''mv'', ''mw'', ''ne'', ''nl'', ''no'', ''nr'', ''nu'', ''pl'', ''pn'',
    ''ps'', ''pt'', ''ro'', ''rs'', ''ru'', ''rw'', ''sc'', ''se'', ''sh'', ''si'', ''sk'',
    ''sm'', ''sn'', ''so'', ''sr'', ''st'', ''td'', ''tg'', ''tk'', ''tl'', ''tm'', ''tn'',
    ''to'', ''tt'', ''vg'', ''vu'', ''ws'']"

definition YOUTUBE_HOSTS :: "string list" where
  "YOUTUBE_HOSTS = [
    ''m.youtube.com'', ''www.youtube-nocookie.com'', ''www.youtube.com'',
    ''youtube.googleapis.com'', ''youtubei.googleapis.com'']"

definition BING_HOSTS :: "string list" where
  "BING_HOSTS = [
    ''edgeservices.bing.com'', ''www.bing.com'']"

definition DUCKDUCKGO_HOSTS :: "string list" where
  "DUCKDUCKGO_HOSTS = [
    ''duckduckgo.com'', ''start.duckduckgo.com'', ''www.duckduckgo.com'']"

definition GOOGLE :: "8 word" where "GOOGLE = 1"
definition YOUTUBE :: "8 word" where "YOUTUBE = push_bit 1 1"
definition BING :: "8 word" where "BING = push_bit 2 1"
definition DUCKDUCKGO :: "8 word" where "DUCKDUCKGO = push_bit 3 1"
definition ALL_PROVIDERS :: "8 word" where
  "ALL_PROVIDERS = or (or (or GOOGLE YOUTUBE) BING) DUCKDUCKGO"

datatype safesearch_error = UnknownProvider string

fun validate_providers :: "string list \<Rightarrow> safesearch_error + unit" where
  "validate_providers [] = Inr ()"
| "validate_providers (p # ps) =
     (if p \<in> set SUPPORTED_PROVIDERS then validate_providers ps else Inl (UnknownProvider p))"

record safe_search =
  ss_enabled :: "8 word"

definition provider_bit :: "string \<Rightarrow> 8 word" where
  "provider_bit p =
     (if p = ''google'' then GOOGLE
      else if p = ''youtube'' then YOUTUBE
      else if p = ''bing'' then BING
      else DUCKDUCKGO)"

definition safesearch_new :: "bool \<Rightarrow> string list \<Rightarrow> safesearch_error + safe_search" where
  "safesearch_new enabled providers =
     (case validate_providers providers of
        Inl e \<Rightarrow> Inl e
      | Inr _ \<Rightarrow>
          if \<not> enabled then Inr \<lparr>ss_enabled = 0\<rparr>
          else if providers = [] then Inr \<lparr>ss_enabled = ALL_PROVIDERS\<rparr>
          else Inr \<lparr>ss_enabled = foldl (\<lambda>bits p. or bits (provider_bit p)) 0 providers\<rparr>)"

definition provider_on :: "safe_search \<Rightarrow> 8 word \<Rightarrow> bool" where
  "provider_on ss b \<longleftrightarrow> and (ss_enabled ss) b \<noteq> 0"

definition rewrite :: "safe_search \<Rightarrow> string \<Rightarrow> string option" where
  "rewrite ss qname =
     (if provider_on ss YOUTUBE \<and> binary_search_ok YOUTUBE_HOSTS qname
      then Some ''restrictmoderate.youtube.com''
      else if provider_on ss BING \<and> binary_search_ok BING_HOSTS qname
      then Some ''strict.bing.com''
      else if provider_on ss DUCKDUCKGO \<and> binary_search_ok DUCKDUCKGO_HOSTS qname
      then Some ''safe.duckduckgo.com''
      else if provider_on ss GOOGLE \<and>
              (case strip_prefix ''www.google.'' qname of
                 Some tld \<Rightarrow> binary_search_ok GOOGLE_TLDS tld
               | None \<Rightarrow> False)
      then Some ''forcesafesearch.google.com''
      else None)"

section \<open>Correctness\<close>

lemma tables_sorted:
  "sorted GOOGLE_TLDS" "sorted YOUTUBE_HOSTS" "sorted BING_HOSTS" "sorted DUCKDUCKGO_HOSTS"
  unfolding GOOGLE_TLDS_def YOUTUBE_HOSTS_def BING_HOSTS_def DUCKDUCKGO_HOSTS_def sorted2 sorted1
  by simp_all

lemma validate_providers_Inr: "validate_providers ps = Inr () \<longleftrightarrow> set ps \<subseteq> set SUPPORTED_PROVIDERS"
  by (induction ps) auto

lemma validate_providers_cases:
  "validate_providers ps = Inr () \<or> (\<exists>p \<in> set ps. validate_providers ps = Inl (UnknownProvider p) \<and> p \<notin> set SUPPORTED_PROVIDERS)"
  by (induction ps) auto

text \<open>A provider's bit is set exactly when the provider is named.\<close>

lemma provider_bit_test: "p \<in> set SUPPORTED_PROVIDERS \<Longrightarrow> q \<in> set SUPPORTED_PROVIDERS \<Longrightarrow>
    and (provider_bit p) (provider_bit q) \<noteq> 0 \<longleftrightarrow> p = q"
  by (auto simp: SUPPORTED_PROVIDERS_def provider_bit_def GOOGLE_def YOUTUBE_def BING_def DUCKDUCKGO_def)

lemma and_or_nonzero: "and (or a b) (c :: 8 word) \<noteq> 0 \<longleftrightarrow> and a c \<noteq> 0 \<or> and b c \<noteq> 0"
  by (auto simp: bit_eq_iff bit_simps)

lemma foldl_or: "and (foldl (\<lambda>bits p. or bits (provider_bit p)) b ps) c \<noteq> (0 :: 8 word) \<longleftrightarrow>
    and b c \<noteq> 0 \<or> (\<exists>p \<in> set ps. and (provider_bit p) c \<noteq> 0)"
proof (induction ps arbitrary: b)
  case (Cons p ps)
  show ?case unfolding foldl_Cons Cons.IH and_or_nonzero by auto
qed simp

definition providers_of :: "bool \<Rightarrow> string list \<Rightarrow> string set" where
  "providers_of enabled ps =
     (if enabled then if ps = [] then set SUPPORTED_PROVIDERS else set ps else {})"

lemma all_providers_bits: "p \<in> set SUPPORTED_PROVIDERS \<Longrightarrow> and ALL_PROVIDERS (provider_bit p) \<noteq> 0"
  by (auto simp: SUPPORTED_PROVIDERS_def provider_bit_def ALL_PROVIDERS_def GOOGLE_def YOUTUBE_def BING_def DUCKDUCKGO_def)

lemma safesearch_new_on:
  assumes "safesearch_new enabled ps = Inr ss" "q \<in> set SUPPORTED_PROVIDERS"
  shows "provider_on ss (provider_bit q) \<longleftrightarrow> q \<in> providers_of enabled ps"
proof -
  have v: "set ps \<subseteq> set SUPPORTED_PROVIDERS"
    using assms(1) validate_providers_cases [of ps] validate_providers_Inr [of ps]
    by (auto simp: safesearch_new_def)
  then have "validate_providers ps = Inr ()" by (simp add: validate_providers_Inr)
  with assms(1) have ss: "ss = \<lparr>ss_enabled = (if \<not> enabled then 0 else if ps = [] then ALL_PROVIDERS
      else foldl (\<lambda>bits p. or bits (provider_bit p)) 0 ps)\<rparr>"
    by (simp add: safesearch_new_def split: if_splits)
  have "(\<exists>p \<in> set ps. and (provider_bit p) (provider_bit q) \<noteq> 0) \<longleftrightarrow> q \<in> set ps"
    using v provider_bit_test [OF _ assms(2)] by blast
  then show ?thesis
    using all_providers_bits [OF assms(2)] assms(2) foldl_or [of 0 ps "provider_bit q"]
    by (simp add: ss provider_on_def providers_of_def)
qed

text \<open>The hosts of a provider and the endpoint that enforces safe search for them.\<close>

definition provider_hosts :: "string \<Rightarrow> string list" where
  "provider_hosts p =
     (if p = ''google'' then map (\<lambda>t. ''www.google.'' @ t) GOOGLE_TLDS
      else if p = ''youtube'' then YOUTUBE_HOSTS
      else if p = ''bing'' then BING_HOSTS
      else if p = ''duckduckgo'' then DUCKDUCKGO_HOSTS
      else [])"

definition provider_target :: "string \<Rightarrow> string" where
  "provider_target p =
     (if p = ''google'' then ''forcesafesearch.google.com''
      else if p = ''youtube'' then ''restrictmoderate.youtube.com''
      else if p = ''bing'' then ''strict.bing.com''
      else ''safe.duckduckgo.com'')"

lemma provider_hosts_simps:
  "provider_hosts ''google'' = map (\<lambda>t. ''www.google.'' @ t) GOOGLE_TLDS"
  "provider_hosts ''youtube'' = YOUTUBE_HOSTS"
  "provider_hosts ''bing'' = BING_HOSTS"
  "provider_hosts ''duckduckgo'' = DUCKDUCKGO_HOSTS"
  by (simp_all add: provider_hosts_def)

lemma provider_hosts_known:
  "h \<in> set (provider_hosts p) \<Longrightarrow> p \<in> {''google'', ''youtube'', ''bing'', ''duckduckgo''}"
  by (rule ccontr) (simp add: provider_hosts_def)

text \<open>The provider of each host outside Google's pattern.\<close>

definition owner :: "string \<Rightarrow> string option" where
  "owner = map_of (map (\<lambda>h. (h, ''youtube'')) YOUTUBE_HOSTS @ map (\<lambda>h. (h, ''bing'')) BING_HOSTS
     @ map (\<lambda>h. (h, ''duckduckgo'')) DUCKDUCKGO_HOSTS)"

lemma google_hosts_prefix: "h \<in> set (provider_hosts ''google'') \<Longrightarrow> \<exists>t. h = ''www.google.'' @ t"
  by (auto simp: provider_hosts_simps)

lemma owner_google: assumes "h \<in> set (provider_hosts ''google'')" shows "owner h = None"
proof -
  have "\<forall>x \<in> set (YOUTUBE_HOSTS @ BING_HOSTS @ DUCKDUCKGO_HOSTS). take 11 x \<noteq> ''www.google.''"
    by (simp add: YOUTUBE_HOSTS_def BING_HOSTS_def DUCKDUCKGO_HOSTS_def)
  moreover obtain t where "h = ''www.google.'' @ t" using google_hosts_prefix [OF assms] ..
  then have "take 11 h = ''www.google.''" by simp
  ultimately have "h \<notin> set (YOUTUBE_HOSTS @ BING_HOSTS @ DUCKDUCKGO_HOSTS)" by blast
  then show ?thesis by (auto simp: owner_def map_of_eq_None_iff)
qed

lemma owner_other:
  "h \<in> set (provider_hosts ''youtube'') \<Longrightarrow> owner h = Some ''youtube''"
  "h \<in> set (provider_hosts ''bing'') \<Longrightarrow> owner h = Some ''bing''"
  "h \<in> set (provider_hosts ''duckduckgo'') \<Longrightarrow> owner h = Some ''duckduckgo''"
  by (auto simp: owner_def YOUTUBE_HOSTS_def BING_HOSTS_def DUCKDUCKGO_HOSTS_def provider_hosts_simps)

lemma hosts_disjoint:
  assumes "h \<in> set (provider_hosts p)" "h \<in> set (provider_hosts q)"
  shows "p = q"
proof -
  have "owner h = (if p = ''google'' then None else Some p)" if "h \<in> set (provider_hosts p)" for p
    using provider_hosts_known [OF that] that owner_google owner_other by auto
  from this [OF assms(1)] this [OF assms(2)] show ?thesis by (auto split: if_splits)
qed

lemma rewrite_unfold: "rewrite ss h =
    (if provider_on ss YOUTUBE \<and> h \<in> set (provider_hosts ''youtube'') then Some (provider_target ''youtube'')
     else if provider_on ss BING \<and> h \<in> set (provider_hosts ''bing'') then Some (provider_target ''bing'')
     else if provider_on ss DUCKDUCKGO \<and> h \<in> set (provider_hosts ''duckduckgo'') then Some (provider_target ''duckduckgo'')
     else if provider_on ss GOOGLE \<and> h \<in> set (provider_hosts ''google'') then Some (provider_target ''google'')
     else None)"
proof -
  have "(case strip_prefix ''www.google.'' h of Some tld \<Rightarrow> binary_search_ok GOOGLE_TLDS tld | None \<Rightarrow> False)
      \<longleftrightarrow> h \<in> (\<lambda>t. ''www.google.'' @ t) ` set GOOGLE_TLDS"
  proof (cases "strip_prefix ''www.google.'' h")
    case None
    then have "h \<noteq> ''www.google.'' @ t" for t by (metis option.distinct(1) strip_prefix_append)
    then show ?thesis unfolding None by auto
  next
    case (Some t)
    then have "h = ''www.google.'' @ t" by (simp only: strip_prefix_Some)
    then show ?thesis unfolding Some by (auto simp: binary_search_sorted tables_sorted)
  qed
  then show ?thesis
    by (simp add: rewrite_def provider_hosts_def provider_target_def binary_search_sorted tables_sorted)
qed

text \<open>C36: safe search rewrites exactly the documented hosts.  Whenever the table is built, a name is
  answered with a CNAME exactly when it is a host of an enabled provider (all four when none is
  named, none when safe search is off), and the target is that provider's endpoint; no host
  belongs to two providers.\<close>

theorem safesearch_rewrite_correct:
  assumes "safesearch_new enabled ps = Inr ss"
  shows "rewrite ss h = Some t \<longleftrightarrow>
      (\<exists>p \<in> providers_of enabled ps. h \<in> set (provider_hosts p) \<and> t = provider_target p)"
proof -
  have sup: "set SUPPORTED_PROVIDERS = {''google'', ''youtube'', ''bing'', ''duckduckgo''}"
    by (simp add: SUPPORTED_PROVIDERS_def)
  have on: "provider_on ss GOOGLE \<longleftrightarrow> ''google'' \<in> providers_of enabled ps"
      "provider_on ss YOUTUBE \<longleftrightarrow> ''youtube'' \<in> providers_of enabled ps"
      "provider_on ss BING \<longleftrightarrow> ''bing'' \<in> providers_of enabled ps"
      "provider_on ss DUCKDUCKGO \<longleftrightarrow> ''duckduckgo'' \<in> providers_of enabled ps"
    using safesearch_new_on [OF assms, of "''google''"] safesearch_new_on [OF assms, of "''youtube''"]
      safesearch_new_on [OF assms, of "''bing''"] safesearch_new_on [OF assms, of "''duckduckgo''"]
    by (simp_all add: sup provider_bit_def)
  have P: "h \<in> set (provider_hosts p) \<Longrightarrow> p \<in> {''google'', ''youtube'', ''bing'', ''duckduckgo''}" for p
    by (rule provider_hosts_known)
  show ?thesis
  proof (cases "\<exists>p. h \<in> set (provider_hosts p)")
    case True
    then obtain p where p: "h \<in> set (provider_hosts p)" ..
    then have "h \<in> set (provider_hosts q) \<longleftrightarrow> q = p" for q using hosts_disjoint by blast
    then show ?thesis unfolding rewrite_unfold on using P [OF p] by (elim insertE emptyE) (simp_all, blast+)
  next
    case False
    then show ?thesis unfolding rewrite_unfold by simp
  qed
qed

theorem safesearch_rewrite_witness:
  "\<exists>ss. safesearch_new True [''bing'', ''google''] = Inr ss
     \<and> rewrite ss ''www.google.com.co'' = Some ''forcesafesearch.google.com''
     \<and> rewrite ss ''www.youtube.com'' = None"
proof -
  define ss where "ss = \<lparr>ss_enabled = 5 :: 8 word\<rparr>"
  have n: "safesearch_new True [''bing'', ''google''] = Inr ss"
    by (simp add: safesearch_new_def SUPPORTED_PROVIDERS_def ss_def provider_bit_def GOOGLE_def BING_def)
  have g: "''www.google.com.co'' \<in> set (provider_hosts ''google'')"
    by (simp add: provider_hosts_def GOOGLE_TLDS_def)
  have y: "''www.youtube.com'' \<notin> set (provider_hosts ''bing'')" "''www.youtube.com'' \<notin> set (provider_hosts ''google'')"
    using google_hosts_prefix [of "''www.youtube.com''"] by (auto simp: provider_hosts_simps BING_HOSTS_def)
  have "rewrite ss ''www.google.com.co'' = Some ''forcesafesearch.google.com''"
    unfolding safesearch_rewrite_correct [OF n] using g by (auto simp: providers_of_def provider_target_def)
  moreover have "rewrite ss ''www.youtube.com'' = None"
    using safesearch_rewrite_correct [OF n, of "''www.youtube.com''"] y by (auto simp: providers_of_def)
  ultimately show ?thesis using n by blast
qed

text \<open>Building the table fails exactly on an unsupported provider name, enabled or not, and the
  error names the first one.\<close>

theorem safesearch_new_error:
  "safesearch_new enabled ps = Inl e \<longleftrightarrow>
     (\<exists>p pre post. ps = pre @ p # post \<and> set pre \<subseteq> set SUPPORTED_PROVIDERS
        \<and> p \<notin> set SUPPORTED_PROVIDERS \<and> e = UnknownProvider p)"
proof -
  have "validate_providers ps = Inl e \<longleftrightarrow>
     (\<exists>p pre post. ps = pre @ p # post \<and> set pre \<subseteq> set SUPPORTED_PROVIDERS
        \<and> p \<notin> set SUPPORTED_PROVIDERS \<and> e = UnknownProvider p)"
  proof (induction ps)
    case (Cons a ps)
    show ?case
    proof (cases "a \<in> set SUPPORTED_PROVIDERS")
      case True
      have "(\<exists>p pre post. a # ps = pre @ p # post \<and> set pre \<subseteq> set SUPPORTED_PROVIDERS
          \<and> p \<notin> set SUPPORTED_PROVIDERS \<and> e = UnknownProvider p) \<longleftrightarrow>
          (\<exists>p pre post. ps = pre @ p # post \<and> set pre \<subseteq> set SUPPORTED_PROVIDERS
          \<and> p \<notin> set SUPPORTED_PROVIDERS \<and> e = UnknownProvider p)" (is "?L \<longleftrightarrow> ?R")
      proof
        assume ?L
        then obtain p pre post where *: "a # ps = pre @ p # post" "set pre \<subseteq> set SUPPORTED_PROVIDERS"
          "p \<notin> set SUPPORTED_PROVIDERS" "e = UnknownProvider p" by blast
        with True obtain pre' where "pre = a # pre'" by (cases pre) auto
        with * show ?R by auto
      next
        assume ?R
        then obtain p pre post where "ps = pre @ p # post" "set pre \<subseteq> set SUPPORTED_PROVIDERS"
          "p \<notin> set SUPPORTED_PROVIDERS" "e = UnknownProvider p" by blast
        with True show ?L by (intro exI [of _ p] exI [of _ "a # pre"] exI [of _ post]) simp
      qed
      then show ?thesis using True Cons.IH by simp
    next
      case False
      have "(\<exists>p pre post. a # ps = pre @ p # post \<and> set pre \<subseteq> set SUPPORTED_PROVIDERS
          \<and> p \<notin> set SUPPORTED_PROVIDERS \<and> e = UnknownProvider p) \<longleftrightarrow> e = UnknownProvider a"
      proof
        assume "e = UnknownProvider a"
        with False show "\<exists>p pre post. a # ps = pre @ p # post \<and> set pre \<subseteq> set SUPPORTED_PROVIDERS
          \<and> p \<notin> set SUPPORTED_PROVIDERS \<and> e = UnknownProvider p"
          by (intro exI [of _ a] exI [of _ "[]"] exI [of _ ps]) simp
      qed (use False in \<open>auto simp: Cons_eq_append_conv\<close>)
      then show ?thesis using False by auto
    qed
  qed simp
  then show ?thesis by (auto simp: safesearch_new_def split: sum.splits)
qed

end
