(* ===== verification/Config.thy ===== *)
theory Config
  imports Safesearch Cache Rust_Net
begin

text \<open>
  Configuration of \<open>crates/core/src/config.rs\<close>: the sections as records, semantic validation
  with its messages, profile expansion with overrides, trust anchors and the starter file.

  Parameters: reading a file, the TOML reader and writer, SHA-256 and the PEM reader (with the
  text of its errors) are arguments of the definitions that call them.  \<open>IpNet\<close> is the type
  variable \<open>'net\<close>.  A path is its byte string; an absolute path starts with a slash.
\<close>

section \<open>Data\<close>

datatype ('io, 'pe) config_error = CfgRead string 'io | CfgParse string 'pe | Invalid string

record socket_addr =
  sa_ip :: ip_addr
  sa_port :: nat

record cache_config =
  max_entries :: nat
  serve_stale_secs :: nat

record tls_config =
  extra_roots :: "string list"

record 'net server_config =
  bind_addrs :: "socket_addr list"
  allow :: "'net list"

datatype profile = Minimal | Balanced | Strict

record list_source =
  ls_name :: string
  ls_url :: "string option"
  ls_path :: "string option"

record filtering_config =
  fc_profile :: "profile option"
  fc_lists :: "list_source list"
  fc_list_dir :: string

record upstreams_config =
  servers :: "string list"
  bootstrap :: "ip_addr list"
  timeout_ms :: nat

record database_config =
  db_path :: string

record safesearch_config =
  ssc_enabled :: bool
  ssc_providers :: "string list"

record 'net config =
  cfg_server :: "'net server_config"
  cfg_filtering :: filtering_config
  cfg_upstreams :: upstreams_config
  cfg_database :: database_config
  cfg_safe_search :: safesearch_config
  cfg_tls :: tls_config
  cfg_cache :: cache_config

definition default_max_entries :: nat where "default_max_entries = 16384"

definition default_serve_stale_secs :: nat where
  "default_serve_stale_secs = DEFAULT_SERVE_STALE_SECS"

definition cache_config_default :: cache_config where
  "cache_config_default = \<lparr>max_entries = default_max_entries, serve_stale_secs = default_serve_stale_secs\<rparr>"

definition cache_is_default :: "cache_config \<Rightarrow> bool" where
  "cache_is_default c \<longleftrightarrow> c = cache_config_default"

definition tls_is_default :: "tls_config \<Rightarrow> bool" where
  "tls_is_default t \<longleftrightarrow> extra_roots t = []"

definition is_default_safe_search :: "safesearch_config \<Rightarrow> bool" where
  "is_default_safe_search s \<longleftrightarrow> \<not> ssc_enabled s \<and> ssc_providers s = []"

section \<open>Validation\<close>

definition is_absolute :: "string \<Rightarrow> bool" where
  "is_absolute p = starts_with ''/'' p"

definition cache_validate :: "cache_config \<Rightarrow> ('io, 'pe) config_error + unit" where
  "cache_validate c =
     (if max_entries c = 0 then Inl (Invalid ''cache.max_entries must be at least 1'')
      else if serve_stale_secs c > MAX_SERVE_STALE_SECS
      then Inl (Invalid (''cache.serve_stale_secs: '' @ show_nat (serve_stale_secs c)
             @ '' exceeds the RFC 8767 bound of '' @ show_nat MAX_SERVE_STALE_SECS @ '' (3 days)''))
      else Inr ())"

definition tls_validate :: "tls_config \<Rightarrow> ('io, 'pe) config_error + unit" where
  "tls_validate t =
     (case find (\<lambda>p. \<not> is_absolute p) (extra_roots t) of
        Some path \<Rightarrow> Inl (Invalid (''tls.extra_roots: '' @ path @ '' must be absolute''))
      | None \<Rightarrow> Inr ())"

fun read_roots ::
    "(string \<Rightarrow> 'ee + 'cert list) \<Rightarrow> ('ee \<Rightarrow> string) \<Rightarrow> string list \<Rightarrow> 'cert list
       \<Rightarrow> ('io, 'pe) config_error + 'cert list" where
  "read_roots pem show_e [] out = Inr out"
| "read_roots pem show_e (path # ps) out =
     (case pem path of
        Inl e \<Rightarrow> Inl (Invalid (''tls.extra_roots: '' @ path @ '': '' @ show_e e))
      | Inr certs \<Rightarrow>
          if certs = [] then Inl (Invalid (''tls.extra_roots: '' @ path @ '': no certificate found''))
          else read_roots pem show_e ps (out @ certs))"

definition read_extra_roots ::
    "(string \<Rightarrow> 'ee + 'cert list) \<Rightarrow> ('ee \<Rightarrow> string) \<Rightarrow> tls_config \<Rightarrow> ('io, 'pe) config_error + 'cert list" where
  "read_extra_roots pem show_e tls = read_roots pem show_e (extra_roots tls) []"

definition cfg_extra_roots ::
    "(string \<Rightarrow> 'ee + 'cert list) \<Rightarrow> ('ee \<Rightarrow> string) \<Rightarrow> 'net config \<Rightarrow> ('io, 'pe) config_error + 'cert list" where
  "cfg_extra_roots pem show_e c = read_extra_roots pem show_e (cfg_tls c)"

definition hagezi_light :: list_source where
  "hagezi_light = \<lparr>ls_name = ''hagezi-light'',
     ls_url = Some ''https://raw.githubusercontent.com/hagezi/dns-blocklists/main/adblock/light.txt'',
     ls_path = None\<rparr>"

definition hagezi_pro :: list_source where
  "hagezi_pro = \<lparr>ls_name = ''hagezi-pro'',
     ls_url = Some ''https://raw.githubusercontent.com/hagezi/dns-blocklists/main/adblock/pro.txt'',
     ls_path = None\<rparr>"

definition hagezi_tif :: list_source where
  "hagezi_tif = \<lparr>ls_name = ''hagezi-tif'',
     ls_url = Some ''https://raw.githubusercontent.com/hagezi/dns-blocklists/main/adblock/tif.txt'',
     ls_path = None\<rparr>"

fun profile_lists :: "profile \<Rightarrow> list_source list" where
  "profile_lists Minimal = [hagezi_light]"
| "profile_lists Balanced = [hagezi_pro]"
| "profile_lists Strict = [hagezi_pro, hagezi_tif]"

text \<open>\<open>result.iter().position(|l| l.name == name)\<close>\<close>

fun position_name :: "string \<Rightarrow> list_source list \<Rightarrow> nat option" where
  "position_name n [] = None"
| "position_name n (l # ls) = (if ls_name l = n then Some 0 else map_option Suc (position_name n ls))"

definition apply_extra :: "list_source list \<Rightarrow> list_source \<Rightarrow> list_source list" where
  "apply_extra result extra =
     (case position_name (ls_name extra) result of
        Some pos \<Rightarrow> result[pos := extra]
      | None \<Rightarrow> result @ [extra])"

definition effective_lists :: "'net config \<Rightarrow> list_source list" where
  "effective_lists c =
     (let result = (case fc_profile (cfg_filtering c) of None \<Rightarrow> [] | Some p \<Rightarrow> profile_lists p)
      in foldl apply_extra result (fc_lists (cfg_filtering c)))"

fun check_servers :: "string list \<Rightarrow> ('io, 'pe) config_error + unit" where
  "check_servers [] = Inr ()"
| "check_servers (s # ss) =
     (if \<not> starts_with ''https://'' s \<and> \<not> starts_with ''quic://'' s
      then Inl (Invalid (''upstreams.servers: '' @ s @ '': must use https:// or quic:// scheme''))
      else check_servers ss)"

fun check_names :: "string set \<Rightarrow> list_source list \<Rightarrow> ('io, 'pe) config_error + unit" where
  "check_names seen [] = Inr ()"
| "check_names seen (ls # lss) =
     (if ls_name ls = [] then Inl (Invalid ''filtering.lists: a list has an empty name'')
      else if ls_name ls \<in> seen
      then Inl (Invalid (''filtering.lists: duplicate list name '' @ [CHR 0x27] @ ls_name ls @ [CHR 0x27]))
      else check_names (insert (ls_name ls) seen) lss)"

fun check_sources :: "list_source list \<Rightarrow> ('io, 'pe) config_error + unit" where
  "check_sources [] = Inr ()"
| "check_sources (ls # lss) =
     (let quoted = ''filtering.lists: '' @ [CHR 0x27] @ ls_name ls @ [CHR 0x27] in
      if ls_url ls = None \<and> ls_path ls = None
      then Inl (Invalid (quoted @ '' has neither url nor path''))
      else if (case ls_url ls of Some url \<Rightarrow> \<not> starts_with ''https://'' url | None \<Rightarrow> False)
      then Inl (Invalid (quoted @ '' url '' @ [CHR 0x27] @ the (ls_url ls) @ [CHR 0x27] @ '' must use https://''))
      else if (case ls_path ls of Some path \<Rightarrow> \<not> is_absolute path | None \<Rightarrow> False)
      then Inl (Invalid (quoted @ '' path '' @ the (ls_path ls) @ '' must be absolute''))
      else check_sources lss)"

text \<open>\<open>?\<close> on a check that returns nothing.\<close>

definition and_then :: "'e + unit \<Rightarrow> 'e + 'a \<Rightarrow> 'e + 'a" where
  "and_then r k = (case r of Inl e \<Rightarrow> Inl e | Inr _ \<Rightarrow> k)"

definition provider_error_text :: "safesearch_error \<Rightarrow> string" where
  "provider_error_text e =
     (case e of UnknownProvider p \<Rightarrow>
        ''unknown safe-search provider '' @ [CHR 0x22] @ p @ [CHR 0x22]
          @ ''; supported: google, youtube, bing, duckduckgo'')"

definition validate :: "'net config \<Rightarrow> ('io, 'pe) config_error + unit" where
  "validate c =
     (if bind_addrs (cfg_server c) = [] then Inl (Invalid ''server.bind: must not be empty'')
      else if allow (cfg_server c) = [] then Inl (Invalid ''server.allow: must not be empty'')
      else if servers (cfg_upstreams c) = [] then Inl (Invalid ''upstreams.servers: must not be empty'')
      else and_then (check_servers (servers (cfg_upstreams c)))
       (if bootstrap (cfg_upstreams c) = [] then Inl (Invalid ''upstreams.bootstrap: must not be empty'')
        else if \<not> (100 \<le> timeout_ms (cfg_upstreams c) \<and> timeout_ms (cfg_upstreams c) \<le> 30000)
        then Inl (Invalid (''upstreams.timeout_ms: '' @ show_nat (timeout_ms (cfg_upstreams c)) @ '' is not in 100..=30000''))
        else if \<not> is_absolute (db_path (cfg_database c))
        then Inl (Invalid (''database.path: '' @ db_path (cfg_database c) @ '' must be absolute''))
        else if \<not> is_absolute (fc_list_dir (cfg_filtering c))
        then Inl (Invalid (''filtering.list_dir: '' @ fc_list_dir (cfg_filtering c) @ '' must be absolute''))
        else and_then (tls_validate (cfg_tls c))
         (and_then (cache_validate (cfg_cache c))
          (case validate_providers (ssc_providers (cfg_safe_search c)) of
             Inl e \<Rightarrow> Inl (Invalid (''safe_search.providers: '' @ provider_error_text e))
           | Inr _ \<Rightarrow>
               (let effective = effective_lists c in
                if effective = []
                then Inl (Invalid ''filtering: must have at least one list (set profile or lists)'')
                else and_then (check_names {} (fc_lists (cfg_filtering c))) (check_sources effective))))))"

definition from_toml ::
    "(string \<Rightarrow> 'pe + 'net config) \<Rightarrow> string \<Rightarrow> string \<Rightarrow> ('io, 'pe) config_error + 'net config" where
  "from_toml toml_from_str src origin =
     (case toml_from_str src of
        Inl e \<Rightarrow> Inl (CfgParse origin e)
      | Inr config \<Rightarrow> and_then (validate config) (Inr config))"

definition load ::
    "(string \<Rightarrow> 'io + string) \<Rightarrow> (string \<Rightarrow> 'pe + 'net config) \<Rightarrow> string \<Rightarrow> ('io, 'pe) config_error + 'net config" where
  "load read_to_string toml_from_str path =
     (case read_to_string path of
        Inl e \<Rightarrow> Inl (CfgRead path e)
      | Inr src \<Rightarrow> from_toml toml_from_str src path)"

text \<open>\<open>write!(s, "{b:02x}")\<close> for each byte.\<close>

definition hex_encode :: "8 word list \<Rightarrow> string" where
  "hex_encode bytes = concat (map (\<lambda>b. [digit_char (unat b div 16), digit_char (unat b mod 16)]) bytes)"

definition config_hash ::
    "('net config \<Rightarrow> string option) \<Rightarrow> (string \<Rightarrow> 8 word list) \<Rightarrow> 'net config \<Rightarrow> string option" where
  "config_hash toml_to_string sha256 c = map_option (\<lambda>canonical. hex_encode (sha256 canonical)) (toml_to_string c)"

definition starter_config :: "profile \<Rightarrow> string" where
  \<open>starter_config p =
     (let profile_name = (case p of Minimal \<Rightarrow> ''minimal'' | Balanced \<Rightarrow> ''balanced'' | Strict \<Rightarrow> ''strict'') in
      concat (map (\<lambda>l. l @ [CHR 0x0A]) [
        ''# sumidero configuration'',
        ''# Generated for profile: '' @ profile_name,
        ''# See DESIGN.md for details.'',
        [],
        ''[server]'',
        ''# Sockets to bind (v4 + v6).'',
        ''bind = ["0.0.0.0:53", "[::]:53"]'',
        ''# Client networks allowed to query; everything else is refused.'',
        ''allow = ["192.168.0.0/16", "127.0.0.0/8", "::1/128"]'',
        [],
        ''[filtering]'',
        ''# Base profile: minimal, balanced, or strict.'',
        ''# Each profile expands to a curated set of blocklists (hagezi tiers).'',
        ''profile = "'' @ profile_name @ ''"'',
        ''# Additional or overriding lists:'',
        ''# [[filtering.lists]]'',
        ''# name = "my-custom-list"'',
        ''# url = "https://example.com/list.txt"'',
        ''# Directory for downloaded list copies (must be absolute).'',
        ''list_dir = "/var/lib/sumidero/lists"'',
        [],
        ''[upstreams]'',
        ''# DoH / DoQ upstream resolvers, queried in parallel.'',
        ''servers = ['',
        ''  "https://dns.cloudflare.com/dns-query",'',
        ''  "https://dns.google/dns-query",'',
        '']'',
        ''# Plain IPs for bootstrapping upstream hostname resolution.'',
        ''bootstrap = ["1.1.1.1", "9.9.9.9"]'',
        ''# Per-attempt timeout in milliseconds (100..=30000).'',
        ''timeout_ms = 3000'',
        [],
        ''[database]'',
        ''# SQLite file for query log and stats (must be absolute).'',
        ''path = "/var/lib/sumidero/sumidero.sqlite"'',
        [],
        ''# Answer cache. Freshness always follows the published TTLs.'',
        ''# [cache]'',
        ''# max_entries = 16384'',
        ''# How long past its TTL an answer may be served (TTL 30) while it is'',
        ''# refreshed; 0 disables serving stale, at most 259200 (3 days).'',
        ''# serve_stale_secs = 43200'']))\<close>

section \<open>Lemmas\<close>

lemma and_then_Inr [simp]: "and_then r k = Inr x \<longleftrightarrow> r = Inr () \<and> k = Inr x"
  by (auto simp: and_then_def split: sum.splits)

lemma check_servers_Inr: "check_servers ss = Inr () \<longleftrightarrow>
    (\<forall>s \<in> set ss. starts_with ''https://'' s \<or> starts_with ''quic://'' s)"
  by (induction ss) auto

lemma check_names_Inr: "check_names seen lss = Inr () \<longleftrightarrow>
    [] \<notin> ls_name ` set lss \<and> distinct (map ls_name lss) \<and> seen \<inter> ls_name ` set lss = {}"
  by (induction lss arbitrary: seen) auto

text \<open>A usable source: a location, downloads over HTTPS, absolute paths.\<close>

definition source_ok :: "list_source \<Rightarrow> bool" where
  "source_ok ls \<longleftrightarrow> (ls_url ls \<noteq> None \<or> ls_path ls \<noteq> None)
     \<and> (\<forall>url. ls_url ls = Some url \<longrightarrow> starts_with ''https://'' url)
     \<and> (\<forall>path. ls_path ls = Some path \<longrightarrow> is_absolute path)"

lemma check_sources_Inr: "check_sources lss = Inr () \<longleftrightarrow> (\<forall>ls \<in> set lss. source_ok ls)"
proof (induction lss)
  case (Cons ls lss)
  show ?case
    by (cases "ls_url ls"; cases "ls_path ls") (use Cons.IH in \<open>auto simp: source_ok_def Let_def\<close>)
qed simp

lemma cache_validate_Inr: "cache_validate c = Inr () \<longleftrightarrow> 0 < max_entries c \<and> serve_stale_secs c \<le> MAX_SERVE_STALE_SECS"
  by (auto simp: cache_validate_def)

lemma find_check: "(case find P xs of None \<Rightarrow> Inr () | Some x \<Rightarrow> Inl (f x)) = Inr () \<longleftrightarrow> (\<forall>x \<in> set xs. \<not> P x)"
  by (induction xs) auto

lemma tls_validate_Inr: "tls_validate t = Inr () \<longleftrightarrow> (\<forall>p \<in> set (extra_roots t). is_absolute p)"
  by (simp add: tls_validate_def find_check)

lemma position_name_None: "position_name n ls = None \<longleftrightarrow> n \<notin> ls_name ` set ls"
  by (induction ls) auto

lemma position_name_Some: "position_name n ls = Some i \<Longrightarrow> i < length ls \<and> ls_name (ls ! i) = n"
  by (induction ls arbitrary: i) (auto split: if_splits)

lemma apply_extra_names: "map ls_name (apply_extra r e) =
    (if ls_name e \<in> ls_name ` set r then map ls_name r else map ls_name r @ [ls_name e])"
proof (cases "position_name (ls_name e) r")
  case None
  then have "ls_name e \<notin> ls_name ` set r" by (simp only: position_name_None not_False_eq_True)
  then show ?thesis using None by (simp add: apply_extra_def)
next
  case (Some i)
  then have "ls_name e \<in> ls_name ` set r" by (metis option.distinct(1) position_name_None)
  moreover have "map ls_name (r[i := e]) = map ls_name r"
    using position_name_Some [OF Some] by (metis list_update_id map_update nth_map)
  ultimately show ?thesis using Some by (simp add: apply_extra_def)
qed

lemma apply_extra_distinct: "distinct (map ls_name r) \<Longrightarrow> distinct (map ls_name (apply_extra r e))"
  unfolding apply_extra_names by (simp add: image_iff)

lemma foldl_apply_extra_distinct:
  "distinct (map ls_name r) \<Longrightarrow> distinct (map ls_name (foldl apply_extra r es))"
  by (induction es arbitrary: r) (auto simp: apply_extra_distinct)

lemma apply_extra_find: "distinct (map ls_name r) \<Longrightarrow>
    find (\<lambda>l. ls_name l = n) (apply_extra r e) = (if ls_name e = n then Some e else find (\<lambda>l. ls_name l = n) r)"
proof (induction r)
  case (Cons l r)
  show ?case
  proof (cases "ls_name l = ls_name e")
    case True
    then show ?thesis by (simp add: apply_extra_def)
  next
    case False
    then have "apply_extra (l # r) e = l # apply_extra r e"
      by (simp add: apply_extra_def split: option.splits)
    then show ?thesis using False Cons by auto
  qed
qed (simp add: apply_extra_def)

lemma find_append: "find P (xs @ ys) = (case find P xs of None \<Rightarrow> find P ys | Some x \<Rightarrow> Some x)"
  by (induction xs) auto

lemma foldl_apply_extra_find: "distinct (map ls_name r) \<Longrightarrow>
    find (\<lambda>l. ls_name l = n) (foldl apply_extra r es) =
      (case find (\<lambda>l. ls_name l = n) (rev es) of Some e \<Rightarrow> Some e | None \<Rightarrow> find (\<lambda>l. ls_name l = n) r)"
proof (induction es arbitrary: r)
  case (Cons e es)
  have "find (\<lambda>l. ls_name l = n) (foldl apply_extra r (e # es)) =
      (case find (\<lambda>l. ls_name l = n) (rev es) of Some e \<Rightarrow> Some e | None \<Rightarrow> find (\<lambda>l. ls_name l = n) (apply_extra r e))"
    using Cons.IH [OF apply_extra_distinct [OF Cons.prems]] by simp
  then show ?case
    using apply_extra_find [OF Cons.prems, of n e] by (simp add: find_append split: option.splits)
qed simp

definition base_lists :: "'net config \<Rightarrow> list_source list" where
  "base_lists c = (case fc_profile (cfg_filtering c) of None \<Rightarrow> [] | Some p \<Rightarrow> profile_lists p)"

lemma base_lists_props: "distinct (map ls_name (base_lists c))" "l \<in> set (base_lists c) \<Longrightarrow> ls_name l \<noteq> [] \<and> source_ok l"
proof -
  have "distinct (map ls_name (profile_lists p)) \<and> (\<forall>l \<in> set (profile_lists p). ls_name l \<noteq> [] \<and> source_ok l)" for p
    by (cases p) (simp_all add: hagezi_light_def hagezi_pro_def hagezi_tif_def source_ok_def starts_with_def)
  then show "distinct (map ls_name (base_lists c))" "l \<in> set (base_lists c) \<Longrightarrow> ls_name l \<noteq> [] \<and> source_ok l"
    by (auto simp: base_lists_def split: option.splits)
qed

lemma effective_lists_base: "effective_lists c = foldl apply_extra (base_lists c) (fc_lists (cfg_filtering c))"
  by (simp add: effective_lists_def base_lists_def)

lemma find_name_in: "distinct (map ls_name ls) \<Longrightarrow> find (\<lambda>l. ls_name l = n) ls = Some l \<longleftrightarrow> l \<in> set ls \<and> ls_name l = n"
  by (induction ls) (auto simp: image_iff)

lemma effective_lists_distinct: "distinct (map ls_name (effective_lists c))"
  unfolding effective_lists_base by (rule foldl_apply_extra_distinct [OF base_lists_props(1)])

lemma effective_lists_in: "l \<in> set (effective_lists c) \<longleftrightarrow>
    (case find (\<lambda>e. ls_name e = ls_name l) (rev (fc_lists (cfg_filtering c))) of
       Some e \<Rightarrow> l = e | None \<Rightarrow> l \<in> set (base_lists c))"
proof -
  have "l \<in> set (effective_lists c) \<longleftrightarrow> find (\<lambda>e. ls_name e = ls_name l) (effective_lists c) = Some l"
    using find_name_in [OF effective_lists_distinct] by auto
  then show ?thesis
    unfolding effective_lists_base foldl_apply_extra_find [OF base_lists_props(1)]
    using find_name_in [OF base_lists_props(1) [of c], of "ls_name l" l] by (auto split: option.splits)
qed

lemma effective_lists_sub: "l \<in> set (effective_lists c) \<Longrightarrow> l \<in> set (fc_lists (cfg_filtering c)) \<or> l \<in> set (base_lists c)"
  unfolding effective_lists_in by (auto split: option.splits simp: find_Some_iff) (metis nth_mem set_rev length_rev)

lemma effective_lists_extras:
  "distinct (map ls_name (fc_lists (cfg_filtering c))) \<Longrightarrow> set (fc_lists (cfg_filtering c)) \<subseteq> set (effective_lists c)"
proof
  fix l assume d: "distinct (map ls_name (fc_lists (cfg_filtering c)))" and l: "l \<in> set (fc_lists (cfg_filtering c))"
  have "distinct (map ls_name (rev (fc_lists (cfg_filtering c))))" using d by (simp add: rev_map [symmetric])
  then have "find (\<lambda>e. ls_name e = ls_name l) (rev (fc_lists (cfg_filtering c))) = Some l"
    using l by (simp add: find_name_in)
  then show "l \<in> set (effective_lists c)" unfolding effective_lists_in by simp
qed

lemma foldl_apply_extra_length: "length r \<le> length (foldl apply_extra r es)"
proof (induction es arbitrary: r)
  case (Cons e es)
  have "length r \<le> length (apply_extra r e)" by (simp add: apply_extra_def split: option.splits)
  then show ?case using Cons.IH [of "apply_extra r e"] by simp
qed simp

lemma effective_lists_empty: "effective_lists c = [] \<longleftrightarrow> fc_profile (cfg_filtering c) = None \<and> fc_lists (cfg_filtering c) = []"
proof
  assume e: "effective_lists c = []"
  have "base_lists c = []"
    using foldl_apply_extra_length [of "base_lists c" "fc_lists (cfg_filtering c)"] e by (simp add: effective_lists_base)
  then have "fc_profile (cfg_filtering c) = None"
    by (auto simp: base_lists_def split: option.splits) (metis list.distinct(1) profile.exhaust profile_lists.simps)
  moreover have "fc_lists (cfg_filtering c) = []"
  proof (rule ccontr)
    assume "fc_lists (cfg_filtering c) \<noteq> []"
    then obtain es l where "fc_lists (cfg_filtering c) = es @ [l]" by (metis rev_exhaust)
    with e have "apply_extra (foldl apply_extra (base_lists c) es) l = []" by (simp add: effective_lists_base)
    then show False by (auto simp: apply_extra_def split: option.splits dest: position_name_Some)
  qed
  ultimately show "fc_profile (cfg_filtering c) = None \<and> fc_lists (cfg_filtering c) = []" by blast
qed (simp add: effective_lists_def)

lemma effective_sources_ok:
  assumes "distinct (map ls_name (fc_lists (cfg_filtering c)))"
  shows "(\<forall>l \<in> set (effective_lists c). source_ok l) \<longleftrightarrow> (\<forall>l \<in> set (fc_lists (cfg_filtering c)). source_ok l)"
  using effective_lists_extras [OF assms] effective_lists_sub [of _ c] base_lists_props(2) [where c = c] by blast

lemma effective_lists_names:
  "map ls_name (effective_lists c) = map ls_name (base_lists c) @
     filter (\<lambda>n. n \<notin> ls_name ` set (base_lists c)) (rev (remdups (rev (map ls_name (fc_lists (cfg_filtering c))))))"
proof -
  have "map ls_name (foldl apply_extra r es) = map ls_name r @
      filter (\<lambda>n. n \<notin> ls_name ` set r) (rev (remdups (rev (map ls_name es))))" for r es
  proof (induction es rule: rev_induct)
    case (snoc e es)
    have "set (map ls_name (foldl apply_extra r es)) = ls_name ` set r \<union> ls_name ` set es"
      unfolding snoc.IH by auto
    then have "ls_name ` set (foldl apply_extra r es) = ls_name ` set r \<union> ls_name ` set es" by simp
    then show ?case using snoc.IH by (auto simp: apply_extra_names rev_map [symmetric] image_iff)
  qed simp
  then show ?thesis by (simp add: effective_lists_base)
qed

section \<open>Properties\<close>

text \<open>What a usable configuration is, section by section, over what the operator wrote.\<close>

definition config_ok :: "'net config \<Rightarrow> bool" where
  "config_ok c \<longleftrightarrow>
     bind_addrs (cfg_server c) \<noteq> [] \<and> allow (cfg_server c) \<noteq> []
   \<and> servers (cfg_upstreams c) \<noteq> []
   \<and> (\<forall>s \<in> set (servers (cfg_upstreams c)). starts_with ''https://'' s \<or> starts_with ''quic://'' s)
   \<and> bootstrap (cfg_upstreams c) \<noteq> [] \<and> timeout_ms (cfg_upstreams c) \<in> {100..30000}
   \<and> is_absolute (db_path (cfg_database c)) \<and> is_absolute (fc_list_dir (cfg_filtering c))
   \<and> (\<forall>p \<in> set (extra_roots (cfg_tls c)). is_absolute p)
   \<and> 0 < max_entries (cfg_cache c) \<and> serve_stale_secs (cfg_cache c) \<le> MAX_SERVE_STALE_SECS
   \<and> set (ssc_providers (cfg_safe_search c)) \<subseteq> set SUPPORTED_PROVIDERS
   \<and> (fc_profile (cfg_filtering c) \<noteq> None \<or> fc_lists (cfg_filtering c) \<noteq> [])
   \<and> distinct (map ls_name (fc_lists (cfg_filtering c)))
   \<and> (\<forall>l \<in> set (fc_lists (cfg_filtering c)). ls_name l \<noteq> [] \<and> source_ok l)"

text \<open>C37: validation accepts exactly the usable configurations.  The sequence of checks, which look at
  the lists after the profile was expanded and overridden, accepts a configuration if and only if
  every section satisfies its own condition on what the operator wrote.\<close>

theorem validate_accepts: "validate c = (Inr () :: ('io, 'pe) config_error + unit) \<longleftrightarrow> config_ok c"
proof -
  have prov: "(case validate_providers ps of Inl e \<Rightarrow> Inl (f e) | Inr _ \<Rightarrow> k) = Inr x \<longleftrightarrow>
      set ps \<subseteq> set SUPPORTED_PROVIDERS \<and> k = Inr x"
    for ps f x and k :: "('io, 'pe) config_error + unit"
    using validate_providers_cases [of ps] validate_providers_Inr [of ps] by auto
  have names: "check_names {} (fc_lists (cfg_filtering c)) = (Inr () :: ('io, 'pe) config_error + unit)
        \<and> check_sources (effective_lists c) = (Inr () :: ('io, 'pe) config_error + unit) \<longleftrightarrow>
      distinct (map ls_name (fc_lists (cfg_filtering c)))
        \<and> (\<forall>l \<in> set (fc_lists (cfg_filtering c)). ls_name l \<noteq> [] \<and> source_ok l)"
    unfolding check_names_Inr check_sources_Inr using effective_sources_ok [of c] by (auto simp: image_iff)
  show ?thesis
    unfolding validate_def Let_def config_ok_def
    by (auto simp: prov names check_servers_Inr tls_validate_Inr cache_validate_Inr
        effective_lists_empty)
qed

text \<open>The effective lists.  Names are distinct whatever the configuration repeats; profile lists
  come first in profile order, then the extra names in the order they first appear; a list is in
  the set exactly when it is the last extra of its name, or a profile list no extra overrides.\<close>

theorem effective_lists_correct:
  "distinct (map ls_name (effective_lists c))
   \<and> map ls_name (effective_lists c) = map ls_name (base_lists c) @
       filter (\<lambda>n. n \<notin> ls_name ` set (base_lists c)) (rev (remdups (rev (map ls_name (fc_lists (cfg_filtering c))))))
   \<and> (\<forall>l. l \<in> set (effective_lists c) \<longleftrightarrow>
       (case find (\<lambda>e. ls_name e = ls_name l) (rev (fc_lists (cfg_filtering c))) of
          Some e \<Rightarrow> l = e | None \<Rightarrow> l \<in> set (base_lists c)))"
  using effective_lists_distinct effective_lists_names effective_lists_in by blast

text \<open>C38: a configuration that loads is one the daemon can start from.  The file was read and parsed,
  no extra list is dropped from the effective set, which is not empty and has only non-empty names
  and usable sources, the safe-search table builds and the cache can be created without panicking.\<close>

theorem load_ready:
  fixes rd :: "string \<Rightarrow> 'io + string" and toml :: "string \<Rightarrow> 'pe + 'net config"
  assumes "load rd toml path = Inr c"
  shows "(\<exists>src. rd path = Inr src \<and> toml src = Inr c)
       \<and> effective_lists c \<noteq> [] \<and> set (fc_lists (cfg_filtering c)) \<subseteq> set (effective_lists c)
       \<and> (\<forall>l \<in> set (effective_lists c). ls_name l \<noteq> [] \<and> source_ok l)
       \<and> (\<exists>ss. safesearch_new (ssc_enabled (cfg_safe_search c)) (ssc_providers (cfg_safe_search c)) = Inr ss)
       \<and> (\<exists>i. with_limits (max_entries (cfg_cache c)) DEFAULT_MAX_BYTES (serve_stale_secs (cfg_cache c)) = Some i)"
proof -
  obtain src where src: "rd path = Inr src" "toml src = Inr c" and v: "validate c = (Inr () :: ('io, 'pe) config_error + unit)"
    using assms by (auto simp: load_def from_toml_def split: sum.splits)
  have ok: "config_ok c" using v validate_accepts by blast
  then have d: "distinct (map ls_name (fc_lists (cfg_filtering c)))" by (simp add: config_ok_def)
  have "(\<forall>l \<in> set (effective_lists c). ls_name l \<noteq> [] \<and> source_ok l)"
    using effective_lists_sub [of _ c] base_lists_props(2) [where c = c] ok unfolding config_ok_def by blast
  moreover have "validate_providers (ssc_providers (cfg_safe_search c)) = Inr ()"
    using ok by (simp add: validate_providers_Inr config_ok_def)
  ultimately show ?thesis
    using src ok effective_lists_extras [OF d] effective_lists_empty [of c]
    by (auto simp: config_ok_def safesearch_new_def with_limits_def DEFAULT_MAX_BYTES_def)
qed

definition example_config :: "unit config" where
  "example_config =
     \<lparr>cfg_server = \<lparr>bind_addrs = [\<lparr>sa_ip = V4 [0, 0, 0, 0], sa_port = 53\<rparr>], allow = [()]\<rparr>,
      cfg_filtering = \<lparr>fc_profile = Some Balanced,
        fc_lists = [\<lparr>ls_name = ''mine'', ls_url = None, ls_path = Some ''/etc/mine.txt''\<rparr>],
        fc_list_dir = ''/var/lib/sumidero/lists''\<rparr>,
      cfg_upstreams = \<lparr>servers = [''https://dns.google/dns-query''], bootstrap = [V4 [1, 1, 1, 1]], timeout_ms = 3000\<rparr>,
      cfg_database = \<lparr>db_path = ''/var/lib/sumidero/sumidero.sqlite''\<rparr>,
      cfg_safe_search = \<lparr>ssc_enabled = True, ssc_providers = [''bing'']\<rparr>,
      cfg_tls = \<lparr>extra_roots = []\<rparr>,
      cfg_cache = cache_config_default\<rparr>"

lemma example_config_ok: "config_ok example_config"
  by (simp add: config_ok_def example_config_def starts_with_def is_absolute_def cache_config_default_def
      default_max_entries_def default_serve_stale_secs_def DEFAULT_SERVE_STALE_SECS_def
      MAX_SERVE_STALE_SECS_def SUPPORTED_PROVIDERS_def source_ok_def)

theorem load_ready_witness:
  "\<exists>c :: unit config. load (\<lambda>p. Inr p :: unit + string) (\<lambda>s. Inr example_config :: unit + unit config) ''/etc/s.toml'' = Inr c
     \<and> effective_lists c \<noteq> []
     \<and> (\<exists>ss. safesearch_new (ssc_enabled (cfg_safe_search c)) (ssc_providers (cfg_safe_search c)) = Inr ss)"
proof -
  have "validate example_config = (Inr () :: (unit, unit) config_error + unit)"
    using example_config_ok validate_accepts by blast
  then have l: "load (\<lambda>p. Inr p :: unit + string) (\<lambda>s. Inr example_config :: unit + unit config) ''/etc/s.toml'' = Inr example_config"
    by (simp add: load_def from_toml_def)
  show ?thesis using load_ready [OF l] l by blast
qed

lemma digit_char_inj: "a < 16 \<Longrightarrow> b < 16 \<Longrightarrow> digit_char a = digit_char b \<Longrightarrow> a = b"
proof -
  assume "a < 16" "b < 16" "digit_char a = digit_char b"
  then have "byte (digit_char a) = byte (digit_char b)" by simp
  then show ?thesis using \<open>a < 16\<close> \<open>b < 16\<close> by (auto simp: digit_char_def split: if_splits)
qed

lemma hex_encode_Cons: "hex_encode (b # bs) = digit_char (unat b div 16) # digit_char (unat b mod 16) # hex_encode bs"
  by (simp add: hex_encode_def)

text \<open>The hexadecimal form of a digest has two characters a byte, all of them lower-case
  hexadecimal digits, and two byte strings with the same form are equal: heartbeat hashes agree
  exactly when the digests do.\<close>

theorem hex_encode_faithful:
  "length (hex_encode bs) = 2 * length bs
   \<and> set (hex_encode bs) \<subseteq> set ''0123456789abcdef''
   \<and> (hex_encode bs = hex_encode cs \<longleftrightarrow> bs = cs)"
proof (intro conjI)
  show "length (hex_encode bs) = 2 * length bs" by (induction bs) (auto simp: hex_encode_def)
  have "digit_char d \<in> set ''0123456789abcdef''" if "d < 16" for d
  proof -
    have "d \<in> set [0..<16]" using that by simp
    moreover have "list_all (\<lambda>d. digit_char d \<in> set ''0123456789abcdef'') [0..<16]" by code_simp
    ultimately show ?thesis unfolding list_all_iff by blast
  qed
  moreover have "unat (b :: 8 word) div 16 < 16" for b using unsigned_less [of b] by (simp add: div_less_iff_less_mult)
  ultimately show "set (hex_encode bs) \<subseteq> set ''0123456789abcdef''"
  proof (induction bs)
    case (Cons b bs)
    then show ?case unfolding hex_encode_Cons by (simp only: list.set insert_subset simp_thms mod_less_divisor zero_less_numeral)
  qed (simp add: hex_encode_def)
  show "hex_encode bs = hex_encode cs \<longleftrightarrow> bs = cs"
  proof (induction bs arbitrary: cs)
    case Nil
    then show ?case by (cases cs) (auto simp: hex_encode_def)
  next
    case (Cons b bs)
    have nib: "unat (x :: 8 word) div 16 < 16" for x using unsigned_less [of x] by (simp add: div_less_iff_less_mult)
    show ?case
    proof (cases cs)
      case (Cons c cs')
      have "b = c" if "digit_char (unat b div 16) = digit_char (unat c div 16)" "digit_char (unat b mod 16) = digit_char (unat c mod 16)"
        using digit_char_inj [OF nib nib that(1)] digit_char_inj [OF _ _ that(2)]
        by (metis div_mult_mod_eq mod_less_divisor unsigned_word_eqI zero_less_numeral)
      then show ?thesis using Cons Cons.IH [of cs'] by (auto simp: hex_encode_Cons)
    qed (auto simp: hex_encode_def)
  qed
qed

lemma read_roots_Inr: "read_roots pem show_e ps out = Inr r \<longleftrightarrow>
    (\<exists>css. map pem ps = map Inr css \<and> [] \<notin> set css \<and> r = out @ concat css)"
proof (induction ps arbitrary: out)
  case (Cons p ps)
  show ?case
  proof (cases "pem p")
    case (Inr cs)
    have "(\<exists>css. map pem (p # ps) = map Inr css \<and> [] \<notin> set css \<and> r = out @ concat css) \<longleftrightarrow>
        cs \<noteq> [] \<and> (\<exists>css. map pem ps = map Inr css \<and> [] \<notin> set css \<and> r = (out @ cs) @ concat css)" (is "?L \<longleftrightarrow> ?R")
    proof
      assume ?L
      then obtain css where css: "map pem (p # ps) = map Inr css" "[] \<notin> set css" "r = out @ concat css" by blast
      with Inr obtain css' where "css = cs # css'" by (cases css) auto
      with css show ?R by auto
    next
      assume ?R
      then obtain css where "cs \<noteq> []" "map pem ps = map Inr css" "[] \<notin> set css" "r = (out @ cs) @ concat css" by blast
      then show ?L using Inr by (intro exI [of _ "cs # css"]) auto
    qed
    then show ?thesis using Inr Cons.IH [of "out @ cs"] by simp
  qed (auto simp: Cons_eq_map_conv)
qed auto

text \<open>No configured trust anchor is silently absent.  Reading the extra roots succeeds exactly when
  every file could be read and holds at least one certificate, and then the result has all of
  them, in file order.\<close>

theorem extra_roots_complete:
  "cfg_extra_roots pem show_e c = (Inr certs :: ('io, 'pe) config_error + 'cert list) \<longleftrightarrow>
     (\<exists>css. map pem (extra_roots (cfg_tls c)) = map Inr css \<and> [] \<notin> set css \<and> certs = concat css)"
  by (simp add: cfg_extra_roots_def read_extra_roots_def read_roots_Inr)

end
