(* ===== verification/Net_Show.thy ===== *)
theory Net_Show
  imports Rust_Net
begin

text \<open>
  \<open>Display\<close> of \<open>IpAddr\<close>: dotted quads; for IPv6 lower-case groups without leading zeros, the
  first longest run of at least two zero groups written as two colons, mapped IPv4 addresses with a
  dotted tail.  The query log stores clients in this form and reads them back with
  \<open>IpAddr::from_str\<close>; the lemmas lead to the round trip \<open>parse_show_ip\<close>.
\<close>

definition show_v4 :: "nat list \<Rightarrow> string" where
  "show_v4 os = join_with CHR ''.'' (map show_nat os)"

definition show_groups :: "nat list \<Rightarrow> string" where
  "show_groups gs = join_with CHR '':'' (map (show_radix 16) gs)"

text \<open>The scan for the first longest run of zero groups: \<open>(start, len)\<close> of the longest and of the
  current run.\<close>

fun zero_run :: "nat \<Rightarrow> nat list \<Rightarrow> nat \<times> nat \<Rightarrow> nat \<times> nat \<Rightarrow> nat \<times> nat" where
  "zero_run i [] longest current = longest"
| "zero_run i (g # gs) longest current =
     (if g = 0 then
        (let current' = ((if snd current = 0 then i else fst current), snd current + 1)
         in zero_run (Suc i) gs (if snd current' > snd longest then current' else longest) current')
      else zero_run (Suc i) gs longest (0, 0))"

definition show_v6 :: "nat list \<Rightarrow> string" where
  "show_v6 gs =
     (if take 6 gs = [0, 0, 0, 0, 0, 65535] then
        ''::ffff:'' @ show_v4 [gs ! 6 div 256, gs ! 6 mod 256, gs ! 7 div 256, gs ! 7 mod 256]
      else
        (case zero_run 0 gs (0, 0) (0, 0) of (start, len) \<Rightarrow>
           if len > 1 then show_groups (take start gs) @ ''::'' @ show_groups (drop (start + len) gs)
           else show_groups gs))"

fun show_ip :: "ip_addr \<Rightarrow> string" where
  "show_ip (V4 os) = show_v4 os"
| "show_ip (V6 gs) = show_v6 gs"

section \<open>Numbers\<close>

lemma to_digit_digit_char: "d < radix \<Longrightarrow> radix \<le> 16 \<Longrightarrow> to_digit radix (digit_char d) = Some d"
proof -
  assume "d < radix" "radix \<le> 16"
  then show ?thesis by (auto simp: to_digit_def digit_char_def)
qed

lemma show_radix_small: "n < r \<Longrightarrow> show_radix r n = [digit_char n]"
  by (simp add: show_radix.simps [of r n])

lemma show_radix_large: "\<not> n < r \<Longrightarrow> 2 \<le> r \<Longrightarrow> show_radix r n = show_radix r (n div r) @ [digit_char (n mod r)]"
  by (subst show_radix.simps) simp

lemma show_radix_digits:
  "2 \<le> r \<Longrightarrow> r \<le> 16 \<Longrightarrow> c \<in> set (show_radix r n) \<Longrightarrow> to_digit r c \<noteq> None"
proof (induction n rule: less_induct)
  case (less n)
  show ?case
  proof (cases "n < r")
    case True
    then show ?thesis using less.prems by (simp add: show_radix_small to_digit_digit_char)
  next
    case False
    then have d: "n div r < n" using less.prems by simp
    show ?thesis using less.IH [OF d] less.prems False by (auto simp: show_radix_large to_digit_digit_char)
  qed
qed

lemma show_radix_value:
  "2 \<le> r \<Longrightarrow> r \<le> 16 \<Longrightarrow> fold (\<lambda>c v. v * r + the (to_digit r c)) (show_radix r n) 0 = n"
proof (induction n rule: less_induct)
  case (less n)
  show ?case
  proof (cases "n < r")
    case True
    then show ?thesis using less.prems by (simp add: show_radix_small to_digit_digit_char)
  next
    case False
    then have "n div r < n" using less.prems by simp
    then show ?thesis using less.IH less.prems False by (simp add: show_radix_large to_digit_digit_char)
  qed
qed

lemma show_radix_nonempty [simp]: "show_radix r n \<noteq> []"
  by (simp add: show_radix.simps [of r n])

lemma show_radix_length: "2 \<le> r \<Longrightarrow> n < r ^ Suc k \<Longrightarrow> length (show_radix r n) \<le> Suc k"
proof (induction k arbitrary: n)
  case 0
  then show ?case by (simp add: show_radix_small)
next
  case (Suc k)
  show ?case
  proof (cases "n < r")
    case False
    have "n div r < r ^ Suc k" using Suc.prems by (simp add: div_less_iff_less_mult ac_simps)
    then show ?thesis using Suc.IH Suc.prems(1) False by (simp add: show_radix_large)
  qed (simp add: show_radix_small)
qed

lemma show_radix_hd: "2 \<le> r \<Longrightarrow> r \<le> 16 \<Longrightarrow> 0 < n \<Longrightarrow> hd (show_radix r n) \<noteq> CHR ''0''"
proof (induction n rule: less_induct)
  case (less n)
  show ?case
  proof (cases "n < r")
    case True
    have "digit_char n \<noteq> CHR ''0''"
    proof
      assume "digit_char n = CHR ''0''"
      then have "byte (digit_char n) = byte (CHR ''0'')" by simp
      then show False using less.prems True by (auto simp: digit_char_def split: if_splits)
    qed
    then show ?thesis using True by (simp add: show_radix_small)
  next
    case False
    then have "n div r < n" "0 < n div r" using less.prems by (auto simp: div_greater_zero_iff)
    then show ?thesis using less.IH less.prems False by (simp add: show_radix_large)
  qed
qed

text \<open>What follows a number must not read as a further digit.\<close>

definition no_digit :: "nat \<Rightarrow> string \<Rightarrow> bool" where
  "no_digit r s \<longleftrightarrow> s = [] \<or> to_digit r (hd s) = None"

lemma no_digit_Nil [simp]: "no_digit r []"
  by (simp add: no_digit_def)

lemma no_digit_sep [simp]: "no_digit 10 (CHR ''.'' # s)" "no_digit 10 (CHR '':'' # s)" "no_digit 16 (CHR '':'' # s)"
  by (simp_all add: no_digit_def to_digit_def)

lemma takeWhile_digits:
  "2 \<le> r \<Longrightarrow> r \<le> 16 \<Longrightarrow> no_digit r rest \<Longrightarrow> takeWhile (\<lambda>c. to_digit r c \<noteq> None) (show_radix r n @ rest) = show_radix r n"
  using show_radix_digits [of r _ n]
  by (subst takeWhile_append2) (auto simp: no_digit_def takeWhile_eq_Nil_iff)

lemma read_number_show:
  assumes "2 \<le> r" "r \<le> 16" "n < r ^ Suc k" "n \<le> b" "no_digit r rest"
  shows "read_number r (Suc k) z b (show_radix r n @ rest) = Some (n, rest)"
proof -
  have "\<not> (hd (show_radix r n) = CHR ''0'' \<and> 1 < length (show_radix r n))"
  proof (cases "n = 0")
    case True
    then show ?thesis using assms(1) by (simp add: show_radix_small)
  qed (use show_radix_hd [OF assms(1,2)] in simp)
  then show ?thesis
    using show_radix_length [OF assms(1,3)] assms(4) show_radix_value [OF assms(1,2), of n]
    unfolding read_number_def takeWhile_digits [OF assms(1,2,5)] Let_def by auto
qed

lemma read_number_no_digit: "no_digit r s \<Longrightarrow> read_number r k z b s = None"
  by (cases s) (auto simp: read_number_def no_digit_def)

text \<open>Unfolding of the counted readers at literal counts.\<close>

lemma read_octets_numeral:
  "read_octets i (numeral k) s =
     (case read_separator CHR ''.'' i (read_number 10 3 False 255) s of
        None \<Rightarrow> None
      | Some (v, s') \<Rightarrow>
          (case read_octets (Suc i) (pred_numeral k) s' of
             None \<Rightarrow> None
           | Some (vs, s'') \<Rightarrow> Some (v # vs, s'')))"
  by (simp add: numeral_eq_Suc [of k])

lemma read_groups_numeral:
  "read_groups i (numeral k) s =
     (case (if pred_numeral k \<ge> 1 then read_separator CHR '':'' i read_ipv4_addr s else None) of
        Some (os, s') \<Rightarrow> ([256 * (os ! 0) + os ! 1, 256 * (os ! 2) + os ! 3], True, s')
      | None \<Rightarrow>
          (case read_separator CHR '':'' i (read_number 16 4 True 65535) s of
             None \<Rightarrow> ([], False, s)
           | Some (g, s') \<Rightarrow>
               (case read_groups (Suc i) (pred_numeral k) s' of (gs, b, s'') \<Rightarrow> (g # gs, b, s''))))"
  by (simp add: numeral_eq_Suc [of k])

section \<open>Dotted quads\<close>

lemma read_octet_show: "o1 < 256 \<Longrightarrow> no_digit 10 rest \<Longrightarrow>
    read_number 10 3 False 255 (show_nat o1 @ rest) = Some (o1, rest)"
  using read_number_show [of 10 o1 2 255 rest False] by simp

lemma read_ipv4_show:
  assumes "length os = 4" "\<forall>v \<in> set os. v < 256" "no_digit 10 rest"
  shows "read_ipv4_addr (show_v4 os @ rest) = Some (os, rest)"
proof -
  obtain a b c d where os: "os = [a, b, c, d]"
    using assms(1) by (auto simp: numeral_eq_Suc length_Suc_conv)
  then have "a < 256" "b < 256" "c < 256" "d < 256" using assms(2) by auto
  then show ?thesis
    using assms(3) by (simp add: os show_v4_def read_ipv4_addr_def read_octets_numeral read_separator_def read_octet_show)
qed

lemma read_octets_no_dot: "CHR ''.'' \<notin> set s \<Longrightarrow> 0 < i \<Longrightarrow> 0 < r \<Longrightarrow> read_octets i r s = None"
  by (cases r; cases s) (auto simp: read_separator_def)

lemma read_number_sub: "read_number r k z b s = Some (v, s') \<Longrightarrow> set s' \<subseteq> set s"
  by (auto simp: read_number_def Let_def split: if_splits dest: in_set_dropD)

lemma read_ipv4_no_dot: "CHR ''.'' \<notin> set s \<Longrightarrow> read_ipv4_addr s = None"
proof (cases "read_number 10 3 False 255 s")
  case (Some x)
  moreover assume "CHR ''.'' \<notin> set s"
  ultimately have "read_octets 1 3 (snd x) = None"
    using read_number_sub [of 10 3 False 255 s "fst x" "snd x"] by (intro read_octets_no_dot) auto
  then show ?thesis using Some
    by (cases x) (simp add: read_ipv4_addr_def read_octets_numeral [where i = 0] read_separator_def)
next
  case None
  then show ?thesis by (simp add: read_ipv4_addr_def read_octets_numeral [where i = 0] read_separator_def)
qed

section \<open>Groups\<close>

lemma no_dot_show: "CHR ''.'' \<notin> set (show_radix r n)" if "2 \<le> r" "r \<le> 16"
  using show_radix_digits [OF that, of "CHR ''.''" n] by (auto simp: to_digit_def)

lemma set_join_with: "set (join_with d xs) \<subseteq> insert d (\<Union> (set ` set xs))"
  by (induction d xs rule: join_with.induct) auto

lemma no_dot_groups: "CHR ''.'' \<notin> set (show_groups gs)"
proof
  assume "CHR ''.'' \<in> set (show_groups gs)"
  then have "CHR ''.'' \<in> insert (CHR '':'') (\<Union> (set ` set (map (show_radix 16) gs)))"
    using set_join_with [of "CHR '':''" "map (show_radix 16) gs"] unfolding show_groups_def by blast
  then show False using no_dot_show [of 16] by auto
qed

text \<open>What may follow a run of groups: nothing, or the two colons.\<close>

definition groups_end :: "string \<Rightarrow> bool" where
  "groups_end s \<longleftrightarrow> s = [] \<or> (\<exists>t. s = ''::'' @ t)"

lemma groups_end_sep: "groups_end s \<Longrightarrow> read_separator CHR '':'' i (read_number 16 4 True 65535) s = None"
  by (auto simp: groups_end_def read_separator_def read_number_no_digit)

lemma groups_end_no_digit: "groups_end s \<Longrightarrow> no_digit 16 s"
  by (auto simp: groups_end_def)

text \<open>The text of the groups from the \<open>i\<close>-th on: each is preceded by a colon, except the very first.\<close>

definition groups_from :: "nat \<Rightarrow> nat list \<Rightarrow> string" where
  "groups_from i gs = (if i = 0 then show_groups gs else concat (map (\<lambda>g. CHR '':'' # show_radix 16 g) gs))"

lemma join_with_concat: "join_with d (x # xs) = x @ concat (map (\<lambda>y. d # y) xs)"
  by (induction xs arbitrary: x) auto

lemma groups_from_Cons:
  "groups_from i (g # gs) = (if i = 0 then [] else '':'') @ show_radix 16 g @ groups_from (Suc i) gs"
  by (auto simp: groups_from_def show_groups_def join_with_concat comp_def)

lemma groups_from_no_digit: "groups_end rest \<Longrightarrow> no_digit 16 (groups_from (Suc i) gs @ rest)"
  by (cases gs) (auto simp: groups_from_def dest: groups_end_no_digit)

lemma read_separator_no_dot:
  "CHR ''.'' \<notin> set s \<Longrightarrow> read_separator CHR '':'' i read_ipv4_addr s = None"
  by (cases s) (auto simp: read_separator_def read_ipv4_no_dot)

lemma groups_from_no_dot: "CHR ''.'' \<notin> set (groups_from i gs)"
  using no_dot_groups [of gs] no_dot_show [of 16] by (auto simp: groups_from_def)

lemma read_groups_show:
  assumes "length gs \<le> r" "\<forall>g \<in> set gs. g < 65536" "groups_end rest" "CHR ''.'' \<notin> set rest"
  shows "read_groups i r (groups_from i gs @ rest) = (gs, False, rest)"
  using assms
proof (induction gs arbitrary: i r)
  case Nil
  then have v4: "read_separator CHR '':'' i read_ipv4_addr rest = None" by (simp add: read_separator_no_dot)
  show ?case using Nil.prems(3) v4
    by (cases r) (auto simp: groups_from_def show_groups_def groups_end_sep)
next
  case (Cons g gs)
  then obtain r' where r: "r = Suc r'" by (cases r) auto
  have v4: "read_separator CHR '':'' i read_ipv4_addr (groups_from i (g # gs) @ rest) = None"
    using groups_from_no_dot [of i "g # gs"] Cons.prems(4) by (intro read_separator_no_dot) simp
  have num: "read_number 16 4 True 65535 (show_radix 16 g @ groups_from (Suc i) gs @ rest) = Some (g, groups_from (Suc i) gs @ rest)"
    using read_number_show [of 16 g 3 65535 "groups_from (Suc i) gs @ rest" True] Cons.prems groups_from_no_digit [of rest i gs]
    by simp
  have "read_separator CHR '':'' i (read_number 16 4 True 65535) (groups_from i (g # gs) @ rest) = Some (g, groups_from (Suc i) gs @ rest)"
    using num by (cases "i = 0") (auto simp: read_separator_def groups_from_Cons)
  then show ?case using v4 Cons.IH [of r' "Suc i"] Cons.prems r by simp
qed

section \<open>Zero runs\<close>

text \<open>A run of \<open>len\<close> zero groups at \<open>start\<close>.\<close>

definition is_run :: "nat list \<Rightarrow> nat \<times> nat \<Rightarrow> bool" where
  "is_run gs p \<longleftrightarrow> fst p + snd p \<le> length gs \<and> take (snd p) (drop (fst p) gs) = replicate (snd p) 0"

lemma is_run_snoc: "is_run xs (s, n) \<Longrightarrow> is_run (xs @ ys) (s, n)"
  by (auto simp: is_run_def)

lemma zero_run_is_run:
  assumes "is_run xs longest" "is_run xs current" "snd current = 0 \<or> fst current + snd current = length xs"
  shows "is_run (xs @ gs) (zero_run (length xs) gs longest current)"
  using assms
proof (induction gs arbitrary: xs longest current)
  case (Cons g gs)
  let ?cur = "((if snd current = 0 then length xs else fst current), snd current + 1)"
  show ?case
  proof (cases "g = 0")
    case True
    have cur: "is_run (xs @ [0]) ?cur"
      using Cons.prems(2,3) by (auto simp: is_run_def replicate_append_same [symmetric])
    have long: "is_run (xs @ [0]) (if snd ?cur > snd longest then ?cur else longest)"
      using cur is_run_snoc [of xs "fst longest" "snd longest" "[0]"] Cons.prems(1) by auto
    have "is_run ((xs @ [0]) @ gs) (zero_run (length (xs @ [0])) gs (if snd ?cur > snd longest then ?cur else longest) ?cur)"
      by (rule Cons.IH [OF long cur]) (use Cons.prems(3) in auto)
    then show ?thesis using True by (simp only: zero_run.simps Let_def simp_thms if_True length_append_singleton append.assoc append.simps)
  next
    case False
    have "is_run ((xs @ [g]) @ gs) (zero_run (length (xs @ [g])) gs longest (0, 0))"
      using is_run_snoc [of xs "fst longest" "snd longest" "[g]"] Cons.prems(1)
      by (intro Cons.IH) (auto simp: is_run_def)
    then show ?thesis using False by simp
  qed
qed simp

lemma zero_run_split:
  assumes "zero_run 0 gs (0, 0) (0, 0) = (start, len)"
  shows "start + len \<le> length gs \<and> gs = take start gs @ replicate len 0 @ drop (start + len) gs"
proof -
  have "is_run gs (start, len)"
    using zero_run_is_run [of "[]" "(0, 0)" "(0, 0)" gs] assms by (simp add: is_run_def)
  then show ?thesis
    by (auto simp: is_run_def) (metis append_take_drop_id drop_drop add.commute)
qed

section \<open>Round trip\<close>

lemma read_ipv6_plain: "length gs = 8 \<Longrightarrow> \<forall>g \<in> set gs. g < 65536 \<Longrightarrow> read_ipv6_addr (show_groups gs) = Some (gs, [])"
  using read_groups_show [of gs 8 "[]" 0] by (simp add: read_ipv6_addr_def groups_from_def groups_end_def)

lemma read_ipv6_compressed:
  assumes "length xs + length ys < 7" "\<forall>g \<in> set (xs @ ys). g < 65536"
  shows "read_ipv6_addr (show_groups xs @ ''::'' @ show_groups ys) =
    Some (xs @ replicate (8 - length xs - length ys) 0 @ ys, [])"
proof -
  have "read_groups 0 8 (groups_from 0 xs @ ''::'' @ show_groups ys) = (xs, False, ''::'' @ show_groups ys)"
    using assms no_dot_groups [of ys] by (intro read_groups_show) (auto simp: groups_end_def)
  moreover have "read_groups 0 (8 - (length xs + 1)) (groups_from 0 ys @ []) = (ys, False, [])"
    using assms by (intro read_groups_show) (auto simp: groups_end_def)
  ultimately show ?thesis
    using assms(1) strip_prefix_append [of "''::''" "show_groups ys"] by (simp add: read_ipv6_addr_def groups_from_def)
qed

lemma replicate_five: "replicate 5 (0 :: nat) = [0, 0, 0, 0, 0]"
  by (simp add: eval_nat_numeral)

lemma read_ipv6_mapped:
  assumes "length os = 4" "\<forall>v \<in> set os. v < 256"
  shows "read_ipv6_addr (''::ffff:'' @ show_v4 os) =
    Some ([0, 0, 0, 0, 0, 65535, 256 * (os ! 0) + os ! 1, 256 * (os ! 2) + os ! 3], [])"
proof -
  have four: "read_ipv4_addr (show_v4 os) = Some (os, [])" using read_ipv4_show [OF assms, of "[]"] by simp
  have f: "show_radix 16 65535 = ''ffff''" by code_simp
  have a: "read_number 16 4 True 65535 (''ffff'' @ '':'' @ show_v4 os) = Some (65535, '':'' @ show_v4 os)"
    using read_number_show [of 16 65535 3 65535 "'':'' @ show_v4 os" True] by (simp add: f)
  have n4: "read_ipv4_addr (''ffff'' @ '':'' @ show_v4 os) = None"
    using read_number_no_digit [of 10 "''ffff'' @ '':'' @ show_v4 os" 3 False 255]
    by (simp add: read_ipv4_addr_def read_octets_numeral [where i = 0] read_separator_def no_digit_def to_digit_def)
  have g1: "read_groups 1 6 ('':'' @ show_v4 os) = ([256 * (os ! 0) + os ! 1, 256 * (os ! 2) + os ! 3], True, [])"
    using four by (simp add: read_groups_numeral read_separator_def)
  have "read_groups 0 7 (''ffff'' @ '':'' @ show_v4 os) = ([65535, 256 * (os ! 0) + os ! 1, 256 * (os ! 2) + os ! 3], True, [])"
    using a n4 g1 by (simp add: read_groups_numeral [where i = 0] read_separator_def)
  moreover have "read_groups 0 8 (''::'' @ ''ffff'' @ '':'' @ show_v4 os) = ([], False, ''::'' @ ''ffff'' @ '':'' @ show_v4 os)"
  proof -
    have "read_ipv4_addr (''::'' @ x) = None" "read_number 16 4 True 65535 (''::'' @ x) = None" for x
      using read_number_no_digit [of 10 "''::'' @ x" 3 False 255] read_number_no_digit [of 16 "''::'' @ x" 4 True 65535]
      by (simp_all add: read_ipv4_addr_def read_octets_numeral [where i = 0] read_separator_def)
    then show ?thesis by (simp add: read_groups_numeral [where i = 0] read_separator_def)
  qed
  ultimately show ?thesis
    using strip_prefix_append [of "''::''" "''ffff'' @ '':'' @ show_v4 os"]
    by (simp add: read_ipv6_addr_def replicate_five)
qed

lemma show_v6_plain_first: "read_ipv4_addr (show_groups gs @ rest) = None" if "CHR ''.'' \<notin> set rest"
  using no_dot_groups [of gs] that by (intro read_ipv4_no_dot) simp

lemma read_ipv6_show:
  assumes "length gs = 8" "\<forall>g \<in> set gs. g < 65536"
  shows "read_ipv4_addr (show_v6 gs) = None \<and> read_ipv6_addr (show_v6 gs) = Some (gs, [])"
proof (cases "take 6 gs = [0, 0, 0, 0, 0, 65535]")
  case True
  let ?os = "[gs ! 6 div 256, gs ! 6 mod 256, gs ! 7 div 256, gs ! 7 mod 256]"
  have dr: "drop 6 gs = [gs ! 6, gs ! 7]"
    using assms(1) by (simp add: Cons_nth_drop_Suc [symmetric])
  then have gs: "gs = [0, 0, 0, 0, 0, 65535] @ [gs ! 6, gs ! 7]" using True append_take_drop_id [of 6 gs] by metis
  have b: "gs ! 6 < 65536" "gs ! 7 < 65536" using assms nth_mem [of 6 gs] nth_mem [of 7 gs] by auto
  then have os: "\<forall>v \<in> set ?os. v < 256" by (auto simp: div_less_iff_less_mult)
  have l4: "length ?os = 4" by simp
  have e: "256 * (?os ! 0) + ?os ! 1 = gs ! 6" "256 * (?os ! 2) + ?os ! 3 = gs ! 7" by simp_all
  have r: "read_ipv6_addr (''::ffff:'' @ show_v4 ?os) = Some (gs, [])"
    unfolding read_ipv6_mapped [OF l4 os] e using gs by (metis append.simps)
  have "read_ipv4_addr (''::ffff:'' @ show_v4 ?os) = None"
    using read_number_no_digit [of 10 "''::ffff:'' @ show_v4 ?os" 3 False 255]
    by (simp add: read_ipv4_addr_def read_octets_numeral [where i = 0] read_separator_def)
  then show ?thesis using True r by (simp add: show_v6_def)
next
  case False
  obtain start len where z: "zero_run 0 gs (0, 0) (0, 0) = (start, len)" by fastforce
  show ?thesis
  proof (cases "len > 1")
    case True
    let ?xs = "take start gs" and ?ys = "drop (start + len) gs"
    have s: "start + len \<le> 8" "gs = ?xs @ replicate len 0 @ ?ys" using zero_run_split [OF z] assms(1) by auto
    then have l: "length ?xs + length ?ys < 7" "8 - length ?xs - length ?ys = len" using assms(1) True by auto
    have "\<forall>g \<in> set (?xs @ ?ys). g < 65536" using assms(2) by (auto dest: in_set_takeD in_set_dropD)
    then have "read_ipv6_addr (show_groups ?xs @ ''::'' @ show_groups ?ys) = Some (gs, [])"
      using read_ipv6_compressed [OF l(1)] s(2) l(2) by metis
    moreover have "read_ipv4_addr (show_groups ?xs @ ''::'' @ show_groups ?ys) = None"
      using no_dot_groups [of ?ys] by (intro show_v6_plain_first) simp
    ultimately show ?thesis using False z True by (simp add: show_v6_def)
  next
    case short: False
    then show ?thesis
      using False z read_ipv6_plain [OF assms] show_v6_plain_first [of "[]" gs] by (simp add: show_v6_def)
  qed
qed

theorem parse_show_ip: "ip_wf a \<Longrightarrow> parse_ip_addr (show_ip a) = Some a"
proof (cases a)
  case (V4 os)
  assume "ip_wf a"
  then show ?thesis using V4 read_ipv4_show [of os "[]"] by (simp add: ip_wf_def parse_ip_addr_def)
next
  case (V6 gs)
  assume "ip_wf a"
  then show ?thesis using V6 read_ipv6_show [of gs] by (simp add: ip_wf_def parse_ip_addr_def)
qed

end
