(* ===== verification/Db.thy ===== *)
theory Db
  imports Net_Show "HOL-Library.Product_Lexorder"
begin

text \<open>
  Persistence of \<open>crates/core/src/db.rs\<close>: the log event types, the bounded queue in front of the
  writer thread, the tables and every statement the program runs on them, schema creation and
  migration.

  The database file is the record \<open>database\<close>: one field per table, with the parts of the schema
  that migrations change (the verdict \<open>CHECK\<close>, the columns of \<open>daemon_stats\<close>).  A table with
  an \<open>AUTOINCREMENT\<close> key is a list of \<open>(id, row)\<close> in insertion order plus the largest id ever
  used.  Each SQL statement of the source is written out as the operation on these lists it denotes;
  a failing statement is a value of \<open>sql_error\<close>.  Failures of the storage itself are the argument
  \<open>io\<close>: the error, if any, of the \<open>n\<close>-th statement of a batch.  The order of rows that an
  \<open>ORDER BY\<close> leaves open is an argument.
\<close>

section \<open>Log events\<close>

datatype sql_type = SqlText | SqlInteger

datatype sql_error =
    FromSqlConversionFailure nat sql_type string
  | ConstraintCheck
  | NoSuchColumn
  | NoSuchTable
  | StorageFailure string

datatype db_error = DbOpen string sql_error | DbSql sql_error | SchemaTooNew nat nat

datatype verdict_kind = Allowed | Blocked | Excepted | Rewritten

fun verdict_as_str :: "verdict_kind \<Rightarrow> string" where
  "verdict_as_str Allowed = ''allowed''"
| "verdict_as_str Blocked = ''blocked''"
| "verdict_as_str Excepted = ''excepted''"
| "verdict_as_str Rewritten = ''rewritten''"

definition verdict_from_db :: "string \<Rightarrow> db_error + verdict_kind" where
  "verdict_from_db s =
     (if s = ''allowed'' then Inr Allowed
      else if s = ''blocked'' then Inr Blocked
      else if s = ''excepted'' then Inr Excepted
      else if s = ''rewritten'' then Inr Rewritten
      else Inl (DbSql (FromSqlConversionFailure 0 SqlText (''unknown verdict: '' @ s))))"

datatype response_source = Synth | SrcCache | SrcStale | SrcUpstream | Failed | FailureCached

fun source_as_str :: "response_source \<Rightarrow> string" where
  "source_as_str Synth = ''synth''"
| "source_as_str SrcCache = ''cache''"
| "source_as_str SrcStale = ''stale''"
| "source_as_str SrcUpstream = ''upstream''"
| "source_as_str Failed = ''failed''"
| "source_as_str FailureCached = ''failure_cached''"

definition source_from_db :: "string \<Rightarrow> db_error + response_source" where
  "source_from_db s =
     (if s = ''synth'' then Inr Synth
      else if s = ''cache'' then Inr SrcCache
      else if s = ''stale'' then Inr SrcStale
      else if s = ''upstream'' then Inr SrcUpstream
      else if s = ''failed'' then Inr Failed
      else if s = ''failure_cached'' then Inr FailureCached
      else Inl (DbSql (FromSqlConversionFailure 0 SqlText (''unknown source: '' @ s))))"

record query_record =
  qr_ts :: int
  qr_client :: ip_addr
  qr_qname :: string
  qr_qtype :: nat
  qr_verdict :: verdict_kind
  qr_rule :: "string option"
  qr_list :: "nat option"
  qr_source :: response_source
  qr_rcode :: nat
  qr_duration_us :: nat

record divergence_row =
  dv_ts :: int
  dv_qname :: string
  dv_qtype :: nat
  dv_ours :: string
  dv_theirs :: string
  dv_class :: string

datatype log_event_t = LogQuery query_record | LogDivergence divergence_row

text \<open>A flush request carries the channel to acknowledge on, here a number.\<close>

datatype msg = Event log_event_t | Flush nat

definition WRITER_QUEUE_CAPACITY :: nat where "WRITER_QUEUE_CAPACITY = 4096"
definition BATCH_SIZE :: nat where "BATCH_SIZE = 256"

record db_writer =
  dw_queue :: "msg list"
  dw_capacity :: nat
  dw_drops :: "64 word"

text \<open>\<open>mpsc::Sender::try_send\<close>: fails when the queue is full.\<close>

definition try_send :: "msg \<Rightarrow> db_writer \<Rightarrow> bool \<times> db_writer" where
  "try_send m w =
     (if length (dw_queue w) < dw_capacity w then (True, w\<lparr>dw_queue := dw_queue w @ [m]\<rparr>) else (False, w))"

definition log_event :: "log_event_t \<Rightarrow> db_writer \<Rightarrow> bool \<times> db_writer" where
  "log_event e w =
     (case try_send (Event e) w of (ok, w1) \<Rightarrow>
        (ok, if \<not> ok then w1\<lparr>dw_drops := dw_drops w1 + 1\<rparr> else w1))"

definition dropped :: "db_writer \<Rightarrow> 64 word" where
  "dropped w = dw_drops w"

section \<open>Tables\<close>

record heartbeat =
  hb_pid :: nat
  hb_started_ts :: int
  hb_updated_ts :: int
  hb_config_hash :: string
  hb_lists_hash :: string

record daemon_stats =
  ds_updated_ts :: int
  ds_log_events_dropped :: "64 word"
  ds_log_events_dropped_recent :: "64 word"
  ds_upstreams_json :: string
  ds_runtime_json :: string

record stats =
  st_total :: nat
  st_blocked :: nat
  st_excepted :: nat
  st_rewritten :: nat
  st_cache_hits :: nat
  st_stale_hits :: nat
  st_upstream_failures :: nat
  st_failure_cached :: nat
  st_top_queried :: "(string \<times> nat) list"
  st_top_blocked :: "(string \<times> nat) list"

record query_row =
  rw_ts :: int
  rw_client :: string
  rw_qname :: string
  rw_qtype :: int
  rw_verdict :: string
  rw_rule :: "string option"
  rw_list :: "int option"
  rw_source :: string
  rw_rcode :: int
  rw_duration_us :: int

record heartbeat_row =
  hr_pid :: int
  hr_started_ts :: int
  hr_updated_ts :: int
  hr_config_hash :: string
  hr_lists_hash :: string

record stats_row =
  sr_updated_ts :: int
  sr_dropped :: int
  sr_recent :: int
  sr_upstreams_json :: string
  sr_runtime_json :: string

record div_row =
  dr_ts' :: int
  dr_qname' :: string
  dr_qtype' :: int
  dr_ours' :: string
  dr_theirs' :: string
  dr_class' :: string

text \<open>\<open>db_meta\<close> is the \<open>schema_version\<close> row of \<open>meta\<close>.  A table that does not exist has no
  \<open>CHECK\<close> list or column list.\<close>

record database =
  db_meta :: "string option"
  db_check :: "string list option"
  db_queries :: "(nat \<times> query_row) list"
  db_query_seq :: nat
  db_heartbeat :: "heartbeat_row option"
  db_stats_cols :: "string list option"
  db_stats :: "stats_row option"
  db_divergences :: "(nat \<times> div_row) list"
  db_div_seq :: nat

definition empty_database :: database where
  "empty_database =
     \<lparr>db_meta = None, db_check = None, db_queries = [], db_query_seq = 0, db_heartbeat = None,
      db_stats_cols = None, db_stats = None, db_divergences = [], db_div_seq = 0\<rparr>"

definition SCHEMA_VERSION :: nat where "SCHEMA_VERSION = 4"

definition VERDICT_CHECK :: "string list" where
  "VERDICT_CHECK = [''allowed'', ''blocked'', ''excepted'', ''rewritten'']"

definition STATS_COLUMNS :: "string list" where
  "STATS_COLUMNS = [''id'', ''updated_ts'', ''log_events_dropped'', ''log_events_dropped_recent'',
     ''upstreams_json'', ''runtime_json'']"

section \<open>Schema\<close>

text \<open>\<open>CREATE TABLE IF NOT EXISTS\<close>: tables that exist keep their shape.\<close>

definition create_schema :: "database \<Rightarrow> database" where
  "create_schema d =
     d\<lparr>db_check := Some (case db_check d of None \<Rightarrow> VERDICT_CHECK | Some c \<Rightarrow> c),
       db_stats_cols := Some (case db_stats_cols d of None \<Rightarrow> STATS_COLUMNS | Some c \<Rightarrow> c)\<rparr>"

text \<open>\<open>ALTER TABLE daemon_stats ADD COLUMN c \<dots> DEFAULT v\<close>: the column is added to the schema and
  set to its default in the row.\<close>

definition add_stats_column ::
    "string \<Rightarrow> (stats_row \<Rightarrow> stats_row) \<Rightarrow> database \<Rightarrow> sql_error + database" where
  "add_stats_column c dflt d =
     (case db_stats_cols d of
        None \<Rightarrow> Inl NoSuchTable
      | Some cols \<Rightarrow>
          if c \<in> set cols then Inr d
          else Inr (d\<lparr>db_stats_cols := Some (cols @ [c]), db_stats := map_option dflt (db_stats d)\<rparr>))"

text \<open>The table rebuilt with the wider \<open>CHECK\<close>: every row is inserted again with its id, which the
  new table's key sequence starts from.\<close>

definition rebuild_queries :: "database \<Rightarrow> sql_error + database" where
  "rebuild_queries d =
     (case db_check d of
        None \<Rightarrow> Inl NoSuchTable
      | Some chk \<Rightarrow>
          if ''rewritten'' \<in> set chk then Inr d
          else if list_all (\<lambda>(_, r). rw_verdict r \<in> set VERDICT_CHECK) (db_queries d)
          then Inr (d\<lparr>db_check := Some VERDICT_CHECK,
                      db_query_seq := fold (\<lambda>(i, _) m. max i m) (db_queries d) 0\<rparr>)
          else Inl ConstraintCheck)"

definition migrate_schema :: "nat \<Rightarrow> database \<Rightarrow> db_error + database" where
  "migrate_schema from d =
     (case (if from < 2 then add_stats_column ''log_events_dropped_recent'' (\<lambda>r. r\<lparr>sr_recent := 0\<rparr>) d else Inr d) of
        Inl e \<Rightarrow> Inl (DbSql e)
      | Inr d1 \<Rightarrow>
          (case (if from < 3 then rebuild_queries d1 else Inr d1) of
             Inl e \<Rightarrow> Inl (DbSql e)
           | Inr d2 \<Rightarrow>
               (case (if from < 4 then add_stats_column ''runtime_json'' (\<lambda>r. r\<lparr>sr_runtime_json := ''{}''\<rparr>) d2 else Inr d2) of
                  Inl e \<Rightarrow> Inl (DbSql e)
                | Inr d3 \<Rightarrow> Inr d3)))"

text \<open>\<open>str::parse::<u32>\<close>: an optional plus sign and at least one digit.\<close>

definition parse_u32 :: "string \<Rightarrow> nat option" where
  "parse_u32 s =
     (let ds = (case s of c # cs \<Rightarrow> if c = CHR ''+'' then cs else s | [] \<Rightarrow> s)
      in if ds \<noteq> [] \<and> list_all (\<lambda>c. to_digit 10 c \<noteq> None) ds
         then try_u32 (fold (\<lambda>c v. v * 10 + the (to_digit 10 c)) ds 0)
         else None)"

definition ensure_schema_version :: "database \<Rightarrow> db_error + database" where
  "ensure_schema_version d =
     (case db_meta d of
        Some v \<Rightarrow>
          (let found = (case parse_u32 v of Some n \<Rightarrow> n | None \<Rightarrow> 0) in
           if found > SCHEMA_VERSION then Inl (SchemaTooNew found SCHEMA_VERSION)
           else if found < SCHEMA_VERSION then
             (case migrate_schema found d of
                Inl e \<Rightarrow> Inl e
              | Inr d1 \<Rightarrow> Inr (d1\<lparr>db_meta := Some (show_nat SCHEMA_VERSION)\<rparr>))
           else Inr d)
      | None \<Rightarrow> Inr (d\<lparr>db_meta := Some (show_nat SCHEMA_VERSION)\<rparr>))"

text \<open>\<open>Db::open_with_queue_capacity\<close> on the contents of the file; the connection itself is the
  argument \<open>conn\<close>, an error when it cannot be made.\<close>

definition open_with_queue_capacity ::
    "string \<Rightarrow> nat \<Rightarrow> sql_error + database \<Rightarrow> db_error + (database \<times> db_writer)" where
  "open_with_queue_capacity path capacity conn =
     (case conn of
        Inl e \<Rightarrow> Inl (DbOpen path e)
      | Inr d \<Rightarrow>
          (case ensure_schema_version (create_schema d) of
             Inl e \<Rightarrow> Inl e
           | Inr d1 \<Rightarrow> Inr (d1, \<lparr>dw_queue = [], dw_capacity = capacity, dw_drops = 0\<rparr>)))"

definition db_open :: "string \<Rightarrow> sql_error + database \<Rightarrow> db_error + (database \<times> db_writer)" where
  "db_open path conn = open_with_queue_capacity path WRITER_QUEUE_CAPACITY conn"

section \<open>Writer thread\<close>

definition i64_max :: int where "i64_max = 2 ^ 63 - 1"

definition query_row_of :: "query_record \<Rightarrow> query_row" where
  "query_row_of q =
     \<lparr>rw_ts = qr_ts q, rw_client = show_ip (qr_client q), rw_qname = qr_qname q,
      rw_qtype = int (qr_qtype q), rw_verdict = verdict_as_str (qr_verdict q), rw_rule = qr_rule q,
      rw_list = map_option (\<lambda>l. if int l \<le> i64_max then int l else i64_max) (qr_list q),
      rw_source = source_as_str (qr_source q), rw_rcode = int (qr_rcode q),
      rw_duration_us = int (qr_duration_us q)\<rparr>"

definition div_row_of :: "divergence_row \<Rightarrow> div_row" where
  "div_row_of v =
     \<lparr>dr_ts' = dv_ts v, dr_qname' = dv_qname v, dr_qtype' = int (dv_qtype v), dr_ours' = dv_ours v,
      dr_theirs' = dv_theirs v, dr_class' = dv_class v\<rparr>"

definition insert_query :: "query_row \<Rightarrow> database \<Rightarrow> sql_error + database" where
  "insert_query r d =
     (case db_check d of
        None \<Rightarrow> Inl NoSuchTable
      | Some chk \<Rightarrow>
          if rw_verdict r \<in> set chk
          then Inr (d\<lparr>db_queries := db_queries d @ [(Suc (db_query_seq d), r)], db_query_seq := Suc (db_query_seq d)\<rparr>)
          else Inl ConstraintCheck)"

definition insert_divergence :: "div_row \<Rightarrow> database \<Rightarrow> database" where
  "insert_divergence r d =
     d\<lparr>db_divergences := db_divergences d @ [(Suc (db_div_seq d), r)], db_div_seq := Suc (db_div_seq d)\<rparr>"

text \<open>The loop of \<open>process_batch_inner\<close> inside the transaction: the tables, or the first error, with
  the flush channels collected so far.\<close>

fun batch_loop ::
    "(nat \<Rightarrow> sql_error option) \<Rightarrow> nat \<Rightarrow> msg list \<Rightarrow> nat list \<Rightarrow> database \<Rightarrow> (sql_error + database) \<times> nat list" where
  "batch_loop io n [] acks d = (Inr d, acks)"
| "batch_loop io n (m # ms) acks d =
     (case m of
        Flush a \<Rightarrow> batch_loop io n ms (acks @ [a]) d
      | Event e \<Rightarrow>
          (case io n of
             Some err \<Rightarrow> (Inl err, acks)
           | None \<Rightarrow>
               (case (case e of
                        LogQuery q \<Rightarrow> insert_query (query_row_of q) d
                      | LogDivergence v \<Rightarrow> Inr (insert_divergence (div_row_of v) d)) of
                  Inl err \<Rightarrow> (Inl err, acks)
                | Inr d1 \<Rightarrow> batch_loop io (Suc n) ms acks d1)))"

text \<open>Begin (statement 0), the inserts, commit (the last statement).  A transaction that does not
  commit is rolled back.\<close>

definition process_batch_inner ::
    "(nat \<Rightarrow> sql_error option) \<Rightarrow> msg list \<Rightarrow> database \<Rightarrow> (sql_error option \<times> nat list) \<times> database" where
  "process_batch_inner io batch d =
     (case io 0 of
        Some err \<Rightarrow> ((Some err, []), d)
      | None \<Rightarrow>
          (case batch_loop io 1 batch [] d of
             (Inl err, acks) \<Rightarrow> ((Some err, acks), d)
           | (Inr d1, acks) \<Rightarrow>
               (case io (Suc (length batch)) of
                  Some err \<Rightarrow> ((Some err, acks), d)
                | None \<Rightarrow> ((None, acks), d1))))"

text \<open>\<open>process_batch\<close> and its caller: on success and on failure the collected flush channels are
  acknowledged; a failure loses the batch and is reported.\<close>

definition process_batch ::
    "(nat \<Rightarrow> sql_error option) \<Rightarrow> msg list \<Rightarrow> database \<Rightarrow> (sql_error option \<times> nat list) \<times> database" where
  "process_batch io batch d = process_batch_inner io batch d"

section \<open>Reading rows\<close>

definition u16_of_i64 :: "nat \<Rightarrow> int \<Rightarrow> db_error + nat" where
  "u16_of_i64 col i =
     (if 0 \<le> i \<and> i < 2 ^ 16 then Inr (nat i)
      else Inl (DbSql (FromSqlConversionFailure col SqlInteger ''out of range integral type conversion attempted'')))"

definition u32_of_i64 :: "nat \<Rightarrow> int \<Rightarrow> db_error + nat" where
  "u32_of_i64 col i =
     (if 0 \<le> i \<and> i < 2 ^ 32 then Inr (nat i)
      else Inl (DbSql (FromSqlConversionFailure col SqlInteger ''out of range integral type conversion attempted'')))"

definition row_to_query_record :: "query_row \<Rightarrow> db_error + query_record" where
  "row_to_query_record r =
     (case parse_ip_addr (rw_client r) of
        None \<Rightarrow> Inl (DbSql (FromSqlConversionFailure 1 SqlText ''invalid IP address syntax''))
      | Some client \<Rightarrow>
     (case u16_of_i64 3 (rw_qtype r) of Inl e \<Rightarrow> Inl e | Inr qtype \<Rightarrow>
     (case verdict_from_db (rw_verdict r) of Inl e \<Rightarrow> Inl e | Inr verdict \<Rightarrow>
     (case source_from_db (rw_source r) of Inl e \<Rightarrow> Inl e | Inr source \<Rightarrow>
     (case u16_of_i64 8 (rw_rcode r) of Inl e \<Rightarrow> Inl e | Inr rcode \<Rightarrow>
     (case u32_of_i64 9 (rw_duration_us r) of Inl e \<Rightarrow> Inl e | Inr duration_us \<Rightarrow>
        Inr \<lparr>qr_ts = rw_ts r, qr_client = client, qr_qname = rw_qname r, qr_qtype = qtype,
             qr_verdict = verdict, qr_rule = rw_rule r,
             qr_list = map_option (\<lambda>l. if 0 \<le> l then nat l else u64_max) (rw_list r),
             qr_source = source, qr_rcode = rcode, qr_duration_us = duration_us\<rparr>))))))"

fun rows_to_records :: "query_row list \<Rightarrow> query_record list \<Rightarrow> db_error + query_record list" where
  "rows_to_records [] result = Inr result"
| "rows_to_records (r # rs) result =
     (case row_to_query_record r of Inl e \<Rightarrow> Inl e | Inr q \<Rightarrow> rows_to_records rs (result @ [q]))"

text \<open>\<open>ORDER BY ts DESC, id DESC LIMIT n\<close>\<close>

definition newest_queries :: "nat \<Rightarrow> database \<Rightarrow> query_row list" where
  "newest_queries limit d =
     map snd (take limit (rev (sort_key (\<lambda>(i, r). (rw_ts r, i)) (db_queries d))))"

definition recent_queries :: "nat \<Rightarrow> database \<Rightarrow> db_error + query_record list" where
  "recent_queries limit d = rows_to_records (newest_queries limit d) []"

definition div_row_to :: "div_row \<Rightarrow> divergence_row" where
  "div_row_to r =
     \<lparr>dv_ts = dr_ts' r, dv_qname = dr_qname' r,
      dv_qtype = (if 0 \<le> dr_qtype' r \<and> dr_qtype' r < 2 ^ 16 then nat (dr_qtype' r) else 0),
      dv_ours = dr_ours' r, dv_theirs = dr_theirs' r, dv_class = dr_class' r\<rparr>"

definition recent_divergences :: "nat \<Rightarrow> database \<Rightarrow> divergence_row list" where
  "recent_divergences limit d = map (\<lambda>(i, r). div_row_to r) (take limit (rev (sort_key fst (db_divergences d))))"

text \<open>\<open>SELECT k, COUNT(*) \<dots> GROUP BY k\<close>: one pair per key, in the order \<open>remdups\<close> meets them;
  \<open>order\<close> sorts them.\<close>

definition group_count :: "'a list \<Rightarrow> ('a \<times> nat) list" where
  "group_count ks = map (\<lambda>k. (k, count_list ks k)) (remdups ks)"

definition divergence_summary ::
    "((string \<times> nat) list \<Rightarrow> (string \<times> nat) list) \<Rightarrow> int \<Rightarrow> database \<Rightarrow> (string \<times> nat) list" where
  "divergence_summary order since_ts d =
     order (group_count (map (dr_class' \<circ> snd) (filter (\<lambda>(_, r). dr_ts' r \<ge> since_ts) (db_divergences d))))"

definition top_list ::
    "((string \<times> nat) list \<Rightarrow> (string \<times> nat) list) \<Rightarrow> query_row list \<Rightarrow> (string \<times> nat) list" where
  "top_list order rows = take 10 (order (group_count (map rw_qname rows)))"

definition db_stats_since ::
    "((string \<times> nat) list \<Rightarrow> (string \<times> nat) list) \<Rightarrow> int \<Rightarrow> database \<Rightarrow> stats" where
  "db_stats_since order since_ts d =
     (let rows = filter (\<lambda>r. rw_ts r \<ge> since_ts) (map snd (db_queries d));
          verdicts = (\<lambda>v. length (filter (\<lambda>r. rw_verdict r = v) rows));
          sources = (\<lambda>s. length (filter (\<lambda>r. rw_source r = s) rows))
      in \<lparr>st_total = length rows, st_blocked = verdicts ''blocked'', st_excepted = verdicts ''excepted'',
          st_rewritten = verdicts ''rewritten'', st_cache_hits = sources ''cache'',
          st_stale_hits = sources ''stale'', st_upstream_failures = sources ''failed'',
          st_failure_cached = sources ''failure_cached'', st_top_queried = top_list order rows,
          st_top_blocked = top_list order (filter (\<lambda>r. rw_verdict r = ''blocked'') rows)\<rparr>)"

section \<open>Single rows and retention\<close>

definition write_heartbeat :: "heartbeat \<Rightarrow> database \<Rightarrow> database" where
  "write_heartbeat hb d =
     d\<lparr>db_heartbeat := Some \<lparr>hr_pid = int (hb_pid hb), hr_started_ts = hb_started_ts hb,
        hr_updated_ts = hb_updated_ts hb, hr_config_hash = hb_config_hash hb,
        hr_lists_hash = hb_lists_hash hb\<rparr>\<rparr>"

definition read_heartbeat :: "database \<Rightarrow> heartbeat option" where
  "read_heartbeat d =
     map_option (\<lambda>r. \<lparr>hb_pid = (if 0 \<le> hr_pid r \<and> hr_pid r < 2 ^ 32 then nat (hr_pid r) else 0),
        hb_started_ts = hr_started_ts r, hb_updated_ts = hr_updated_ts r,
        hb_config_hash = hr_config_hash r, hb_lists_hash = hr_lists_hash r\<rparr>) (db_heartbeat d)"

definition has_stats_columns :: "database \<Rightarrow> bool" where
  "has_stats_columns d \<longleftrightarrow>
     (case db_stats_cols d of None \<Rightarrow> False | Some cols \<Rightarrow> set STATS_COLUMNS \<subseteq> set cols)"

text \<open>\<open>u64::cast_signed\<close> and \<open>i64::cast_unsigned\<close> are the readings of the same 64 bits.\<close>

definition write_daemon_stats :: "daemon_stats \<Rightarrow> database \<Rightarrow> db_error + database" where
  "write_daemon_stats st d =
     (if has_stats_columns d
      then Inr (d\<lparr>db_stats := Some \<lparr>sr_updated_ts = ds_updated_ts st, sr_dropped = sint (ds_log_events_dropped st),
              sr_recent = sint (ds_log_events_dropped_recent st), sr_upstreams_json = ds_upstreams_json st,
              sr_runtime_json = ds_runtime_json st\<rparr>\<rparr>)
      else Inl (DbSql NoSuchColumn))"

definition write_runtime :: "int \<Rightarrow> string \<Rightarrow> database \<Rightarrow> db_error + database" where
  "write_runtime updated_ts runtime_json d =
     (if has_stats_columns d
      then Inr (d\<lparr>db_stats := Some (case db_stats d of
              None \<Rightarrow> \<lparr>sr_updated_ts = updated_ts, sr_dropped = 0, sr_recent = 0, sr_upstreams_json = ''{}'',
                       sr_runtime_json = runtime_json\<rparr>
            | Some r \<Rightarrow> r\<lparr>sr_updated_ts := updated_ts, sr_runtime_json := runtime_json\<rparr>)\<rparr>)
      else Inl (DbSql NoSuchColumn))"

definition read_daemon_stats :: "database \<Rightarrow> db_error + daemon_stats option" where
  "read_daemon_stats d =
     (if has_stats_columns d
      then Inr (map_option (\<lambda>r. \<lparr>ds_updated_ts = sr_updated_ts r,
              ds_log_events_dropped = word_of_int (sr_dropped r),
              ds_log_events_dropped_recent = word_of_int (sr_recent r),
              ds_upstreams_json = sr_upstreams_json r, ds_runtime_json = sr_runtime_json r\<rparr>) (db_stats d))
      else Inl (DbSql NoSuchColumn))"

definition LOG_RETENTION_SECS :: int where "LOG_RETENTION_SECS = 7 * 24 * 3600"

definition retention_sweep :: "int \<Rightarrow> database \<Rightarrow> nat \<times> database" where
  "retention_sweep now_ts d =
     (let cutoff = now_ts - LOG_RETENTION_SECS;
          q = filter (\<lambda>(_, r). \<not> rw_ts r < cutoff) (db_queries d);
          v = filter (\<lambda>(_, r). \<not> dr_ts' r < cutoff) (db_divergences d)
      in ((length (db_queries d) - length q) + (length (db_divergences d) - length v),
          d\<lparr>db_queries := q, db_divergences := v\<rparr>))"

end
