(* ===== verification/Events.thy ===== *)
theory Events
  imports Prelude
begin

text \<open>
  Machines driven by events: a step is a function of the event and the state, undefined where the
  event cannot happen.  The locale \<open>event_system\<close> is the contract a machine with an invariant
  fulfils; its lemma lifts the invariant to every run.  The writer queue of the query log, the
  connection of an upstream and the shared lookups of the pipeline are its instances.
\<close>

fun run :: "('e \<Rightarrow> 's \<Rightarrow> 's option) \<Rightarrow> 'e list \<Rightarrow> 's \<Rightarrow> 's option" where
  "run step [] s = Some s"
| "run step (e # es) s = Option.bind (step e s) (run step es)"

lemma run_append: "run step (es @ es') s = Option.bind (run step es s) (run step es')"
  by (induction es arbitrary: s) (auto split: bind_splits)

lemma run_snoc: "run step (es @ [e]) s = Option.bind (run step es s) (step e)"
proof (cases "run step es s")
  case (Some s')
  then show ?thesis by (cases "step e s'") (simp_all add: run_append)
qed (simp add: run_append)

locale event_system =
  fixes step :: "'e \<Rightarrow> 's \<Rightarrow> 's option"
    and ok :: "'e \<Rightarrow> bool"
    and inv :: "'s \<Rightarrow> bool"
  assumes step_inv: "inv s \<Longrightarrow> ok e \<Longrightarrow> step e s = Some s' \<Longrightarrow> inv s'"
begin

lemma run_inv: "inv s \<Longrightarrow> list_all ok es \<Longrightarrow> run step es s = Some s' \<Longrightarrow> inv s'"
  by (induction es arbitrary: s) (auto intro: step_inv split: bind_splits)

end

text \<open>A machine none of whose steps is undefined: no event makes it panic.\<close>

locale total_system = event_system +
  assumes step_total: "inv s \<Longrightarrow> ok e \<Longrightarrow> \<exists>s'. step e s = Some s'"
begin

lemma run_total: "inv s \<Longrightarrow> list_all ok es \<Longrightarrow> \<exists>s'. run step es s = Some s' \<and> inv s'"
proof (induction es arbitrary: s)
  case (Cons e es)
  then obtain s1 where "step e s = Some s1" using step_total by fastforce
  then show ?case using Cons step_inv by fastforce
qed simp

end

end
