(* ===== verification/Db_Correct.thy ===== *)
theory Db_Correct
  imports Db Events
begin

text \<open>
  What the query log promises: a record read back is the record written, a batch is all or nothing,
  every accepted event is written, still queued or reported lost, opening an older database brings
  it to the current shape with every row in place, retention deletes exactly the old rows, and the
  statistics count what is there.
\<close>

section \<open>Records and rows\<close>

definition record_wf :: "query_record \<Rightarrow> bool" where
  "record_wf q \<longleftrightarrow> ip_wf (qr_client q) \<and> qr_qtype q < 2 ^ 16 \<and> qr_rcode q < 2 ^ 16
     \<and> qr_duration_us q < 2 ^ 32 \<and> (\<forall>l. qr_list q = Some l \<longrightarrow> int l \<le> i64_max)"

lemma verdict_roundtrip [simp]: "verdict_from_db (verdict_as_str v) = Inr v"
  by (cases v) (simp_all add: verdict_from_db_def)

lemma source_roundtrip [simp]: "source_from_db (source_as_str s) = Inr s"
  by (cases s) (simp_all add: source_from_db_def)

lemma verdict_in_check: "verdict_as_str v \<in> set VERDICT_CHECK"
  by (cases v) (simp_all add: VERDICT_CHECK_def)

lemma row_roundtrip: "record_wf q \<Longrightarrow> row_to_query_record (query_row_of q) = Inr q"
  by (cases "qr_list q")
    (auto simp: record_wf_def row_to_query_record_def query_row_of_def parse_show_ip u16_of_i64_def u32_of_i64_def)

lemma rows_to_records_map:
  "(\<And>q. q \<in> set qs \<Longrightarrow> record_wf q) \<Longrightarrow> rows_to_records (map query_row_of qs) acc = Inr (acc @ qs)"
  by (induction qs arbitrary: acc) (auto simp: row_roundtrip)

section \<open>Batches\<close>

definition schema_ok :: "database \<Rightarrow> bool" where
  "schema_ok d \<longleftrightarrow> db_meta d = Some (show_nat SCHEMA_VERSION)
     \<and> (\<exists>c. db_check d = Some c \<and> set VERDICT_CHECK \<subseteq> set c) \<and> has_stats_columns d"

fun events_of :: "msg list \<Rightarrow> log_event_t list" where
  "events_of [] = []"
| "events_of (Event e # ms) = e # events_of ms"
| "events_of (Flush _ # ms) = events_of ms"

fun flushes_of :: "msg list \<Rightarrow> nat list" where
  "flushes_of [] = []"
| "flushes_of (Event _ # ms) = flushes_of ms"
| "flushes_of (Flush a # ms) = a # flushes_of ms"

fun query_rows :: "log_event_t list \<Rightarrow> query_row list" where
  "query_rows [] = []"
| "query_rows (LogQuery q # es) = query_row_of q # query_rows es"
| "query_rows (LogDivergence _ # es) = query_rows es"

fun div_rows :: "log_event_t list \<Rightarrow> div_row list" where
  "div_rows [] = []"
| "div_rows (LogQuery _ # es) = div_rows es"
| "div_rows (LogDivergence v # es) = div_row_of v # div_rows es"

text \<open>The tables with the rows of some events added, in order, under the next ids.\<close>

definition add_rows :: "log_event_t list \<Rightarrow> database \<Rightarrow> database" where
  "add_rows es d =
     d\<lparr>db_queries := db_queries d @ enumerate (Suc (db_query_seq d)) (query_rows es),
       db_query_seq := db_query_seq d + length (query_rows es),
       db_divergences := db_divergences d @ enumerate (Suc (db_div_seq d)) (div_rows es),
       db_div_seq := db_div_seq d + length (div_rows es)\<rparr>"

lemma add_rows_Nil [simp]: "add_rows [] d = d"
  by (simp add: add_rows_def)

lemma add_rows_query: "add_rows (LogQuery q # es) d =
    add_rows es (d\<lparr>db_queries := db_queries d @ [(Suc (db_query_seq d), query_row_of q)], db_query_seq := Suc (db_query_seq d)\<rparr>)"
  by (simp add: add_rows_def)

lemma add_rows_div: "add_rows (LogDivergence v # es) d = add_rows es (insert_divergence (div_row_of v) d)"
  by (simp add: add_rows_def insert_divergence_def)

lemma add_rows_append: "add_rows (es @ es') d = add_rows es' (add_rows es d)"
proof (induction es arbitrary: d)
  case (Cons e es)
  then show ?case by (cases e) (simp_all add: add_rows_query add_rows_div)
qed simp

lemma schema_ok_insert:
  "schema_ok d \<Longrightarrow> insert_query (query_row_of q) d =
     Inr (d\<lparr>db_queries := db_queries d @ [(Suc (db_query_seq d), query_row_of q)], db_query_seq := Suc (db_query_seq d)\<rparr>)"
  using verdict_in_check [of "qr_verdict q"] by (auto simp: schema_ok_def insert_query_def query_row_of_def)

lemma schema_ok_keep [simp]:
  "schema_ok (d\<lparr>db_queries := q, db_query_seq := n\<rparr>) = schema_ok d"
  "schema_ok (insert_divergence r d) = schema_ok d"
  by (simp_all add: schema_ok_def insert_divergence_def has_stats_columns_def)

lemma batch_loop_ok:
  "schema_ok d \<Longrightarrow> (\<And>i. io i = None) \<Longrightarrow>
     batch_loop io n ms acks d = (Inr (add_rows (events_of ms) d), acks @ flushes_of ms)"
proof (induction ms arbitrary: n acks d rule: events_of.induct)
  case (2 e ms)
  then show ?case
    by (cases e) (simp_all add: schema_ok_insert add_rows_query add_rows_div)
qed simp_all

text \<open>Whatever happens in the loop, success means every event was added.\<close>

lemma batch_loop_Inr:
  "schema_ok d \<Longrightarrow> batch_loop io n ms acks d = (Inr d', acks') \<Longrightarrow>
     d' = add_rows (events_of ms) d \<and> acks' = acks @ flushes_of ms"
proof (induction ms arbitrary: n acks d rule: events_of.induct)
  case (2 e ms)
  show ?case
  proof (cases "io n")
    case None
    show ?thesis
    proof (cases e)
      case (LogQuery q)
      let ?d = "d\<lparr>db_queries := db_queries d @ [(Suc (db_query_seq d), query_row_of q)], db_query_seq := Suc (db_query_seq d)\<rparr>"
      show ?thesis using "2.IH" [of ?d "Suc n" acks] "2.prems" None LogQuery
        by (simp add: schema_ok_insert add_rows_query)
    next
      case (LogDivergence v)
      then show ?thesis using "2.IH" [of "insert_divergence (div_row_of v) d" "Suc n" acks] "2.prems" None
        by (simp add: add_rows_div)
    qed
  qed (use 2 in simp)
next
  case (3 a ms)
  then show ?case using "3.IH" [of d n "acks @ [a]"] by simp
qed simp

lemma batch_loop_acks: "batch_loop io n ms acks d = (r, acks') \<Longrightarrow> set acks' \<subseteq> set acks \<union> set (flushes_of ms)"
proof (induction ms arbitrary: n acks d rule: events_of.induct)
  case (2 e ms)
  then show ?case by (auto split: option.splits sum.splits log_event_t.splits)
next
  case (3 a ms)
  then show ?case by fastforce
qed simp

lemma process_batch_cases:
  assumes "schema_ok d" "process_batch io batch d = ((err, acks), d')"
  shows "set acks \<subseteq> set (flushes_of batch)
       \<and> (if err = None then d' = add_rows (events_of batch) d \<and> acks = flushes_of batch else d' = d)"
proof (cases "io 0")
  case None
  obtain r a where l: "batch_loop io 1 batch [] d = (r, a)" by fastforce
  have a: "set a \<subseteq> set (flushes_of batch)" using batch_loop_acks [OF l] by simp
  show ?thesis
  proof (cases r)
    case (Inr d1)
    then show ?thesis using assms(2) a None l batch_loop_Inr [OF assms(1), of io 1 batch "[]" d1 a]
      by (auto simp: process_batch_def process_batch_inner_def split: option.splits)
  qed (use assms(2) a None l in \<open>auto simp: process_batch_def process_batch_inner_def\<close>)
qed (use assms(2) in \<open>auto simp: process_batch_def process_batch_inner_def\<close>)

text \<open>C8: a batch is all or nothing.  Whatever statement of it fails, either every event of the batch is
  in the tables, in order and under the next ids, and every flush request was acknowledged, or the
  tables are as before and the error is reported; when no statement fails the batch commits.\<close>

theorem batch_atomic:
  assumes "schema_ok d" "process_batch io batch d = ((err, acks), d')"
  shows "(if err = None then d' = add_rows (events_of batch) d \<and> acks = flushes_of batch
          else d' = d \<and> set acks \<subseteq> set (flushes_of batch))
       \<and> ((\<forall>i. io i = None) \<longrightarrow> err = None)"
proof (intro conjI impI)
  show "if err = None then d' = add_rows (events_of batch) d \<and> acks = flushes_of batch
      else d' = d \<and> set acks \<subseteq> set (flushes_of batch)"
    using process_batch_cases [OF assms] by auto
  assume "\<forall>i. io i = None"
  then show "err = None"
    using assms batch_loop_ok [of d io 1 batch "[]"] by (simp add: process_batch_def process_batch_inner_def)
qed

section \<open>The writer thread and its queue\<close>

text \<open>
  The state of the log: the queue, the file, the flushes acknowledged, and three histories: the
  messages accepted, those the thread has taken, and the events of failed batches (which the thread
  reports as lost).  An event is a call of \<open>log\<close>, a flush request that found room, or one turn of
  \<open>writer_loop\<close> that takes \<open>n\<close> messages.
\<close>

record log_state =
  lg_writer :: db_writer
  lg_db :: database
  lg_acks :: "nat list"
  lg_accepted :: "msg list"
  lg_taken :: "msg list"
  lg_lost :: "log_event_t list"

datatype log_step = Log log_event_t | RequestFlush nat | Turn nat "nat \<Rightarrow> sql_error option"

fun writer_step :: "log_step \<Rightarrow> log_state \<Rightarrow> log_state option" where
  "writer_step (Log e) s =
     (case log_event e (lg_writer s) of (ok, w) \<Rightarrow>
        Some (s\<lparr>lg_writer := w, lg_accepted := lg_accepted s @ (if ok then [Event e] else [])\<rparr>))"
| "writer_step (RequestFlush a) s =
     (case try_send (Flush a) (lg_writer s) of (ok, w) \<Rightarrow>
        if ok then Some (s\<lparr>lg_writer := w, lg_accepted := lg_accepted s @ [Flush a]\<rparr>) else None)"
| "writer_step (Turn n io) s =
     (let q = dw_queue (lg_writer s); batch = take n q in
      if 1 \<le> n \<and> n \<le> BATCH_SIZE \<and> n \<le> length q then
        (case process_batch io batch (lg_db s) of ((err, acks), d) \<Rightarrow>
           Some (s\<lparr>lg_writer := (lg_writer s)\<lparr>dw_queue := drop n q\<rparr>, lg_db := d,
                   lg_acks := lg_acks s @ acks, lg_taken := lg_taken s @ batch,
                   lg_lost := lg_lost s @ (if err = None then [] else events_of batch)\<rparr>))
      else None)"

definition log_start :: "database \<times> db_writer \<Rightarrow> log_state" where
  "log_start dw = \<lparr>lg_writer = snd dw, lg_db = fst dw, lg_acks = [], lg_accepted = [], lg_taken = [], lg_lost = []\<rparr>"

lemma events_of_append [simp]: "events_of (xs @ ys) = events_of xs @ events_of ys"
  by (induction xs rule: events_of.induct) auto

lemma flushes_of_append [simp]: "flushes_of (xs @ ys) = flushes_of xs @ flushes_of ys"
  by (induction xs rule: flushes_of.induct) auto

text \<open>The events taken are an interleaving of those in the file and those lost.\<close>

definition log_inv :: "database \<Rightarrow> log_state \<Rightarrow> bool" where
  "log_inv d0 s \<longleftrightarrow>
     schema_ok (lg_db s)
   \<and> length (dw_queue (lg_writer s)) \<le> dw_capacity (lg_writer s)
   \<and> lg_accepted s = lg_taken s @ dw_queue (lg_writer s)
   \<and> set (lg_acks s) \<subseteq> set (flushes_of (lg_taken s))
   \<and> (\<exists>written. lg_db s = add_rows written d0 \<and> events_of (lg_taken s) \<in> shuffles written (lg_lost s))"

lemma shuffles_snoc_left: "zs \<in> shuffles xs ys \<Longrightarrow> zs @ es \<in> shuffles (xs @ es) ys"
proof (induction xs ys arbitrary: zs rule: shuffles.induct)
  case (1 ys)
  have "ys @ es \<in> shuffles ys es" by (induction ys) (auto simp: Cons_in_shuffles_iff)
  then show ?case using 1 by (simp add: shuffles_commutes)
qed (auto simp: Cons_in_shuffles_iff)

lemma shuffles_snoc_right: "zs \<in> shuffles xs ys \<Longrightarrow> zs @ es \<in> shuffles xs (ys @ es)"
  using shuffles_snoc_left [of zs ys xs es] by (simp add: shuffles_commutes)

lemma schema_ok_add_rows [simp]: "schema_ok (add_rows es d) = schema_ok d"
  by (simp add: add_rows_def schema_ok_def has_stats_columns_def)

lemma log_event_queue:
  "log_event e w = (ok, w') \<Longrightarrow> length (dw_queue w) \<le> dw_capacity w \<Longrightarrow>
     dw_queue w' = dw_queue w @ (if ok then [Event e] else []) \<and> dw_capacity w' = dw_capacity w
     \<and> length (dw_queue w') \<le> dw_capacity w'"
  by (auto simp: log_event_def try_send_def split: if_splits)

lemma writer_step_inv:
  assumes "log_inv d0 s" "writer_step e s = Some s'"
  shows "log_inv d0 s'"
proof (cases e)
  case (Log ev)
  obtain ok w where l: "log_event ev (lg_writer s) = (ok, w)" by fastforce
  then show ?thesis using assms Log log_event_queue [OF l] by (auto simp: log_inv_def)
next
  case (RequestFlush a)
  then show ?thesis using assms by (auto simp: log_inv_def try_send_def split: if_splits)
next
  case (Turn n io)
  let ?q = "dw_queue (lg_writer s)"
  obtain err acks d where p: "process_batch io (take n ?q) (lg_db s) = ((err, acks), d)" by (metis surj_pair)
  from assms(1) have sc: "schema_ok (lg_db s)" by (simp add: log_inv_def)
  note b = process_batch_cases [OF sc p]
  have s': "s' = s\<lparr>lg_writer := (lg_writer s)\<lparr>dw_queue := drop n ?q\<rparr>, lg_db := d, lg_acks := lg_acks s @ acks,
      lg_taken := lg_taken s @ take n ?q, lg_lost := lg_lost s @ (if err = None then [] else events_of (take n ?q))\<rparr>"
    using assms(2) Turn p by (auto simp: Let_def split: if_splits)
  obtain written where w: "lg_db s = add_rows written d0" "events_of (lg_taken s) \<in> shuffles written (lg_lost s)"
    using assms(1) by (auto simp: log_inv_def)
  have "\<exists>written. lg_db s' = add_rows written d0 \<and> events_of (lg_taken s') \<in> shuffles written (lg_lost s')"
  proof (cases "err = None")
    case True
    then show ?thesis using b w shuffles_snoc_left [OF w(2)]
      by (intro exI [of _ "written @ events_of (take n ?q)"]) (simp add: s' add_rows_append)
  next
    case False
    then show ?thesis using b w shuffles_snoc_right [OF w(2)] by (intro exI [of _ written]) (auto simp: s')
  qed
  moreover have "schema_ok d" using b sc by (auto split: if_splits)
  ultimately show ?thesis using assms(1) b by (auto simp: log_inv_def s')
qed

interpretation logq: event_system writer_step "\<lambda>_. True" "log_inv d0" for d0
  by unfold_locales (rule writer_step_inv)

lemma log_start_inv: "schema_ok d \<Longrightarrow> log_inv d (log_start (d, \<lparr>dw_queue = [], dw_capacity = c, dw_drops = n\<rparr>))"
  by (auto simp: log_inv_def log_start_def intro!: exI [of _ "[]"])

text \<open>C32: no accepted log event is unaccounted for.  In every run of the log, with any interleaving of
  callers and writer turns and any storage failures, the queue stays within its capacity, the
  accepted messages are those taken followed by those queued, the events taken are an interleaving,
  in order, of the ones in the file and the ones reported lost, and a flush is only acknowledged
  after everything accepted before it was taken.\<close>

theorem log_accounts:
  assumes "schema_ok d" "run writer_step es (log_start (d, \<lparr>dw_queue = [], dw_capacity = c, dw_drops = 0\<rparr>)) = Some s"
  shows "length (dw_queue (lg_writer s)) \<le> dw_capacity (lg_writer s)
       \<and> lg_accepted s = lg_taken s @ dw_queue (lg_writer s)
       \<and> (\<exists>written. lg_db s = add_rows written d \<and> events_of (lg_taken s) \<in> shuffles written (lg_lost s))
       \<and> set (lg_acks s) \<subseteq> set (flushes_of (lg_taken s))"
  using logq.run_inv [OF log_start_inv [OF assms(1)] _ assms(2)] by (auto simp: log_inv_def list_all_iff)

section \<open>Reading the log\<close>

lemma query_rows_map: "query_rows (map LogQuery qs) = map query_row_of qs"
  by (induction qs) auto

lemma events_of_map: "events_of (map (\<lambda>q. Event (LogQuery q)) qs) = map LogQuery qs"
  by (induction qs) auto

lemma sort_key_enumerate:
  assumes "sorted (map f rs)"
  shows "sort_key (\<lambda>(i, r). (f r, i)) (enumerate n rs) = enumerate n rs"
proof (rule sort_key_id_if_sorted, unfold sorted_iff_nth_mono, intro allI impI)
  fix i j assume ij: "i \<le> j" "j < length (map (\<lambda>(i, r). (f r, i)) (enumerate n rs))"
  then have "map f rs ! i \<le> map f rs ! j" by (intro sorted_nth_mono [OF assms]) auto
  then show "map (\<lambda>(i, r). (f r, i)) (enumerate n rs) ! i \<le> map (\<lambda>(i, r). (f r, i)) (enumerate n rs) ! j"
    using ij by (auto simp: nth_enumerate_eq less_eq_prod_def order.order_iff_strict)
qed


section \<open>Retention\<close>

text \<open>The retention sweep deletes exactly the rows older than seven days, from the log and from the
  divergences, keeps the others with their ids and order, returns the number deleted, and a second
  sweep at the same time deletes nothing.\<close>

theorem retention_exact:
  assumes "retention_sweep now d = (n, d')"
  shows "db_queries d' = filter (\<lambda>(_, r). now - 604800 \<le> rw_ts r) (db_queries d)
       \<and> db_divergences d' = filter (\<lambda>(_, r). now - 604800 \<le> dr_ts' r) (db_divergences d)
       \<and> n + length (db_queries d') + length (db_divergences d') = length (db_queries d) + length (db_divergences d)
       \<and> retention_sweep now d' = (0, d')"
proof -
  have e: "(\<lambda>(_, r). \<not> rw_ts r < now - LOG_RETENTION_SECS) = (\<lambda>(_, r). now - 604800 \<le> rw_ts r)"
    "(\<lambda>(_, r). \<not> dr_ts' r < now - LOG_RETENTION_SECS) = (\<lambda>(_, r). now - 604800 \<le> dr_ts' r)"
    by (auto simp: LOG_RETENTION_SECS_def fun_eq_iff)
  let ?q = "filter (\<lambda>(_, r). now - 604800 \<le> rw_ts r) (db_queries d)"
  let ?v = "filter (\<lambda>(_, r). now - 604800 \<le> dr_ts' r) (db_divergences d)"
  have d': "d' = d\<lparr>db_queries := ?q, db_divergences := ?v\<rparr>"
    "n = (length (db_queries d) - length ?q) + (length (db_divergences d) - length ?v)"
    using assms by (auto simp: retention_sweep_def Let_def e)
  have "length ?q \<le> length (db_queries d)" "length ?v \<le> length (db_divergences d)" by simp_all
  then have "n + length ?q + length ?v = length (db_queries d) + length (db_divergences d)"
    unfolding d'(2) by linarith
  then show ?thesis by (simp add: d'(1) retention_sweep_def Let_def e)
qed

section \<open>Opening and migration\<close>

text \<open>The shape a release with schema version \<open>v\<close> leaves behind.\<close>

definition written_by :: "nat \<Rightarrow> database \<Rightarrow> bool" where
  "written_by v d \<longleftrightarrow> db_meta d = Some (show_nat v)
     \<and> db_check d = Some (if v < 3 then [''allowed'', ''blocked'', ''excepted''] else VERDICT_CHECK)
     \<and> db_stats_cols d = Some ([''id'', ''updated_ts'', ''log_events_dropped''] @ [''upstreams_json'']
         @ (if 2 \<le> v then [''log_events_dropped_recent''] else []) @ (if 4 \<le> v then [''runtime_json''] else []))
     \<and> (\<forall>(i, r) \<in> set (db_queries d). rw_verdict r \<in> set (the (db_check d)))"

lemma parse_u32_show: "v < 2 ^ 32 \<Longrightarrow> parse_u32 (show_nat v) = Some v"
proof -
  assume v: "v < 2 ^ 32"
  have dig: "c \<in> set (show_nat v) \<Longrightarrow> to_digit 10 c \<noteq> None" for c using show_radix_digits [of 10 c v] by simp
  obtain c cs where s: "show_nat v = c # cs" by (metis list.exhaust show_radix_nonempty)
  then have "c \<noteq> CHR ''+''" using dig [of c] by (auto simp: to_digit_def)
  then show ?thesis
    using dig v show_radix_value [of 10 v] s by (auto simp: parse_u32_def Let_def try_u32_def list_all_iff)
qed

text \<open>Opening a database of any earlier release brings it to the current schema without losing
  anything: the query log, the divergences and the heartbeat are unchanged, the statistics row
  keeps its columns and gets the defaults in the new ones, the tables accept every verdict and have
  every column, and opening again changes nothing.  A database of a newer release is refused.\<close>

theorem open_migrates:
  "(1 \<le> v \<and> v \<le> 4 \<and> written_by v d \<longrightarrow>
      (\<exists>d' w. db_open path (Inr d) = Inr (d', w) \<and> schema_ok d'
         \<and> db_queries d' = db_queries d \<and> db_divergences d' = db_divergences d \<and> db_heartbeat d' = db_heartbeat d
         \<and> db_stats d' = map_option (\<lambda>r. r\<lparr>sr_recent := (if v < 2 then 0 else sr_recent r),
              sr_runtime_json := (if v < 4 then ''{}'' else sr_runtime_json r)\<rparr>) (db_stats d)
         \<and> db_open path (Inr d') = Inr (d', w)))
   \<and> (4 < v \<and> v < 2 ^ 32 \<and> db_meta d = Some (show_nat v) \<longrightarrow> db_open path (Inr d) = Inl (SchemaTooNew v 4))
   \<and> (\<exists>d' w. db_open path (Inr empty_database) = Inr (d', w) \<and> schema_ok d')"
proof (intro conjI impI)
  assume v: "1 \<le> v \<and> v \<le> 4 \<and> written_by v d"
  have p: "parse_u32 (show_nat v) = Some v" using v parse_u32_show by simp
  have p4: "parse_u32 (show_nat 4) = Some 4" using parse_u32_show by simp
  have rows: "list_all (\<lambda>(_, r). rw_verdict r \<in> set VERDICT_CHECK) (db_queries d)"
    using v by (auto simp: written_by_def list_all_iff VERDICT_CHECK_def split: if_splits)
  have c: "create_schema d = d"
    using v by (simp add: create_schema_def written_by_def)
  consider "v = 1" | "v = 2" | "v = 3" | "v = 4" using v by linarith
  then show "\<exists>d' w. db_open path (Inr d) = Inr (d', w) \<and> schema_ok d'
         \<and> db_queries d' = db_queries d \<and> db_divergences d' = db_divergences d \<and> db_heartbeat d' = db_heartbeat d
         \<and> db_stats d' = map_option (\<lambda>r. r\<lparr>sr_recent := (if v < 2 then 0 else sr_recent r),
              sr_runtime_json := (if v < 4 then ''{}'' else sr_runtime_json r)\<rparr>) (db_stats d)
         \<and> db_open path (Inr d') = Inr (d', w)"
    using v p p4 rows c
    by cases (auto simp: db_open_def open_with_queue_capacity_def ensure_schema_version_def written_by_def
        SCHEMA_VERSION_def migrate_schema_def add_stats_column_def rebuild_queries_def schema_ok_def
        has_stats_columns_def STATS_COLUMNS_def VERDICT_CHECK_def create_schema_def option.map_comp comp_def option.map_ident)
next
  assume "4 < v \<and> v < 2 ^ 32 \<and> db_meta d = Some (show_nat v)"
  then show "db_open path (Inr d) = Inl (SchemaTooNew v 4)"
    using parse_u32_show [of v]
    by (simp add: db_open_def open_with_queue_capacity_def ensure_schema_version_def create_schema_def SCHEMA_VERSION_def)
next
  show "\<exists>d' w. db_open path (Inr empty_database) = Inr (d', w) \<and> schema_ok d'"
    by (simp add: db_open_def open_with_queue_capacity_def ensure_schema_version_def create_schema_def
        empty_database_def schema_ok_def has_stats_columns_def SCHEMA_VERSION_def)
qed

theorem open_migrates_witness:
  "\<exists>d' w. db_open ''/x.db'' (Inr (empty_database\<lparr>db_meta := Some ''1'', db_check := Some [''allowed'', ''blocked'', ''excepted''],
      db_stats_cols := Some [''id'', ''updated_ts'', ''log_events_dropped'', ''upstreams_json'']\<rparr>)) = Inr (d', w) \<and> schema_ok d'"
proof -
  let ?d = "empty_database\<lparr>db_meta := Some ''1'', db_check := Some [''allowed'', ''blocked'', ''excepted''],
      db_stats_cols := Some [''id'', ''updated_ts'', ''log_events_dropped'', ''upstreams_json'']\<rparr>"
  have "show_nat 1 = ''1''" by code_simp
  then have "written_by 1 ?d" by (simp add: written_by_def empty_database_def)
  then show ?thesis using open_migrates [of 1 ?d "''/x.db''"] by (simp del: One_nat_def) blast
qed

section \<open>Single rows\<close>

text \<open>The statistics row keeps 64-bit counters exactly.  What \<open>write_daemon_stats\<close> stores as
  signed integers is read back as the same counters, also above \<open>i64::MAX\<close>; \<open>write_runtime\<close>
  then replaces the report and its time only; the heartbeat row is read back as written.\<close>

theorem stats_row_roundtrip:
  assumes "schema_ok d" "hb_pid hb < 2 ^ 32"
  shows "\<exists>d1 d2. write_daemon_stats st d = Inr d1 \<and> read_daemon_stats d1 = Inr (Some st)
       \<and> write_runtime t j d1 = Inr d2
       \<and> read_daemon_stats d2 = Inr (Some (st\<lparr>ds_updated_ts := t, ds_runtime_json := j\<rparr>))
       \<and> read_heartbeat (write_heartbeat hb d2) = Some hb
       \<and> read_daemon_stats (write_heartbeat hb d2) = read_daemon_stats d2"
proof -
  have c: "has_stats_columns d" using assms(1) by (simp add: schema_ok_def)
  let ?r = "\<lparr>sr_updated_ts = ds_updated_ts st, sr_dropped = sint (ds_log_events_dropped st),
      sr_recent = sint (ds_log_events_dropped_recent st), sr_upstreams_json = ds_upstreams_json st,
      sr_runtime_json = ds_runtime_json st\<rparr>"
  have c': "has_stats_columns (d\<lparr>db_stats := x\<rparr>)" for x using c by (simp add: has_stats_columns_def)
  show ?thesis
    using c c' assms(2)
    by (intro exI [of _ "d\<lparr>db_stats := Some ?r\<rparr>"]
        exI [of _ "d\<lparr>db_stats := Some (?r\<lparr>sr_updated_ts := t, sr_runtime_json := j\<rparr>)\<rparr>"])
      (simp add: write_daemon_stats_def read_daemon_stats_def write_runtime_def read_heartbeat_def
        write_heartbeat_def has_stats_columns_def [of "d\<lparr>db_stats := _, db_heartbeat := _\<rparr>"] has_stats_columns_def)
qed

section \<open>Statistics\<close>

text \<open>The order of the rows with equal counts is open.\<close>

definition orders_desc :: "(('a \<times> nat) list \<Rightarrow> ('a \<times> nat) list) \<Rightarrow> bool" where
  "orders_desc ord \<longleftrightarrow> (\<forall>xs. mset (ord xs) = mset xs \<and> sorted_wrt (\<lambda>a b. snd b \<le> snd a) (ord xs))"

lemma group_count_in: "(k, n) \<in> set (group_count ks) \<longleftrightarrow> k \<in> set ks \<and> n = count_list ks k"
  by (auto simp: group_count_def)

text \<open>A top list names each key with its count, at most ten of them, and no key it leaves out has a
  larger count than one it shows.\<close>

definition top_ok :: "string list \<Rightarrow> (string \<times> nat) list \<Rightarrow> bool" where
  "top_ok ks tops \<longleftrightarrow> length tops = min 10 (card (set ks)) \<and> distinct (map fst tops)
     \<and> (\<forall>(k, n) \<in> set tops. k \<in> set ks \<and> n = count_list ks k)
     \<and> (\<forall>k \<in> set ks. k \<notin> fst ` set tops \<longrightarrow> (\<forall>(k', n) \<in> set tops. count_list ks k \<le> n))"

lemma top_list_ok:
  assumes "orders_desc ord"
  shows "top_ok (map rw_qname rows) (top_list ord rows)"
proof -
  let ?ks = "map rw_qname rows" and ?g = "ord (group_count (map rw_qname rows))"
  have m: "mset ?g = mset (group_count ?ks)" and so: "sorted_wrt (\<lambda>a b. snd b \<le> snd a) ?g"
    using assms by (auto simp: orders_desc_def)
  have set_g: "set ?g = set (group_count ?ks)" using m by (metis set_mset_mset)
  have "mset (map fst ?g) = mset (map fst (group_count ?ks))" using m by (simp only: mset_map)
  then have "mset (map fst ?g) = mset (remdups ?ks)" by (simp add: group_count_def comp_def)
  then have d: "distinct (map fst ?g)" by (metis distinct_remdups mset_eq_imp_distinct_iff)
  have len: "length ?g = card (set ?ks)"
    using m by (metis group_count_def length_map length_remdups_card_conv size_mset)
  have "count_list ?ks k \<le> n" if k: "k \<in> set ?ks" "k \<notin> fst ` set (take 10 ?g)" and n: "(k', n) \<in> set (take 10 ?g)" for k k' n
  proof -
    have "(k, count_list ?ks k) \<in> set ?g" using k(1) set_g group_count_in by metis
    moreover have "set ?g = set (take 10 ?g) \<union> set (drop 10 ?g)" by (simp only: set_append [symmetric] append_take_drop_id)
    moreover have "(k, count_list ?ks k) \<notin> set (take 10 ?g)" using k(2) by force
    ultimately have "(k, count_list ?ks k) \<in> set (drop 10 ?g)" by blast
    moreover have "sorted_wrt (\<lambda>a b. snd b \<le> snd a) (take 10 ?g @ drop 10 ?g)" using so by simp
    ultimately show ?thesis using n unfolding sorted_wrt_append by fastforce
  qed
  moreover have "k \<in> set ?ks \<and> n = count_list ?ks k" if "(k, n) \<in> set (take 10 ?g)" for k n
    using in_set_takeD [OF that] unfolding set_g group_count_in .
  moreover have "distinct (map fst (take 10 ?g))" using d by (simp add: take_map [symmetric])
  moreover have "length (take 10 ?g) = min 10 (card (set ?ks))" unfolding length_take len by (rule min.commute)
  ultimately show ?thesis unfolding top_ok_def top_list_def by blast
qed

lemma filter_records: "filter (\<lambda>r. f r) (map query_row_of qs) = map query_row_of (filter (\<lambda>q. f (query_row_of q)) qs)"
  by (simp add: filter_map comp_def)

lemma verdict_as_str_eq: "verdict_as_str v = verdict_as_str w \<longleftrightarrow> v = w"
  by (metis sum.inject(2) verdict_roundtrip)

lemma source_as_str_eq: "source_as_str v = source_as_str w \<longleftrightarrow> v = w"
  by (metis sum.inject(2) source_roundtrip)

text \<open>The statistics count the log.  For a log whose rows are those of some records, every counter
  is the number of records of the window with that verdict or source, and the two top lists show
  the ten most frequent names of all and of the blocked queries with their counts.\<close>

theorem stats_count:
  assumes "map snd (db_queries d) = map query_row_of qs" "orders_desc ord"
  shows "let ws = filter (\<lambda>q. since \<le> qr_ts q) qs; st = db_stats_since ord since d in
       st_total st = length ws
       \<and> st_blocked st = length (filter (\<lambda>q. qr_verdict q = Blocked) ws)
       \<and> st_excepted st = length (filter (\<lambda>q. qr_verdict q = Excepted) ws)
       \<and> st_rewritten st = length (filter (\<lambda>q. qr_verdict q = Rewritten) ws)
       \<and> st_cache_hits st = length (filter (\<lambda>q. qr_source q = SrcCache) ws)
       \<and> st_stale_hits st = length (filter (\<lambda>q. qr_source q = SrcStale) ws)
       \<and> st_upstream_failures st = length (filter (\<lambda>q. qr_source q = Failed) ws)
       \<and> st_failure_cached st = length (filter (\<lambda>q. qr_source q = FailureCached) ws)
       \<and> top_ok (map qr_qname ws) (st_top_queried st)
       \<and> top_ok (map qr_qname (filter (\<lambda>q. qr_verdict q = Blocked) ws)) (st_top_blocked st)"
proof -
  define ws where "ws = filter (\<lambda>q. since \<le> qr_ts q) qs"
  have rows: "filter (\<lambda>r. since \<le> rw_ts r) (map snd (db_queries d)) = map query_row_of ws"
    unfolding assms(1) filter_records by (simp add: ws_def query_row_of_def)
  have v: "length (filter (\<lambda>r. rw_verdict r = verdict_as_str k) (map query_row_of ws)) = length (filter (\<lambda>q. qr_verdict q = k) ws)" for k
    by (simp add: filter_records query_row_of_def verdict_as_str_eq)
  have so: "length (filter (\<lambda>r. rw_source r = source_as_str k) (map query_row_of ws)) = length (filter (\<lambda>q. qr_source q = k) ws)" for k
    by (simp add: filter_records query_row_of_def source_as_str_eq)
  have b: "filter (\<lambda>r. rw_verdict r = ''blocked'') (map query_row_of ws) = map query_row_of (filter (\<lambda>q. qr_verdict q = Blocked) ws)"
    using verdict_as_str_eq [of _ Blocked] by (simp add: filter_records query_row_of_def)
  have names: "map rw_qname (map query_row_of xs) = map qr_qname xs" for xs by (simp add: query_row_of_def)
  show ?thesis
    using v [of Blocked] v [of Excepted] v [of Rewritten] so [of SrcCache] so [of SrcStale] so [of Failed] so [of FailureCached]
      top_list_ok [OF assms(2), of "map query_row_of ws"]
      top_list_ok [OF assms(2), of "map query_row_of (filter (\<lambda>q. qr_verdict q = Blocked) ws)"]
    unfolding db_stats_since_def rows Let_def b names ws_def [symmetric] by simp
qed

section \<open>Witnesses\<close>

definition example_database :: database where
  "example_database = empty_database\<lparr>db_meta := Some (show_nat 4), db_check := Some VERDICT_CHECK, db_stats_cols := Some STATS_COLUMNS\<rparr>"

lemma example_schema_ok: "schema_ok example_database"
  by (simp add: example_database_def empty_database_def schema_ok_def has_stats_columns_def SCHEMA_VERSION_def)

definition example_record :: "int \<Rightarrow> query_record" where
  "example_record ts = \<lparr>qr_ts = ts, qr_client = V4 [192, 168, 1, 7], qr_qname = ''ads.example'', qr_qtype = 1,
     qr_verdict = Blocked, qr_rule = Some ''||ads.example^'', qr_list = Some 0, qr_source = Synth,
     qr_rcode = 3, qr_duration_us = 41\<rparr>"

lemma example_record_wf: "record_wf (example_record ts)"
  by (simp add: example_record_def record_wf_def ip_wf_def i64_max_def)

theorem batch_atomic_witness:
  "\<exists>err acks d'. process_batch (\<lambda>i. if i = 2 then Some (StorageFailure ''disk full'') else None)
       [Event (LogQuery (example_record 5)), Flush 9, Event (LogQuery (example_record 6))] example_database = ((err, acks), d')
     \<and> err \<noteq> None \<and> d' = example_database"
proof -
  let ?io = "\<lambda>i. if i = 2 then Some (StorageFailure ''disk full'') else None"
  let ?b = "[Event (LogQuery (example_record 5)), Flush 9, Event (LogQuery (example_record 6))]"
  obtain err acks d' where p: "process_batch ?io ?b example_database = ((err, acks), d')" by (metis surj_pair)
  have "err \<noteq> None"
    using p by (auto simp: process_batch_def process_batch_inner_def schema_ok_insert [OF example_schema_ok])
  then show ?thesis using batch_atomic [OF example_schema_ok p] p by auto
qed

theorem log_accounts_witness:
  "\<exists>s. run writer_step [Log (LogQuery (example_record 5)), Log (LogQuery (example_record 6)), Turn 1 (\<lambda>_. None)]
       (log_start (example_database, \<lparr>dw_queue = [], dw_capacity = 1, dw_drops = 0\<rparr>)) = Some s
     \<and> lg_accepted s = lg_taken s @ dw_queue (lg_writer s) \<and> dw_drops (lg_writer s) = 1"
proof -
  let ?es = "[Log (LogQuery (example_record 5)), Log (LogQuery (example_record 6)), Turn 1 (\<lambda>_. None)]"
  let ?s0 = "log_start (example_database, \<lparr>dw_queue = [], dw_capacity = 1, dw_drops = 0\<rparr>)"
  obtain s where s: "run writer_step ?es ?s0 = Some s" and "dw_drops (lg_writer s) = 1"
    by (simp add: log_start_def log_event_def try_send_def BATCH_SIZE_def Let_def case_prod_beta)
  then show ?thesis using log_accounts [OF example_schema_ok s] by blast
qed


theorem retention_exact_witness:
  "\<exists>n d'. retention_sweep 1000000 (add_rows [LogQuery (example_record 5), LogQuery (example_record 900000)] example_database) = (n, d')
     \<and> map snd (db_queries d') = [query_row_of (example_record 900000)]"
proof -
  let ?d = "add_rows [LogQuery (example_record 5), LogQuery (example_record 900000)] example_database"
  obtain n d' where r: "retention_sweep 1000000 ?d = (n, d')" by fastforce
  show ?thesis using retention_exact [OF r] r
    by (simp add: add_rows_def example_database_def empty_database_def query_row_of_def example_record_def)
qed

theorem stats_row_roundtrip_witness:
  "\<exists>d1. write_daemon_stats \<lparr>ds_updated_ts = 7, ds_log_events_dropped = - 1, ds_log_events_dropped_recent = 2,
       ds_upstreams_json = ''{}'', ds_runtime_json = ''{}''\<rparr> example_database = Inr d1
     \<and> read_daemon_stats d1 = Inr (Some \<lparr>ds_updated_ts = 7, ds_log_events_dropped = - 1, ds_log_events_dropped_recent = 2,
       ds_upstreams_json = ''{}'', ds_runtime_json = ''{}''\<rparr>)"
  using stats_row_roundtrip [OF example_schema_ok, of "\<lparr>hb_pid = 1, hb_started_ts = 0, hb_updated_ts = 0, hb_config_hash = [], hb_lists_hash = []\<rparr>"]
  by fastforce

theorem stats_count_witness:
  "st_blocked (db_stats_since (sort_key (\<lambda>p. - int (snd p))) 0 (add_rows [LogQuery (example_record 5)] example_database)) = 1"
proof -
  let ?d = "add_rows [LogQuery (example_record 5)] example_database" and ?o = "sort_key (\<lambda>p. - int (snd p))"
  have ord: "orders_desc ?o"
    by (auto simp: orders_desc_def sorted_wrt_map [symmetric] sorted_map [symmetric])
       (metis (mono_tags, lifting) neg_le_iff_le of_nat_le_iff sorted_map sorted_sort_key sorted_wrt_mono_rel)
  have m: "map snd (db_queries ?d) = map query_row_of [example_record 5]"
    by (simp add: add_rows_def example_database_def empty_database_def)
  show ?thesis using stats_count [OF m ord, of 0] by (simp add: example_record_def Let_def)
qed

end
