(* ===== verification/Shadow.thy ===== *)
theory Shadow
  imports Config Db
begin

text \<open>
  Shadow mode of \<open>crates/core/src/shadow.rs\<close>: classification of divergences between our answer
  and the reference resolver's, and the comparisons in flight with the semaphore that bounds them.
  The exchange with the reference is an argument: its answer or its error.  The display form of a
  response code is the argument \<open>show_rc\<close>.
\<close>

definition CLASS_EXPECTED :: string where "CLASS_EXPECTED = ''expected''"
definition CLASS_WE_BLOCK :: string where "CLASS_WE_BLOCK = ''we-block-they-answer''"
definition CLASS_THEY_BLOCK :: string where "CLASS_THEY_BLOCK = ''they-block-we-answer''"
definition CLASS_RCODE :: string where "CLASS_RCODE = ''rcode-mismatch''"

fun blocked_scan :: "bool \<Rightarrow> 'n dns_record list \<Rightarrow> bool" where
  "blocked_scan saw_addr [] = saw_addr"
| "blocked_scan saw_addr (r # rs) =
     (case dr_data r of
        RData_A os \<Rightarrow> if \<not> ip_is_unspecified (V4 os) then False else blocked_scan True rs
      | RData_AAAA gs \<Rightarrow> if \<not> ip_is_unspecified (V6 gs) then False else blocked_scan True rs
      | _ \<Rightarrow> blocked_scan saw_addr rs)"

definition looks_blocked :: "'n message \<Rightarrow> bool" where
  "looks_blocked resp =
     (case rcode resp of
        NXDomain \<Rightarrow> True
      | NoError \<Rightarrow> blocked_scan False (ms_answers resp)
      | _ \<Rightarrow> False)"

definition describe :: "(response_code \<Rightarrow> string) \<Rightarrow> 'n message \<Rightarrow> bool \<Rightarrow> string" where
  "describe show_rc resp blocked_verdict =
     (if blocked_verdict then ''blocked/'' else if looks_blocked resp then ''blocky/'' else []) @ show_rc (rcode resp)"

definition divergence_class :: "'n message \<Rightarrow> bool \<Rightarrow> 'n message \<Rightarrow> string option" where
  "divergence_class ours ours_blocked theirs =
     (case (ours_blocked, looks_blocked theirs) of
        (True, True) \<Rightarrow> if rcode ours = rcode theirs then None else Some CLASS_EXPECTED
      | (True, False) \<Rightarrow>
          if rcode theirs = NoError \<and> ms_answers theirs = [] then Some CLASS_EXPECTED else Some CLASS_WE_BLOCK
      | (False, True) \<Rightarrow> if looks_blocked ours then None else Some CLASS_THEY_BLOCK
      | (False, False) \<Rightarrow> if rcode ours = rcode theirs then None else Some CLASS_RCODE)"

definition classify ::
    "(response_code \<Rightarrow> string) \<Rightarrow> 'n message \<Rightarrow> bool \<Rightarrow> 'n message \<Rightarrow> (string \<times> string \<times> string) option" where
  "classify show_rc ours ours_blocked theirs =
     map_option (\<lambda>class. (describe show_rc ours ours_blocked, describe show_rc theirs False, class))
       (divergence_class ours ours_blocked theirs)"

definition MAX_INFLIGHT :: nat where "MAX_INFLIGHT = 64"

record 'n compare_task =
  cm_request :: "'n message"
  cm_ours :: "'n message"
  cm_ours_blocked :: bool
  cm_qname :: string
  cm_qtype :: nat

record 'n shadow =
  sh_addr :: socket_addr
  sh_permits :: nat
  sh_pending :: "'n compare_task list"

definition shadow_new :: "socket_addr \<Rightarrow> 'n shadow" where
  "shadow_new addr = \<lparr>sh_addr = addr, sh_permits = MAX_INFLIGHT, sh_pending = []\<rparr>"

text \<open>\<open>try_acquire_owned\<close> fails without a permit; then the query is not compared.\<close>

definition spawn_compare :: "'n compare_task \<Rightarrow> 'n shadow \<Rightarrow> 'n shadow" where
  "spawn_compare t sh =
     (if sh_permits sh = 0 then sh
      else sh\<lparr>sh_permits := sh_permits sh - 1, sh_pending := sh_pending sh @ [t]\<rparr>)"

text \<open>The end of the \<open>i\<close>-th pending comparison: the permit is given back however it ends.\<close>

definition finish_compare ::
    "(response_code \<Rightarrow> string) \<Rightarrow> nat \<Rightarrow> string + 'n message \<Rightarrow> int \<Rightarrow> 'n shadow \<Rightarrow> db_writer \<Rightarrow> ('n shadow \<times> db_writer) option" where
  "finish_compare show_rc i reply ts sh w =
     (if i < length (sh_pending sh) then
        (let t = sh_pending sh ! i;
             sh' = sh\<lparr>sh_permits := sh_permits sh + 1, sh_pending := take i (sh_pending sh) @ drop (Suc i) (sh_pending sh)\<rparr>
         in Some (sh',
              (case reply of
                 Inl _ \<Rightarrow> w
               | Inr theirs \<Rightarrow>
                   (case classify show_rc (cm_ours t) (cm_ours_blocked t) theirs of
                      None \<Rightarrow> w
                    | Some (ours_desc, theirs_desc, class) \<Rightarrow>
                        snd (log_event (LogDivergence \<lparr>dv_ts = ts, dv_qname = cm_qname t, dv_qtype = cm_qtype t,
                               dv_ours = ours_desc, dv_theirs = theirs_desc, dv_class = class\<rparr>) w)))))
      else None)"

definition shadow_ok :: "'n shadow \<Rightarrow> bool" where
  "shadow_ok sh \<longleftrightarrow> sh_permits sh + length (sh_pending sh) = MAX_INFLIGHT"

lemma shadow_new_ok: "shadow_ok (shadow_new a)"
  by (simp add: shadow_ok_def shadow_new_def)

lemma spawn_compare_ok: "shadow_ok sh \<Longrightarrow> shadow_ok (spawn_compare t sh)"
  by (auto simp: shadow_ok_def spawn_compare_def)

lemma finish_compare_ok: "shadow_ok sh \<Longrightarrow> finish_compare show_rc i r ts sh w = Some (sh', w') \<Longrightarrow> shadow_ok sh'"
  by (auto simp: shadow_ok_def finish_compare_def Let_def split: if_splits)

text \<open>An answer looks blocked when the name is said not to exist or every address given is the
  unspecified one.\<close>

lemma blocked_scan_iff: "blocked_scan saw rs \<longleftrightarrow>
    (\<forall>r \<in> set rs. \<forall>os. (dr_data r = RData_A os \<longrightarrow> os = [0, 0, 0, 0]) \<and> (dr_data r = RData_AAAA os \<longrightarrow> os = replicate 8 0))
    \<and> (saw \<or> (\<exists>r \<in> set rs. \<exists>os. dr_data r = RData_A os \<or> dr_data r = RData_AAAA os))"
proof (induction rs arbitrary: saw)
  case (Cons r rs)
  have e: "replicate 8 (0 :: nat) = [0, 0, 0, 0, 0, 0, 0, 0]" by (simp add: eval_nat_numeral)
  show ?case by (cases "dr_data r") (auto simp: Cons.IH e)
qed simp

end
