(* ===== verification/Server.thy ===== *)
theory Server
  imports Filter_Engine Cache Failcache Safesearch Shadow
begin

text \<open>
  The request pipeline of \<open>crates/core/src/server.rs\<close>.

  The state \<open>pipeline\<close> holds what the struct holds: the policy in force, the cache, the failure
  cache, the in-flight counter, the keys being refreshed, the shared lookups, shadow mode and the
  log writer.  What the asynchronous runtime keeps is explicit too: the leader task of a shared
  lookup is its entry in \<open>pl_lookups\<close>, a refresh task its entry in \<open>pl_refreshing\<close>, and a
  request that waits for a lookup is a \<open>task\<close> with everything its future has captured.  Between
  two awaits the code runs without giving up control of what it changes, so each such stretch is one
  function: \<open>handle_at\<close> up to the answer or to the wait, \<open>publish\<close> for the end of a leader,
  \<open>resume\<close> for a woken request, \<open>begin_refresh\<close> and \<open>end_refresh\<close>.  A panic (an engine index,
  a cache index, an invalid static name) is \<^const>\<open>None\<close>.

  What belongs to other crates is in the record \<open>deps\<close>: names to and from text, membership in a
  network, removal of DNSSEC records, message encoding.  Clock readings are arguments.
\<close>

section \<open>Data\<close>

record ('n, 'net) deps =
  dp_to_ascii :: "'n \<Rightarrow> string"
  dp_from_ascii :: "string \<Rightarrow> 'n option"
  dp_contains :: "'net \<Rightarrow> ip_addr \<Rightarrow> bool"
  dp_strip_dnssec :: "bool \<Rightarrow> 'n message \<Rightarrow> 'n message"
  dp_wire_len :: "'n message \<Rightarrow> nat option"
  dp_edns_new :: edns
  dp_max_payload :: "'n message \<Rightarrow> nat"
  dp_show_rcode :: "response_code \<Rightarrow> string"

record 'n cache_key =
  ck_name :: 'n
  ck_type :: nat
  ck_class :: nat

definition TYPE_ANY :: nat where "TYPE_ANY = 255"
definition CLASS_IN :: nat where "CLASS_IN = 1"

definition MAX_IN_FLIGHT_QUERIES :: nat where "MAX_IN_FLIGHT_QUERIES = 512"
definition BLOCK_SOA_MNAME :: string where "BLOCK_SOA_MNAME = ''sumidero.invalid.''"
definition BLOCK_SOA_TTL :: nat where "BLOCK_SOA_TTL = 300"
definition SAFESEARCH_CNAME_TTL :: nat where "SAFESEARCH_CNAME_TTL = 300"

record 'net policy =
  po_engine :: engine
  po_safesearch :: safe_search
  po_allow :: "'net list"

record 'n leader =
  ld_request :: "'n message"
  ld_qname :: string
  ld_now :: instant

record 'n refresh_task =
  rf_request :: "'n message"
  rf_now :: "instant option"

datatype 'n wait_state = Waiting | Published "'n message option"

text \<open>Where a request goes on after its lookup: the plain path, or the safe-search answer built so
  far.\<close>

datatype 'n continuation = Direct | AfterTarget "'n message"

record ('n, 'net) task =
  tk_request :: "'n message"
  tk_lookup_request :: "'n message"
  tk_key :: "'n cache_key"
  tk_wait :: "'n wait_state"
  tk_cont :: "'n continuation"
  tk_log :: query_record
  tk_policy :: "'net policy"
  tk_qname :: string
  tk_qtype :: nat

record ('n, 'net) pipeline =
  pl_policy :: "'net policy"
  pl_cache :: "('n cache_key, 'n) inner"
  pl_failures :: "'n cache_key failure_cache"
  pl_in_flight :: nat
  pl_refreshing :: "('n cache_key \<times> 'n refresh_task) list"
  pl_lookups :: "('n cache_key \<times> 'n leader) list"
  pl_tasks :: "(nat \<times> ('n, 'net) task) list"
  pl_shadow :: "'n shadow option"
  pl_writer :: db_writer

section \<open>Synthesised responses\<close>

definition client_allowed :: "('n, 'net) deps \<Rightarrow> 'net list \<Rightarrow> ip_addr \<Rightarrow> bool" where
  "client_allowed dp nets client = list_ex (\<lambda>net. dp_contains dp net client) nets"

definition client_wants_dnssec :: "'n message \<Rightarrow> bool" where
  "client_wants_dnssec request = (case ms_edns request of None \<Rightarrow> False | Some e \<Rightarrow> ed_dnssec_ok e)"

definition apply_edns :: "('n, 'net) deps \<Rightarrow> 'n message \<Rightarrow> 'n message \<Rightarrow> 'n message" where
  "apply_edns dp resp request =
     (if ms_edns request = None then resp\<lparr>ms_edns := None\<rparr>
      else
        (let e = (case ms_edns resp of Some e \<Rightarrow> e | None \<Rightarrow> (dp_edns_new dp)\<lparr>ed_max_payload := 1232\<rparr>)
         in resp\<lparr>ms_edns := Some (e\<lparr>ed_dnssec_ok := client_wants_dnssec request\<rparr>)\<rparr>))"

definition response_skeleton :: "('n, 'net) deps \<Rightarrow> 'n message \<Rightarrow> 'n message" where
  "response_skeleton dp request =
     (let r0 = new_message (md_id (ms_metadata request)) MResponse OpQuery;
          r1 = fold add_query (ms_queries request) r0;
          r2 = r1\<lparr>ms_metadata := (ms_metadata r1)\<lparr>md_recursion_desired := md_recursion_desired (ms_metadata request),
                  md_recursion_available := True\<rparr>\<rparr>
      in apply_edns dp r2 request)"

definition from_rdata :: "'n \<Rightarrow> nat \<Rightarrow> 'n rdata \<Rightarrow> 'n dns_record" where
  "from_rdata name ttl data = \<lparr>dr_name = name, dr_class = CLASS_IN, dr_ttl = ttl, dr_data = data\<rparr>"

definition synth_block_response :: "('n, 'net) deps \<Rightarrow> 'n message \<Rightarrow> 'n message option" where
  "synth_block_response dp request = do {
     mname \<leftarrow> dp_from_ascii dp BLOCK_SOA_MNAME;
     rname \<leftarrow> dp_from_ascii dp ''nobody.sumidero.invalid.'';
     let soa = \<lparr>soa_mname = mname, soa_rname = rname, soa_serial = 1, soa_refresh = 3600, soa_retry = 900,
                soa_expire = 604800, soa_minimum = BLOCK_SOA_TTL\<rparr>;
     Some (add_authority (from_rdata mname BLOCK_SOA_TTL (RData_SOA soa))
             (set_rcode NXDomain (response_skeleton dp request)))
   }"

definition synth_refused :: "('n, 'net) deps \<Rightarrow> 'n message \<Rightarrow> 'n message" where
  "synth_refused dp request = set_rcode Refused (response_skeleton dp request)"

definition synth_servfail :: "('n, 'net) deps \<Rightarrow> 'n message \<Rightarrow> 'n message" where
  "synth_servfail dp request = set_rcode ServFail (response_skeleton dp request)"

definition normalize_qname :: "string \<Rightarrow> string" where
  "normalize_qname name =
     (let lower = to_ascii_lowercase name
      in case strip_suffix ''.'' lower of Some r \<Rightarrow> r | None \<Rightarrow> lower)"

definition restamp :: "('n, 'net) deps \<Rightarrow> 'n message \<Rightarrow> 'n message \<Rightarrow> 'n message" where
  "restamp dp msg request =
     (let m1 = msg\<lparr>ms_metadata := (ms_metadata msg)\<lparr>md_id := md_id (ms_metadata request),
                md_message_type := MResponse, md_recursion_desired := md_recursion_desired (ms_metadata request),
                md_recursion_available := True\<rparr>\<rparr>;
          m2 = (if ms_queries m1 = [] then fold add_query (ms_queries request) m1 else m1);
          m3 = dp_strip_dnssec dp (client_wants_dnssec request) m2
      in apply_edns dp m3 request)"

definition key_name :: "('n, 'net) deps \<Rightarrow> 'n cache_key \<Rightarrow> string" where
  "key_name dp key = normalize_qname (dp_to_ascii dp (ck_name key))"

fun blocked_cname_target ::
    "('n, 'net) deps \<Rightarrow> engine \<Rightarrow> 'n dns_record list \<Rightarrow> (string \<times> nat \<times> string) option option" where
  "blocked_cname_target dp e [] = Some None"
| "blocked_cname_target dp e (r # rs) =
     (case dr_data r of
        RData_CNAME t \<Rightarrow> do {
          let target = normalize_qname (dp_to_ascii dp t);
          v \<leftarrow> verdict e target;
          (case v of
             Block list rule \<Rightarrow> Some (Some (target, list, mr_text rule))
           | _ \<Rightarrow> blocked_cname_target dp e rs)
        }
      | _ \<Rightarrow> blocked_cname_target dp e rs)"

section \<open>Log\<close>

definition new_log :: "int \<Rightarrow> ip_addr \<Rightarrow> string \<Rightarrow> nat \<Rightarrow> response_source \<Rightarrow> query_record" where
  "new_log ts client qname qtype source =
     \<lparr>qr_ts = ts, qr_client = client, qr_qname = qname, qr_qtype = qtype, qr_verdict = Allowed,
      qr_rule = None, qr_list = None, qr_source = source, qr_rcode = 0, qr_duration_us = 0\<rparr>"

definition finish :: "query_record \<Rightarrow> 'n message \<Rightarrow> nat \<Rightarrow> ('n, 'net) pipeline \<Rightarrow> ('n, 'net) pipeline" where
  "finish lg resp elapsed_us p =
     p\<lparr>pl_writer := snd (log_event (LogQuery (lg\<lparr>qr_rcode := rcode_num (rcode resp),
         qr_duration_us := (case try_u32 elapsed_us of Some d \<Rightarrow> d | None \<Rightarrow> u32_max)\<rparr>)) (pl_writer p))\<rparr>"

definition shadow_tap ::
    "'n message \<Rightarrow> 'n message \<Rightarrow> bool \<Rightarrow> string \<Rightarrow> nat \<Rightarrow> ('n, 'net) pipeline \<Rightarrow> ('n, 'net) pipeline" where
  "shadow_tap request resp blocked qname qtype p =
     (case pl_shadow p of
        None \<Rightarrow> p
      | Some sh \<Rightarrow> p\<lparr>pl_shadow := Some (spawn_compare \<lparr>cm_request = request, cm_ours = resp,
          cm_ours_blocked = blocked, cm_qname = qname, cm_qtype = qtype\<rparr> sh)\<rparr>)"

section \<open>Resolution\<close>

definition settle ::
    "('n, 'net) deps \<Rightarrow> 'n cache_key \<Rightarrow> 'n message \<Rightarrow> instant \<Rightarrow> ('n, 'net) pipeline \<Rightarrow> ('n, 'net) pipeline option" where
  "settle dp key answer now p =
     (if rcode answer = ServFail then Some (p\<lparr>pl_failures := snd (record_failure key now (pl_failures p))\<rparr>)
      else do {
        c \<leftarrow> cache_insert (dp_wire_len dp) key answer now (pl_cache p);
        Some (p\<lparr>pl_failures := clear key (pl_failures p), pl_cache := c\<rparr>)
      })"

datatype 'n resolution = Resolved "'n message" response_source | Shared "'n cache_key"

text \<open>\<open>resolve_shared\<close> up to its wait: join the lookup of the key, or become its leader.\<close>

definition resolve_shared ::
    "'n message \<Rightarrow> string \<Rightarrow> 'n cache_key \<Rightarrow> instant \<Rightarrow> ('n, 'net) pipeline \<Rightarrow> ('n, 'net) pipeline" where
  "resolve_shared request qname key now p =
     (case map_of (pl_lookups p) key of
        Some _ \<Rightarrow> p
      | None \<Rightarrow> p\<lparr>pl_lookups := pl_lookups p @ [(key, \<lparr>ld_request = request, ld_qname = qname, ld_now = now\<rparr>)]\<rparr>)"

definition spawn_refresh :: "'n message \<Rightarrow> 'n cache_key \<Rightarrow> ('n, 'net) pipeline \<Rightarrow> ('n, 'net) pipeline" where
  "spawn_refresh request key p =
     (case map_of (pl_refreshing p) key of
        Some _ \<Rightarrow> p
      | None \<Rightarrow> p\<lparr>pl_refreshing := pl_refreshing p @ [(key, \<lparr>rf_request = request, rf_now = None\<rparr>)]\<rparr>)"

definition resolve_cached ::
    "('n, 'net) deps \<Rightarrow> 'n message \<Rightarrow> string \<Rightarrow> nat \<Rightarrow> instant \<Rightarrow> ('n, 'net) pipeline
       \<Rightarrow> ('n resolution \<times> ('n, 'net) pipeline) option" where
  "resolve_cached dp request qname qtype now p =
     (case dp_from_ascii dp qname of
        None \<Rightarrow> Some (Resolved (set_rcode FormErr (response_skeleton dp request)) Synth, p)
      | Some name \<Rightarrow>
          (let key = \<lparr>ck_name = name, ck_type = qtype,
                 ck_class = (case ms_queries request of [] \<Rightarrow> CLASS_IN | q # _ \<Rightarrow> dq_class q)\<rparr> in
           do {
             (found, c) \<leftarrow> cache_get key now (pl_cache p);
             let p1 = p\<lparr>pl_cache := c\<rparr>;
             (case found of
                Fresh cached \<Rightarrow> Some (Resolved (restamp dp cached request) SrcCache, p1)
              | Stale cached \<Rightarrow> Some (Resolved (restamp dp cached request) SrcStale, spawn_refresh request key p1)
              | Miss \<Rightarrow>
                  if held key now (pl_failures p1) \<noteq> None
                  then Some (Resolved (synth_servfail dp request) FailureCached, p1)
                  else Some (Shared key, resolve_shared request qname key now p1))
           }))"

section \<open>Answering\<close>

text \<open>Every answer ends with its log record, and with the in-flight guard dropped.\<close>

definition answered :: "query_record \<Rightarrow> 'n message \<Rightarrow> nat \<Rightarrow> ('n, 'net) pipeline \<Rightarrow> ('n message \<times> ('n, 'net) pipeline)" where
  "answered lg resp elapsed p = (resp, (finish lg resp elapsed p)\<lparr>pl_in_flight := pl_in_flight p - 1\<rparr>)"

definition block_answer ::
    "('n, 'net) deps \<Rightarrow> 'n message \<Rightarrow> query_record \<Rightarrow> string \<Rightarrow> nat \<Rightarrow> nat \<Rightarrow> ('n, 'net) pipeline
       \<Rightarrow> ('n message \<times> ('n, 'net) pipeline) option" where
  "block_answer dp request lg qname qtype elapsed p = do {
     resp \<leftarrow> synth_block_response dp request;
     let (r, p1) = answered lg resp elapsed p;
     Some (r, shadow_tap request resp True qname qtype p1)
   }"

text \<open>The plain path after the resolution: the check of the CNAME chain with the policy the request
  started with.\<close>

definition complete_direct ::
    "('n, 'net) deps \<Rightarrow> 'net policy \<Rightarrow> 'n message \<Rightarrow> query_record \<Rightarrow> string \<Rightarrow> nat \<Rightarrow> 'n message \<Rightarrow> response_source
       \<Rightarrow> nat \<Rightarrow> ('n, 'net) pipeline \<Rightarrow> ('n message \<times> ('n, 'net) pipeline) option" where
  "complete_direct dp po request lg0 qname qtype resp source elapsed p =
     (let lg = lg0\<lparr>qr_source := source\<rparr> in
      do {
        hit \<leftarrow> (if qr_verdict lg \<noteq> Excepted then blocked_cname_target dp (po_engine po) (ms_answers resp) else Some None);
        (case hit of
           Some (target, list, rule) \<Rightarrow>
             block_answer dp request (lg\<lparr>qr_verdict := Blocked, qr_rule := Some (rule @ '' (CNAME target '' @ target @ '')''),
               qr_list := Some list\<rparr>) qname qtype elapsed p
         | None \<Rightarrow> do {
             let (r, p1) = answered lg resp elapsed p;
             Some (r, shadow_tap request resp False qname qtype p1)
           })
      })"

text \<open>The safe-search answer after the resolution of its target.\<close>

definition complete_target ::
    "query_record \<Rightarrow> 'n message \<Rightarrow> 'n message \<Rightarrow> nat \<Rightarrow> ('n, 'net) pipeline \<Rightarrow> ('n message \<times> ('n, 'net) pipeline)" where
  "complete_target lg resp target_resp elapsed p =
     (let resp' = (if rcode target_resp = NoError then fold add_answer (ms_answers target_resp) resp
                   else set_rcode (rcode target_resp) resp)
      in answered lg resp' elapsed p)"

definition complete ::
    "('n, 'net) deps \<Rightarrow> ('n, 'net) task \<Rightarrow> 'n message \<Rightarrow> response_source \<Rightarrow> nat \<Rightarrow> ('n, 'net) pipeline
       \<Rightarrow> ('n message \<times> ('n, 'net) pipeline) option" where
  "complete dp t resp source elapsed p =
     (case tk_cont t of
        Direct \<Rightarrow> complete_direct dp (tk_policy t) (tk_request t) (tk_log t) (tk_qname t) (tk_qtype t) resp source elapsed p
      | AfterTarget built \<Rightarrow> Some (complete_target (tk_log t) built resp elapsed p))"

datatype 'n outcome = Answer "'n message" | Pending

text \<open>A request whose resolution is known goes on at once; one that shares a lookup waits.\<close>

definition continue_with ::
    "('n, 'net) deps \<Rightarrow> nat \<Rightarrow> ('n, 'net) task \<Rightarrow> 'n resolution \<Rightarrow> nat \<Rightarrow> ('n, 'net) pipeline
       \<Rightarrow> ('n outcome \<times> ('n, 'net) pipeline) option" where
  "continue_with dp qid t res elapsed p =
     (case res of
        Resolved resp source \<Rightarrow> map_option (\<lambda>(r, p1). (Answer r, p1)) (complete dp t resp source elapsed p)
      | Shared key \<Rightarrow> Some (Pending, p\<lparr>pl_tasks := pl_tasks p @ [(qid, t\<lparr>tk_key := key\<rparr>)]\<rparr>))"

definition shed_overload ::
    "('n, 'net) deps \<Rightarrow> 'n message \<Rightarrow> ip_addr \<Rightarrow> int \<Rightarrow> nat \<Rightarrow> ('n, 'net) pipeline \<Rightarrow> 'n message \<times> ('n, 'net) pipeline" where
  "shed_overload dp request client ts elapsed p =
     answered
       (case ms_queries request of
          [] \<Rightarrow> new_log ts client [] 0 Failed
        | q # _ \<Rightarrow> new_log ts client (normalize_qname (dp_to_ascii dp (dq_name q))) (dq_type q) Failed)
       (synth_servfail dp request) elapsed p"

definition answer_safesearch ::
    "('n, 'net) deps \<Rightarrow> nat \<Rightarrow> ('n, 'net) task \<Rightarrow> string \<Rightarrow> instant \<Rightarrow> nat \<Rightarrow> ('n, 'net) pipeline
       \<Rightarrow> ('n outcome \<times> ('n, 'net) pipeline) option" where
  "answer_safesearch dp qid t target now elapsed p =
     (let request = tk_request t;
          resp = set_rcode NoError (response_skeleton dp request) in
      case (dp_from_ascii dp (tk_qname t @ ''.''), dp_from_ascii dp (target @ ''.'')) of
        (Some qname_name, Some target_name) \<Rightarrow>
          (let resp1 = add_answer (from_rdata qname_name SAFESEARCH_CNAME_TTL (RData_CNAME target_name)) resp;
               tq0 = add_query \<lparr>dq_name = target_name, dq_type = tk_qtype t, dq_class = CLASS_IN\<rparr>
                       (new_message (md_id (ms_metadata request)) MQuery OpQuery);
               target_query = tq0\<lparr>ms_metadata := (ms_metadata tq0)\<lparr>md_recursion_desired := True\<rparr>\<rparr>
           in do {
             (res, p1) \<leftarrow> resolve_cached dp target_query target (tk_qtype t) now p;
             continue_with dp qid (t\<lparr>tk_lookup_request := target_query, tk_cont := AfterTarget resp1\<rparr>) res elapsed p1
           })
      | _ \<Rightarrow> Some (map_prod Answer id (answered (tk_log t) (set_rcode ServFail resp) elapsed p)))"

definition with_verdict :: "verdict_t \<Rightarrow> query_record \<Rightarrow> query_record" where
  "with_verdict v lg =
     (case v of
        Block list rule \<Rightarrow> lg\<lparr>qr_verdict := Blocked, qr_rule := Some (mr_text rule), qr_list := Some list\<rparr>
      | Except list rule \<Rightarrow> lg\<lparr>qr_verdict := Excepted, qr_rule := Some (mr_text rule), qr_list := Some list\<rparr>
      | NoMatch \<Rightarrow> lg)"

definition handle_at ::
    "('n, 'net) deps \<Rightarrow> nat \<Rightarrow> 'n message \<Rightarrow> ip_addr \<Rightarrow> instant \<Rightarrow> int \<Rightarrow> nat \<Rightarrow> ('n, 'net) pipeline
       \<Rightarrow> ('n outcome \<times> ('n, 'net) pipeline) option" where
  "handle_at dp qid request client now ts elapsed p0 =
     (let p = p0\<lparr>pl_in_flight := pl_in_flight p0 + 1\<rparr>;
          done = (\<lambda>lg resp. Some (map_prod Answer id (answered lg resp elapsed p))) in
      if pl_in_flight p0 \<ge> MAX_IN_FLIGHT_QUERIES
      then Some (map_prod Answer id (shed_overload dp request client ts elapsed p))
      else
        (case ms_queries request of
           [] \<Rightarrow> done (new_log ts client [] 0 Synth) (set_rcode FormErr (response_skeleton dp request))
         | query # _ \<Rightarrow>
             (let qname = normalize_qname (dp_to_ascii dp (dq_name query));
                  qtype = dq_type query;
                  lg = new_log ts client qname qtype Synth;
                  po = pl_policy p in
              if \<not> client_allowed dp (po_allow po) client then done lg (synth_refused dp request)
              else if qtype = TYPE_ANY then done lg (synth_refused dp request)
              else do {
                v \<leftarrow> verdict (po_engine po) qname;
                let lg1 = with_verdict v lg;
                (case v of
                   Block _ _ \<Rightarrow> map_option (map_prod Answer id) (block_answer dp request lg1 qname qtype elapsed p)
                 | _ \<Rightarrow>
                     (let t = \<lparr>tk_request = request, tk_lookup_request = request,
                           tk_key = \<lparr>ck_name = dq_name query, ck_type = qtype, ck_class = dq_class query\<rparr>,
                           tk_wait = Waiting, tk_cont = Direct, tk_log = lg1, tk_policy = po, tk_qname = qname,
                           tk_qtype = qtype\<rparr> in
                      case rewrite (po_safesearch po) qname of
                        Some target \<Rightarrow>
                          answer_safesearch dp qid
                            (t\<lparr>tk_log := lg1\<lparr>qr_verdict := Rewritten, qr_rule := Some (''safe-search -> '' @ target)\<rparr>\<rparr>)
                            target now elapsed p
                      | None \<Rightarrow> do {
                          (res, p1) \<leftarrow> resolve_cached dp request qname qtype now p;
                          continue_with dp qid t res elapsed p1
                        }))
              })))"

section \<open>Leaders, waiters and refreshes\<close>

text \<open>How an upstream resolution ends: an answer, an error, or the death of the task that asked.\<close>

datatype 'n upstream_result = Answered "'n message" | AllUpstreamsFailed | TaskDied

definition wake :: "'n cache_key \<Rightarrow> 'n message option \<Rightarrow> (nat \<times> ('n, 'net) task) list \<Rightarrow> (nat \<times> ('n, 'net) task) list" where
  "wake key ans ts =
     map (\<lambda>(i, t). (i, if tk_key t = key \<and> tk_wait t = Waiting then t\<lparr>tk_wait := Published ans\<rparr> else t)) ts"

text \<open>The end of the leader task of \<open>key\<close>: file the answer or the failure, remove the key, publish.
  A task that dies removes its key and publishes nothing, which its subscribers see as an error.\<close>

definition publish ::
    "('n, 'net) deps \<Rightarrow> 'n cache_key \<Rightarrow> 'n upstream_result \<Rightarrow> ('n, 'net) pipeline \<Rightarrow> ('n, 'net) pipeline option" where
  "publish dp key result p =
     (case map_of (pl_lookups p) key of
        None \<Rightarrow> Some p
      | Some ld \<Rightarrow> do {
          (ans, p1) \<leftarrow> (case result of
              Answered answer \<Rightarrow> map_option (Pair (Some answer)) (settle dp key answer (ld_now ld) p)
            | AllUpstreamsFailed \<Rightarrow>
                Some (None, p\<lparr>pl_failures := snd (record_failure key (ld_now ld) (pl_failures p))\<rparr>)
            | TaskDied \<Rightarrow> Some (None, p));
          Some (p1\<lparr>pl_lookups := AList.delete key (pl_lookups p1), pl_tasks := wake key ans (pl_tasks p1)\<rparr>)
        })"

text \<open>A woken request: the rest of \<open>resolve_shared\<close> and of the handler.\<close>

definition resume ::
    "('n, 'net) deps \<Rightarrow> nat \<Rightarrow> nat \<Rightarrow> ('n, 'net) pipeline \<Rightarrow> ('n outcome \<times> ('n, 'net) pipeline) option" where
  "resume dp qid elapsed p =
     (case map_of (pl_tasks p) qid of
        None \<Rightarrow> Some (Pending, p)
      | Some t \<Rightarrow>
          (case tk_wait t of
             Waiting \<Rightarrow> Some (Pending, p)
           | Published ans \<Rightarrow>
               (let p1 = p\<lparr>pl_tasks := AList.delete qid (pl_tasks p)\<rparr>;
                    (resp, source) = (case ans of
                       Some answer \<Rightarrow> (restamp dp answer (tk_lookup_request t), SrcUpstream)
                     | None \<Rightarrow> (synth_servfail dp (tk_lookup_request t), Failed))
                in map_option (map_prod Answer id) (complete dp t resp source elapsed p1))))"

text \<open>A request whose future is dropped while it waits.\<close>

definition cancel :: "nat \<Rightarrow> ('n, 'net) pipeline \<Rightarrow> ('n, 'net) pipeline" where
  "cancel qid p =
     (case map_of (pl_tasks p) qid of
        None \<Rightarrow> p
      | Some _ \<Rightarrow> p\<lparr>pl_tasks := AList.delete qid (pl_tasks p), pl_in_flight := pl_in_flight p - 1\<rparr>)"

definition begin_refresh :: "'n cache_key \<Rightarrow> instant \<Rightarrow> ('n, 'net) pipeline \<Rightarrow> ('n, 'net) pipeline" where
  "begin_refresh key now p =
     (case map_of (pl_refreshing p) key of
        None \<Rightarrow> p
      | Some rf \<Rightarrow>
          if rf_now rf \<noteq> None then p
          else if held key now (pl_failures p) \<noteq> None
          then p\<lparr>pl_refreshing := AList.delete key (pl_refreshing p)\<rparr>
          else p\<lparr>pl_refreshing := AList.update key (rf\<lparr>rf_now := Some now\<rparr>) (pl_refreshing p)\<rparr>)"

definition end_refresh ::
    "('n, 'net) deps \<Rightarrow> 'n cache_key \<Rightarrow> 'n upstream_result \<Rightarrow> ('n, 'net) pipeline \<Rightarrow> ('n, 'net) pipeline option" where
  "end_refresh dp key result p =
     (case map_of (pl_refreshing p) key of
        None \<Rightarrow> Some p
      | Some rf \<Rightarrow>
          (case rf_now rf of
             None \<Rightarrow> Some p
           | Some now \<Rightarrow> do {
               p1 \<leftarrow> (case result of
                   Answered answer \<Rightarrow> settle dp key answer now p
                 | AllUpstreamsFailed \<Rightarrow> Some (p\<lparr>pl_failures := snd (record_failure key now (pl_failures p))\<rparr>)
                 | TaskDied \<Rightarrow> Some p);
               Some (p1\<lparr>pl_refreshing := AList.delete key (pl_refreshing p1)\<rparr>)
             }))"

section \<open>Construction and policy\<close>

definition from_policy :: "'net policy \<Rightarrow> ('n cache_key, 'n) inner \<Rightarrow> db_writer \<Rightarrow> ('n, 'net) pipeline" where
  "from_policy po c w =
     \<lparr>pl_policy = po, pl_cache = c, pl_failures = failcache_new, pl_in_flight = 0, pl_refreshing = [],
      pl_lookups = [], pl_tasks = [], pl_shadow = None, pl_writer = w\<rparr>"

definition pipeline_new ::
    "engine \<Rightarrow> ('n cache_key, 'n) inner \<Rightarrow> safe_search \<Rightarrow> db_writer \<Rightarrow> 'net list \<Rightarrow> ('n, 'net) pipeline" where
  "pipeline_new e c ss w nets = from_policy \<lparr>po_engine = e, po_safesearch = ss, po_allow = nets\<rparr> c w"

definition log_events_dropped :: "('n, 'net) pipeline \<Rightarrow> 64 word" where
  "log_events_dropped p = dropped (pl_writer p)"

definition set_shadow :: "socket_addr \<Rightarrow> ('n, 'net) pipeline \<Rightarrow> ('n, 'net) pipeline" where
  "set_shadow addr p = p\<lparr>pl_shadow := Some (shadow_new addr)\<rparr>"

definition install :: "'net policy \<Rightarrow> ('n, 'net) pipeline \<Rightarrow> ('n, 'net) pipeline" where
  "install po p = p\<lparr>pl_policy := po\<rparr>"

definition swap_policy :: "safe_search \<Rightarrow> 'net list \<Rightarrow> ('n, 'net) pipeline \<Rightarrow> ('n, 'net) pipeline" where
  "swap_policy ss nets p =
     install \<lparr>po_engine = po_engine (pl_policy p), po_safesearch = ss, po_allow = nets\<rparr> p"

definition swap_engine :: "engine \<Rightarrow> ('n, 'net) pipeline \<Rightarrow> ('n, 'net) pipeline" where
  "swap_engine e p = install ((pl_policy p)\<lparr>po_engine := e\<rparr>) p"

section \<open>Sockets\<close>

definition MAX_TCP_CONNECTIONS :: nat where "MAX_TCP_CONNECTIONS = 128"

definition udp_payload_limit :: "('n, 'net) deps \<Rightarrow> 'n message \<Rightarrow> nat" where
  "udp_payload_limit dp request = max 512 (min (dp_max_payload dp request) 1232)"

text \<open>What is sent for a datagram: the answer when it fits, its truncated form otherwise, nothing when
  the encoder fails.\<close>

definition udp_reply ::
    "('n, 'net) deps \<Rightarrow> ('n message \<Rightarrow> string option) \<Rightarrow> ('n message \<Rightarrow> 'n message) \<Rightarrow> 'n message \<Rightarrow> 'n message
       \<Rightarrow> string option" where
  "udp_reply dp to_vec trunc request response =
     (case to_vec response of
        Some bytes \<Rightarrow> if length bytes \<le> udp_payload_limit dp request then Some bytes else to_vec (trunc response)
      | None \<Rightarrow> None)"

text \<open>Whether an accepted connection is served: strangers are not, and at most the cap at once.\<close>

definition accept_tcp :: "('n, 'net) deps \<Rightarrow> ip_addr \<Rightarrow> nat \<Rightarrow> ('n, 'net) pipeline \<Rightarrow> bool" where
  "accept_tcp dp peer connections p \<longleftrightarrow>
     client_allowed dp (po_allow (pl_policy p)) peer \<and> connections < MAX_TCP_CONNECTIONS"

definition be_bytes :: "nat \<Rightarrow> string" where
  "be_bytes n = [char_of (n div 256), char_of (n mod 256)]"

definition tcp_frame :: "string \<Rightarrow> string option" where
  "tcp_frame bytes = (if length bytes < 2 ^ 16 then Some (be_bytes (length bytes) @ bytes) else None)"

text \<open>A TCP connection over everything the peer sends: the output written until the connection ends.
  \<open>read_exact\<close> fails when too little is left; a read that times out ends the connection the same way,
  so \<open>input\<close> is what arrives in time.  \<open>handle\<close> is the pipeline.\<close>

function serve_tcp_conn ::
    "(string \<Rightarrow> 'n message option) \<Rightarrow> ('n message \<Rightarrow> string option) \<Rightarrow> ('n message \<Rightarrow> 's \<Rightarrow> 'n message \<times> 's)
       \<Rightarrow> 's \<Rightarrow> string \<Rightarrow> string" where
  "serve_tcp_conn from_vec to_vec handle s input =
     (if length input < 2 then []
      else
        (let len = byte (input ! 0) * 256 + byte (input ! 1); rest = drop 2 input in
         if length rest < len then []
         else
           (case from_vec (take len rest) of
              None \<Rightarrow> []
            | Some request \<Rightarrow>
                (case handle request s of (response, s') \<Rightarrow>
                   (case to_vec response of
                      None \<Rightarrow> []
                    | Some bytes \<Rightarrow>
                        (case tcp_frame bytes of
                           None \<Rightarrow> []
                         | Some framed \<Rightarrow> framed @ serve_tcp_conn from_vec to_vec handle s' (drop len rest)))))))"
  by pat_completeness auto
termination
  by (relation "measure (\<lambda>(_, _, _, _, input). length input)") auto

declare serve_tcp_conn.simps [simp del]

end
