(* ===== verification/Server_Correct.thy ===== *)
theory Server_Correct
  imports Server Filter_Total Cache_Correct Db_Correct Assoc
begin

text \<open>
  Correctness of the request pipeline.  \<open>pipe_inv\<close> is the invariant of its state while \<open>k\<close>
  requests are between arrival and answer or wait; each operation is total and keeps it.  The
  machine at the end runs whole histories of arrivals, leader and refresh ends, wake-ups,
  cancellations, policy changes and comparisons; it interprets \<open>total_system\<close>.
\<close>

section \<open>Responses shaped for their request\<close>

definition shaped :: "'n message \<Rightarrow> 'n message \<Rightarrow> bool" where
  "shaped request m \<longleftrightarrow>
     md_id (ms_metadata m) = md_id (ms_metadata request)
   \<and> md_message_type (ms_metadata m) = MResponse
   \<and> md_recursion_desired (ms_metadata m) = md_recursion_desired (ms_metadata request)
   \<and> md_recursion_available (ms_metadata m)
   \<and> (ms_edns m = None \<longleftrightarrow> ms_edns request = None)
   \<and> (case ms_edns m of None \<Rightarrow> True | Some e \<Rightarrow> ed_dnssec_ok e = client_wants_dnssec request)"

text \<open>What is relied on of the message library: the two static names of the block answer are valid,
  and the removal of DNSSEC records leaves the header alone.\<close>

definition deps_ok :: "('n, 'net) deps \<Rightarrow> bool" where
  "deps_ok dp \<longleftrightarrow> dp_from_ascii dp BLOCK_SOA_MNAME \<noteq> None \<and> dp_from_ascii dp ''nobody.sumidero.invalid.'' \<noteq> None
     \<and> (\<forall>b m. ms_metadata (dp_strip_dnssec dp b m) = ms_metadata m)"

lemma fold_add_query [simp]: "ms_metadata (fold add_query qs m) = ms_metadata m"
  by (induction qs arbitrary: m) (auto simp: add_query_def)

lemma fold_add_answer [simp]:
  "ms_metadata (fold add_answer rs m) = ms_metadata m"
  "ms_edns (fold add_answer rs m) = ms_edns m"
  by (induction rs arbitrary: m) (auto simp: add_answer_def)

lemma apply_edns_metadata [simp]: "ms_metadata (apply_edns dp m request) = ms_metadata m"
  by (simp add: apply_edns_def Let_def)

lemma shaped_apply_edns:
  "shaped request (apply_edns dp m request) \<longleftrightarrow>
     md_id (ms_metadata m) = md_id (ms_metadata request)
   \<and> md_message_type (ms_metadata m) = MResponse
   \<and> md_recursion_desired (ms_metadata m) = md_recursion_desired (ms_metadata request)
   \<and> md_recursion_available (ms_metadata m)"
  by (auto simp: shaped_def apply_edns_def Let_def)

lemma shaped_skeleton [simp]: "shaped request (response_skeleton dp request)"
  by (simp add: response_skeleton_def Let_def shaped_apply_edns new_message_def)

lemma shaped_restamp: "deps_ok dp \<Longrightarrow> shaped request (restamp dp m request)"
  by (simp add: restamp_def Let_def shaped_apply_edns deps_ok_def)

lemma shaped_set_rcode [simp]: "shaped request (set_rcode c m) = shaped request m"
  by (simp add: shaped_def set_rcode_def)

lemma shaped_add [simp]:
  "shaped request (add_answer r m) = shaped request m"
  "shaped request (add_authority r m) = shaped request m"
  "shaped request (fold add_answer rs m) = shaped request m"
  by (simp_all add: shaped_def add_answer_def add_authority_def)

lemma synth_block_total:
  assumes "deps_ok dp"
  shows "\<exists>r. synth_block_response dp request = Some r \<and> shaped request r \<and> rcode r = NXDomain"
proof -
  have "rcode (add_authority x m) = rcode m" for x and m :: "'a message" by (simp add: add_authority_def)
  with assms show ?thesis
    by (auto simp: synth_block_response_def deps_ok_def Let_def) (simp add: set_rcode_def)
qed

section \<open>The invariant\<close>

definition built_engine :: "engine \<Rightarrow> bool" where
  "built_engine e \<longleftrightarrow> (\<exists>rs. eng_built e rs \<and> (\<forall>(l, r) \<in> set rs. rule_ok r))"

lemma built_verdict: "built_engine e \<Longrightarrow> \<exists>v. verdict e name = Some v"
  by (auto simp: built_engine_def intro: verdict_total)

definition task_ok :: "('n, 'net) task \<Rightarrow> bool" where
  "task_ok t \<longleftrightarrow> built_engine (po_engine (tk_policy t))
     \<and> (case tk_cont t of
          Direct \<Rightarrow> tk_lookup_request t = tk_request t
        | AfterTarget built \<Rightarrow> shaped (tk_request t) built)"

definition writer_ok :: "db_writer \<Rightarrow> bool" where
  "writer_ok w \<longleftrightarrow> length (dw_queue w) \<le> dw_capacity w"

definition store_inv :: "('n, 'net) pipeline \<Rightarrow> bool" where
  "store_inv p \<longleftrightarrow> (\<exists>L. cache_rep (pl_cache p) L) \<and> fc_inv (pl_failures p) \<and> writer_ok (pl_writer p)
     \<and> (case pl_shadow p of None \<Rightarrow> True | Some sh \<Rightarrow> shadow_ok sh)"

definition sched_inv :: "('n, 'net) pipeline \<Rightarrow> bool" where
  "sched_inv p \<longleftrightarrow>
     distinct (map fst (pl_tasks p)) \<and> distinct (map fst (pl_lookups p)) \<and> distinct (map fst (pl_refreshing p))
   \<and> (\<forall>(i, t) \<in> set (pl_tasks p). task_ok t \<and> (tk_wait t = Waiting \<longrightarrow> tk_key t \<in> fst ` set (pl_lookups p)))"

definition pipe_inv :: "nat \<Rightarrow> ('n, 'net) pipeline \<Rightarrow> bool" where
  "pipe_inv k p \<longleftrightarrow> built_engine (po_engine (pl_policy p)) \<and> store_inv p \<and> sched_inv p
     \<and> pl_in_flight p = length (pl_tasks p) + k \<and> length (pl_tasks p) \<le> MAX_IN_FLIGHT_QUERIES"

lemmas inv_defs = pipe_inv_def store_inv_def sched_inv_def

lemma log_writer_ok: "writer_ok w \<Longrightarrow> writer_ok (snd (log_event e w))"
  by (auto simp: writer_ok_def log_event_def try_send_def)

lemma answered_inv:
  "pipe_inv (Suc k) p \<Longrightarrow> \<exists>p'. answered lg resp elapsed p = (resp, p') \<and> pipe_inv k p' \<and> pl_tasks p' = pl_tasks p"
  by (simp add: answered_def finish_def inv_defs log_writer_ok)

lemma shadow_tap_inv: "pipe_inv k p \<Longrightarrow> pipe_inv k (shadow_tap request resp b qname qtype p)"
  by (auto simp: shadow_tap_def inv_defs spawn_compare_ok split: option.splits)

lemma shadow_tap_tasks [simp]: "pl_tasks (shadow_tap request resp b qname qtype p) = pl_tasks p"
  by (simp add: shadow_tap_def split: option.split)

text \<open>The result of a step that answers: an answer shaped for the request, in a state that keeps
  the invariant and the tasks.\<close>

definition answers :: "'n message \<Rightarrow> nat \<Rightarrow> ('n, 'net) pipeline \<Rightarrow> 'n message \<Rightarrow> ('n, 'net) pipeline \<Rightarrow> bool" where
  "answers request k p r p' \<longleftrightarrow> shaped request r \<and> pipe_inv k p' \<and> pl_tasks p' = pl_tasks p"

lemma answered_answers:
  "pipe_inv (Suc k) p \<Longrightarrow> shaped request resp \<Longrightarrow> \<exists>p'. answered lg resp elapsed p = (resp, p') \<and> answers request k p resp p'"
  using answered_inv [of k p lg resp elapsed] by (auto simp: answers_def)

lemma block_answer_total:
  assumes "deps_ok dp" "pipe_inv (Suc k) p"
  shows "\<exists>r p'. block_answer dp request lg qname qtype elapsed p = Some (r, p') \<and> answers request k p r p'"
proof -
  from synth_block_total [OF assms(1), of request] obtain r where r: "synth_block_response dp request = Some r" "shaped request r" by auto
  from answered_answers [OF assms(2) r(2), of lg elapsed] r show ?thesis
    by (auto simp: block_answer_def answers_def shadow_tap_inv)
qed

lemma blocked_cname_target_total: "built_engine e \<Longrightarrow> \<exists>h. blocked_cname_target dp e rs = Some h"
proof (induction rs)
  case (Cons r rs)
  show ?case
  proof (cases "dr_data r")
    case (RData_CNAME t)
    from built_verdict [OF Cons.prems] obtain v where "verdict e (normalize_qname (dp_to_ascii dp t)) = Some v" by blast
    with RData_CNAME Cons show ?thesis by (cases v) (auto simp: Let_def)
  qed (use Cons in auto)
qed simp

lemma complete_direct_total:
  assumes "deps_ok dp" "pipe_inv (Suc k) p" "built_engine (po_engine po)" "shaped request resp"
  shows "\<exists>r p'. complete_direct dp po request lg qname qtype resp source elapsed p = Some (r, p') \<and> answers request k p r p'"
proof -
  let ?lg = "lg\<lparr>qr_source := source\<rparr>"
  obtain hit where h: "(if qr_verdict ?lg \<noteq> Excepted then blocked_cname_target dp (po_engine po) (ms_answers resp) else Some None) = Some hit"
    using blocked_cname_target_total [OF assms(3)] by (cases "qr_verdict ?lg = Excepted") auto
  show ?thesis
  proof (cases hit)
    case None
    from answered_answers [OF assms(2,4), of ?lg elapsed] show ?thesis
      unfolding complete_direct_def Let_def h using None by (auto simp: answers_def shadow_tap_inv)
  next
    case (Some x)
    obtain target list rule where x: "x = (target, list, rule)" by (cases x)
    show ?thesis
      unfolding complete_direct_def Let_def h using Some block_answer_total [OF assms(1,2)] by (simp add: x)
  qed
qed

lemma complete_total:
  assumes "deps_ok dp" "pipe_inv (Suc k) p" "task_ok t" "tk_cont t = Direct \<Longrightarrow> shaped (tk_request t) resp"
  shows "\<exists>r p'. complete dp t resp source elapsed p = Some (r, p') \<and> answers (tk_request t) k p r p'"
proof (cases "tk_cont t")
  case Direct
  then show ?thesis
    unfolding complete_def using assms(3) complete_direct_total [OF assms(1,2) _ assms(4)] by (simp add: task_ok_def)
next
  case (AfterTarget built)
  then have "shaped (tk_request t) built" using assms(3) by (simp add: task_ok_def)
  then have "shaped (tk_request t) (if rcode resp = NoError then fold add_answer (ms_answers resp) built else set_rcode (rcode resp) built)"
    by simp
  from answered_answers [OF assms(2) this, of "tk_log t" elapsed] show ?thesis
    unfolding complete_def complete_target_def Let_def using AfterTarget by (auto simp: answers_def)
qed

section \<open>Operations keep the invariant\<close>

lemma cache_insert_total:
  assumes "cache_rep c L"
  shows "\<exists>c' L'. cache_insert wire k msg now c = Some c' \<and> cache_rep c' L'"
proof (cases "make_entry msg now")
  case (Some e)
  from cache_rep_insert [OF assms, of k e "entry_bytes wire msg"] Some show ?thesis by (auto simp: cache_insert_def)
qed (use assms in \<open>auto simp: cache_insert_def\<close>)

lemma settle_total:
  assumes "store_inv p"
  shows "\<exists>c f. settle dp key answer now p = Some (p\<lparr>pl_cache := c, pl_failures := f\<rparr>)
    \<and> store_inv (p\<lparr>pl_cache := c, pl_failures := f\<rparr>)"
proof -
  from assms obtain L where L: "cache_rep (pl_cache p) L" and f: "fc_inv (pl_failures p)" by (auto simp: store_inv_def)
  show ?thesis
  proof (cases "rcode answer = ServFail")
    case True
    have "store_inv (p\<lparr>pl_cache := pl_cache p, pl_failures := snd (record_failure key now (pl_failures p))\<rparr>)"
      using assms fm.rec_inv [OF f] by (simp add: store_inv_def)
    with True show ?thesis unfolding settle_def
      by (intro exI [of _ "pl_cache p"] exI [of _ "snd (record_failure key now (pl_failures p))"]) simp
  next
    case False
    from cache_insert_total [OF L, of "dp_wire_len dp" key answer now] obtain c L' where
      c: "cache_insert (dp_wire_len dp) key answer now (pl_cache p) = Some c" "cache_rep c L'" by blast
    have "store_inv (p\<lparr>pl_cache := c, pl_failures := clear key (pl_failures p)\<rparr>)"
      using assms fm.clr_inv [OF f] c(2) by (auto simp: store_inv_def)
    with False c(1) show ?thesis unfolding settle_def
      by (intro exI [of _ c] exI [of _ "clear key (pl_failures p)"]) simp
  qed
qed

lemma record_failure_store: "store_inv p \<Longrightarrow> store_inv (p\<lparr>pl_failures := snd (record_failure key now (pl_failures p))\<rparr>)"
  by (auto simp: store_inv_def fm.rec_inv)

lemma spawn_refresh_inv: "pipe_inv k p \<Longrightarrow> pipe_inv k (spawn_refresh request key p)"
  by (auto simp: spawn_refresh_def inv_defs map_of_eq_None_iff split: option.splits)

lemma spawn_refresh_tasks [simp]: "pl_tasks (spawn_refresh request key p) = pl_tasks p"
  by (simp add: spawn_refresh_def split: option.split)

lemma resolve_shared_inv: "pipe_inv k p \<Longrightarrow> pipe_inv k (resolve_shared request qname key now p)"
  by (fastforce simp: resolve_shared_def inv_defs map_of_eq_None_iff split: option.splits)

lemma resolve_shared_tasks [simp]: "pl_tasks (resolve_shared request qname key now p) = pl_tasks p"
  by (simp add: resolve_shared_def split: option.split)

lemma resolve_shared_key: "key \<in> fst ` set (pl_lookups (resolve_shared request qname key now p))"
  by (auto simp: resolve_shared_def split: option.split dest: map_of_SomeD intro!: rev_image_eqI)

definition resolution_ok :: "'n message \<Rightarrow> 'n resolution \<Rightarrow> ('n, 'net) pipeline \<Rightarrow> bool" where
  "resolution_ok request res p \<longleftrightarrow>
     (case res of Resolved r _ \<Rightarrow> shaped request r | Shared key \<Rightarrow> key \<in> fst ` set (pl_lookups p))"

lemma resolve_cached_total:
  assumes "deps_ok dp" "pipe_inv k p"
  shows "\<exists>res p'. resolve_cached dp request qname qtype now p = Some (res, p')
    \<and> pipe_inv k p' \<and> pl_tasks p' = pl_tasks p \<and> resolution_ok request res p'"
proof (cases "dp_from_ascii dp qname")
  case None
  then show ?thesis using assms by (simp add: resolve_cached_def resolution_ok_def)
next
  case (Some name)
  let ?key = "\<lparr>ck_name = name, ck_type = qtype, ck_class = (case ms_queries request of [] \<Rightarrow> CLASS_IN | q # _ \<Rightarrow> dq_class q)\<rparr>"
  from assms(2) obtain L where "cache_rep (pl_cache p) L" by (auto simp: inv_defs)
  from cache_rep_get [OF this, of ?key now] obtain found c L' where
    g: "cache_get ?key now (pl_cache p) = Some (found, c)" "cache_rep c L'" by auto
  let ?p1 = "p\<lparr>pl_cache := c\<rparr>"
  have p1: "pipe_inv k ?p1" using assms(2) g(2) by (auto simp: inv_defs)
  have sf: "shaped request (synth_servfail dp request)" by (simp add: synth_servfail_def)
  show ?thesis
    unfolding resolve_cached_def Some
    using g(1) spawn_refresh_inv [OF p1] resolve_shared_inv [OF p1] p1 sf shaped_restamp [OF assms(1)] resolve_shared_key
    by (cases found) (auto simp: Let_def resolution_ok_def)
qed

definition outcome_ok :: "nat \<Rightarrow> 'n message \<Rightarrow> ('n, 'net) pipeline \<Rightarrow> 'n outcome \<Rightarrow> ('n, 'net) pipeline \<Rightarrow> bool" where
  "outcome_ok qid request p out p' \<longleftrightarrow> pipe_inv 0 p' \<and>
     (case out of
        Answer r \<Rightarrow> shaped request r \<and> pl_tasks p' = pl_tasks p
      | Pending \<Rightarrow> \<exists>t. pl_tasks p' = pl_tasks p @ [(qid, t)] \<and> tk_request t = request)"

lemma answers_outcome: "answers request 0 p r p' \<Longrightarrow> outcome_ok qid request p (Answer r) p'"
  by (simp add: answers_def outcome_ok_def)

lemma continue_with_total:
  assumes "deps_ok dp" "pipe_inv 1 p" "length (pl_tasks p) < MAX_IN_FLIGHT_QUERIES" "task_ok t"
    and "resolution_ok (tk_lookup_request t) res p" "qid \<notin> fst ` set (pl_tasks p)"
  shows "\<exists>out p'. continue_with dp qid t res elapsed p = Some (out, p') \<and> outcome_ok qid (tk_request t) p out p'"
proof (cases res)
  case (Resolved resp source)
  have "shaped (tk_request t) resp" if "tk_cont t = Direct"
    using that assms(4,5) Resolved by (simp add: task_ok_def resolution_ok_def)
  with complete_total [OF assms(1) _ assms(4)] assms(2) Resolved show ?thesis
    by (fastforce simp: continue_with_def intro: answers_outcome)
next
  case (Shared key)
  have "task_ok (t\<lparr>tk_key := k\<rparr>)" for k using assms(4) by (simp add: task_ok_def split: continuation.splits)
  then have "pipe_inv 0 (p\<lparr>pl_tasks := pl_tasks p @ [(qid, t\<lparr>tk_key := key\<rparr>)]\<rparr>)"
    using assms Shared by (auto simp: inv_defs resolution_ok_def)
  with Shared show ?thesis by (simp add: continue_with_def outcome_ok_def)
qed

lemma outcome_tasks: "pl_tasks p1 = pl_tasks p \<Longrightarrow> outcome_ok qid request p1 out p' = outcome_ok qid request p out p'"
  by (simp add: outcome_ok_def split: outcome.splits)

lemma answer_safesearch_total:
  assumes "deps_ok dp" "pipe_inv 1 p" "length (pl_tasks p) < MAX_IN_FLIGHT_QUERIES" "built_engine (po_engine (tk_policy t))"
    and "qid \<notin> fst ` set (pl_tasks p)"
  shows "\<exists>out p'. answer_safesearch dp qid t target now elapsed p = Some (out, p') \<and> outcome_ok qid (tk_request t) p out p'"
proof -
  let ?resp = "set_rcode NoError (response_skeleton dp (tk_request t))"
  consider (names) q g where "dp_from_ascii dp (tk_qname t @ ''.'') = Some q" "dp_from_ascii dp (target @ ''.'') = Some g"
    | (bad) "dp_from_ascii dp (tk_qname t @ ''.'') = None \<or> dp_from_ascii dp (target @ ''.'') = None" by fastforce
  then show ?thesis
  proof cases
    case names
    let ?resp1 = "add_answer (from_rdata q SAFESEARCH_CNAME_TTL (RData_CNAME g)) ?resp"
    let ?tq0 = "add_query \<lparr>dq_name = g, dq_type = tk_qtype t, dq_class = CLASS_IN\<rparr> (new_message (md_id (ms_metadata (tk_request t))) MQuery OpQuery)"
    let ?tq = "?tq0\<lparr>ms_metadata := (ms_metadata ?tq0)\<lparr>md_recursion_desired := True\<rparr>\<rparr>"
    let ?t = "t\<lparr>tk_lookup_request := ?tq, tk_cont := AfterTarget ?resp1\<rparr>"
    from resolve_cached_total [OF assms(1,2), of ?tq target "tk_qtype t" now] obtain res p1 where
      r: "resolve_cached dp ?tq target (tk_qtype t) now p = Some (res, p1)" "pipe_inv 1 p1" "pl_tasks p1 = pl_tasks p"
         "resolution_ok ?tq res p1" by blast
    have "task_ok ?t" using assms(4) by (simp add: task_ok_def)
    moreover have "length (pl_tasks p1) < MAX_IN_FLIGHT_QUERIES" "qid \<notin> fst ` set (pl_tasks p1)" using assms(3,5) r(3) by simp_all
    moreover have "resolution_ok (tk_lookup_request ?t) res p1" using r(4) by simp
    ultimately obtain out p' where
      c: "continue_with dp qid ?t res elapsed p1 = Some (out, p')" "outcome_ok qid (tk_request ?t) p1 out p'"
      using continue_with_total [OF assms(1) r(2)] by blast
    then have o: "outcome_ok qid (tk_request t) p out p'" using outcome_tasks [OF r(3)] by simp
    show ?thesis using r(1) c(1) o unfolding answer_safesearch_def Let_def names by simp
  next
    case bad
    have "shaped (tk_request t) (set_rcode ServFail ?resp)" by simp
    from answered_answers [OF _ this, of 0 p "tk_log t" elapsed] assms(2) obtain p' where
      p': "answered (tk_log t) (set_rcode ServFail ?resp) elapsed p = (set_rcode ServFail ?resp, p')"
        "answers (tk_request t) 0 p (set_rcode ServFail ?resp) p'" by auto
    have "answer_safesearch dp qid t target now elapsed p = Some (Answer (set_rcode ServFail ?resp), p')"
      using bad p'(1) by (auto simp: answer_safesearch_def Let_def split: option.split)
    with answers_outcome [OF p'(2)] show ?thesis by blast
  qed
qed

lemma done_total:
  assumes "pipe_inv 1 p" "shaped request resp"
  shows "\<exists>out p'. Some (map_prod Answer id (answered lg resp elapsed p)) = Some (out, p') \<and> outcome_ok qid request p out p'"
  using answered_answers [OF _ assms(2), of 0 p lg elapsed] assms(1) by (auto simp: id_def intro: answers_outcome)

lemma handle_at_total:
  assumes dp: "deps_ok dp" and inv: "pipe_inv 0 p0" and q: "qid \<notin> fst ` set (pl_tasks p0)"
  shows "\<exists>out p'. handle_at dp qid request client now ts elapsed p0 = Some (out, p') \<and> outcome_ok qid request p0 out p'"
proof -
  define p where "p = p0\<lparr>pl_in_flight := pl_in_flight p0 + 1\<rparr>"
  have p: "pipe_inv 1 p" "pl_tasks p = pl_tasks p0" using inv by (auto simp: p_def inv_defs)
  have oc: "outcome_ok qid request p = outcome_ok qid request p0" using outcome_tasks [OF p(2)] by blast
  note [simp] = synth_refused_def synth_servfail_def
  note dn = done_total [OF p(1), of request, where qid = qid, unfolded oc]
  show ?thesis
  proof (cases "pl_in_flight p0 \<ge> MAX_IN_FLIGHT_QUERIES")
    case True
    then show ?thesis
      unfolding handle_at_def Let_def p_def [symmetric] shed_overload_def using dn by simp
  next
    case False
    then have lt: "length (pl_tasks p) < MAX_IN_FLIGHT_QUERIES" using inv p(2) by (simp add: pipe_inv_def)
    have qp: "qid \<notin> fst ` set (pl_tasks p)" using q p(2) by simp
    show ?thesis
    proof (cases "ms_queries request")
      case Nil
      then show ?thesis
        unfolding handle_at_def Let_def p_def [symmetric] using False dn by simp
    next
      case (Cons query rest)
      let ?qname = "normalize_qname (dp_to_ascii dp (dq_name query))" and ?po = "pl_policy p"
      let ?lg = "new_log ts client ?qname (dq_type query) Synth"
      have e: "built_engine (po_engine ?po)" using p(1) by (simp add: pipe_inv_def)
      then obtain v where v: "verdict (po_engine ?po) ?qname = Some v" using built_verdict by blast
      let ?t = "\<lparr>tk_request = request, tk_lookup_request = request,
        tk_key = \<lparr>ck_name = dq_name query, ck_type = dq_type query, ck_class = dq_class query\<rparr>,
        tk_wait = Waiting, tk_cont = Direct, tk_log = with_verdict v ?lg, tk_policy = ?po, tk_qname = ?qname,
        tk_qtype = dq_type query\<rparr> :: ('a, 'b) task"
      have go: "\<exists>out p'. (case rewrite (po_safesearch ?po) ?qname of
            Some target \<Rightarrow> answer_safesearch dp qid
              (?t\<lparr>tk_log := (with_verdict v ?lg)\<lparr>qr_verdict := Rewritten, qr_rule := Some (''safe-search -> '' @ target)\<rparr>\<rparr>)
              target now elapsed p
          | None \<Rightarrow> do { (res, p1) \<leftarrow> resolve_cached dp request ?qname (dq_type query) now p; continue_with dp qid ?t res elapsed p1 })
          = Some (out, p') \<and> outcome_ok qid request p0 out p'"
      proof (cases "rewrite (po_safesearch ?po) ?qname")
        case (Some target)
        let ?t' = "?t\<lparr>tk_log := (with_verdict v ?lg)\<lparr>qr_verdict := Rewritten, qr_rule := Some (''safe-search -> '' @ target)\<rparr>\<rparr>"
        have "built_engine (po_engine (tk_policy ?t'))" using e by simp
        from answer_safesearch_total [OF dp p(1) lt this qp, of target now elapsed] show ?thesis using Some by (simp add: oc)
      next
        case None
        from resolve_cached_total [OF dp p(1), of request ?qname "dq_type query" now] obtain res p1 where
          r: "resolve_cached dp request ?qname (dq_type query) now p = Some (res, p1)" "pipe_inv 1 p1" "pl_tasks p1 = pl_tasks p"
             "resolution_ok (tk_lookup_request ?t) res p1" by auto
        have "task_ok ?t" using e by (simp add: task_ok_def)
        moreover have "length (pl_tasks p1) < MAX_IN_FLIGHT_QUERIES" "qid \<notin> fst ` set (pl_tasks p1)" using lt qp r(3) by simp_all
        ultimately obtain out p' where
          c: "continue_with dp qid ?t res elapsed p1 = Some (out, p')" "outcome_ok qid (tk_request ?t) p1 out p'"
          using continue_with_total [OF dp r(2)] r(4) by blast
        then have "outcome_ok qid request p0 out p'" using outcome_tasks [OF r(3)] by (simp add: oc)
        then show ?thesis using None r(1) c(1) by simp
      qed
      have bl: "\<exists>out p'. map_option (map_prod Answer id) (block_answer dp request lg ?qname (dq_type query) elapsed p) = Some (out, p')
          \<and> outcome_ok qid request p0 out p'" for lg
        using block_answer_total [OF dp, of 0 p request lg ?qname "dq_type query" elapsed] p(1) answers_outcome [of request p, where qid = qid, unfolded oc]
        by auto
      consider "\<not> client_allowed dp (po_allow ?po) client \<or> dq_type query = TYPE_ANY"
        | list rule where "client_allowed dp (po_allow ?po) client" "dq_type query \<noteq> TYPE_ANY" "v = Block list rule"
        | "client_allowed dp (po_allow ?po) client" "dq_type query \<noteq> TYPE_ANY" "\<And>list rule. v \<noteq> Block list rule" by blast
      then show ?thesis
      proof cases
        case 1
        then show ?thesis unfolding handle_at_def Let_def p_def [symmetric] Cons using False dn by auto
      next
        case 2
        then show ?thesis unfolding handle_at_def Let_def p_def [symmetric] Cons using False v bl by simp
      next
        case 3
        have "(case v of Block _ _ \<Rightarrow> x | _ \<Rightarrow> y) = y" for x y :: "('a outcome \<times> ('a, 'b) pipeline) option"
          using 3(3) by (cases v) auto
        then show ?thesis unfolding handle_at_def Let_def p_def [symmetric] Cons using False v 3(1,2) go by simp
      qed
    qed
  qed
qed

lemma wake_simps:
  "map fst (wake key ans ts) = map fst ts"
  "length (wake key ans ts) = length ts"
  "(i, t) \<in> set (wake key ans ts) \<Longrightarrow> \<exists>t0. (i, t0) \<in> set ts \<and> tk_request t = tk_request t0 \<and> (task_ok t0 \<longrightarrow> task_ok t)
     \<and> (tk_wait t = Waiting \<longrightarrow> t = t0 \<and> tk_key t \<noteq> key)"
proof -
  show "map fst (wake key ans ts) = map fst ts" by (induction ts) (auto simp: wake_def)
  show "length (wake key ans ts) = length ts" by (simp add: wake_def)
  assume "(i, t) \<in> set (wake key ans ts)"
  then obtain t0 where "(i, t0) \<in> set ts"
      "t = (if tk_key t0 = key \<and> tk_wait t0 = Waiting then t0\<lparr>tk_wait := Published ans\<rparr> else t0)" by (auto simp: wake_def)
  then show "\<exists>t0. (i, t0) \<in> set ts \<and> tk_request t = tk_request t0 \<and> (task_ok t0 \<longrightarrow> task_ok t)
      \<and> (tk_wait t = Waiting \<longrightarrow> t = t0 \<and> tk_key t \<noteq> key)"
    by (auto simp: task_ok_def split: continuation.splits)
qed

text \<open>Only the stores differ: the scheduling part of the state is untouched.\<close>

definition same_sched :: "('n, 'net) pipeline \<Rightarrow> ('n, 'net) pipeline \<Rightarrow> bool" where
  "same_sched p p' \<longleftrightarrow> pl_policy p' = pl_policy p \<and> pl_in_flight p' = pl_in_flight p \<and> pl_refreshing p' = pl_refreshing p
     \<and> pl_lookups p' = pl_lookups p \<and> pl_tasks p' = pl_tasks p"

definition file_result ::
    "('n, 'net) deps \<Rightarrow> 'n cache_key \<Rightarrow> instant \<Rightarrow> 'n upstream_result \<Rightarrow> ('n, 'net) pipeline \<Rightarrow> ('n, 'net) pipeline option" where
  "file_result dp key now result p =
     (case result of
        Answered answer \<Rightarrow> settle dp key answer now p
      | AllUpstreamsFailed \<Rightarrow> Some (p\<lparr>pl_failures := snd (record_failure key now (pl_failures p))\<rparr>)
      | TaskDied \<Rightarrow> Some p)"

lemma file_result_total:
  assumes "store_inv p"
  shows "\<exists>p'. file_result dp key now result p = Some p' \<and> store_inv p' \<and> same_sched p p'"
proof (cases result)
  case (Answered answer)
  from settle_total [OF assms, of dp key answer now] Answered show ?thesis by (auto simp: file_result_def same_sched_def)
next
  case AllUpstreamsFailed
  then show ?thesis using record_failure_store [OF assms] by (simp add: file_result_def same_sched_def)
qed (use assms in \<open>simp add: file_result_def same_sched_def\<close>)

definition result_answer :: "'n upstream_result \<Rightarrow> 'n message option" where
  "result_answer result = (case result of Answered answer \<Rightarrow> Some answer | _ \<Rightarrow> None)"

lemma publish_alt:
  "publish dp key result p =
     (case map_of (pl_lookups p) key of
        None \<Rightarrow> Some p
      | Some ld \<Rightarrow> map_option (\<lambda>p1. p1\<lparr>pl_lookups := AList.delete key (pl_lookups p1),
            pl_tasks := wake key (result_answer result) (pl_tasks p1)\<rparr>) (file_result dp key (ld_now ld) result p))"
  by (auto simp: publish_def file_result_def result_answer_def map_option_case split: option.split upstream_result.split)

lemma end_refresh_alt:
  "end_refresh dp key result p =
     (case map_of (pl_refreshing p) key of
        None \<Rightarrow> Some p
      | Some rf \<Rightarrow> (case rf_now rf of
          None \<Rightarrow> Some p
        | Some now \<Rightarrow> map_option (\<lambda>p1. p1\<lparr>pl_refreshing := AList.delete key (pl_refreshing p1)\<rparr>) (file_result dp key now result p)))"
  by (auto simp: end_refresh_def file_result_def map_option_case split: option.split upstream_result.split)

lemma publish_total:
  assumes "pipe_inv 0 p"
  shows "\<exists>p'. publish dp key result p = Some p' \<and> pipe_inv 0 p' \<and> pl_lookups p' = AList.delete key (pl_lookups p)
    \<and> (pl_tasks p' = pl_tasks p \<or> pl_tasks p' = wake key (result_answer result) (pl_tasks p))"
proof (cases "map_of (pl_lookups p) key")
  case None
  then have "AList.delete key (pl_lookups p) = pl_lookups p" by (simp add: map_of_eq_None_iff delete_id)
  with None assms show ?thesis by (simp add: publish_alt)
next
  case (Some ld)
  from file_result_total [of p dp key "ld_now ld" result] assms obtain p1 where
    p1: "file_result dp key (ld_now ld) result p = Some p1" "store_inv p1" "same_sched p p1" by (auto simp: pipe_inv_def)
  let ?ts = "wake key (result_answer result) (pl_tasks p)" and ?ls = "AList.delete key (pl_lookups p)"
  let ?p = "p1\<lparr>pl_lookups := ?ls, pl_tasks := ?ts\<rparr>"
  have sc: "sched_inv p" using assms by (simp add: pipe_inv_def)
  have "task_ok t \<and> (tk_wait t = Waiting \<longrightarrow> tk_key t \<in> fst ` set ?ls)" if it: "(i, t) \<in> set ?ts" for i t
    using wake_simps(3) [OF it] sc by (fastforce simp: sched_inv_def dom_map_of_conv_image_fst [symmetric] delete_conv')
  then have "sched_inv ?p" using sc p1(3) by (auto simp: sched_inv_def same_sched_def wake_simps distinct_delete)
  then have "pipe_inv 0 ?p" using assms p1 by (simp add: pipe_inv_def same_sched_def store_inv_def wake_simps)
  then show ?thesis using Some p1 by (simp add: publish_alt same_sched_def)
qed

lemma take_task:
  assumes "pipe_inv 0 p" "map_of (pl_tasks p) qid = Some t"
  shows "pipe_inv 1 (p\<lparr>pl_tasks := AList.delete qid (pl_tasks p)\<rparr>) \<and> task_ok t \<and> (qid, t) \<in> set (pl_tasks p)
    \<and> mset (pl_tasks p) = add_mset (qid, t) (mset (AList.delete qid (pl_tasks p)))"
proof -
  have m: "mset (pl_tasks p) = add_mset (qid, t) (mset (AList.delete qid (pl_tasks p)))"
    using assms by (intro mset_delete) (auto simp: inv_defs)
  then have "length (pl_tasks p) = Suc (length (AList.delete qid (pl_tasks p)))" by (metis size_add_mset size_mset)
  moreover have "set (AList.delete qid (pl_tasks p)) \<subseteq> set (pl_tasks p)" by (rule subsetI, erule delete_sub)
  ultimately show ?thesis
    using assms m by (auto simp: inv_defs distinct_delete dest!: map_of_SomeD)
qed

lemma resume_total:
  assumes "deps_ok dp" "pipe_inv 0 p" "map_of (pl_tasks p) qid = Some t" "tk_wait t \<noteq> Waiting"
  shows "\<exists>r p'. resume dp qid elapsed p = Some (Answer r, p') \<and> pipe_inv 0 p' \<and> shaped (tk_request t) r
    \<and> pl_tasks p' = AList.delete qid (pl_tasks p)"
proof -
  from assms(4) obtain ans where w: "tk_wait t = Published ans" by (cases "tk_wait t") auto
  let ?p1 = "p\<lparr>pl_tasks := AList.delete qid (pl_tasks p)\<rparr>"
  from take_task [OF assms(2,3)] have p1: "pipe_inv (Suc 0) ?p1" and t: "task_ok t" by simp_all
  have e: "tk_lookup_request t = tk_request t" if "tk_cont t = Direct" using that t by (simp add: task_ok_def)
  show ?thesis
  proof (cases ans)
    case (Some answer)
    from complete_total [OF assms(1) p1 t, of "restamp dp answer (tk_lookup_request t)" SrcUpstream elapsed]
    show ?thesis using Some assms(3) w e by (auto simp: resume_def answers_def shaped_restamp [OF assms(1)])
  next
    case None
    from complete_total [OF assms(1) p1 t, of "synth_servfail dp (tk_lookup_request t)" Failed elapsed]
    show ?thesis using None assms(3) w e by (auto simp: resume_def answers_def synth_servfail_def)
  qed
qed

lemma resume_waits: "map_of (pl_tasks p) qid = None \<or> (\<exists>t. map_of (pl_tasks p) qid = Some t \<and> tk_wait t = Waiting)
    \<Longrightarrow> resume dp qid elapsed p = Some (Pending, p)"
  by (auto simp: resume_def)

lemma cancel_inv: "pipe_inv 0 p \<Longrightarrow> pipe_inv 0 (cancel qid p)"
proof (cases "map_of (pl_tasks p) qid")
  case (Some t)
  assume "pipe_inv 0 p"
  from take_task [OF this Some] Some show ?thesis by (auto simp: cancel_def inv_defs)
qed (simp add: cancel_def)

lemma begin_refresh_inv: "pipe_inv 0 p \<Longrightarrow> pipe_inv 0 (begin_refresh key now p)"
  by (auto simp: begin_refresh_def inv_defs distinct_delete distinct_update split: option.split)

lemma begin_refresh_tasks [simp]: "pl_tasks (begin_refresh key now p) = pl_tasks p"
  by (simp add: begin_refresh_def split: option.split)

lemma end_refresh_total:
  assumes "pipe_inv 0 p"
  shows "\<exists>p'. end_refresh dp key result p = Some p' \<and> pipe_inv 0 p' \<and> pl_tasks p' = pl_tasks p"
proof (cases "\<exists>rf now. map_of (pl_refreshing p) key = Some rf \<and> rf_now rf = Some now")
  case True
  then obtain rf now where r: "map_of (pl_refreshing p) key = Some rf" "rf_now rf = Some now" by blast
  from file_result_total [of p dp key now result] assms obtain p1 where
    p1: "file_result dp key now result p = Some p1" "store_inv p1" "same_sched p p1" by (auto simp: pipe_inv_def)
  have "pipe_inv 0 (p1\<lparr>pl_refreshing := AList.delete key (pl_refreshing p1)\<rparr>)"
    using assms p1(2,3) by (auto simp: inv_defs same_sched_def distinct_delete)
  then show ?thesis using r p1 by (simp add: end_refresh_alt same_sched_def)
next
  case False
  then show ?thesis using assms by (auto simp: end_refresh_alt split: option.split)
qed

section \<open>Histories\<close>

text \<open>The pipeline together with what happened: the requests that arrived, the answers given and the
  requests given up by their clients.\<close>

record ('n, 'net) machine =
  mc_pipe :: "('n, 'net) pipeline"
  mc_arrived :: "(nat \<times> 'n message) list"
  mc_answers :: "(nat \<times> 'n message) list"
  mc_cancelled :: "nat list"

datatype ('n, 'net) event =
    Arrive nat "'n message" ip_addr instant int nat
  | Publish "'n cache_key" "'n upstream_result"
  | Resume nat nat
  | Cancel nat
  | BeginRefresh "'n cache_key" instant
  | EndRefresh "'n cache_key" "'n upstream_result"
  | Install "'net policy"
  | Compare nat "string + 'n message" int

definition note_answer :: "nat \<Rightarrow> 'n outcome \<Rightarrow> ('n, 'net) machine \<Rightarrow> ('n, 'net) machine" where
  "note_answer qid out s = (case out of Answer r \<Rightarrow> s\<lparr>mc_answers := mc_answers s @ [(qid, r)]\<rparr> | Pending \<Rightarrow> s)"

definition end_compare ::
    "('n, 'net) deps \<Rightarrow> nat \<Rightarrow> string + 'n message \<Rightarrow> int \<Rightarrow> ('n, 'net) pipeline \<Rightarrow> ('n, 'net) pipeline" where
  "end_compare dp i reply ts p =
     (case pl_shadow p of
        None \<Rightarrow> p
      | Some sh \<Rightarrow>
          (case finish_compare (dp_show_rcode dp) i reply ts sh (pl_writer p) of
             None \<Rightarrow> p
           | Some (sh', w) \<Rightarrow> p\<lparr>pl_shadow := Some sh', pl_writer := w\<rparr>))"

text \<open>A request identifier stands for one call of \<open>handle\<close>, so it arrives once.\<close>

fun machine_step :: "('n, 'net) deps \<Rightarrow> ('n, 'net) event \<Rightarrow> ('n, 'net) machine \<Rightarrow> ('n, 'net) machine option" where
  "machine_step dp (Arrive qid request client now ts elapsed) s =
     (if qid \<in> set (map fst (mc_arrived s)) then Some s
      else do {
        (out, p) \<leftarrow> handle_at dp qid request client now ts elapsed (mc_pipe s);
        Some (note_answer qid out (s\<lparr>mc_pipe := p, mc_arrived := mc_arrived s @ [(qid, request)]\<rparr>))
      })"
| "machine_step dp (Publish key result) s = do {
     p \<leftarrow> publish dp key result (mc_pipe s);
     Some (s\<lparr>mc_pipe := p\<rparr>)
   }"
| "machine_step dp (Resume qid elapsed) s = do {
     (out, p) \<leftarrow> resume dp qid elapsed (mc_pipe s);
     Some (note_answer qid out (s\<lparr>mc_pipe := p\<rparr>))
   }"
| "machine_step dp (Cancel qid) s =
     (case map_of (pl_tasks (mc_pipe s)) qid of
        None \<Rightarrow> Some s
      | Some _ \<Rightarrow> Some (s\<lparr>mc_pipe := cancel qid (mc_pipe s), mc_cancelled := mc_cancelled s @ [qid]\<rparr>))"
| "machine_step dp (BeginRefresh key now) s = Some (s\<lparr>mc_pipe := begin_refresh key now (mc_pipe s)\<rparr>)"
| "machine_step dp (EndRefresh key result) s = do {
     p \<leftarrow> end_refresh dp key result (mc_pipe s);
     Some (s\<lparr>mc_pipe := p\<rparr>)
   }"
| "machine_step dp (Install po) s = Some (s\<lparr>mc_pipe := install po (mc_pipe s)\<rparr>)"
| "machine_step dp (Compare i reply ts) s = Some (s\<lparr>mc_pipe := end_compare dp i reply ts (mc_pipe s)\<rparr>)"

definition machine_start :: "('n, 'net) pipeline \<Rightarrow> ('n, 'net) machine" where
  "machine_start p = \<lparr>mc_pipe = p, mc_arrived = [], mc_answers = [], mc_cancelled = []\<rparr>"

text \<open>A policy may be installed when its engine was compiled from list texts within the limits.\<close>

definition compiled_engine :: "engine \<Rightarrow> bool" where
  "compiled_engine e \<longleftrightarrow> (\<exists>srt texts. compile srt texts = Some e \<and> sort_ok srt \<and> length texts \<le> 2 ^ 16
     \<and> seq_size (rules_of texts) < 2 ^ 32)"

definition event_ok :: "('n, 'net) event \<Rightarrow> bool" where
  "event_ok ev \<longleftrightarrow> (case ev of Install po \<Rightarrow> compiled_engine (po_engine po) | _ \<Rightarrow> True)"

lemma compiled_built: "compiled_engine e \<Longrightarrow> built_engine e"
  using compile_built rules_of_ok by (fastforce simp: compiled_engine_def built_engine_def)

definition fates :: "('n, 'net) machine \<Rightarrow> nat multiset" where
  "fates s = mset (map fst (mc_answers s)) + mset (map fst (pl_tasks (mc_pipe s))) + mset (mc_cancelled s)"

definition machine_inv :: "('n, 'net) machine \<Rightarrow> bool" where
  "machine_inv s \<longleftrightarrow> pipe_inv 0 (mc_pipe s) \<and> distinct (map fst (mc_arrived s)) \<and> fates s = mset (map fst (mc_arrived s))
     \<and> (\<forall>(q, m) \<in> set (mc_answers s). \<exists>r. (q, r) \<in> set (mc_arrived s) \<and> shaped r m)
     \<and> (\<forall>(q, t) \<in> set (pl_tasks (mc_pipe s)). (q, tk_request t) \<in> set (mc_arrived s))"

lemma end_compare_inv: "pipe_inv 0 p \<Longrightarrow> pipe_inv 0 (end_compare dp i reply ts p) \<and> pl_tasks (end_compare dp i reply ts p) = pl_tasks p"
proof (cases "pl_shadow p")
  case (Some sh)
  assume p: "pipe_inv 0 p"
  then have sh: "shadow_ok sh" "writer_ok (pl_writer p)" using Some by (simp_all add: inv_defs)
  show ?thesis
  proof (cases "finish_compare (dp_show_rcode dp) i reply ts sh (pl_writer p)")
    case None
    then show ?thesis using p Some by (simp add: end_compare_def)
  next
    case f: (Some x)
    obtain sh' w where x: "x = (sh', w)" by (cases x)
    have "writer_ok w" using f sh(2) unfolding x
      by (auto simp: finish_compare_def Let_def log_writer_ok split: if_splits sum.splits option.splits prod.splits)
    with finish_compare_ok [OF sh(1)] f x p Some show ?thesis by (auto simp: end_compare_def inv_defs)
  qed
qed (simp add: end_compare_def)

text \<open>A step that leaves the tasks and the account alone keeps the machine's invariant.\<close>

lemma machine_inv_pipe:
  "machine_inv s \<Longrightarrow> pipe_inv 0 p \<Longrightarrow> pl_tasks p = pl_tasks (mc_pipe s) \<Longrightarrow> machine_inv (s\<lparr>mc_pipe := p\<rparr>)"
  by (simp add: machine_inv_def fates_def)

lemma arrive_total:
  assumes "deps_ok dp" "machine_inv s"
  shows "\<exists>s'. machine_step dp (Arrive qid request client now ts elapsed) s = Some s' \<and> machine_inv s'"
proof (cases "qid \<in> set (map fst (mc_arrived s))")
  case True
  then show ?thesis using assms by simp
next
  case False
  have "fates s = mset (map fst (mc_arrived s))" using assms(2) by (simp add: machine_inv_def)
  with False have "qid \<notin># fates s" by simp
  then have "qid \<notin> fst ` set (pl_tasks (mc_pipe s))" by (simp add: fates_def)
  moreover have "pipe_inv 0 (mc_pipe s)" using assms(2) by (simp add: machine_inv_def)
  ultimately obtain out p' where
    h: "handle_at dp qid request client now ts elapsed (mc_pipe s) = Some (out, p')" "outcome_ok qid request (mc_pipe s) out p'"
    using handle_at_total [OF assms(1)] by blast
  have "machine_inv (note_answer qid out (s\<lparr>mc_pipe := p', mc_arrived := mc_arrived s @ [(qid, request)]\<rparr>))"
    using assms(2) False h(2)
    by (cases out) (auto simp: machine_inv_def fates_def note_answer_def outcome_ok_def)
  then show ?thesis using False h(1) by simp
qed

lemma publish_step_total:
  assumes "machine_inv s"
  shows "\<exists>s'. machine_step dp (Publish key result) s = Some s' \<and> machine_inv s'"
proof -
  from assms publish_total [of "mc_pipe s" dp key result] obtain p' where
    p': "publish dp key result (mc_pipe s) = Some p'" "pipe_inv 0 p'"
      "pl_tasks p' = pl_tasks (mc_pipe s) \<or> pl_tasks p' = wake key (result_answer result) (pl_tasks (mc_pipe s))"
    by (auto simp: machine_inv_def)
  have f: "map fst (pl_tasks p') = map fst (pl_tasks (mc_pipe s))" using p'(3) wake_simps(1) by metis
  have "(q, tk_request t) \<in> set (mc_arrived s)" if "(q, t) \<in> set (pl_tasks p')" for q t
    using p'(3) that wake_simps(3) [of q t key "result_answer result" "pl_tasks (mc_pipe s)"] assms
    by (fastforce simp: machine_inv_def)
  moreover have "fates (s\<lparr>mc_pipe := p'\<rparr>) = fates s" by (simp add: fates_def f del: mset_map)
  ultimately show ?thesis using p'(1,2) assms by (auto simp: machine_inv_def)
qed

lemma take_task_fates:
  assumes "machine_inv s" "map_of (pl_tasks (mc_pipe s)) qid = Some t"
  shows "fates s = add_mset qid (mset (map fst (mc_answers s))
      + mset (map fst (AList.delete qid (pl_tasks (mc_pipe s)))) + mset (mc_cancelled s))
    \<and> (qid, tk_request t) \<in> set (mc_arrived s) \<and> set (AList.delete qid (pl_tasks (mc_pipe s))) \<subseteq> set (pl_tasks (mc_pipe s))"
proof -
  from take_task [OF _ assms(2)] assms(1) have
    t: "(qid, t) \<in> set (pl_tasks (mc_pipe s))"
       "mset (pl_tasks (mc_pipe s)) = add_mset (qid, t) (mset (AList.delete qid (pl_tasks (mc_pipe s))))"
    by (auto simp: machine_inv_def)
  then have "set (AList.delete qid (pl_tasks (mc_pipe s))) \<subseteq> set (pl_tasks (mc_pipe s))"
    by (metis insert_iff set_mset_add_mset_insert set_mset_mset subsetI)
  with t assms(1) show ?thesis by (auto simp: fates_def machine_inv_def)
qed

lemma resume_step_total:
  assumes "deps_ok dp" "machine_inv s"
  shows "\<exists>s'. machine_step dp (Resume qid elapsed) s = Some s' \<and> machine_inv s'"
proof (cases "\<exists>t. map_of (pl_tasks (mc_pipe s)) qid = Some t \<and> tk_wait t \<noteq> Waiting")
  case True
  then obtain t where t: "map_of (pl_tasks (mc_pipe s)) qid = Some t" "tk_wait t \<noteq> Waiting" by blast
  have "pipe_inv 0 (mc_pipe s)" using assms(2) by (simp add: machine_inv_def)
  from resume_total [OF assms(1) this t, of elapsed] obtain r p' where
    r: "resume dp qid elapsed (mc_pipe s) = Some (Answer r, p')" "pipe_inv 0 p'" "shaped (tk_request t) r"
       "pl_tasks p' = AList.delete qid (pl_tasks (mc_pipe s))" by blast
  from take_task_fates [OF assms(2) t(1)] r(2-4) assms(2)
  have "machine_inv (note_answer qid (Answer r) (s\<lparr>mc_pipe := p'\<rparr>))"
    by (auto simp: machine_inv_def fates_def note_answer_def)
  with r(1) show ?thesis by simp
next
  case False
  then have "resume dp qid elapsed (mc_pipe s) = Some (Pending, mc_pipe s)" by (intro resume_waits) (metis not_None_eq)
  with assms(2) show ?thesis by (simp add: note_answer_def)
qed

lemma cancel_step_total:
  assumes "machine_inv s"
  shows "\<exists>s'. machine_step dp (Cancel qid) s = Some s' \<and> machine_inv s'"
proof (cases "map_of (pl_tasks (mc_pipe s)) qid")
  case (Some t)
  have c: "pl_tasks (cancel qid (mc_pipe s)) = AList.delete qid (pl_tasks (mc_pipe s))" using Some by (simp add: cancel_def)
  have "pipe_inv 0 (cancel qid (mc_pipe s))" using assms by (auto simp: machine_inv_def intro: cancel_inv)
  with take_task_fates [OF assms Some] assms c Some show ?thesis by (auto simp: machine_inv_def fates_def)
qed (use assms in simp)

lemma machine_step_total:
  assumes "deps_ok dp" "machine_inv s" "event_ok ev"
  shows "\<exists>s'. machine_step dp ev s = Some s' \<and> machine_inv s'"
proof -
  have p: "pipe_inv 0 (mc_pipe s)" using assms(2) by (simp add: machine_inv_def)
  show ?thesis
  proof (cases ev)
    case (BeginRefresh key now)
    then show ?thesis using machine_inv_pipe [OF assms(2) begin_refresh_inv [OF p]] by simp
  next
    case (EndRefresh key result)
    from end_refresh_total [OF p, of dp key result] obtain p' where
      "end_refresh dp key result (mc_pipe s) = Some p'" "pipe_inv 0 p'" "pl_tasks p' = pl_tasks (mc_pipe s)" by blast
    then show ?thesis using EndRefresh machine_inv_pipe [OF assms(2)] by simp
  next
    case (Install po)
    then have "built_engine (po_engine po)" using assms(3) compiled_built by (simp add: event_ok_def)
    then have "pipe_inv 0 (install po (mc_pipe s))" using p by (simp add: inv_defs install_def)
    then show ?thesis using Install machine_inv_pipe [OF assms(2)] by (simp add: install_def)
  next
    case (Compare i reply ts)
    then show ?thesis using machine_inv_pipe [OF assms(2)] end_compare_inv [OF p] by simp
  qed (simp_all only: arrive_total [OF assms(1,2)] publish_step_total [OF assms(2)] resume_step_total [OF assms(1,2)]
      cancel_step_total [OF assms(2)])
qed

interpretation pm: total_system "machine_step dp" event_ok "\<lambda>s. deps_ok dp \<and> machine_inv s" for dp
  by unfold_locales (use machine_step_total in fastforce)+

text \<open>A pipeline as \<open>daemon.rs\<close> makes it, with or without shadow mode.\<close>

definition started :: "('n, 'net) pipeline \<Rightarrow> bool" where
  "started p \<longleftrightarrow> (\<exists>e c ss w nets cap mb st. with_limits cap mb st = Some c \<and> cap \<le> NONE \<and> compiled_engine e \<and> writer_ok w
     \<and> (p = pipeline_new e c ss w nets \<or> (\<exists>addr. p = set_shadow addr (pipeline_new e c ss w nets))))"

lemma started_inv:
  assumes "started p"
  shows "machine_inv (machine_start p)"
proof -
  from assms obtain e c cap mb st where c: "with_limits cap mb st = Some c" "cap \<le> NONE" "pl_cache p = c" "compiled_engine e"
      "po_engine (pl_policy p) = e" "writer_ok (pl_writer p)" "pl_failures p = failcache_new" "pl_tasks p = []" "pl_in_flight p = 0"
      "pl_lookups p = []" "pl_refreshing p = []" "case pl_shadow p of None \<Rightarrow> True | Some sh \<Rightarrow> shadow_ok sh"
    by (fastforce simp: started_def pipeline_new_def from_policy_def set_shadow_def shadow_new_ok)
  have "cache_rep (pl_cache p) []" using with_limits_rep [OF c(1,2)] c(3) by simp
  moreover have "fc_inv (pl_failures p)" by (simp add: c(7) fc_inv_def failcache_new_def)
  ultimately have "pipe_inv 0 p" using c compiled_built by (auto simp: inv_defs)
  then show ?thesis by (simp add: machine_inv_def machine_start_def fates_def c(8))
qed

lemma run_started:
  assumes "deps_ok dp" "started p" "list_all event_ok evs"
  shows "\<exists>s. run (machine_step dp) evs (machine_start p) = Some s \<and> machine_inv s"
  using pm.run_total [of dp "machine_start p" evs] started_inv [OF assms(2)] assms(1,3) by blast

lemma run_publish:
  assumes "machine_inv s"
  shows "\<exists>s'. run (machine_step dp) (map (\<lambda>k. Publish k (R k)) ks) s = Some s' \<and> machine_inv s'
    \<and> fst ` set (pl_lookups (mc_pipe s')) = fst ` set (pl_lookups (mc_pipe s)) - set ks
    \<and> map fst (pl_tasks (mc_pipe s')) = map fst (pl_tasks (mc_pipe s))
    \<and> mc_arrived s' = mc_arrived s \<and> mc_cancelled s' = mc_cancelled s"
  using assms
proof (induction ks arbitrary: s)
  case (Cons k ks)
  from publish_step_total [OF Cons.prems, of dp k "R k"] obtain s1 where
    s1: "machine_step dp (Publish k (R k)) s = Some s1" "machine_inv s1" by blast
  from publish_total [of "mc_pipe s" dp k "R k"] Cons.prems s1(1) have
    p1: "pl_lookups (mc_pipe s1) = AList.delete k (pl_lookups (mc_pipe s))"
      "pl_tasks (mc_pipe s1) = pl_tasks (mc_pipe s) \<or> pl_tasks (mc_pipe s1) = wake k (result_answer (R k)) (pl_tasks (mc_pipe s))"
      "mc_arrived s1 = mc_arrived s" "mc_cancelled s1 = mc_cancelled s"
    by (auto simp: machine_inv_def)
  have "fst ` set (pl_lookups (mc_pipe s1)) = fst ` set (pl_lookups (mc_pipe s)) - {k}"
    unfolding p1(1) by (simp add: dom_map_of_conv_image_fst [symmetric] delete_conv')
  moreover have "map fst (pl_tasks (mc_pipe s1)) = map fst (pl_tasks (mc_pipe s))" using p1(2) wake_simps(1) by metis
  ultimately show ?case using Cons.IH [OF s1(2)] s1(1) p1(3,4) by (auto simp del: machine_step.simps)
qed simp

lemma run_resume:
  assumes "deps_ok dp" "machine_inv s" "\<forall>(q, t) \<in> set (pl_tasks (mc_pipe s)). tk_wait t \<noteq> Waiting"
    and "fst ` set (pl_tasks (mc_pipe s)) \<subseteq> set qs"
  shows "\<exists>s'. run (machine_step dp) (map (\<lambda>q. Resume q (E q)) qs) s = Some s' \<and> machine_inv s'
    \<and> pl_tasks (mc_pipe s') = [] \<and> mc_arrived s' = mc_arrived s \<and> mc_cancelled s' = mc_cancelled s"
  using assms(2-)
proof (induction qs arbitrary: s)
  case (Cons q qs)
  let ?ts = "pl_tasks (mc_pipe s)"
  from resume_step_total [OF assms(1) Cons.prems(1), of q "E q"] obtain s1 where
    s1: "machine_step dp (Resume q (E q)) s = Some s1" "machine_inv s1" by blast
  have p: "pipe_inv 0 (mc_pipe s)" using Cons.prems(1) by (simp add: machine_inv_def)
  have d: "pl_tasks (mc_pipe s1) = AList.delete q ?ts \<and> mc_arrived s1 = mc_arrived s \<and> mc_cancelled s1 = mc_cancelled s"
  proof (cases "map_of ?ts q")
    case None
    then have "AList.delete q ?ts = ?ts" by (simp add: map_of_eq_None_iff)
    with s1(1) None show ?thesis by (auto simp: resume_waits note_answer_def)
  next
    case (Some t)
    then have "tk_wait t \<noteq> Waiting" using Cons.prems(2) by (auto dest: map_of_SomeD)
    from resume_total [OF assms(1) p Some this, of "E q"] s1(1) show ?thesis by (auto simp: note_answer_def)
  qed
  have "\<forall>(q, t) \<in> set (AList.delete q ?ts). tk_wait t \<noteq> Waiting"
    by (rule ballI, drule delete_sub, rule bspec [OF Cons.prems(2)])
  moreover have "fst ` set (AList.delete q ?ts) \<subseteq> set qs"
    using Cons.prems(3) by (auto simp: dom_map_of_conv_image_fst [symmetric] delete_conv' split: if_splits)
  ultimately show ?case using Cons.IH [OF s1(2)] d s1(1) by (auto simp del: machine_step.simps)
qed simp

section \<open>Properties\<close>

text \<open>C2: whatever sequence of arrivals, ends of leaders and refreshes, wake-ups, cancellations,
  policy changes and comparisons happens, no step of the pipeline panics, the in-flight counter is the
  number of requests that wait, and it never exceeds the limit.\<close>
theorem pipeline_never_panics:
  assumes "deps_ok dp" "started p" "list_all event_ok evs"
  shows "\<exists>s. run (machine_step dp) evs (machine_start p) = Some s
    \<and> pl_in_flight (mc_pipe s) = length (pl_tasks (mc_pipe s)) \<and> pl_in_flight (mc_pipe s) \<le> MAX_IN_FLIGHT_QUERIES"
  using run_started [OF assms] by (auto simp: machine_inv_def pipe_inv_def)

text \<open>C25: after any history, every request that arrived has been answered exactly once, or still
  waits, or was given up by its client; and every answer carries the identifier of its request, is a
  response, echoes \<open>RD\<close>, sets \<open>RA\<close>, has an EDNS part exactly when the request has one and mirrors
  its \<open>DO\<close> bit.\<close>
theorem answered_once_and_shaped:
  assumes "deps_ok dp" "started p" "list_all event_ok evs" "run (machine_step dp) evs (machine_start p) = Some s"
  shows "distinct (map fst (mc_arrived s)) \<and> mset (map fst (mc_arrived s)) = fates s
    \<and> (\<forall>(q, m) \<in> set (mc_answers s). \<exists>request. map_of (mc_arrived s) q = Some request \<and> shaped request m)"
  using run_started [OF assms(1-3)] assms(4) by (fastforce simp: machine_inv_def)

text \<open>C31: after any history, at most one lookup and at most one refresh is under way for a key, and
  every request that waits for a lookup waits for one that is under way.\<close>
theorem lookups_single_flight:
  assumes "deps_ok dp" "started p" "list_all event_ok evs" "run (machine_step dp) evs (machine_start p) = Some s"
  shows "distinct (map fst (pl_lookups (mc_pipe s))) \<and> distinct (map fst (pl_refreshing (mc_pipe s)))
    \<and> (\<forall>(q, t) \<in> set (pl_tasks (mc_pipe s)). tk_wait t = Waiting \<longrightarrow> tk_key t \<in> fst ` set (pl_lookups (mc_pipe s)))"
  using run_started [OF assms(1-3)] assms(4) by (fastforce simp: machine_inv_def pipe_inv_def sched_inv_def)

text \<open>C4: no request waits for ever: after any history, once every lookup under way ends, with an
  answer, an error or the death of its task, and the waiting requests run again, none waits, the
  in-flight counter is back to zero and every request that was not given up has its answer.\<close>
theorem requests_drain:
  assumes "deps_ok dp" "started p" "list_all event_ok evs" "run (machine_step dp) evs (machine_start p) = Some s"
  shows "\<exists>s'. run (machine_step dp) (map (\<lambda>k. Publish k (R k)) (map fst (pl_lookups (mc_pipe s)))
        @ map (\<lambda>q. Resume q (E q)) (map fst (pl_tasks (mc_pipe s)))) s = Some s'
    \<and> pl_tasks (mc_pipe s') = [] \<and> pl_in_flight (mc_pipe s') = 0
    \<and> mset (map fst (mc_arrived s)) = mset (map fst (mc_answers s')) + mset (mc_cancelled s)"
proof -
  have s: "machine_inv s" using run_started [OF assms(1-3)] assms(4) by auto
  from run_publish [OF s, of dp R "map fst (pl_lookups (mc_pipe s))"] obtain s1 where
    s1: "run (machine_step dp) (map (\<lambda>k. Publish k (R k)) (map fst (pl_lookups (mc_pipe s)))) s = Some s1" "machine_inv s1"
      "fst ` set (pl_lookups (mc_pipe s1)) = {}" "map fst (pl_tasks (mc_pipe s1)) = map fst (pl_tasks (mc_pipe s))"
      "mc_arrived s1 = mc_arrived s" "mc_cancelled s1 = mc_cancelled s" by auto
  have "\<forall>(q, t) \<in> set (pl_tasks (mc_pipe s1)). tk_wait t \<noteq> Waiting"
    using s1(2,3) by (fastforce simp: machine_inv_def pipe_inv_def sched_inv_def)
  moreover have "fst ` set (pl_tasks (mc_pipe s1)) \<subseteq> set (map fst (pl_tasks (mc_pipe s)))"
    unfolding s1(4) [symmetric] by simp
  ultimately obtain s2 where
    s2: "run (machine_step dp) (map (\<lambda>q. Resume q (E q)) (map fst (pl_tasks (mc_pipe s)))) s1 = Some s2" "machine_inv s2"
      "pl_tasks (mc_pipe s2) = []" "mc_arrived s2 = mc_arrived s1" "mc_cancelled s2 = mc_cancelled s1"
    using run_resume [OF assms(1) s1(2)] by blast
  then have "run (machine_step dp) (map (\<lambda>k. Publish k (R k)) (map fst (pl_lookups (mc_pipe s)))
      @ map (\<lambda>q. Resume q (E q)) (map fst (pl_tasks (mc_pipe s)))) s = Some s2"
    unfolding run_append s1(1) by simp
  with s2 s1(5,6) show ?thesis by (auto simp: machine_inv_def fates_def pipe_inv_def)
qed

text \<open>How a request is turned away before anything is resolved, in the order of the handler.\<close>

definition turned_away :: "('n, 'net) deps \<Rightarrow> 'n message \<Rightarrow> ip_addr \<Rightarrow> ('n, 'net) pipeline \<Rightarrow> response_code option" where
  "turned_away dp request client p =
     (if pl_in_flight p \<ge> MAX_IN_FLIGHT_QUERIES then Some ServFail
      else (case ms_queries request of
        [] \<Rightarrow> Some FormErr
      | q # _ \<Rightarrow>
          if \<not> client_allowed dp (po_allow (pl_policy p)) client \<or> dq_type q = TYPE_ANY then Some Refused
          else (case verdict (po_engine (pl_policy p)) (normalize_qname (dp_to_ascii dp (dq_name q))) of
             Some (Block _ _) \<Rightarrow> Some NXDomain | _ \<Rightarrow> None)))"

text \<open>Two states that differ in the log and in shadow mode only, with one record more in the log.\<close>

definition only_logged :: "response_code \<Rightarrow> ip_addr \<Rightarrow> ('n, 'net) pipeline \<Rightarrow> ('n, 'net) pipeline \<Rightarrow> bool" where
  "only_logged c client p p' \<longleftrightarrow> same_sched p p' \<and> pl_cache p' = pl_cache p \<and> pl_failures p' = pl_failures p
     \<and> (\<exists>rec. qr_rcode rec = rcode_num c \<and> qr_client rec = client
          \<and> pl_writer p' = snd (log_event (LogQuery rec) (pl_writer p)))"

lemma skeleton_rcode: "rcode (set_rcode c m) = c" "ms_answers (set_rcode c m) = ms_answers m"
  by (simp_all add: set_rcode_def)

lemma fold_add_query_answers [simp]: "ms_answers (fold add_query qs m) = ms_answers m"
  by (induction qs arbitrary: m) (auto simp: add_query_def)

lemma skeleton_answers [simp]: "ms_answers (response_skeleton dp request) = []"
  by (simp add: response_skeleton_def Let_def apply_edns_def new_message_def)

lemma answered_only_logged:
  assumes "rcode resp = c" "qr_client lg = client" "ms_answers resp = []"
  shows "\<exists>p'. answered lg resp elapsed (p\<lparr>pl_in_flight := pl_in_flight p + 1\<rparr>) = (resp, p') \<and> only_logged c client p p'"
  using assms by (simp add: answered_def finish_def only_logged_def same_sched_def)
    (rule exI [of _ "lg\<lparr>qr_rcode := rcode_num c, qr_duration_us := (case try_u32 elapsed of Some d \<Rightarrow> d | None \<Rightarrow> u32_max)\<rparr>"], simp)

lemma block_only_logged:
  assumes "deps_ok dp" "qr_client lg = client"
  shows "\<exists>r p'. block_answer dp request lg qname qtype elapsed (p\<lparr>pl_in_flight := pl_in_flight p + 1\<rparr>) = Some (r, p')
    \<and> rcode r = NXDomain \<and> ms_answers r = [] \<and> only_logged NXDomain client p p'"
proof -
  from synth_block_total [OF assms(1), of request] obtain r where r: "synth_block_response dp request = Some r" "rcode r = NXDomain" by auto
  moreover have a: "ms_answers r = []"
    using r(1) by (auto simp: synth_block_response_def Let_def add_authority_def set_rcode_def split: bind_splits)
  ultimately show ?thesis using answered_only_logged [OF r(2) assms(2) a, of elapsed p]
    by (auto simp: block_answer_def shadow_tap_def only_logged_def same_sched_def split: option.split)
qed

text \<open>C26: policy comes first: a request over the limit, without a question, from a client outside the
  allowed networks, of type \<open>ANY\<close> or for a blocked name is answered at once, with \<open>SERVFAIL\<close>,
  \<open>FORMERR\<close>, \<open>REFUSED\<close> or \<open>NXDOMAIN\<close> and no answer record, one log record is written with that
  code, and the cache, the failure cache, the lookups, the refreshes, the policy and the in-flight
  counter stay as they were.\<close>
theorem policy_comes_first:
  assumes "deps_ok dp" "turned_away dp request client p = Some c"
  shows "\<exists>r p'. handle_at dp qid request client now ts elapsed p = Some (Answer r, p')
    \<and> rcode r = c \<and> ms_answers r = [] \<and> only_logged c client p p'"
proof -
  have cl: "qr_client (new_log ts client a b s) = client" "qr_client (with_verdict v lg) = qr_client lg" for a b s v lg
    by (auto simp: new_log_def with_verdict_def split: verdict_t.split)
  have dn: "\<exists>r p'. map_prod Answer id (answered lg (set_rcode c (response_skeleton dp request)) elapsed (p\<lparr>pl_in_flight := pl_in_flight p + 1\<rparr>))
      = (Answer r, p') \<and> rcode r = c \<and> ms_answers r = [] \<and> only_logged c client p p'" if "qr_client lg = client" for lg
    using answered_only_logged [of "set_rcode c (response_skeleton dp request)" c lg client elapsed p] that
    by (auto simp: skeleton_rcode)
  show ?thesis
  proof (cases "pl_in_flight p \<ge> MAX_IN_FLIGHT_QUERIES")
    case True
    then show ?thesis using assms(2) dn
      by (auto simp: turned_away_def handle_at_def Let_def shed_overload_def synth_servfail_def cl split: list.split)
  next
    case False
    show ?thesis
    proof (cases "ms_queries request")
      case Nil
      then show ?thesis using assms(2) dn False by (auto simp: turned_away_def handle_at_def Let_def cl)
    next
      case (Cons q qs)
      show ?thesis
      proof (cases "client_allowed dp (po_allow (pl_policy p)) client \<and> dq_type q \<noteq> TYPE_ANY")
        case True
        then obtain l r where v: "verdict (po_engine (pl_policy p)) (normalize_qname (dp_to_ascii dp (dq_name q))) = Some (Block l r)"
            and c: "c = NXDomain"
          using assms(2) Cons False by (auto simp: turned_away_def split: option.splits verdict_t.splits)
        show ?thesis using block_only_logged [OF assms(1), of "with_verdict (Block l r)
            (new_log ts client (normalize_qname (dp_to_ascii dp (dq_name q))) (dq_type q) Synth)"] True False
          unfolding c by (simp add: handle_at_def Let_def Cons v cl)
      next
        case denied: False
        then have "c = Refused" using assms(2) Cons False by (auto simp: turned_away_def)
        then show ?thesis using denied dn False by (auto simp: handle_at_def Let_def Cons synth_refused_def cl)
      qed
    qed
  qed
qed

text \<open>An answer whose CNAME chain passes through a name the engine blocks.\<close>

definition cloaked :: "('n, 'net) deps \<Rightarrow> engine \<Rightarrow> 'n message \<Rightarrow> bool" where
  "cloaked dp e m \<longleftrightarrow> list_ex (\<lambda>r. case dr_data r of
       RData_CNAME t \<Rightarrow> (case verdict e (normalize_qname (dp_to_ascii dp t)) of Some (Block _ _) \<Rightarrow> True | _ \<Rightarrow> False)
     | _ \<Rightarrow> False) (ms_answers m)"

lemma blocked_cname_target_iff:
  "blocked_cname_target dp e (ms_answers m) = Some h \<Longrightarrow> h \<noteq> None \<longleftrightarrow> cloaked dp e m"
  unfolding cloaked_def
proof (induction "ms_answers m" arbitrary: m)
  case (Cons r rs)
  from Cons.hyps(1) [of "m\<lparr>ms_answers := rs\<rparr>"] Cons.hyps(2) [symmetric] Cons.prems show ?case
    by (cases "dr_data r") (auto simp: Let_def split: bind_splits verdict_t.splits)
next
  case Nil
  then show ?case by (simp add: Nil.hyps [symmetric])
qed


text \<open>The responses a connection's requests get, in order.\<close>

fun responses :: "('n message \<Rightarrow> 's \<Rightarrow> 'n message \<times> 's) \<Rightarrow> 's \<Rightarrow> 'n message list \<Rightarrow> 'n message list" where
  "responses handle s [] = []"
| "responses handle s (m # ms) = (case handle m s of (r, s') \<Rightarrow> r # responses handle s' ms)"

definition frames :: "('n message \<Rightarrow> string option) \<Rightarrow> 'n message list \<Rightarrow> string" where
  "frames to_vec ms = concat (map (\<lambda>m. the (tcp_frame (the (to_vec m)))) ms)"

lemma be_bytes_length [simp]:
  assumes "n < 2 ^ 16"
  shows "byte (be_bytes n ! 0) * 256 + byte (be_bytes n ! 1) = n" "length (be_bytes n) = 2"
  using assms by (simp_all add: be_bytes_def)

lemma tcp_frames_served:
  assumes "\<forall>m \<in> set ms. \<exists>b. to_vec m = Some b \<and> length b < 2 ^ 16 \<and> from_vec b = Some m"
    and "\<forall>r \<in> set (responses handle s ms). \<exists>b. to_vec r = Some b \<and> length b < 2 ^ 16"
  shows "serve_tcp_conn from_vec to_vec handle s (frames to_vec ms) = frames to_vec (responses handle s ms)"
  using assms
proof (induction ms arbitrary: s)
  case Nil
  show ?case by (subst serve_tcp_conn.simps) (simp add: frames_def)
next
  case (Cons m ms)
  obtain b where b: "to_vec m = Some b" "length b < 2 ^ 16" "from_vec b = Some m" using Cons.prems(1) by auto
  obtain r s' where r: "handle m s = (r, s')" by fastforce
  obtain c where c: "to_vec r = Some c" "length c < 2 ^ 16" using Cons.prems(2) r by auto
  have f: "frames to_vec (m # ms) = be_bytes (length b) @ b @ frames to_vec ms"
    using b by (simp add: frames_def tcp_frame_def)
  have l: "length (be_bytes (length b)) = 2" using b(2) by (rule be_bytes_length)
  then have n: "byte ((be_bytes (length b) @ xs) ! 0) * 256 + byte ((be_bytes (length b) @ xs) ! 1) = length b" for xs
    using be_bytes_length(1) [OF b(2)] by (simp add: nth_append)
  note n' = n [unfolded One_nat_def]
  have "serve_tcp_conn from_vec to_vec handle s (frames to_vec (m # ms))
      = be_bytes (length c) @ c @ serve_tcp_conn from_vec to_vec handle s' (frames to_vec ms)"
    unfolding f using b c l
    by (subst serve_tcp_conn.simps) (simp add: n' r tcp_frame_def Let_def)
  also have "\<dots> = frames to_vec (responses handle s (m # ms))"
    using Cons.IH [of s'] Cons.prems r c by (simp add: frames_def tcp_frame_def)
  finally show ?case .
qed

text \<open>C40: on a TCP connection the length framing round-trips: when the peer sends the frames of its
  requests one after the other, the connection writes exactly the frames of their responses, in
  the same order, whatever the pipeline does with them.\<close>
theorem tcp_serves_in_order:
  assumes "\<forall>m \<in> set ms. \<exists>b. to_vec m = Some b \<and> length b < 2 ^ 16 \<and> from_vec b = Some m"
    and "\<forall>r \<in> set (responses handle s ms). \<exists>b. to_vec r = Some b \<and> length b < 2 ^ 16"
  shows "serve_tcp_conn from_vec to_vec handle s (frames to_vec ms) = frames to_vec (responses handle s ms)"
  by (rule tcp_frames_served [OF assms])

section \<open>Witnesses\<close>

text \<open>Names as their text, one network that contains every client.\<close>

definition ex_deps :: "(string, nat) deps" where
  "ex_deps = \<lparr>dp_to_ascii = (\<lambda>n. n), dp_from_ascii = Some, dp_contains = (\<lambda>_ _. True), dp_strip_dnssec = (\<lambda>_ m. m),
     dp_wire_len = (\<lambda>_. Some 40), dp_edns_new = \<lparr>ed_max_payload = 512, ed_dnssec_ok = False, ed_rest = []\<rparr>,
     dp_max_payload = (\<lambda>_. 512), dp_show_rcode = (\<lambda>_. [])\<rparr>"

definition ex_request :: "string message" where
  "ex_request = add_query \<lparr>dq_name = ''x.ads.com.'', dq_type = 1, dq_class = 1\<rparr> (new_message 7 MQuery OpQuery)"

definition ex_client :: ip_addr where
  "ex_client = V4 [127, 0, 0, 1]"

definition ex_history :: "(string, nat) event list" where
  "ex_history = [Arrive 1 ex_request ex_client 0 0 5, Publish \<lparr>ck_name = ''x.ads.com'', ck_type = 1, ck_class = 1\<rparr> TaskDied, Resume 1 9]"

lemma ex_deps_ok: "deps_ok ex_deps"
  by (simp add: deps_ok_def ex_deps_def)

lemma ex_history_ok: "list_all event_ok ex_history"
  by (simp add: ex_history_def event_ok_def)

lemma ex_engine: "\<exists>e. compile (\<lambda>f xs. sort_key f xs) [''||ads.com^''] = Some e \<and> compiled_engine e
    \<and> (\<exists>l r. verdict e ''x.ads.com'' = Some (Block l r))"
proof -
  have 1: "length [''||ads.com^''] \<le> 2 ^ 16" by simp
  have 2: "seq_size (rules_of [''||ads.com^'']) < 2 ^ 32" by code_simp
  have 3: "CHR ''*'' \<notin> set ''x.ads.com''" "\<not> ends_with ''..'' ''x.ads.com''" by code_simp+
  have 4: "naive_verdict (map snd (rules_of [''||ads.com^''])) ''x.ads.com'' = KBlock" by code_simp
  have 5: "\<forall>(l, r) \<in> set (rules_of [''||ads.com^'']). rule_ok r" using rules_of_ok by blast
  from compile_built [OF sort_ok_sort_key 1 2] obtain e where
    e: "compile (\<lambda>f xs. sort_key f xs) [''||ads.com^''] = Some e" "eng_built e (rules_of [''||ads.com^''])" by auto
  from verdict_spec [OF e(2) 5 3] 4 have "\<exists>l r. verdict e ''x.ads.com'' = Some (Block l r)"
    by (auto elim: kind_of.elims)
  moreover have "compiled_engine e" unfolding compiled_engine_def using e(1) sort_ok_sort_key 1 2 by blast
  ultimately show ?thesis using e(1) by blast
qed

lemma ex_started: "\<exists>p :: (string, nat) pipeline. started p"
proof -
  from ex_engine obtain e where "compiled_engine e" by blast
  moreover have "\<exists>c :: (string cache_key, string) inner. with_limits 4 1000 60 = Some c" by (simp add: with_limits_def)
  moreover have "writer_ok \<lparr>dw_queue = [], dw_capacity = 4, dw_drops = 0\<rparr>" by (simp add: writer_ok_def)
  moreover have "4 \<le> NONE" by (simp add: NONE_def u64_max_def)
  ultimately show ?thesis unfolding started_def by blast
qed

theorem pipeline_never_panics_witness:
  "\<exists>(p :: (string, nat) pipeline) s. started p \<and> run (machine_step ex_deps) ex_history (machine_start p) = Some s"
  using ex_started pipeline_never_panics [OF ex_deps_ok _ ex_history_ok] by blast

theorem answered_once_and_shaped_witness:
  "\<exists>(p :: (string, nat) pipeline) s. started p \<and> run (machine_step ex_deps) ex_history (machine_start p) = Some s
    \<and> mset (map fst (mc_arrived s)) = fates s"
  using ex_started run_started [OF ex_deps_ok _ ex_history_ok] answered_once_and_shaped [OF ex_deps_ok _ ex_history_ok] by blast

theorem lookups_single_flight_witness:
  "\<exists>(p :: (string, nat) pipeline) s. started p \<and> run (machine_step ex_deps) ex_history (machine_start p) = Some s
    \<and> distinct (map fst (pl_lookups (mc_pipe s)))"
  using ex_started run_started [OF ex_deps_ok _ ex_history_ok] lookups_single_flight [OF ex_deps_ok _ ex_history_ok] by blast

theorem requests_drain_witness:
  "\<exists>(p :: (string, nat) pipeline) s s'. started p \<and> run (machine_step ex_deps) ex_history (machine_start p) = Some s
    \<and> run (machine_step ex_deps) (map (\<lambda>k. Publish k TaskDied) (map fst (pl_lookups (mc_pipe s)))
        @ map (\<lambda>q. Resume q 0) (map fst (pl_tasks (mc_pipe s)))) s = Some s' \<and> pl_in_flight (mc_pipe s') = 0"
  using ex_started run_started [OF ex_deps_ok _ ex_history_ok]
    requests_drain [OF ex_deps_ok _ ex_history_ok, where R = "\<lambda>_. TaskDied" and E = "\<lambda>_. 0"] by blast

lemma ex_qname: "normalize_qname ''x.ads.com.'' = ''x.ads.com''"
  by code_simp

definition ex_pipeline :: "engine \<Rightarrow> (string, nat) pipeline" where
  "ex_pipeline e = pipeline_new e (the (with_limits 4 1000 60)) \<lparr>ss_enabled = 0\<rparr> \<lparr>dw_queue = [], dw_capacity = 4, dw_drops = 0\<rparr> [1]"

theorem policy_comes_first_witness:
  "\<exists>e r p'. compiled_engine e \<and> handle_at ex_deps 1 ex_request ex_client 0 0 5 (ex_pipeline e) = Some (Answer r, p')
    \<and> rcode r = NXDomain \<and> ms_answers r = []"
proof -
  from ex_engine obtain e l r where e: "compiled_engine e" "verdict e ''x.ads.com'' = Some (Block l r)" by blast
  have "turned_away ex_deps ex_request ex_client (ex_pipeline e) = Some NXDomain"
    by (simp add: turned_away_def ex_pipeline_def pipeline_new_def from_policy_def MAX_IN_FLIGHT_QUERIES_def ex_request_def
        add_query_def new_message_def ex_deps_def client_allowed_def TYPE_ANY_def ex_qname e(2))
  from policy_comes_first [OF ex_deps_ok this] e(1) show ?thesis by blast
qed

definition ex_answer :: "string message" where
  "ex_answer = add_answer (from_rdata ''w.org.'' 60 (RData_CNAME ''x.ads.com.'')) ex_request"

definition ex_task :: "engine \<Rightarrow> (string, nat) task" where
  "ex_task e = \<lparr>tk_request = ex_request, tk_lookup_request = ex_request,
     tk_key = \<lparr>ck_name = ''w.org'', ck_type = 1, ck_class = 1\<rparr>, tk_wait = Waiting, tk_cont = Direct,
     tk_log = new_log 0 ex_client ''w.org'' 1 Synth, tk_policy = pl_policy (ex_pipeline e), tk_qname = ''w.org'', tk_qtype = 1\<rparr>"


theorem tcp_serves_in_order_witness:
  "serve_tcp_conn (\<lambda>b. if b = ''q'' then Some ex_request else None) (\<lambda>m. if m = ex_request then Some ''q'' else Some ''reply'')
     (\<lambda>m n. (set_rcode ServFail m, Suc n)) (0 :: nat) (frames (\<lambda>m. if m = ex_request then Some ''q'' else Some ''reply'') [ex_request])
   = be_bytes (length ''reply'') @ ''reply''"
proof -
  have n: "set_rcode ServFail ex_request \<noteq> ex_request"
    by (simp add: ex_request_def set_rcode_def add_query_def new_message_def)
  show ?thesis
    by (subst tcp_serves_in_order) (simp_all add: n, simp add: frames_def tcp_frame_def n)
qed

end
