(* ===== verification/Upstream.thy ===== *)
theory Upstream
  imports Config Dns_Message Cache Events
begin

text \<open>
  Encrypted upstreams, from \<open>crates/core/src/upstream.rs\<close>: configuration of an upstream, the
  connection state machine of \<open>ReconnectingUpstream\<close>, and the pool.

  A connection is a value of the type variable \<open>'t\<close>; what it does with a query is the reply an
  event carries.  The network itself (URL grammar, bootstrap resolver, handshakes, trust anchors) is an
  argument.  Times are nanoseconds, as in the cache.  Every stretch of code that holds the state lock
  is one function; \<open>up_repairs\<close> counts the detached repair tasks.
\<close>

section \<open>Errors\<close>

datatype upstream_error =
    UnsupportedUrl string
  | Init string
  | AllFailed "string list"

fun show_upstream_error :: "upstream_error \<Rightarrow> string" where
  "show_upstream_error (UnsupportedUrl u) = ''unsupported upstream URL: '' @ u"
| "show_upstream_error (Init m) = ''upstream pool init failed: '' @ m"
| "show_upstream_error (AllFailed errs) =
     ''all upstreams failed:'' @ concat (map (\<lambda>e. [CHR 0x0A] @ ''  - '' @ e) errs)"

record 'c upstream_config =
  uc_urls :: "string list"
  uc_bootstrap_ips :: "ip_addr list"
  uc_timeout_ms :: nat
  uc_extra_roots :: "'c list"
  uc_connect_budget :: nat

datatype send_error = Fatal string | QueryErr string

text \<open>The errors of the network library that the code tells apart.\<close>

datatype net_error = NetDns string | NetProto string | NetQueryCaseMismatch | NetMsg string | NetOther string

definition HTTP_STATUS_ERROR_PREFIX :: string where
  "HTTP_STATUS_ERROR_PREFIX = ''http unsuccessful code: ''"

definition classify_net_error :: "(net_error \<Rightarrow> string) \<Rightarrow> net_error \<Rightarrow> send_error" where
  "classify_net_error show_net err =
     (case err of
        NetDns _ \<Rightarrow> QueryErr (show_net err)
      | NetProto _ \<Rightarrow> QueryErr (show_net err)
      | NetQueryCaseMismatch \<Rightarrow> QueryErr (show_net err)
      | NetMsg msg \<Rightarrow>
          (case strip_prefix HTTP_STATUS_ERROR_PREFIX msg of
             Some status \<Rightarrow> if starts_with ''4'' status then QueryErr (show_net err) else Fatal (show_net err)
           | None \<Rightarrow> Fatal (show_net err))
      | NetOther _ \<Rightarrow> Fatal (show_net err))"

section \<open>Configuration of an upstream\<close>

datatype upstream_kind = Https string nat string | Quic string nat

record url =
  url_scheme :: string
  url_host :: "string option"
  url_port :: "nat option"
  url_path :: string

definition url_host_str :: "string \<Rightarrow> url \<Rightarrow> upstream_error + string" where
  "url_host_str raw u =
     (case url_host u of
        Some h \<Rightarrow> if h \<noteq> [] then Inr h else Inl (UnsupportedUrl (raw @ '': missing host''))
      | None \<Rightarrow> Inl (UnsupportedUrl (raw @ '': missing host'')))"

definition parse_upstream_url :: "(string \<Rightarrow> string + url) \<Rightarrow> string \<Rightarrow> upstream_error + upstream_kind" where
  "parse_upstream_url url_parse raw =
     (case url_parse raw of
        Inl e \<Rightarrow> Inl (UnsupportedUrl (raw @ '': '' @ e))
      | Inr u \<Rightarrow>
          if url_scheme u = ''https'' then
            (case url_host_str raw u of
               Inl e \<Rightarrow> Inl e
             | Inr host \<Rightarrow>
                 (let port = (case url_port u of Some p \<Rightarrow> p | None \<Rightarrow> 443); path = url_path u in
                  if path = [] \<or> path = ''/''
                  then Inl (UnsupportedUrl (raw @ '': https URL must include a path (e.g. /dns-query)''))
                  else Inr (Https host port path)))
          else if url_scheme u = ''quic'' then
            (case url_host_str raw u of
               Inl e \<Rightarrow> Inl e
             | Inr host \<Rightarrow> Inr (Quic host (case url_port u of Some p \<Rightarrow> p | None \<Rightarrow> 853)))
          else Inl (UnsupportedUrl (raw @ '': unsupported scheme '' @ [CHR 0x27] @ url_scheme u @ [CHR 0x27]
                 @ '' (expected https or quic)'')))"

fun is_ipv4 :: "ip_addr \<Rightarrow> bool" where
  "is_ipv4 (V4 _) = True"
| "is_ipv4 (V6 _) = False"

text \<open>The loop over the addresses found: the first IPv4 one, else the first.\<close>

fun choose_ip :: "ip_addr option \<Rightarrow> ip_addr list \<Rightarrow> ip_addr option" where
  "choose_ip found [] = found"
| "choose_ip found (ip # ips) =
     (let found' = (if found = None then Some ip else found)
      in if is_ipv4 ip then Some ip else choose_ip found' ips)"

text \<open>\<open>lookup\<close> is the resolver over the bootstrap servers: an error or the addresses it returns.\<close>

definition bootstrap_resolve ::
    "(ip_addr list \<Rightarrow> string \<Rightarrow> string + ip_addr list) \<Rightarrow> string \<Rightarrow> ip_addr list \<Rightarrow> upstream_error + ip_addr" where
  "bootstrap_resolve lookup host bootstrap_ips =
     (case parse_ip_addr host of
        Some ip \<Rightarrow> Inr ip
      | None \<Rightarrow>
          if bootstrap_ips = [] then Inl (Init ''bootstrap_ips is empty and upstream hostname requires resolution'')
          else
            (case lookup bootstrap_ips host of
               Inl e \<Rightarrow> Inl (Init (''bootstrap resolution of '' @ [CHR 0x27] @ host @ [CHR 0x27] @ '' failed: '' @ e))
             | Inr ips \<Rightarrow>
                 (case choose_ip None ips of
                    Some ip \<Rightarrow> Inr ip
                  | None \<Rightarrow> Inl (Init (''bootstrap resolution of '' @ [CHR 0x27] @ host @ [CHR 0x27]
                              @ '' returned no addresses'')))))"

text \<open>\<open>connect\<close> is the handshake with an address under a server name (and a path): an error or a
  connection.\<close>

definition build_transport ::
    "(socket_addr \<Rightarrow> string \<Rightarrow> string option \<Rightarrow> string + 't) \<Rightarrow> upstream_kind \<Rightarrow> ip_addr \<Rightarrow> upstream_error + 't" where
  "build_transport connect kind ip =
     (case kind of
        Https host port path \<Rightarrow>
          (case connect \<lparr>sa_ip = ip, sa_port = port\<rparr> host (Some path) of
             Inl e \<Rightarrow> Inl (Init (''DoH exchange to '' @ host @ '':'' @ show_nat port @ '' failed: '' @ e))
           | Inr t \<Rightarrow> Inr t)
      | Quic host port \<Rightarrow>
          (case connect \<lparr>sa_ip = ip, sa_port = port\<rparr> host None of
             Inl e \<Rightarrow> Inl (Init (''DoQ stream to '' @ host @ '':'' @ show_nat port @ '' failed: '' @ e))
           | Inr t \<Rightarrow> Inr t))"

record network_factory =
  nf_kind :: upstream_kind
  nf_bootstrap_ips :: "ip_addr list"
  nf_url :: string

fun kind_host :: "upstream_kind \<Rightarrow> string" where
  "kind_host (Https host _ _) = host"
| "kind_host (Quic host _) = host"

definition factory_build ::
    "(ip_addr list \<Rightarrow> string \<Rightarrow> string + ip_addr list) \<Rightarrow> (socket_addr \<Rightarrow> string \<Rightarrow> string option \<Rightarrow> string + 't)
       \<Rightarrow> network_factory \<Rightarrow> upstream_error + 't" where
  "factory_build lookup connect f =
     (case bootstrap_resolve lookup (kind_host (nf_kind f)) (nf_bootstrap_ips f) of
        Inl e \<Rightarrow> Inl e
      | Inr ip \<Rightarrow> build_transport connect (nf_kind f) ip)"

definition label :: "network_factory \<Rightarrow> string" where
  "label f = nf_url f"

definition duration_to_millis :: "nat \<Rightarrow> nat" where
  "duration_to_millis d = (let ms = d div 10 ^ 6 in if ms \<le> u64_max then ms else u64_max)"

definition from_millis :: "nat \<Rightarrow> nat" where
  "from_millis ms = ms * 10 ^ 6"

definition from_secs :: "nat \<Rightarrow> nat" where
  "from_secs s = s * 10 ^ 9"

definition MIN_RECONNECT_BACKOFF :: nat where "MIN_RECONNECT_BACKOFF = from_millis 500"
definition MAX_RECONNECT_BACKOFF :: nat where "MAX_RECONNECT_BACKOFF = from_secs 30"
definition MAX_PROBATION :: nat where "MAX_PROBATION = from_secs 5"
definition DEFAULT_CONNECT_BUDGET :: nat where "DEFAULT_CONNECT_BUDGET = from_secs 30"
definition INIT_RETRY_BACKOFF_START :: nat where "INIT_RETRY_BACKOFF_START = from_millis 500"
definition INIT_RETRY_BACKOFF_MAX :: nat where "INIT_RETRY_BACKOFF_MAX = from_secs 5"

section \<open>One upstream\<close>

datatype 't conn_state =
    Down instant string
  | Connecting
  | Connected "64 word" 't "instant option"

fun state_name :: "'t conn_state \<Rightarrow> string" where
  "state_name (Down _ _) = ''down''"
| "state_name Connecting = ''connecting''"
| "state_name (Connected _ _ _) = ''connected''"

record 't upstream =
  up_factory :: network_factory
  up_state :: "'t conn_state"
  up_builds :: "64 word"
  up_backoff_ms :: nat
  up_repair_done :: nat
  up_queries :: "64 word"
  up_failures :: "64 word"
  up_reconnects :: "64 word"
  up_consecutive_failures :: "64 word"
  up_last_success_ts :: int
  up_repairs :: nat

definition upstream_new :: "network_factory \<Rightarrow> 't conn_state \<Rightarrow> 't upstream" where
  "upstream_new f initial =
     \<lparr>up_factory = f, up_state = initial, up_builds = (case initial of Connected _ _ _ \<Rightarrow> 1 | _ \<Rightarrow> 0),
      up_backoff_ms = duration_to_millis MIN_RECONNECT_BACKOFF, up_repair_done = 0, up_queries = 0, up_failures = 0,
      up_reconnects = 0, up_consecutive_failures = 0, up_last_success_ts = 0, up_repairs = 0\<rparr>"

definition trigger_repair :: "instant \<Rightarrow> 't upstream \<Rightarrow> 't upstream" where
  "trigger_repair now up =
     (case up_state up of
        Down retry_at _ \<Rightarrow>
          if now \<ge> retry_at then up\<lparr>up_state := Connecting, up_repairs := up_repairs up + 1\<rparr> else up
      | _ \<Rightarrow> up)"

text \<open>How a repair task ends: with a connection, with an error (a timeout is one), or dropped at an
  await.\<close>

datatype 't build_result = Built 't | BuildFailed string | BuildDropped

definition conclude :: "instant \<Rightarrow> 't upstream \<Rightarrow> 't upstream" where
  "conclude now up =
     (let up1 = (if up_state up = Connecting then up\<lparr>up_state := Down now ''connection build abandoned''\<rparr> else up)
      in up1\<lparr>up_repair_done := up_repair_done up1 + 1, up_repairs := up_repairs up1 - 1\<rparr>)"

definition repair :: "instant \<Rightarrow> 't build_result \<Rightarrow> 't upstream \<Rightarrow> 't upstream" where
  "repair now built up =
     (let backoff = from_millis (up_backoff_ms up) in
      conclude now
        (case built of
           Built t \<Rightarrow>
             up\<lparr>up_builds := up_builds up + 1,
                up_state := Connected (up_builds up + 1) t (Some (now + min backoff MAX_PROBATION)),
                up_backoff_ms := duration_to_millis (min (backoff * 2) MAX_PROBATION),
                up_reconnects := up_reconnects up + 1\<rparr>
         | BuildFailed err \<Rightarrow>
             up\<lparr>up_state := Down (now + backoff) err,
                up_backoff_ms := duration_to_millis (min (backoff * 2) MAX_RECONNECT_BACKOFF)\<rparr>
         | BuildDropped \<Rightarrow> up))"

text \<open>One turn of the loop of \<open>acquire\<close> under the lock: a connection, an error, or wait for a repair.\<close>

datatype 't acquired = Got "64 word" 't | NotYet string | Wait

definition acquire :: "instant \<Rightarrow> 't upstream \<Rightarrow> 't acquired" where
  "acquire now up =
     (case up_state up of
        Connected g t _ \<Rightarrow> Got g t
      | Down retry_at last_error \<Rightarrow>
          if now < retry_at
          then NotYet (label (up_factory up) @ '': down, next connection attempt in ''
                 @ show_nat (duration_to_millis (retry_at - now)) @ '' ms (last error: '' @ last_error @ '')'')
          else Wait
      | Connecting \<Rightarrow> Wait)"

definition acquire_timed_out :: "'t upstream \<Rightarrow> string" where
  "acquire_timed_out up = label (up_factory up) @ '': timed out waiting for a connection''"

definition invalidate :: "instant \<Rightarrow> 64 word \<Rightarrow> string \<Rightarrow> 't upstream \<Rightarrow> 't upstream" where
  "invalidate now g why up =
     (case up_state up of
        Connected current t probation \<Rightarrow>
          if current \<noteq> g then up
          else trigger_repair now (up\<lparr>up_state := Down (case probation of Some u \<Rightarrow> u | None \<Rightarrow> now) why\<rparr>)
      | _ \<Rightarrow> up)"

definition record_success :: "int \<Rightarrow> 't upstream \<Rightarrow> 't upstream" where
  "record_success ts up =
     up\<lparr>up_consecutive_failures := 0, up_last_success_ts := ts,
        up_backoff_ms := duration_to_millis MIN_RECONNECT_BACKOFF,
        up_state := (case up_state up of Connected g t _ \<Rightarrow> Connected g t None | st \<Rightarrow> st)\<rparr>"

definition fail_query :: "'t upstream \<Rightarrow> 't upstream" where
  "fail_query up =
     up\<lparr>up_failures := up_failures up + 1, up_consecutive_failures := up_consecutive_failures up + 1\<rparr>"

definition judge ::
    "(response_code \<Rightarrow> string) \<Rightarrow> int \<Rightarrow> 'n message \<Rightarrow> 't upstream \<Rightarrow> (string + 'n message) \<times> 't upstream" where
  "judge show_rc ts response up =
     (if rcode response \<in> {ServFail, Refused, NotImp}
      then (Inl (label (up_factory up) @ '': upstream answered '' @ show_rc (rcode response)), fail_query up)
      else (Inr response, record_success ts up))"

record upstream_health =
  uh_url :: string
  uh_state :: string
  uh_connected :: bool
  uh_last_error :: "string option"
  uh_last_success_secs_ago :: "nat option"
  uh_queries :: "64 word"
  uh_failures :: "64 word"
  uh_reconnects :: "64 word"
  uh_consecutive_failures :: "64 word"

definition health :: "int \<Rightarrow> 't upstream \<Rightarrow> upstream_health" where
  "health unix_now up =
     \<lparr>uh_url = label (up_factory up), uh_state = state_name (up_state up),
      uh_connected = (state_name (up_state up) = ''connected''),
      uh_last_error = (case up_state up of Down _ e \<Rightarrow> Some e | _ \<Rightarrow> None),
      uh_last_success_secs_ago =
        (if up_last_success_ts up > 0 then Some (nat (max (unix_now - up_last_success_ts up) 0)) else None),
      uh_queries = up_queries up, uh_failures = up_failures up, uh_reconnects = up_reconnects up,
      uh_consecutive_failures = up_consecutive_failures up\<rparr>"

section \<open>One query on one upstream\<close>

text \<open>\<open>send\<close> between two awaits: about to look for a connection, between the look and the call of
  \<open>trigger_repair\<close>, waiting for a repair to conclude (with the count of conclusions it subscribed at),
  or waiting for the reply of a connection.  \<open>sd_first_err\<close> is set on the second attempt.\<close>

datatype 't phase = Acquiring | NeedRepair nat | AwaitRepair nat | Sending "64 word" 't

record ('n, 't) sender =
  sd_msg :: "'n message"
  sd_deadline :: instant
  sd_first_err :: "string option"
  sd_phase :: "'t phase"

datatype 'n reply = Replied "'n message" | ReplyError send_error | TimedOut

datatype ('n, 't) progress = Continue "('n, 't) sender" | Finished "string + 'n message"

definition send :: "'n message \<Rightarrow> instant \<Rightarrow> 't upstream \<Rightarrow> ('n, 't) sender \<times> 't upstream" where
  "send msg deadline up =
     (\<lparr>sd_msg = msg, sd_deadline = deadline, sd_first_err = None, sd_phase = Acquiring\<rparr>,
      up\<lparr>up_queries := up_queries up + 1\<rparr>)"

definition no_connection :: "string \<Rightarrow> ('n, 't) sender \<Rightarrow> 't upstream \<Rightarrow> ('n, 't) progress \<times> 't upstream" where
  "no_connection err sd up =
     (Finished (Inl (case sd_first_err sd of None \<Rightarrow> err | Some first_err \<Rightarrow> first_err @ ''; '' @ err)), fail_query up)"

definition send_acquire :: "instant \<Rightarrow> ('n, 't) sender \<Rightarrow> 't upstream \<Rightarrow> ('n, 't) progress \<times> 't upstream" where
  "send_acquire now sd up =
     (case acquire now up of
        Got g t \<Rightarrow> (Continue (sd\<lparr>sd_phase := Sending g t\<rparr>), up)
      | NotYet err \<Rightarrow> no_connection err sd up
      | Wait \<Rightarrow> (Continue (sd\<lparr>sd_phase := NeedRepair (up_repair_done up)\<rparr>), up))"

definition after_reconnect :: "('n, 't) sender \<Rightarrow> string \<Rightarrow> string" where
  "after_reconnect sd err =
     (case sd_first_err sd of None \<Rightarrow> err | Some first_err \<Rightarrow> first_err @ ''; after reconnect: '' @ err)"

definition QUERY_TIMED_OUT :: string where
  "QUERY_TIMED_OUT = ''query timed out on this connection''"

definition send_reply ::
    "(response_code \<Rightarrow> string) \<Rightarrow> instant \<Rightarrow> int \<Rightarrow> 64 word \<Rightarrow> 'n reply \<Rightarrow> ('n, 't) sender \<Rightarrow> 't upstream
       \<Rightarrow> ('n, 't) progress \<times> 't upstream" where
  "send_reply show_rc now ts g reply sd up =
     (case reply of
        Replied response \<Rightarrow>
          (case judge show_rc ts response up of
             (Inr r, up1) \<Rightarrow> (Finished (Inr r), up1)
           | (Inl err, up1) \<Rightarrow> (Finished (Inl (after_reconnect sd err)), up1))
      | ReplyError (QueryErr err) \<Rightarrow> (Finished (Inl (after_reconnect sd err)), fail_query up)
      | ReplyError (Fatal err) \<Rightarrow>
          (case sd_first_err sd of
             None \<Rightarrow> (Continue (sd\<lparr>sd_first_err := Some err, sd_phase := Acquiring\<rparr>), invalidate now g err up)
           | Some _ \<Rightarrow> (Finished (Inl (after_reconnect sd err)), fail_query (invalidate now g err up)))
      | TimedOut \<Rightarrow>
          (Finished (Inl (after_reconnect sd (label (up_factory up) @ '': timed out''))),
           fail_query (invalidate now g QUERY_TIMED_OUT up)))"

section \<open>The pool\<close>

text \<open>The trust anchors: \<open>add\<close> is the certificate store's own check.\<close>

fun build_rustls_client_config :: "('c \<Rightarrow> 'store \<Rightarrow> string + 'store) \<Rightarrow> 'c list \<Rightarrow> 'store \<Rightarrow> upstream_error + 'store" where
  "build_rustls_client_config add [] store = Inr store"
| "build_rustls_client_config add (c # cs) store =
     (case add c store of
        Inl e \<Rightarrow> Inl (Init (''tls.extra_roots: unusable certificate: '' @ e))
      | Inr store' \<Rightarrow> build_rustls_client_config add cs store')"

fun factories :: "(string \<Rightarrow> string + url) \<Rightarrow> ip_addr list \<Rightarrow> string list \<Rightarrow> upstream_error + network_factory list" where
  "factories url_parse ips [] = Inr []"
| "factories url_parse ips (raw # raws) =
     (case parse_upstream_url url_parse raw of
        Inl e \<Rightarrow> Inl e
      | Inr kind \<Rightarrow>
          if ips = [] \<and> parse_ip_addr (kind_host kind) = None
          then Inl (Init (''bootstrap_ips is empty and upstream '' @ [CHR 0x27] @ raw @ [CHR 0x27] @ '' requires resolution''))
          else
            (case factories url_parse ips raws of
               Inl e \<Rightarrow> Inl e
             | Inr fs \<Rightarrow> Inr (\<lparr>nf_kind = kind, nf_bootstrap_ips = ips, nf_url = raw\<rparr> # fs)))"

record 't pool =
  pu_upstreams :: "'t upstream list"
  pu_timeout :: nat
  pu_resolved :: "64 word"
  pu_all_failed_total :: "64 word"
  pu_consecutive_all_failed :: "64 word"

text \<open>What one attempt of a start-up round gives: nothing when the round's deadline passes first.\<close>

fun attempt_result :: "(upstream_error + 't) option \<Rightarrow> string + 't" where
  "attempt_result None = Inl ''connection timed out''"
| "attempt_result (Some (Inl e)) = Inl (show_upstream_error e)"
| "attempt_result (Some (Inr t)) = Inr t"

type_synonym 't slot = "'t option \<times> string"

definition try_slot :: "(nat \<Rightarrow> (upstream_error + 't) option) \<Rightarrow> nat \<Rightarrow> network_factory \<Rightarrow> 't slot \<Rightarrow> 't slot" where
  "try_slot attempt i f s =
     (case s of
        (Some t, e) \<Rightarrow> (Some t, e)
      | (None, e) \<Rightarrow>
          (case attempt_result (attempt i) of
             Inr t \<Rightarrow> (Some t, e)
           | Inl err \<Rightarrow> (None, label f @ '': '' @ err)))"

definition init_round :: "(nat \<Rightarrow> (upstream_error + 't) option) \<Rightarrow> network_factory list \<Rightarrow> 't slot list \<Rightarrow> 't slot list" where
  "init_round attempt fs ss = map (\<lambda>(i, f, s). try_slot attempt i f s) (zip [0..<length fs] (zip fs ss))"

fun init_backoff :: "nat \<Rightarrow> nat" where
  "init_backoff 0 = INIT_RETRY_BACKOFF_START"
| "init_backoff (Suc n) = min (init_backoff n * 2) INIT_RETRY_BACKOFF_MAX"

lemma init_backoff_range: "INIT_RETRY_BACKOFF_START \<le> init_backoff n \<and> init_backoff n \<le> INIT_RETRY_BACKOFF_MAX"
  by (induction n) (auto simp: INIT_RETRY_BACKOFF_START_def INIT_RETRY_BACKOFF_MAX_def from_millis_def from_secs_def)

text \<open>The start-up loop: round \<open>n\<close> begins at \<open>now\<close> and takes \<open>dur n\<close>.  The result is the time
  it ends at with the slots filled, or with the errors of the last round.\<close>

function init_loop ::
    "(nat \<Rightarrow> nat \<Rightarrow> (upstream_error + 't) option) \<Rightarrow> (nat \<Rightarrow> nat) \<Rightarrow> network_factory list \<Rightarrow> instant \<Rightarrow> nat \<Rightarrow> instant
       \<Rightarrow> 't slot list \<Rightarrow> instant \<times> (string list + 't slot list)" where
  "init_loop attempt dur fs deadline n now ss =
     (let ss1 = init_round (attempt n) fs ss; now1 = now + dur n; live = length (filter (\<lambda>s. fst s \<noteq> None) ss1) in
      if live > 0 then (now1, Inr ss1)
      else if now1 + init_backoff n \<ge> deadline then (now1, Inl (map snd ss1))
      else init_loop attempt dur fs deadline (Suc n) (now1 + init_backoff n) ss1)"
  by pat_completeness auto
termination
proof (relation "measure (\<lambda>(attempt, dur, fs, deadline, n, now, ss). deadline - now)")
  show "wf (measure (\<lambda>(attempt, dur, fs, deadline, n, now, ss). deadline - now))" by simp
next
  fix dur :: "nat \<Rightarrow> nat" and n deadline now now1 :: nat
  assume "now1 = now + dur n" "\<not> deadline \<le> now1 + init_backoff n"
  moreover have "0 < init_backoff n"
    using init_backoff_range [of n] by (simp add: INIT_RETRY_BACKOFF_START_def from_millis_def)
  ultimately show "((attempt, dur, fs, deadline, Suc n, now1 + init_backoff n, ss1), attempt, dur, fs, deadline, n, now, ss)
      \<in> measure (\<lambda>(attempt, dur, fs, deadline, n, now, ss). deadline - now)"
    for attempt fs ss1 ss by simp
qed

declare init_loop.simps [simp del]

definition initial_state :: "instant \<Rightarrow> 't slot \<Rightarrow> 't conn_state" where
  "initial_state now s = (case s of (Some t, _) \<Rightarrow> Connected 1 t None | (None, e) \<Rightarrow> Down now e)"

fun join :: "string \<Rightarrow> string list \<Rightarrow> string" where
  "join sep [] = []"
| "join sep [s] = s"
| "join sep (s # ss) = s @ sep @ join sep ss"

definition pool_new ::
    "(string \<Rightarrow> string + url) \<Rightarrow> ('c \<Rightarrow> 'store \<Rightarrow> string + 'store) \<Rightarrow> 'store \<Rightarrow> (nat \<Rightarrow> string)
       \<Rightarrow> (nat \<Rightarrow> nat \<Rightarrow> (upstream_error + 't) option) \<Rightarrow> (nat \<Rightarrow> nat) \<Rightarrow> instant \<Rightarrow> 'c upstream_config
       \<Rightarrow> upstream_error + 't pool" where
  "pool_new url_parse add roots show_duration attempt dur now cfg =
     (if uc_urls cfg = [] then Inl (Init ''no upstream URLs configured'')
      else if uc_timeout_ms cfg = 0 then Inl (Init ''timeout_ms must be > 0'')
      else
        (case build_rustls_client_config add (uc_extra_roots cfg) roots of
           Inl e \<Rightarrow> Inl e
         | Inr _ \<Rightarrow>
             (case factories url_parse (uc_bootstrap_ips cfg) (uc_urls cfg) of
                Inl e \<Rightarrow> Inl e
              | Inr fs \<Rightarrow>
                  (case init_loop attempt dur fs (now + uc_connect_budget cfg) 0 now (replicate (length fs) (None, [])) of
                     (_, Inl errors) \<Rightarrow>
                       Inl (Init (''no upstream could be connected within '' @ show_duration (uc_connect_budget cfg)
                          @ ''; giving up (the process will exit and systemd will restart it): '' @ join ''; '' errors))
                   | (now1, Inr ss) \<Rightarrow>
                       Inr \<lparr>pu_upstreams = map (\<lambda>(f, s). upstream_new f (initial_state now1 s)) (zip fs ss),
                            pu_timeout = from_millis (uc_timeout_ms cfg), pu_resolved = 0, pu_all_failed_total = 0,
                            pu_consecutive_all_failed = 0\<rparr>))))"

record pool_health_t =
  ph_upstreams :: "upstream_health list"
  ph_resolved :: "64 word"
  ph_all_failed_total :: "64 word"
  ph_consecutive_all_failed :: "64 word"

definition pool_health :: "int \<Rightarrow> 't pool \<Rightarrow> pool_health_t" where
  "pool_health unix_now pl =
     \<lparr>ph_upstreams = map (health unix_now) (pu_upstreams pl), ph_resolved = pu_resolved pl,
      ph_all_failed_total = pu_all_failed_total pl, ph_consecutive_all_failed = pu_consecutive_all_failed pl\<rparr>"

text \<open>The query every upstream is sent: recursion desired, \<open>DO\<close> set.\<close>

definition outgoing :: "edns \<Rightarrow> 'n message \<Rightarrow> 'n message" where
  "outgoing edns_default query =
     (let q1 = query\<lparr>ms_metadata := (ms_metadata query)\<lparr>md_recursion_desired := True\<rparr>\<rparr>;
          e = (case ms_edns q1 of Some e \<Rightarrow> e | None \<Rightarrow> edns_default)
      in q1\<lparr>ms_edns := Some (e\<lparr>ed_dnssec_ok := True\<rparr>)\<rparr>)"

text \<open>The receive loop over the results in the order they come in; the loop ends at the first success
  or when every sender is gone.\<close>

fun receive :: "nat \<Rightarrow> string list \<Rightarrow> (string + 'n message) list \<Rightarrow> string list + 'n message" where
  "receive original_id errors [] = Inl errors"
| "receive original_id errors (Inr response # rs) =
     Inr (response\<lparr>ms_metadata := (ms_metadata response)\<lparr>md_id := original_id\<rparr>\<rparr>)"
| "receive original_id errors (Inl e # rs) = receive original_id (errors @ [e]) rs"

definition pool_resolve ::
    "'n message \<Rightarrow> (string + 'n message) list \<Rightarrow> 't pool \<Rightarrow> (upstream_error + 'n message) \<times> 't pool" where
  "pool_resolve query results pl =
     (case receive (md_id (ms_metadata query)) [] results of
        Inr response \<Rightarrow> (Inr response, pl\<lparr>pu_resolved := pu_resolved pl + 1, pu_consecutive_all_failed := 0\<rparr>)
      | Inl errors \<Rightarrow>
          (Inl (AllFailed errors),
           pl\<lparr>pu_all_failed_total := pu_all_failed_total pl + 1,
              pu_consecutive_all_failed := pu_consecutive_all_failed pl + 1\<rparr>))"

end
