(* ===== verification/Upstream_Correct.thy ===== *)
theory Upstream_Correct
  imports Upstream Assoc
begin

text \<open>
  Correctness of the upstream connection machine.  The machine runs any interleaving of queries,
  repairs and the clock over one upstream; \<open>up_inv\<close> is its invariant and it interprets
  \<open>event_system\<close>.  \<open>um_installs\<close> lists the connections installed so far, \<open>um_started\<close> and
  \<open>um_results\<close> the queries begun and ended.
\<close>

section \<open>The machine\<close>

record ('n, 't) up_machine =
  um_up :: "'t upstream"
  um_clock :: instant
  um_senders :: "(nat \<times> ('n, 't) sender) list"
  um_started :: "nat list"
  um_results :: "(nat \<times> (string + 'n message)) list"
  um_installs :: "(64 word \<times> 't) list"

datatype ('n, 't) up_event =
    StartSend nat "'n message" instant
  | Look nat
  | Trigger nat
  | Wake nat
  | GiveUp nat
  | Reply nat "'n reply" int
  | RepairEnd "'t build_result"
  | Tick nat

definition advance :: "nat \<Rightarrow> ('n, 't) progress \<times> 't upstream \<Rightarrow> ('n, 't) up_machine \<Rightarrow> ('n, 't) up_machine" where
  "advance qid pu s =
     (case pu of
        (Continue sd, up) \<Rightarrow> s\<lparr>um_up := up, um_senders := AList.update qid sd (um_senders s)\<rparr>
      | (Finished r, up) \<Rightarrow>
          s\<lparr>um_up := up, um_senders := AList.delete qid (um_senders s), um_results := um_results s @ [(qid, r)]\<rparr>)"

fun up_step :: "(response_code \<Rightarrow> string) \<Rightarrow> ('n, 't) up_event \<Rightarrow> ('n, 't) up_machine \<Rightarrow> ('n, 't) up_machine option" where
  "up_step show_rc (StartSend qid msg deadline) s =
     (if qid \<in> set (um_started s) then None
      else (case send msg deadline (um_up s) of
        (sd, up) \<Rightarrow> Some (s\<lparr>um_up := up, um_senders := um_senders s @ [(qid, sd)], um_started := um_started s @ [qid]\<rparr>)))"
| "up_step show_rc (Look qid) s = do {
     sd \<leftarrow> map_of (um_senders s) qid;
     (if sd_phase sd = Acquiring then Some (advance qid (send_acquire (um_clock s) sd (um_up s)) s) else None)
   }"
| "up_step show_rc (Trigger qid) s = do {
     sd \<leftarrow> map_of (um_senders s) qid;
     (case sd_phase sd of
        NeedRepair seen \<Rightarrow> Some (advance qid (Continue (sd\<lparr>sd_phase := AwaitRepair seen\<rparr>), trigger_repair (um_clock s) (um_up s)) s)
      | _ \<Rightarrow> None)
   }"
| "up_step show_rc (Wake qid) s = do {
     sd \<leftarrow> map_of (um_senders s) qid;
     (case sd_phase sd of
        AwaitRepair seen \<Rightarrow>
          if up_repair_done (um_up s) \<noteq> seen then Some (advance qid (Continue (sd\<lparr>sd_phase := Acquiring\<rparr>), um_up s) s) else None
      | _ \<Rightarrow> None)
   }"
| "up_step show_rc (GiveUp qid) s = do {
     sd \<leftarrow> map_of (um_senders s) qid;
     (case sd_phase sd of
        AwaitRepair seen \<Rightarrow>
          if um_clock s \<ge> sd_deadline sd
          then Some (advance qid (no_connection (acquire_timed_out (um_up s)) sd (um_up s)) s) else None
      | _ \<Rightarrow> None)
   }"
| "up_step show_rc (Reply qid reply ts) s = do {
     sd \<leftarrow> map_of (um_senders s) qid;
     (case sd_phase sd of
        Sending g t \<Rightarrow>
          if reply = TimedOut \<and> um_clock s < sd_deadline sd then None
          else Some (advance qid (send_reply show_rc (um_clock s) ts g reply sd (um_up s)) s)
      | _ \<Rightarrow> None)
   }"
| "up_step show_rc (RepairEnd built) s =
     (if up_repairs (um_up s) = 0 then None
      else Some (s\<lparr>um_up := repair (um_clock s) built (um_up s),
        um_installs := (case built of Built t \<Rightarrow> um_installs s @ [(up_builds (um_up s) + 1, t)] | _ \<Rightarrow> um_installs s)\<rparr>))"
| "up_step show_rc (Tick d) s = Some (s\<lparr>um_clock := um_clock s + d\<rparr>)"

section \<open>The invariant\<close>

definition backoff_ok :: "nat \<Rightarrow> bool" where
  "backoff_ok ms \<longleftrightarrow> duration_to_millis MIN_RECONNECT_BACKOFF \<le> ms \<and> ms \<le> duration_to_millis MAX_RECONNECT_BACKOFF"

definition conn_ok :: "instant \<Rightarrow> (64 word \<times> 't) list \<Rightarrow> 't conn_state \<Rightarrow> bool" where
  "conn_ok clock installs st \<longleftrightarrow>
     (case st of
        Down retry_at _ \<Rightarrow> retry_at \<le> clock + MAX_RECONNECT_BACKOFF
      | Connecting \<Rightarrow> True
      | Connected g t probation \<Rightarrow> installs \<noteq> [] \<and> last installs = (g, t)
          \<and> (case probation of Some u \<Rightarrow> u \<le> clock + MAX_PROBATION | None \<Rightarrow> True))"

definition up_ok :: "instant \<Rightarrow> (64 word \<times> 't) list \<Rightarrow> 't upstream \<Rightarrow> bool" where
  "up_ok clock installs up \<longleftrightarrow>
     up_repairs up = (if up_state up = Connecting then 1 else 0) \<and> backoff_ok (up_backoff_ms up)
   \<and> up_builds up = of_nat (length installs) \<and> map fst installs = map of_nat [1..<Suc (length installs)]
   \<and> conn_ok clock installs (up_state up)"

text \<open>A repair runs or can be started at once.\<close>

definition pending :: "instant \<Rightarrow> 't upstream \<Rightarrow> bool" where
  "pending clock up \<longleftrightarrow> (case up_state up of Connecting \<Rightarrow> True | Down retry_at _ \<Rightarrow> retry_at \<le> clock | _ \<Rightarrow> False)"

text \<open>No wake-up is lost: a query waits only while a repair runs or its conclusion is still to be seen.\<close>

definition phase_ok :: "instant \<Rightarrow> (64 word \<times> 't) list \<Rightarrow> 't upstream \<Rightarrow> 't phase \<Rightarrow> bool" where
  "phase_ok clock installs up ph \<longleftrightarrow>
     (case ph of
        Acquiring \<Rightarrow> True
      | NeedRepair seen \<Rightarrow> seen \<le> up_repair_done up \<and> (seen = up_repair_done up \<longrightarrow> pending clock up)
      | AwaitRepair seen \<Rightarrow> seen \<le> up_repair_done up \<and> (seen = up_repair_done up \<longrightarrow> up_state up = Connecting)
      | Sending g t \<Rightarrow> (g, t) \<in> set installs)"

text \<open>What a step of one query may do to what the others wait for.\<close>

definition evolves :: "instant \<Rightarrow> 't upstream \<Rightarrow> 't upstream \<Rightarrow> bool" where
  "evolves clock up up' \<longleftrightarrow> up_repair_done up < up_repair_done up' \<or>
     (up_repair_done up' = up_repair_done up \<and> (pending clock up \<longrightarrow> pending clock up')
      \<and> (up_state up = Connecting \<longrightarrow> up_state up' = Connecting))"

definition usable :: "response_code \<Rightarrow> bool" where
  "usable c \<longleftrightarrow> c \<notin> {ServFail, Refused, NotImp}"

definition same_counts :: "'t upstream \<Rightarrow> 't upstream \<Rightarrow> bool" where
  "same_counts up up' \<longleftrightarrow> up_queries up' = up_queries up \<and> up_failures up' = up_failures up
     \<and> up_consecutive_failures up' = up_consecutive_failures up"

definition counted :: "'t upstream \<Rightarrow> 't upstream \<Rightarrow> ('n, 't) progress \<Rightarrow> bool" where
  "counted up up' pr \<longleftrightarrow> up_queries up' = up_queries up \<and>
     (case pr of
        Continue _ \<Rightarrow> up_failures up' = up_failures up \<and> up_consecutive_failures up' = up_consecutive_failures up
      | Finished (Inl _) \<Rightarrow> up_failures up' = up_failures up + 1
          \<and> up_consecutive_failures up' = up_consecutive_failures up + 1
      | Finished (Inr r) \<Rightarrow> usable (rcode r) \<and> up_failures up' = up_failures up \<and> up_consecutive_failures up' = 0)"

definition failed :: "nat \<times> (string + 'n message) \<Rightarrow> bool" where
  "failed qr \<longleftrightarrow> isl (snd qr)"

definition counts_ok :: "'t upstream \<Rightarrow> nat list \<Rightarrow> (nat \<times> (string + 'n message)) list \<Rightarrow> bool" where
  "counts_ok up started results \<longleftrightarrow>
     up_queries up = of_nat (length started) \<and> up_failures up = of_nat (length (filter failed results))
   \<and> up_consecutive_failures up = of_nat (length (takeWhile failed (rev results)))"

definition up_inv :: "('n, 't) up_machine \<Rightarrow> bool" where
  "up_inv s \<longleftrightarrow> up_ok (um_clock s) (um_installs s) (um_up s)
     \<and> (\<forall>(q, sd) \<in> set (um_senders s). phase_ok (um_clock s) (um_installs s) (um_up s) (sd_phase sd))
     \<and> distinct (um_started s)
     \<and> mset (um_started s) = mset (map fst (um_senders s)) + mset (map fst (um_results s))
     \<and> counts_ok (um_up s) (um_started s) (um_results s)
     \<and> (\<forall>(q, r) \<in> set (um_results s). \<forall>m. r = Inr m \<longrightarrow> usable (rcode m))"

section \<open>Operations\<close>

lemmas time_defs = MIN_RECONNECT_BACKOFF_def MAX_RECONNECT_BACKOFF_def MAX_PROBATION_def from_millis_def from_secs_def
  duration_to_millis_def u64_max_def Let_def

lemma backoff_ok_iff: "backoff_ok ms \<longleftrightarrow> 500 \<le> ms \<and> ms \<le> 30000"
  by (simp add: backoff_ok_def time_defs)

lemma trigger_repair_ok: "up_ok c ins up \<Longrightarrow> up_ok c ins (trigger_repair c up)"
  by (auto simp: trigger_repair_def up_ok_def conn_ok_def split: conn_state.splits)

lemma trigger_repair_counts: "same_counts up (trigger_repair c up)"
  by (simp add: trigger_repair_def same_counts_def split: conn_state.split)

lemma trigger_repair_evolves: "evolves c up (trigger_repair c up)"
  by (auto simp: trigger_repair_def evolves_def pending_def split: conn_state.split)

lemma trigger_repair_pending:
  "pending c up \<Longrightarrow> up_state (trigger_repair c up) = Connecting" "up_repair_done (trigger_repair c up) = up_repair_done up"
  by (auto simp: trigger_repair_def pending_def split: conn_state.splits)

lemma invalidate_ok:
  assumes "up_ok c ins up"
  shows "up_ok c ins (invalidate c g why up)"
proof (cases "up_state up")
  case (Connected current t probation)
  have "up_ok c ins (up\<lparr>up_state := Down (case probation of Some u \<Rightarrow> u | None \<Rightarrow> c) why\<rparr>)"
    using assms Connected by (auto simp: up_ok_def conn_ok_def time_defs split: option.splits)
  from trigger_repair_ok [OF this] assms Connected show ?thesis by (simp add: invalidate_def)
qed (use assms in \<open>simp_all add: invalidate_def\<close>)

lemma invalidate_counts: "same_counts up (invalidate c g why up)"
  using trigger_repair_counts [of "up\<lparr>up_state := s\<rparr>" c for s]
  by (auto simp: invalidate_def same_counts_def split: conn_state.split)

lemma invalidate_evolves: "evolves c up (invalidate c g why up)"
proof (cases "up_state up")
  case (Connected current t probation)
  then show ?thesis by (auto simp: invalidate_def evolves_def pending_def trigger_repair_pending(2))
qed (auto simp: invalidate_def evolves_def)

lemma fail_query_ok:
  "up_ok c ins up \<Longrightarrow> up_ok c ins (fail_query up)" "evolves c up up' \<Longrightarrow> evolves c up (fail_query up')"
  by (simp_all add: fail_query_def up_ok_def evolves_def pending_def)

lemma record_success_ok:
  assumes "up_ok c ins up"
  shows "up_ok c ins (record_success ts up)" "evolves c up (record_success ts up)"
  using assms
  by (cases "up_state up"; auto simp: record_success_def up_ok_def conn_ok_def evolves_def pending_def backoff_ok_iff time_defs)+

lemma repair_ok:
  assumes "up_ok c ins up" "up_repairs up \<noteq> 0"
  shows "up_ok c (case built of Built t \<Rightarrow> ins @ [(up_builds up + 1, t)] | _ \<Rightarrow> ins) (repair c built up)"
proof -
  from assms have st: "up_state up = Connecting" "up_repairs up = 1" by (auto simp: up_ok_def split: if_splits)
  from assms have b: "500 \<le> up_backoff_ms up" "up_backoff_ms up \<le> 30000" by (simp_all add: up_ok_def backoff_ok_iff)
  show ?thesis
    using assms(1) st b
    by (cases built) (auto simp: repair_def conclude_def Let_def up_ok_def conn_ok_def backoff_ok_iff time_defs min_def)
qed

lemma repair_evolves: "up_repair_done up < up_repair_done (repair c built up)"
  by (cases built) (auto simp: repair_def conclude_def Let_def)

lemma repair_counts: "same_counts up (repair c built up)"
  by (cases built) (auto simp: repair_def conclude_def Let_def same_counts_def)

lemma phase_ok_evolves:
  "phase_ok c ins up ph \<Longrightarrow> evolves c up up' \<Longrightarrow> set ins \<subseteq> set ins' \<Longrightarrow> phase_ok c ins' up' ph"
  by (cases ph) (auto simp: phase_ok_def evolves_def)

text \<open>What every step of a query guarantees.\<close>

definition step_ok :: "instant \<Rightarrow> (64 word \<times> 't) list \<Rightarrow> 't upstream \<Rightarrow> ('n, 't) progress \<times> 't upstream \<Rightarrow> bool" where
  "step_ok c ins up pu \<longleftrightarrow> up_ok c ins (snd pu) \<and> evolves c up (snd pu) \<and> counted up (snd pu) (fst pu)
     \<and> (case fst pu of Continue sd \<Rightarrow> phase_ok c ins (snd pu) (sd_phase sd) | Finished _ \<Rightarrow> True)"

lemma evolves_refl: "evolves c up up"
  by (simp add: evolves_def)

lemma no_connection_ok: "up_ok c ins up \<Longrightarrow> step_ok c ins up (no_connection err sd up)"
  by (simp add: step_ok_def no_connection_def fail_query_ok evolves_refl) (simp add: counted_def fail_query_def)

lemma send_acquire_ok:
  assumes "up_ok c ins up"
  shows "step_ok c ins up (send_acquire c sd up)"
proof (cases "up_state up")
  case (Connected g t p)
  then have "(g, t) \<in> set ins" using assms by (auto simp: up_ok_def conn_ok_def dest: last_in_set)
  with Connected assms show ?thesis
    by (simp add: send_acquire_def acquire_def step_ok_def evolves_refl counted_def phase_ok_def)
next
  case (Down retry_at e)
  then show ?thesis using assms
    by (simp add: send_acquire_def acquire_def no_connection_ok)
      (simp add: step_ok_def evolves_refl counted_def phase_ok_def pending_def)
next
  case Connecting
  then show ?thesis using assms
    by (simp add: send_acquire_def acquire_def step_ok_def evolves_refl counted_def phase_ok_def pending_def)
qed

lemma trigger_step_ok:
  assumes "up_ok c ins up" "phase_ok c ins up (NeedRepair seen)"
  shows "step_ok c ins up (Continue (sd\<lparr>sd_phase := AwaitRepair seen\<rparr>), trigger_repair c up)"
  using assms trigger_repair_counts [of up c] trigger_repair_pending [of c up]
  by (auto simp: step_ok_def trigger_repair_ok trigger_repair_evolves counted_def same_counts_def phase_ok_def)

lemma fail_after_ok:
  assumes "up_ok c ins up'" "evolves c up up'" "same_counts up up'"
  shows "step_ok c ins up (Finished (Inl e), fail_query up')"
  using assms by (simp add: step_ok_def fail_query_ok) (simp add: counted_def same_counts_def fail_query_def)

lemma same_counts_refl: "same_counts up up"
  by (simp add: same_counts_def)

lemma send_reply_ok:
  assumes "up_ok c ins up"
  shows "step_ok c ins up (send_reply show_rc c ts g reply sd up)"
proof -
  note f1 = fail_after_ok [OF assms evolves_refl same_counts_refl]
  note f2 = fail_after_ok [OF invalidate_ok [OF assms] invalidate_evolves invalidate_counts]
  show ?thesis
  proof (cases reply)
    case (Replied r)
    show ?thesis
    proof (cases "usable (rcode r)")
      case True
      have "counted up (record_success ts up) (Finished (Inr r))"
        using True by (simp add: counted_def record_success_def)
      with True Replied record_success_ok [OF assms] show ?thesis
        by (auto simp: send_reply_def judge_def step_ok_def usable_def)
    next
      case False
      then show ?thesis using Replied by (auto simp: send_reply_def judge_def usable_def f1)
    qed
  next
    case (ReplyError e)
    show ?thesis
    proof (cases e)
      case (Fatal err)
      have "step_ok c ins up (Continue (sd\<lparr>sd_first_err := Some err, sd_phase := Acquiring\<rparr>), invalidate c g err up)"
        using invalidate_ok [OF assms, of g err] invalidate_evolves [of c up g err] invalidate_counts [of up c g err]
        by (auto simp: step_ok_def counted_def same_counts_def phase_ok_def)
      with Fatal ReplyError show ?thesis by (simp add: send_reply_def f2 split: option.split)
    qed (simp add: send_reply_def ReplyError f1)
  qed (simp add: send_reply_def f2)
qed

section \<open>Runs\<close>

lemma tick_ok: "up_ok c ins up \<Longrightarrow> up_ok (c + d) ins up"
  by (cases "up_state up") (auto simp: up_ok_def conn_ok_def split: option.splits)

lemma tick_phase_ok: "phase_ok c ins up ph \<Longrightarrow> phase_ok (c + d) ins up ph"
  by (cases ph) (auto simp: phase_ok_def pending_def split: conn_state.splits)

lemma advance_inv:
  assumes inv: "up_inv s" and q: "map_of (um_senders s) qid = Some sd"
    and st: "step_ok (um_clock s) (um_installs s) (um_up s) pu"
  shows "up_inv (advance qid pu s)"
proof -
  obtain pr up where pu: "pu = (pr, up)" by fastforce
  have "mset (um_started s) = mset (map fst (um_senders s) @ map fst (um_results s))" using inv by (simp add: up_inv_def)
  from mset_eq_imp_distinct_iff [OF this] have k: "distinct (map fst (um_senders s))" using inv by (simp add: up_inv_def)
  have o: "phase_ok (um_clock s) (um_installs s) up (sd_phase x)" if "(i, x) \<in> set (um_senders s)" for i x
    using inv that st phase_ok_evolves [of "um_clock s" "um_installs s" "um_up s" "sd_phase x" up]
    by (fastforce simp: up_inv_def step_ok_def pu)
  show ?thesis
  proof (cases pr)
    case (Continue sd')
    then show ?thesis using inv st o update_keys [OF q]
      by (auto simp: pu advance_def up_inv_def step_ok_def counted_def counts_ok_def dest!: update_sub)
  next
    case (Finished r)
    from mset_delete [OF k q] have "mset (map fst (um_senders s)) = add_mset qid (mset (map fst (AList.delete qid (um_senders s))))"
      by simp
    then show ?thesis using inv st o Finished
      by (cases r) (auto simp: pu advance_def up_inv_def step_ok_def counted_def counts_ok_def failed_def dest!: delete_sub)
  qed
qed

lemma up_step_inv:
  assumes "up_inv s" "up_step show_rc e s = Some s'"
  shows "up_inv s'"
proof -
  have ok: "up_ok (um_clock s) (um_installs s) (um_up s)" using assms(1) by (simp add: up_inv_def)
  have ph: "phase_ok (um_clock s) (um_installs s) (um_up s) (sd_phase sd)" if "map_of (um_senders s) qid = Some sd" for qid sd
    using assms(1) map_of_SomeD [OF that] by (auto simp: up_inv_def)
  note adv = advance_inv [OF assms(1)]
  show ?thesis
  proof (cases e)
    case (StartSend qid msg deadline)
    let ?up = "um_up s\<lparr>up_queries := up_queries (um_up s) + 1\<rparr>"
    let ?sd = "\<lparr>sd_msg = msg, sd_deadline = deadline, sd_first_err = None, sd_phase = Acquiring\<rparr> :: ('a, 'b) sender"
    from StartSend assms(2) have q: "qid \<notin> set (um_started s)"
      and s': "s' = s\<lparr>um_up := ?up, um_senders := um_senders s @ [(qid, ?sd)], um_started := um_started s @ [qid]\<rparr>"
      by (simp_all add: send_def split: if_splits)
    have "up_ok (um_clock s) (um_installs s) ?up" using ok by (simp add: up_ok_def)
    moreover have "phase_ok (um_clock s) (um_installs s) ?up p = phase_ok (um_clock s) (um_installs s) (um_up s) p" for p
      by (cases p) (simp_all add: phase_ok_def pending_def)
    ultimately show ?thesis using assms(1) q unfolding s' by (simp add: up_inv_def counts_ok_def) (simp add: phase_ok_def)
  next
    case (Look qid)
    with assms(2) obtain sd where sd: "map_of (um_senders s) qid = Some sd"
      and "s' = advance qid (send_acquire (um_clock s) sd (um_up s)) s" by (auto split: bind_splits if_splits)
    then show ?thesis using adv [OF sd send_acquire_ok [OF ok]] by simp
  next
    case (Trigger qid)
    with assms(2) obtain sd seen where sd: "map_of (um_senders s) qid = Some sd" "sd_phase sd = NeedRepair seen"
      and "s' = advance qid (Continue (sd\<lparr>sd_phase := AwaitRepair seen\<rparr>), trigger_repair (um_clock s) (um_up s)) s"
      by (auto split: bind_splits phase.splits)
    then show ?thesis using adv [OF sd(1) trigger_step_ok [OF ok ph [OF sd(1), unfolded sd(2)]]] by simp
  next
    case (Wake qid)
    have w: "step_ok (um_clock s) (um_installs s) (um_up s) (Continue (sd\<lparr>sd_phase := Acquiring\<rparr>), um_up s)" for sd
      using ok by (simp add: step_ok_def evolves_refl counted_def phase_ok_def)
    from Wake assms(2) obtain sd where sd: "map_of (um_senders s) qid = Some sd"
      and "s' = advance qid (Continue (sd\<lparr>sd_phase := Acquiring\<rparr>), um_up s) s" by (auto split: bind_splits phase.splits if_splits)
    then show ?thesis using adv [OF sd w] by simp
  next
    case (GiveUp qid)
    with assms(2) obtain sd where sd: "map_of (um_senders s) qid = Some sd"
      and "s' = advance qid (no_connection (acquire_timed_out (um_up s)) sd (um_up s)) s"
      by (auto split: bind_splits phase.splits if_splits)
    then show ?thesis using adv [OF sd no_connection_ok [OF ok]] by simp
  next
    case (Reply qid reply ts)
    with assms(2) obtain sd g where sd: "map_of (um_senders s) qid = Some sd"
      and "s' = advance qid (send_reply show_rc (um_clock s) ts g reply sd (um_up s)) s"
      by (auto split: bind_splits phase.splits if_splits)
    then show ?thesis using adv [OF sd send_reply_ok [OF ok]] by simp
  next
    case (RepairEnd built)
    let ?ins = "case built of Built t \<Rightarrow> um_installs s @ [(up_builds (um_up s) + 1, t)] | _ \<Rightarrow> um_installs s"
    from RepairEnd assms(2) have r: "up_repairs (um_up s) \<noteq> 0"
      and s': "s' = s\<lparr>um_up := repair (um_clock s) built (um_up s), um_installs := ?ins\<rparr>" by (auto split: if_splits)
    have sub: "set (um_installs s) \<subseteq> set ?ins" by (cases built) auto
    have ev: "evolves (um_clock s) (um_up s) (repair (um_clock s) built (um_up s))" by (simp add: evolves_def repair_evolves)
    show ?thesis unfolding s' using assms(1) repair_ok [OF ok r, of built] phase_ok_evolves [OF _ ev sub] repair_counts [of "um_up s" "um_clock s" built]
      by (fastforce simp: up_inv_def counts_ok_def same_counts_def)
  next
    case (Tick d)
    then have "s' = s\<lparr>um_clock := um_clock s + d\<rparr>" using assms(2) by simp
    then show ?thesis using assms(1) tick_ok [OF ok, of d] tick_phase_ok by (fastforce simp: up_inv_def)
  qed
qed

interpretation um: event_system "up_step show_rc" "\<lambda>_. True" up_inv for show_rc
  by unfold_locales (rule up_step_inv)

text \<open>An upstream as the pool makes it.\<close>

definition up_start :: "instant \<Rightarrow> network_factory \<Rightarrow> 't slot \<Rightarrow> ('n, 't) up_machine" where
  "up_start now f s =
     \<lparr>um_up = upstream_new f (initial_state now s), um_clock = now, um_senders = [], um_started = [], um_results = [],
      um_installs = (case fst s of Some t \<Rightarrow> [(1, t)] | None \<Rightarrow> [])\<rparr>"

lemma up_start_inv: "up_inv (up_start now f s)"
  by (cases s; cases "fst s")
    (auto simp: up_start_def up_inv_def up_ok_def conn_ok_def counts_ok_def upstream_new_def initial_state_def backoff_ok_iff time_defs)

lemma run_up: "run (up_step show_rc) evs (up_start now f s0) = Some s \<Longrightarrow> up_inv s"
  by (rule um.run_inv [OF up_start_inv]) (simp_all add: list_all_iff)

lemma distinct_generations:
  assumes "map fst installs = map of_nat [1..<Suc (length installs)]" "length installs < 2 ^ 64"
  shows "distinct (map fst (installs :: (64 word \<times> 't) list))"
proof -
  have "inj_on (of_nat :: nat \<Rightarrow> 64 word) {1..<Suc (length installs)}"
  proof (rule inj_onI)
    fix x y
    assume "x \<in> {1..<Suc (length installs)}" "y \<in> {1..<Suc (length installs)}" "(of_nat x :: 64 word) = of_nat y"
    moreover have "unat (of_nat z :: 64 word) = z" if "z \<in> {1..<Suc (length installs)}" for z
      using that assms(2) by (simp add: unat_of_nat take_bit_nat_eq_self)
    ultimately show "x = y" by metis
  qed
  then show ?thesis unfolding assms(1) by (simp add: distinct_map del: upt_Suc)
qed

section \<open>Properties\<close>


text \<open>C7: a failure on an old connection cannot tear down its replacement: as long as fewer than
  \<open>2^64\<close> connections were made, all have different generations, the one in use is the last one made,
  and reporting a failure of any earlier one changes nothing.\<close>
theorem old_failure_harmless:
  assumes "run (up_step show_rc) evs (up_start now f s0) = Some s" "length (um_installs s) < 2 ^ 64"
  shows "distinct (map fst (um_installs s))
    \<and> (\<forall>g t p. up_state (um_up s) = Connected g t p \<longrightarrow> um_installs s \<noteq> [] \<and> last (um_installs s) = (g, t))
    \<and> (\<forall>g \<in> set (map fst (butlast (um_installs s))). \<forall>why. invalidate (um_clock s) g why (um_up s) = um_up s)"
proof (intro conjI)
  have ok: "up_ok (um_clock s) (um_installs s) (um_up s)" using run_up [OF assms(1)] by (simp add: up_inv_def)
  then have "map fst (um_installs s) = map of_nat [1..<Suc (length (um_installs s))]" unfolding up_ok_def by blast
  from distinct_generations [OF this assms(2)] show d: "distinct (map fst (um_installs s))" .
  show c: "\<forall>g t p. up_state (um_up s) = Connected g t p \<longrightarrow> um_installs s \<noteq> [] \<and> last (um_installs s) = (g, t)"
    using ok by (auto simp: up_ok_def conn_ok_def)
  have n: "g \<noteq> g'" if g: "g \<in> set (map fst (butlast (um_installs s)))" and u: "up_state (um_up s) = Connected g' t p" for g g' t p
  proof -
    have "butlast (um_installs s) @ [(g', t)] = um_installs s" using c u append_butlast_last_id [of "um_installs s"] by simp
    from arg_cong [OF this, of "map fst"] have "map fst (um_installs s) = map fst (butlast (um_installs s)) @ [g']" by simp
    with d g show ?thesis by auto
  qed
  have "invalidate (um_clock s) g why (um_up s) = um_up s" if "g \<in> set (map fst (butlast (um_installs s)))" for g why
    using n [OF that] by (cases "up_state (um_up s)") (simp_all add: invalidate_def)
  then show "\<forall>g \<in> set (map fst (butlast (um_installs s))). \<forall>why. invalidate (um_clock s) g why (um_up s) = um_up s" by blast
qed

text \<open>Every query ends once and is counted once: the queries begun are those under way and those
  ended, the counters of queries, failures and failures in a row are these numbers (modulo
  \<open>2^64\<close>), and no answer handed on is a \<open>SERVFAIL\<close>, \<open>REFUSED\<close> or \<open>NOTIMP\<close>.\<close>
theorem upstream_counters:
  assumes "run (up_step show_rc) evs (up_start now f s0) = Some s"
  shows "distinct (um_started s) \<and> mset (um_started s) = mset (map fst (um_senders s)) + mset (map fst (um_results s))
    \<and> up_queries (um_up s) = of_nat (length (um_started s))
    \<and> up_failures (um_up s) = of_nat (length (filter failed (um_results s)))
    \<and> up_consecutive_failures (um_up s) = of_nat (length (takeWhile failed (rev (um_results s))))
    \<and> (\<forall>(q, r) \<in> set (um_results s). \<forall>m. r = Inr m \<longrightarrow> rcode m \<notin> {ServFail, Refused, NotImp})"
  using run_up [OF assms] by (auto simp: up_inv_def counts_ok_def usable_def)

text \<open>The events of one query's own steps and the clock.\<close>

definition own_event :: "nat \<Rightarrow> ('n, 't) up_event \<Rightarrow> bool" where
  "own_event q e \<longleftrightarrow> (case e of Look q' \<Rightarrow> q' = q | Trigger q' \<Rightarrow> q' = q | GiveUp q' \<Rightarrow> q' = q
     | Reply q' r _ \<Rightarrow> q' = q \<and> r = TimedOut | Tick _ \<Rightarrow> True | _ \<Rightarrow> False)"

lemma give_up_ends:
  assumes "map_of (um_senders s) q = Some sd" "sd_phase sd = AwaitRepair seen"
  shows "\<exists>s'. run (up_step show_rc) [Tick (sd_deadline sd), GiveUp q] s = Some s' \<and> q \<in> fst ` set (um_results s')"
  using assms by (simp add: advance_def no_connection_def)

lemma timed_out_ends:
  assumes "map_of (um_senders s) q = Some sd" "sd_phase sd = Sending g t"
  shows "\<exists>s'. run (up_step show_rc) [Tick (sd_deadline sd), Reply q TimedOut 0] s = Some s' \<and> q \<in> fst ` set (um_results s')"
  using assms by (simp add: advance_def send_reply_def)

lemma trigger_ends:
  assumes "map_of (um_senders s) q = Some sd" "sd_phase sd = NeedRepair seen"
  shows "\<exists>s'. run (up_step show_rc) [Trigger q, Tick (sd_deadline sd), GiveUp q] s = Some s' \<and> q \<in> fst ` set (um_results s')"
proof -
  let ?sd = "sd\<lparr>sd_phase := AwaitRepair seen\<rparr>"
  let ?s = "advance q (Continue ?sd, trigger_repair (um_clock s) (um_up s)) s"
  have "map_of (um_senders ?s) q = Some ?sd" by (simp add: advance_def update_conv')
  from give_up_ends [OF this, of seen show_rc] assms show ?thesis by simp
qed


section \<open>The pool\<close>

lemma receive_first:
  "receive i errs rs = (case dropWhile isl rs of
      [] \<Rightarrow> Inl (errs @ map projl rs)
    | r # _ \<Rightarrow> Inr ((projr r)\<lparr>ms_metadata := (ms_metadata (projr r))\<lparr>md_id := i\<rparr>\<rparr>))"
  by (induction i errs rs rule: receive.induct) (auto simp del: dropWhile_eq_Nil_conv split: list.split)

text \<open>A query asks every upstream with recursion desired and \<open>DO\<close> set, keeping its identifier and
  questions; the first success to arrive is the answer, with the identifier of the client's query;
  when every upstream fails the error lists their errors in the order of arrival; and the pool's
  counters record which of the two happened.\<close>
theorem pool_first_success_wins:
  "md_recursion_desired (ms_metadata (outgoing ed query)) \<and> ms_queries (outgoing ed query) = ms_queries query
   \<and> md_id (ms_metadata (outgoing ed query)) = md_id (ms_metadata query)
   \<and> (\<exists>e. ms_edns (outgoing ed query) = Some e \<and> ed_dnssec_ok e)
   \<and> pool_resolve query results pl =
      (case dropWhile isl results of
         [] \<Rightarrow> (Inl (AllFailed (map projl results)),
                pl\<lparr>pu_all_failed_total := pu_all_failed_total pl + 1,
                   pu_consecutive_all_failed := pu_consecutive_all_failed pl + 1\<rparr>)
       | r # _ \<Rightarrow> (Inr ((projr r)\<lparr>ms_metadata := (ms_metadata (projr r))\<lparr>md_id := md_id (ms_metadata query)\<rparr>\<rparr>),
                pl\<lparr>pu_resolved := pu_resolved pl + 1, pu_consecutive_all_failed := 0\<rparr>))"
  by (cases "dropWhile isl results") (simp_all add: outgoing_def Let_def pool_resolve_def receive_first del: dropWhile_eq_Nil_conv)

lemma init_loop_bounds:
  assumes "\<And>n. dur n \<le> T" "init_loop attempt dur fs deadline n now ss = (end_at, r)"
  shows "end_at \<le> max now deadline + T
    \<and> (case r of Inl _ \<Rightarrow> deadline \<le> end_at + INIT_RETRY_BACKOFF_MAX | Inr ss' \<Rightarrow> \<exists>s \<in> set ss'. fst s \<noteq> None)"
  using assms
proof (induction attempt dur fs deadline n now ss rule: init_loop.induct)
  case (1 attempt dur fs deadline n now ss)
  let ?ss = "init_round (attempt n) fs ss" and ?now = "now + dur n"
  have d: "dur n \<le> T" by (rule "1.prems"(1))
  consider (live) "0 < length (filter (\<lambda>s. fst s \<noteq> None) ?ss)"
    | (over) "length (filter (\<lambda>s. fst s \<noteq> None) ?ss) = 0" "deadline \<le> ?now + init_backoff n"
    | (again) "length (filter (\<lambda>s. fst s \<noteq> None) ?ss) = 0" "\<not> deadline \<le> ?now + init_backoff n" by linarith
  then show ?case
  proof cases
    case live
    then have "\<exists>s \<in> set ?ss. fst s \<noteq> None" by (auto simp: filter_empty_conv)
    moreover have "end_at = ?now" "r = Inr ?ss" using "1.prems"(2) live by (simp_all add: init_loop.simps [of attempt dur fs deadline n])
    ultimately show ?thesis using d by auto
  next
    case over
    then have "end_at = ?now" "r = Inl (map snd ?ss)" using "1.prems"(2) by (simp_all add: init_loop.simps [of attempt dur fs deadline n])
    with over d init_backoff_range [of n] show ?thesis by auto
  next
    case again
    then have "init_loop attempt dur fs deadline (Suc n) (?now + init_backoff n) ?ss = (end_at, r)"
      using "1.prems"(2) by (simp add: init_loop.simps [of attempt dur fs deadline n])
    from "1.IH" [OF refl refl refl _ again(2) "1.prems"(1) this] again show ?thesis by auto
  qed
qed

text \<open>Start-up is bounded: whatever the upstreams do, the rounds end, at the latest one round
  after the connection budget; they give up only when less than the longest pause of the budget
  is left, and otherwise at least one upstream is connected.\<close>
theorem startup_bounded:
  assumes "\<forall>n. dur n \<le> T"
  shows "case init_loop attempt dur fs (now + budget) 0 now ss of
      (end_at, r) \<Rightarrow> end_at \<le> now + budget + T
        \<and> (case r of Inl _ \<Rightarrow> now + budget \<le> end_at + INIT_RETRY_BACKOFF_MAX | Inr ss' \<Rightarrow> \<exists>s \<in> set ss'. fst s \<noteq> None)"
proof -
  obtain end_at r where l: "init_loop attempt dur fs (now + budget) 0 now ss = (end_at, r)" by fastforce
  from init_loop_bounds [OF _ l, of T] assms show ?thesis by (simp add: l)
qed

section \<open>Witnesses\<close>

definition ex_factory :: network_factory where
  "ex_factory = \<lparr>nf_kind = Quic ''9.9.9.9'' 853, nf_bootstrap_ips = [], nf_url = ''quic://9.9.9.9''\<rparr>"

definition ex_start :: "(nat, nat) up_machine" where
  "ex_start = up_start 0 ex_factory (Some 7, [])"

text \<open>A connection dies under a query, is rebuilt, and the second attempt is under way.\<close>

definition ex_events :: "(nat, nat) up_event list" where
  "ex_events = [StartSend 1 (new_message 3 MQuery OpQuery) 2000, Look 1, Reply 1 (ReplyError (Fatal ''busy'')) 0,
     Look 1, Trigger 1, RepairEnd (Built 8), Wake 1, Look 1]"

definition ex_after :: "(nat, nat) up_machine" where
  "ex_after = the (run (up_step (\<lambda>_. [])) ex_events ex_start)"

lemmas ex_simps = ex_after_def ex_start_def ex_events_def up_start_def upstream_new_def initial_state_def send_def advance_def
  send_acquire_def acquire_def send_reply_def invalidate_def trigger_repair_def repair_def conclude_def Let_def

lemma ex_run: "run (up_step (\<lambda>_. [])) ex_events (up_start 0 ex_factory (Some 7, [])) = Some ex_after"
  and ex_installs: "um_installs ex_after = [(1, 7), (2, 8)]"
  and ex_sender: "\<exists>sd. map_of (um_senders ex_after) 1 = Some sd \<and> sd_phase sd = Sending 2 8"
  by (simp_all add: ex_simps)


theorem old_failure_harmless_witness: "invalidate (um_clock ex_after) 1 ''gone'' (um_up ex_after) = um_up ex_after"
  using old_failure_harmless [OF ex_run] by (simp add: ex_installs)

theorem upstream_counters_witness: "mset (um_started ex_after) = mset (map fst (um_senders ex_after)) + mset (map fst (um_results ex_after))"
  using upstream_counters [OF ex_run] by simp


theorem startup_bounded_witness:
  "case init_loop (\<lambda>n i. None :: (upstream_error + nat) option) (\<lambda>_. 10) [ex_factory] (0 + 30) 0 0 [(None, [])] of
     (end_at, r) \<Rightarrow> end_at \<le> 0 + 30 + 10
        \<and> (case r of Inl _ \<Rightarrow> 0 + 30 \<le> end_at + INIT_RETRY_BACKOFF_MAX | Inr ss' \<Rightarrow> \<exists>s \<in> set ss'. fst s \<noteq> None)"
  by (rule startup_bounded) simp

end
