(* ===== verification/Lists.thy ===== *)
theory Lists
  imports Filter_Engine Config Upstream
begin

text \<open>
  Blocklist acquisition and compilation, from \<open>crates/core/src/lists.rs\<close>.

  The file system is explicit: contents and modification times of files, and the directories.
  \<open>io\<close> says which operations fail; a write that fails may leave part of its bytes behind.  The
  list host is the argument \<open>http\<close>, from a URL and the \<open>If-None-Match\<close> header to an error or a
  response whose chunks may break off.  SHA-256 and the decoding of a body are arguments.
\<close>

section \<open>File system\<close>

datatype io_error = NotFound | IoFailure string

record disk_file =
  fl_bytes :: string
  fl_mtime :: nat

record file_system =
  fs_files :: "string \<Rightarrow> disk_file option"
  fs_dirs :: "string set"

record io =
  io_show :: "io_error \<Rightarrow> string"
  io_read :: "string \<Rightarrow> io_error option"
  io_write :: "string \<Rightarrow> string \<Rightarrow> (io_error \<times> string option) option"
  io_rename :: "string \<Rightarrow> io_error option"
  io_remove :: "string \<Rightarrow> io_error option"
  io_mkdir :: "string \<Rightarrow> io_error option"
  io_touch :: "string \<Rightarrow> io_error option"
  io_stat :: "string \<Rightarrow> io_error option"

definition is_file :: "string \<Rightarrow> file_system \<Rightarrow> bool" where
  "is_file p fs \<longleftrightarrow> fs_files fs p \<noteq> None"

definition is_dir :: "string \<Rightarrow> file_system \<Rightarrow> bool" where
  "is_dir p fs \<longleftrightarrow> p \<in> fs_dirs fs"

definition read_to_string :: "io \<Rightarrow> string \<Rightarrow> file_system \<Rightarrow> io_error + string" where
  "read_to_string io p fs =
     (case io_read io p of
        Some e \<Rightarrow> Inl e
      | None \<Rightarrow> (case fs_files fs p of None \<Rightarrow> Inl NotFound | Some f \<Rightarrow> Inr (fl_bytes f)))"

definition put_file :: "string \<Rightarrow> nat \<Rightarrow> string \<Rightarrow> file_system \<Rightarrow> file_system" where
  "put_file p now bytes fs = fs\<lparr>fs_files := (fs_files fs)(p \<mapsto> \<lparr>fl_bytes = bytes, fl_mtime = now\<rparr>)\<rparr>"

definition fs_write :: "io \<Rightarrow> nat \<Rightarrow> string \<Rightarrow> string \<Rightarrow> file_system \<Rightarrow> io_error option \<times> file_system" where
  "fs_write io now p bytes fs =
     (case io_write io p bytes of
        None \<Rightarrow> (None, put_file p now bytes fs)
      | Some (e, None) \<Rightarrow> (Some e, fs)
      | Some (e, Some part) \<Rightarrow> (Some e, put_file p now part fs))"

definition fs_rename :: "io \<Rightarrow> string \<Rightarrow> string \<Rightarrow> file_system \<Rightarrow> io_error option \<times> file_system" where
  "fs_rename io from to fs =
     (case io_rename io to of
        Some e \<Rightarrow> (Some e, fs)
      | None \<Rightarrow>
          (case fs_files fs from of
             None \<Rightarrow> (Some NotFound, fs)
           | Some f \<Rightarrow> (None, fs\<lparr>fs_files := (fs_files fs)(from := None, to := Some f)\<rparr>)))"

definition remove_file :: "io \<Rightarrow> string \<Rightarrow> file_system \<Rightarrow> file_system" where
  "remove_file io p fs =
     (if io_remove io p = None then fs\<lparr>fs_files := (fs_files fs)(p := None)\<rparr> else fs)"

definition set_modified :: "io \<Rightarrow> nat \<Rightarrow> string \<Rightarrow> file_system \<Rightarrow> file_system" where
  "set_modified io now p fs =
     (case (io_touch io p, fs_files fs p) of
        (None, Some f) \<Rightarrow> fs\<lparr>fs_files := (fs_files fs)(p \<mapsto> f\<lparr>fl_mtime := now\<rparr>)\<rparr>
      | _ \<Rightarrow> fs)"

text \<open>\<open>Path::join\<close> and \<open>Path::with_extension\<close> on the last component.\<close>

definition path_join :: "string \<Rightarrow> string \<Rightarrow> string" where
  "path_join dir f =
     (if starts_with ''/'' f then f else if dir = [] \<or> ends_with ''/'' dir then dir @ f else dir @ ''/'' @ f)"

definition file_name :: "string \<Rightarrow> string" where
  "file_name p = rev (takeWhile (\<lambda>c. c \<noteq> CHR ''/'') (rev p))"

definition file_stem :: "string \<Rightarrow> string" where
  "file_stem f =
     (let stem = rev (drop 1 (dropWhile (\<lambda>c. c \<noteq> CHR ''.'') (rev f))) in if stem = [] then f else stem)"

definition with_extension :: "string \<Rightarrow> string \<Rightarrow> string" where
  "with_extension p ext = take (length p - length (file_name p)) p @ file_stem (file_name p) @ ''.'' @ ext"

section \<open>Data\<close>

definition MAX_LIST_BYTES :: nat where "MAX_LIST_BYTES = 64 * 1024 * 1024"

datatype list_error =
    Unavailable string string string
  | ReadError string string io_error
  | NoSource string
  | ListDir string
  | ListDirCreate string io_error
  | Client string

datatype list_origin =
    Downloaded
  | NotModified
  | StoredAfterFetchFailure string
  | SeedAfterFetchFailure string
  | LocalFile
  | StoredOffline
  | SeedOffline

fun origin_as_str :: "list_origin \<Rightarrow> string" where
  "origin_as_str Downloaded = ''downloaded''"
| "origin_as_str NotModified = ''not_modified''"
| "origin_as_str (StoredAfterFetchFailure _) = ''stored_after_fetch_failure''"
| "origin_as_str (SeedAfterFetchFailure _) = ''seed_after_fetch_failure''"
| "origin_as_str LocalFile = ''local_file''"
| "origin_as_str StoredOffline = ''stored_offline''"
| "origin_as_str SeedOffline = ''seed_offline''"

fun fetch_failed :: "list_origin \<Rightarrow> bool" where
  "fetch_failed (StoredAfterFetchFailure _) = True"
| "fetch_failed (SeedAfterFetchFailure _) = True"
| "fetch_failed _ = False"

record list_report =
  lr_name :: string
  lr_origin :: list_origin
  lr_rules :: nat
  lr_issues :: nat
  lr_verified_age_secs :: "nat option"

record loaded_lists =
  ll_engine :: engine
  ll_names :: "string list"
  ll_hash :: string
  ll_issues :: "(string \<times> line_issue) list"
  ll_reports :: "list_report list"

definition total_rules :: "loaded_lists \<Rightarrow> nat" where
  "total_rules l = sum_list (map lr_rules (ll_reports l))"

record acquired =
  aq_text :: string
  aq_origin :: list_origin
  aq_verified_age_secs :: "nat option"

section \<open>Resolving list hosts\<close>

definition list_lookup ::
    "(string \<Rightarrow> string + 'n) \<Rightarrow> (response_code \<Rightarrow> string) \<Rightarrow> (nat \<Rightarrow> string) \<Rightarrow> ('n message \<Rightarrow> upstream_error + 'n message)
       \<Rightarrow> string \<Rightarrow> nat \<Rightarrow> string + ip_addr list" where
  "list_lookup name_from_ascii show_rc show_type resolve host qtype =
     (case name_from_ascii (rev (dropWhile (\<lambda>c. c = CHR ''.'') (rev host)) @ ''.'') of
        Inl e \<Rightarrow> Inl (host @ '': '' @ e)
      | Inr name \<Rightarrow>
          (let q0 = add_query \<lparr>dq_name = name, dq_type = qtype, dq_class = 1\<rparr> (new_message 0 MQuery OpQuery);
               query = q0\<lparr>ms_metadata := (ms_metadata q0)\<lparr>md_recursion_desired := True\<rparr>\<rparr> in
           case resolve query of
             Inl e \<Rightarrow> Inl (show_upstream_error e)
           | Inr answer \<Rightarrow>
               if rcode answer \<noteq> NoError then Inl (show_type qtype @ '' '' @ show_rc (rcode answer))
               else Inr (List.map_filter (\<lambda>r. case dr_data r of
                  RData_A os \<Rightarrow> Some (V4 os) | RData_AAAA gs \<Rightarrow> Some (V6 gs) | _ \<Rightarrow> None) (ms_answers answer))))"

definition resolve_list_host :: "(nat \<Rightarrow> string + ip_addr list) \<Rightarrow> string \<Rightarrow> string + socket_addr list" where
  "resolve_list_host lookup host =
     (let results = [lookup 1, lookup 28];
          addrs = map (\<lambda>ip. \<lparr>sa_ip = ip, sa_port = 0\<rparr>) (concat (map (\<lambda>r. case r of Inr ips \<Rightarrow> ips | Inl _ \<Rightarrow> []) results));
          errors = concat (map (\<lambda>r. case r of Inl e \<Rightarrow> [e] | Inr _ \<Rightarrow> []) results) in
      if addrs = []
      then Inl (host @ '': not resolvable through the upstreams: ''
             @ (if errors = [] then ''no A/AAAA records'' else join ''; '' errors))
      else Inr addrs)"

section \<open>Fetching\<close>

text \<open>An error of the HTTP library with its causes.\<close>

datatype chained_error = Chained string "chained_error option"

fun error_chain :: "chained_error \<Rightarrow> string" where
  "error_chain (Chained m None) = m"
| "error_chain (Chained m (Some cause)) = m @ '': '' @ error_chain cause"

record http_response =
  rs_status :: nat
  rs_status_text :: string
  rs_content_length :: "nat option"
  rs_etag :: "string option"
  rs_chunks :: "(chained_error + string) list"

definition too_large :: string where
  "too_large = ''body larger than '' @ show_nat MAX_LIST_BYTES @ '' bytes''"

fun read_body :: "(chained_error + string) list \<Rightarrow> string \<Rightarrow> string + string" where
  "read_body [] body = Inr body"
| "read_body (Inl e # cs) body = Inl (error_chain e)"
| "read_body (Inr chunk # cs) body =
     (if length body + length chunk > MAX_LIST_BYTES then Inl too_large else read_body cs (body @ chunk))"

definition write_atomic :: "io \<Rightarrow> nat \<Rightarrow> string \<Rightarrow> string \<Rightarrow> file_system \<Rightarrow> io_error option \<times> file_system" where
  "write_atomic io now p bytes fs =
     (let tmp = with_extension p ''tmp'' in
      case fs_write io now tmp bytes fs of
        (Some e, fs1) \<Rightarrow> (Some e, fs1)
      | (None, fs1) \<Rightarrow> fs_rename io tmp p fs1)"

definition if_none_match :: "io \<Rightarrow> string \<Rightarrow> string \<Rightarrow> file_system \<Rightarrow> string option" where
  "if_none_match io stored_path etag_path fs =
     (if is_file stored_path fs then
        (case read_to_string io etag_path fs of
           Inr etag \<Rightarrow> if trim etag \<noteq> [] then Some (trim etag) else None
         | Inl _ \<Rightarrow> None)
      else None)"

definition store_body :: "io \<Rightarrow> nat \<Rightarrow> string \<Rightarrow> string \<Rightarrow> string option \<Rightarrow> string \<Rightarrow> file_system \<Rightarrow> file_system" where
  "store_body io now stored_path etag_path etag text fs =
     (case write_atomic io now stored_path text fs of
        (None, fs1) \<Rightarrow>
          (case etag of
             Some e \<Rightarrow>
               (case write_atomic io now etag_path e fs1 of
                  (None, fs2) \<Rightarrow> fs2
                | (Some _, fs2) \<Rightarrow> remove_file io etag_path fs2)
           | None \<Rightarrow> remove_file io etag_path fs1)
      | (Some _, fs1) \<Rightarrow> remove_file io etag_path fs1)"

definition fetch_with_etag ::
    "io \<Rightarrow> (string \<Rightarrow> string) \<Rightarrow> (string \<Rightarrow> string option \<Rightarrow> chained_error + http_response) \<Rightarrow> nat
       \<Rightarrow> string \<Rightarrow> string \<Rightarrow> string \<Rightarrow> file_system \<Rightarrow> (string + acquired) \<times> file_system" where
  "fetch_with_etag io utf8_lossy http now url stored_path etag_path fs =
     (case http url (if_none_match io stored_path etag_path fs) of
        Inl e \<Rightarrow> (Inl (error_chain e), fs)
      | Inr response \<Rightarrow>
          if rs_status response = 304 then
            (case read_to_string io stored_path fs of
               Inl e \<Rightarrow> (Inl (''304 but the stored copy is unreadable: '' @ io_show io e), fs)
             | Inr text \<Rightarrow>
                 (Inr \<lparr>aq_text = text, aq_origin = NotModified, aq_verified_age_secs = Some 0\<rparr>,
                  set_modified io now stored_path fs))
          else if \<not> (200 \<le> rs_status response \<and> rs_status response < 300)
          then (Inl (''HTTP '' @ rs_status_text response), fs)
          else if (case rs_content_length response of Some n \<Rightarrow> n > MAX_LIST_BYTES | None \<Rightarrow> False)
          then (Inl too_large, fs)
          else
            (case read_body (rs_chunks response) [] of
               Inl reason \<Rightarrow> (Inl reason, fs)
             | Inr body \<Rightarrow>
                 (let text = utf8_lossy body; counts = count_rules text in
                  if lc_rules counts = 0
                  then (Inl (''body holds no rules ('' @ show_nat (lc_issues counts)
                         @ '' rejected lines): refusing to store it''), fs)
                  else
                    (Inr \<lparr>aq_text = text, aq_origin = Downloaded, aq_verified_age_secs = Some 0\<rparr>,
                     store_body io now stored_path etag_path (rs_etag response) text fs))))"

section \<open>Acquiring\<close>

definition list_read :: "io \<Rightarrow> string \<Rightarrow> string \<Rightarrow> file_system \<Rightarrow> list_error + string" where
  "list_read io name path fs =
     (case read_to_string io path fs of Inl e \<Rightarrow> Inl (ReadError name path e) | Inr text \<Rightarrow> Inr text)"

definition age_of :: "io \<Rightarrow> nat \<Rightarrow> string \<Rightarrow> file_system \<Rightarrow> nat option" where
  "age_of io now path fs =
     (case (io_stat io path, fs_files fs path) of
        (None, Some f) \<Rightarrow> Some ((now - fl_mtime f) div 10 ^ 9)
      | _ \<Rightarrow> None)"

definition acquire_file ::
    "io \<Rightarrow> string \<Rightarrow> string \<Rightarrow> list_origin \<Rightarrow> nat option \<Rightarrow> file_system \<Rightarrow> list_error + acquired" where
  "acquire_file io name path origin age fs =
     (case list_read io name path fs of
        Inl e \<Rightarrow> Inl e
      | Inr text \<Rightarrow> Inr \<lparr>aq_text = text, aq_origin = origin, aq_verified_age_secs = age\<rparr>)"

type_synonym fetcher = "string \<Rightarrow> string option \<Rightarrow> chained_error + http_response"

definition stored_path :: "string \<Rightarrow> string \<Rightarrow> string" where
  "stored_path list_dir name = path_join list_dir (name @ ''.txt'')"

definition etag_path :: "string \<Rightarrow> string \<Rightarrow> string" where
  "etag_path list_dir name = path_join list_dir (name @ ''.etag'')"

definition acquire_list ::
    "io \<Rightarrow> (string \<Rightarrow> string) \<Rightarrow> fetcher option \<Rightarrow> nat \<Rightarrow> string \<Rightarrow> list_source \<Rightarrow> file_system
       \<Rightarrow> (list_error + acquired) \<times> file_system" where
  "acquire_list io utf8_lossy fetcher now list_dir source fs =
     (let name = ls_name source in
      case ls_url source of
        None \<Rightarrow>
          (case ls_path source of
             None \<Rightarrow> (Inl (NoSource name), fs)
           | Some path \<Rightarrow> (acquire_file io name path LocalFile None fs, fs))
      | Some url \<Rightarrow>
          (let stored = stored_path list_dir name; etag = etag_path list_dir name;
               seed = (case ls_path source of Some p \<Rightarrow> if is_file p fs then Some p else None | None \<Rightarrow> None) in
           case fetcher of
             None \<Rightarrow>
               (if is_file stored fs then acquire_file io name stored StoredOffline (age_of io now stored fs) fs
                else (case seed of
                   Some p \<Rightarrow> acquire_file io name p SeedOffline None fs
                 | None \<Rightarrow> Inl (Unavailable name url ''offline load and no stored copy'')), fs)
           | Some http \<Rightarrow>
               (case fetch_with_etag io utf8_lossy http now url stored etag fs of
                  (Inr acquired, fs1) \<Rightarrow> (Inr acquired, fs1)
                | (Inl reason, fs1) \<Rightarrow>
                    (if is_file stored fs1
                     then acquire_file io name stored (StoredAfterFetchFailure reason) (age_of io now stored fs1) fs1
                     else (case seed of
                        Some p \<Rightarrow> acquire_file io name p (SeedAfterFetchFailure reason) None fs1
                      | None \<Rightarrow> Inl (Unavailable name url reason)), fs1))))"

section \<open>Loading\<close>

record load_state =
  lo_engine :: engine
  lo_names :: "string list"
  lo_issues :: "(string \<times> line_issue) list"
  lo_reports :: "list_report list"
  lo_raw :: string

text \<open>One turn of the loop: compile the text into the builder, whose panic is \<^const>\<open>None\<close>.\<close>

definition add_source :: "string \<Rightarrow> acquired \<Rightarrow> load_state \<Rightarrow> load_state option" where
  "add_source name a st = do {
     (added, e) \<leftarrow> add_list_text (aq_text a) (lo_engine st);
     Some \<lparr>lo_engine = e, lo_names = lo_names st @ [name],
           lo_issues = lo_issues st @ map (Pair name) (al_issues added),
           lo_reports = lo_reports st @ [\<lparr>lr_name = name, lr_origin = aq_origin a, lr_rules = al_rules added,
             lr_issues = length (al_issues added), lr_verified_age_secs = aq_verified_age_secs a\<rparr>],
           lo_raw = lo_raw st @ aq_text a\<rparr>
   }"

fun load_sources ::
    "io \<Rightarrow> (string \<Rightarrow> string) \<Rightarrow> fetcher option \<Rightarrow> nat \<Rightarrow> string \<Rightarrow> list_source list \<Rightarrow> load_state \<Rightarrow> file_system
       \<Rightarrow> ((list_error + load_state) \<times> file_system) option" where
  "load_sources io utf8_lossy fetcher now list_dir [] st fs = Some (Inr st, fs)"
| "load_sources io utf8_lossy fetcher now list_dir (source # sources) st fs =
     (case acquire_list io utf8_lossy fetcher now list_dir source fs of
        (Inl e, fs1) \<Rightarrow> Some (Inl e, fs1)
      | (Inr acquired, fs1) \<Rightarrow> do {
          st1 \<leftarrow> add_source (ls_name source) acquired st;
          load_sources io utf8_lossy fetcher now list_dir sources st1 fs1
        })"

text \<open>The list directory: made and probed by an online load, only looked at by an offline one.\<close>

definition prepare_dir :: "io \<Rightarrow> bool \<Rightarrow> nat \<Rightarrow> string \<Rightarrow> file_system \<Rightarrow> (list_error + unit) \<times> file_system" where
  "prepare_dir io online now list_dir fs =
     (case (if online \<and> \<not> is_dir list_dir fs
            then (case io_mkdir io list_dir of
                    Some e \<Rightarrow> Inl (ListDirCreate list_dir e)
                  | None \<Rightarrow> Inr (fs\<lparr>fs_dirs := insert list_dir (fs_dirs fs)\<rparr>))
            else Inr fs) of
        Inl e \<Rightarrow> (Inl e, fs)
      | Inr fs1 \<Rightarrow>
          if \<not> is_dir list_dir fs1 then (Inl (ListDir list_dir), fs1)
          else if online then
            (let probe = path_join list_dir ''.sumidero-probe'' in
             case fs_write io now probe [] fs1 of
               (Some _, fs2) \<Rightarrow> (Inl (ListDir list_dir), fs2)
             | (None, fs2) \<Rightarrow> (Inr (), remove_file io probe fs2))
          else (Inr (), fs1))"

definition load_start :: load_state where
  "load_start = \<lparr>lo_engine = engine_default, lo_names = [], lo_issues = [], lo_reports = [], lo_raw = []\<rparr>"

definition lists_load ::
    "sorter \<Rightarrow> (string \<Rightarrow> 8 word list) \<Rightarrow> io \<Rightarrow> (string \<Rightarrow> string) \<Rightarrow> fetcher option \<Rightarrow> nat \<Rightarrow> string \<Rightarrow> list_source list
       \<Rightarrow> file_system \<Rightarrow> ((list_error + loaded_lists) \<times> file_system) option" where
  "lists_load srt sha256 io utf8_lossy fetcher now list_dir sources fs =
     (case prepare_dir io (fetcher \<noteq> None) now list_dir fs of
        (Inl e, fs1) \<Rightarrow> Some (Inl e, fs1)
      | (Inr _, fs1) \<Rightarrow> do {
          (r, fs2) \<leftarrow> load_sources io utf8_lossy fetcher now list_dir sources load_start fs1;
          (case r of
             Inl e \<Rightarrow> Some (Inl e, fs2)
           | Inr st \<Rightarrow> do {
               e \<leftarrow> build srt (lo_engine st);
               Some (Inr \<lparr>ll_engine = e, ll_names = lo_names st, ll_hash = hex_encode (sha256 (lo_raw st)),
                          ll_issues = lo_issues st, ll_reports = lo_reports st\<rparr>, fs2)
             })
        })"

text \<open>What \<open>log_issue_summary\<close> counts: rejected lines per reason, in the order of first occurrence.\<close>

fun count_reason :: "issue_reason \<Rightarrow> (issue_reason \<times> nat) list \<Rightarrow> (issue_reason \<times> nat) list" where
  "count_reason r [] = [(r, 1)]"
| "count_reason r ((r', n) # cs) = (if r' = r then (r', n + 1) # cs else (r', n) # count_reason r cs)"

definition issue_counts :: "line_issue list \<Rightarrow> (issue_reason \<times> nat) list" where
  "issue_counts issues = fold (\<lambda>i cs. count_reason (li_reason i) cs) issues []"

end
