(* ===== verification/Lists_Correct.thy ===== *)
theory Lists_Correct
  imports Lists Filter_Correct
begin

text \<open>
  Correctness of list acquisition and compilation: the last good copy of a list survives every
  failure, an offline load writes nothing, and a load that succeeds has compiled the text of every
  configured list.
\<close>

section \<open>Paths\<close>

lemma last_with_extension: "last (with_extension p ''tmp'') = CHR ''p''"
  by (simp add: with_extension_def)

lemma last_path_join: "f \<noteq> [] \<Longrightarrow> last (path_join d f) = last f"
  by (simp add: path_join_def)

lemma last_stored: "last (stored_path d n) = CHR ''t''"
  by (simp add: stored_path_def last_path_join)

lemma last_etag: "last (etag_path d n) = CHR ''g''"
  by (simp add: etag_path_def last_path_join)

lemma paths_differ:
  "with_extension (stored_path d n) ''tmp'' \<noteq> stored_path d n" "with_extension (etag_path d n) ''tmp'' \<noteq> stored_path d n"
  "etag_path d n \<noteq> stored_path d n" "with_extension (etag_path d n) ''tmp'' \<noteq> etag_path d n"
proof -
  have ne: "p \<noteq> q" if "last p \<noteq> last q" for p q :: string using that by auto
  show "with_extension (stored_path d n) ''tmp'' \<noteq> stored_path d n" by (rule ne) (simp add: last_with_extension last_stored)
  show "with_extension (etag_path d n) ''tmp'' \<noteq> stored_path d n" by (rule ne) (simp add: last_with_extension last_stored)
  show "etag_path d n \<noteq> stored_path d n" by (rule ne) (simp add: last_etag last_stored)
  show "with_extension (etag_path d n) ''tmp'' \<noteq> etag_path d n" by (rule ne) (simp add: last_with_extension last_etag)
qed

section \<open>Storing a body\<close>

text \<open>The files a fetch of the list \<open>n\<close> may touch.\<close>

definition own_files :: "string \<Rightarrow> string \<Rightarrow> string set" where
  "own_files d n = {stored_path d n, etag_path d n, with_extension (stored_path d n) ''tmp'',
     with_extension (etag_path d n) ''tmp''}"

lemma write_atomic_cases:
  assumes "write_atomic io now p bytes fs = (e, fs')" "with_extension p ''tmp'' \<noteq> p"
  shows "(if e = None then fs_files fs' p = Some \<lparr>fl_bytes = bytes, fl_mtime = now\<rparr> else fs_files fs' p = fs_files fs p)
    \<and> (\<forall>q. q \<notin> {p, with_extension p ''tmp''} \<longrightarrow> fs_files fs' q = fs_files fs q) \<and> fs_dirs fs' = fs_dirs fs"
  using assms
  by (auto simp: write_atomic_def Let_def fs_write_def fs_rename_def put_file_def split: option.splits if_splits prod.splits)

lemma remove_file_other: "q \<noteq> p \<Longrightarrow> fs_files (remove_file io p fs) q = fs_files fs q"
  by (simp add: remove_file_def)

lemma store_body_safe:
  fixes d n :: string
  defines "s \<equiv> stored_path d n" and "g \<equiv> etag_path d n"
  shows "fs_files (store_body io now s g etag text fs) s \<in> {fs_files fs s, Some \<lparr>fl_bytes = text, fl_mtime = now\<rparr>}
    \<and> (\<forall>q. q \<notin> own_files d n \<longrightarrow> fs_files (store_body io now s g etag text fs) q = fs_files fs q)"
proof -
  obtain e1 fs1 where w1: "write_atomic io now s text fs = (e1, fs1)" by fastforce
  obtain e2 fs2 where w2: "write_atomic io now g (the etag) fs1 = (e2, fs2)" by fastforce
  note c1 = write_atomic_cases [OF w1] and c2 = write_atomic_cases [OF w2]
  note d = paths_differ [of d n, folded s_def g_def]
  have r: "fs_files (remove_file io g x) s = fs_files x s" for x using d(3) by (simp add: remove_file_other)
  have s1: "fs_files fs1 s \<in> {fs_files fs s, Some \<lparr>fl_bytes = text, fl_mtime = now\<rparr>}"
    using c1 d(1) by (cases "e1 = None") auto
  have s2: "fs_files fs2 s = fs_files fs1 s" using c2 d(2,3,4) by auto
  have "fs_files (store_body io now s g etag text fs) s = fs_files fs1 s"
    using w1 w2 s2 r by (auto simp: store_body_def split: option.split)
  moreover have "fs_files (store_body io now s g etag text fs) q = fs_files fs q" if q: "q \<notin> own_files d n" for q
  proof -
    have n: "q \<noteq> s" "q \<noteq> g" "q \<noteq> with_extension s ''tmp''" "q \<noteq> with_extension g ''tmp''"
      using q by (auto simp: own_files_def s_def g_def)
    have "fs_files fs1 q = fs_files fs q" "fs_files fs2 q = fs_files fs1 q" using c1 c2 d n by auto
    then show ?thesis using w1 w2 n(2) by (auto simp: store_body_def remove_file_other split: option.split)
  qed
  ultimately show ?thesis using s1 by auto
qed

section \<open>Properties\<close>

text \<open>C9: the last good copy of a list is safe, whatever the host answers and whichever file operation
  fails, half-written files included: a failed fetch changes no file; a 304 uses and keeps the stored
  text; a download holds at least one rule and leaves either the old copy or the complete new one;
  and files that are not the list's own are never touched.\<close>
theorem last_good_copy_safe:
  assumes "fetch_with_etag io utf8_lossy http now url (stored_path d n) (etag_path d n) fs = (r, fs')"
  shows "(case r of
      Inl _ \<Rightarrow> fs' = fs
    | Inr a \<Rightarrow>
        (aq_origin a = NotModified \<and> (\<exists>f m. fs_files fs (stored_path d n) = Some f \<and> aq_text a = fl_bytes f
           \<and> fs_files fs' (stored_path d n) = Some (f\<lparr>fl_mtime := m\<rparr>)))
      \<or> (aq_origin a = Downloaded \<and> 0 < lc_rules (count_rules (aq_text a))
           \<and> fs_files fs' (stored_path d n)
               \<in> {fs_files fs (stored_path d n), Some \<lparr>fl_bytes = aq_text a, fl_mtime = now\<rparr>}))
    \<and> (\<forall>q. q \<notin> own_files d n \<longrightarrow> fs_files fs' q = fs_files fs q)"
proof (cases "http url (if_none_match io (stored_path d n) (etag_path d n) fs)")
  case (Inl e)
  then show ?thesis using assms by (auto simp: fetch_with_etag_def)
next
  case (Inr resp)
  show ?thesis
  proof (cases "rs_status resp = 304")
    case True
    have "\<exists>m. f = f\<lparr>fl_mtime := m\<rparr>" for f :: disk_file by (rule exI [of _ "fl_mtime f"]) simp
    moreover have "stored_path d n \<in> own_files d n" by (simp add: own_files_def)
    ultimately show ?thesis using assms Inr True
      by (fastforce simp: fetch_with_etag_def read_to_string_def set_modified_def split: sum.splits option.splits)
  next
    case False
    show ?thesis
    proof (cases "\<exists>body. read_body (rs_chunks resp) [] = Inr body \<and> lc_rules (count_rules (utf8_lossy body)) \<noteq> 0
        \<and> 200 \<le> rs_status resp \<and> rs_status resp < 300 \<and> \<not> (case rs_content_length resp of Some n \<Rightarrow> n > MAX_LIST_BYTES | None \<Rightarrow> False)")
      case True
      then obtain body where "read_body (rs_chunks resp) [] = Inr body" "lc_rules (count_rules (utf8_lossy body)) \<noteq> 0"
        "200 \<le> rs_status resp" "rs_status resp < 300" "\<not> (case rs_content_length resp of Some n \<Rightarrow> n > MAX_LIST_BYTES | None \<Rightarrow> False)" by blast
      then have "r = Inr \<lparr>aq_text = utf8_lossy body, aq_origin = Downloaded, aq_verified_age_secs = Some 0\<rparr>"
        "fs' = store_body io now (stored_path d n) (etag_path d n) (rs_etag resp) (utf8_lossy body) fs"
        using assms Inr False by (simp_all add: fetch_with_etag_def Let_def)
      then show ?thesis using store_body_safe [of io now d n "rs_etag resp" "utf8_lossy body" fs] \<open>lc_rules _ \<noteq> 0\<close> by simp
    next
      case bad: False
      then show ?thesis using assms Inr False
        by (auto simp: fetch_with_etag_def Let_def split: sum.splits if_splits)
    qed
  qed
qed

lemma load_sources_texts:
  assumes "load_sources io utf8_lossy fetcher now d sources st fs = Some (Inr st', fs')"
  shows "\<exists>texts. length texts = length sources \<and> add_texts texts (lo_engine st) = Some (lo_engine st')
    \<and> lo_names st' = lo_names st @ map ls_name sources \<and> lo_raw st' = lo_raw st @ concat texts
    \<and> map lr_rules (lo_reports st') = map lr_rules (lo_reports st) @ map (\<lambda>t. lc_rules (count_rules t)) texts
    \<and> map lr_issues (lo_reports st') = map lr_issues (lo_reports st) @ map (\<lambda>t. lc_issues (count_rules t)) texts
    \<and> map lr_name (lo_reports st') = map lr_name (lo_reports st) @ map ls_name sources"
  using assms
proof (induction sources arbitrary: st fs)
  case (Cons source sources)
  from Cons.prems obtain a fs1 st1 where a: "acquire_list io utf8_lossy fetcher now d source fs = (Inr a, fs1)"
      "add_source (ls_name source) a st = Some st1"
      "load_sources io utf8_lossy fetcher now d sources st1 fs1 = Some (Inr st', fs')"
    by (auto split: prod.splits sum.splits bind_splits)
  from a(2) obtain added e where e: "add_list_text (aq_text a) (lo_engine st) = Some (added, e)"
      "st1 = \<lparr>lo_engine = e, lo_names = lo_names st @ [ls_name source], lo_issues = lo_issues st @ map (Pair (ls_name source)) (al_issues added),
        lo_reports = lo_reports st @ [\<lparr>lr_name = ls_name source, lr_origin = aq_origin a, lr_rules = al_rules added,
          lr_issues = length (al_issues added), lr_verified_age_secs = aq_verified_age_secs a\<rparr>],
        lo_raw = lo_raw st @ aq_text a\<rparr>"
    by (auto simp: add_source_def split: bind_splits)
  from e(1) have c: "al_rules added = lc_rules (count_rules (aq_text a))" "length (al_issues added) = lc_issues (count_rules (aq_text a))"
    by (auto simp: add_list_text_def count_rules_def case_prod_beta split: bind_splits)
  from Cons.IH [OF a(3)] obtain texts where
    t: "length texts = length sources" "add_texts texts e = Some (lo_engine st')" "lo_names st' = lo_names st1 @ map ls_name sources"
      "lo_raw st' = lo_raw st1 @ concat texts"
      "map lr_rules (lo_reports st') = map lr_rules (lo_reports st1) @ map (\<lambda>t. lc_rules (count_rules t)) texts"
      "map lr_issues (lo_reports st') = map lr_issues (lo_reports st1) @ map (\<lambda>t. lc_issues (count_rules t)) texts"
      "map lr_name (lo_reports st') = map lr_name (lo_reports st1) @ map ls_name sources" unfolding e(2) by auto
  show ?case by (rule exI [of _ "aq_text a # texts"]) (use e t c in simp)
qed simp

lemma acquire_offline: "acquire_list io utf8_lossy None now d source fs = (r, fs') \<Longrightarrow> fs' = fs"
  by (auto simp: acquire_list_def Let_def split: option.splits if_splits)

lemma load_sources_offline: "load_sources io utf8_lossy None now d sources st fs = Some (r, fs') \<Longrightarrow> fs' = fs"
proof (induction sources arbitrary: st fs)
  case (Cons source sources)
  then show ?case by (auto split: prod.splits sum.splits bind_splits dest: acquire_offline)
qed simp

lemma lists_load_content:
  assumes "lists_load srt sha256 io utf8_lossy fetcher now d sources fs = Some (r, fs')"
  shows "(fetcher = None \<longrightarrow> fs' = fs) \<and>
    (\<forall>l. r = Inr l \<longrightarrow> (\<exists>texts. length texts = length sources \<and> compile srt texts = Some (ll_engine l)
      \<and> ll_names l = map ls_name sources \<and> map lr_name (ll_reports l) = map ls_name sources
      \<and> map lr_rules (ll_reports l) = map (\<lambda>t. lc_rules (count_rules t)) texts
      \<and> map lr_issues (ll_reports l) = map (\<lambda>t. lc_issues (count_rules t)) texts
      \<and> ll_hash l = hex_encode (sha256 (concat texts))))"
proof -
  obtain q fs1 where p: "prepare_dir io (fetcher \<noteq> None) now d fs = (q, fs1)" by fastforce
  have off: "fs1 = fs" if "fetcher = None" using p that by (auto simp: prepare_dir_def split: if_splits)
  show ?thesis
  proof (cases q)
    case (Inl e)
    then show ?thesis using assms p off by (auto simp: lists_load_def)
  next
    case (Inr u)
    with assms p obtain q2 where ls: "load_sources io utf8_lossy fetcher now d sources load_start fs1 = Some (q2, fs')"
      and b: "(case q2 of Inl e \<Rightarrow> Some (Inl e, fs') | Inr st \<Rightarrow> do {
               e \<leftarrow> build srt (lo_engine st);
               Some (Inr \<lparr>ll_engine = e, ll_names = lo_names st, ll_hash = hex_encode (sha256 (lo_raw st)),
                          ll_issues = lo_issues st, ll_reports = lo_reports st\<rparr>, fs') }) = Some (r, fs')"
      by (auto simp: lists_load_def split: bind_splits sum.splits prod.splits)
    have "fs' = fs" if "fetcher = None" using off load_sources_offline that ls by blast
    moreover have "\<exists>texts. length texts = length sources \<and> compile srt texts = Some (ll_engine l)
      \<and> ll_names l = map ls_name sources \<and> map lr_name (ll_reports l) = map ls_name sources
      \<and> map lr_rules (ll_reports l) = map (\<lambda>t. lc_rules (count_rules t)) texts
      \<and> map lr_issues (ll_reports l) = map (\<lambda>t. lc_issues (count_rules t)) texts
      \<and> ll_hash l = hex_encode (sha256 (concat texts))" if r: "r = Inr l" for l
    proof -
      from b r obtain st e where st: "q2 = Inr st" "build srt (lo_engine st) = Some e"
        "l = \<lparr>ll_engine = e, ll_names = lo_names st, ll_hash = hex_encode (sha256 (lo_raw st)),
                          ll_issues = lo_issues st, ll_reports = lo_reports st\<rparr>"
        by (auto split: sum.splits bind_splits)
      from load_sources_texts [OF ls [unfolded st(1)]] st(2,3) show ?thesis
        by (auto simp: load_start_def compile_def)
    qed
    ultimately show ?thesis by blast
  qed
qed


section \<open>Witnesses\<close>

definition ex_io :: io where
  "ex_io = \<lparr>io_show = (\<lambda>_. []), io_read = (\<lambda>_. None), io_write = (\<lambda>_ _. None), io_rename = (\<lambda>_. None), io_remove = (\<lambda>_. None),
     io_mkdir = (\<lambda>_. None), io_touch = (\<lambda>_. None), io_stat = (\<lambda>_. None)\<rparr>"

definition ex_http :: fetcher where
  "ex_http url etag = Inr \<lparr>rs_status = 200, rs_status_text = ''200 OK'', rs_content_length = None, rs_etag = Some ''v1'',
     rs_chunks = [Inr ''||ads'', Inr ''.com^'']\<rparr>"

definition ex_disk :: file_system where
  "ex_disk = \<lparr>fs_files = [''/a.txt'' \<mapsto> \<lparr>fl_bytes = ''||ads.com^'', fl_mtime = 3\<rparr>], fs_dirs = {''/l''}\<rparr>"

lemma ex_count: "lc_rules (count_rules ''||ads.com^'') = 1"
  by code_simp

theorem last_good_copy_safe_witness:
  "\<exists>a fs'. fetch_with_etag ex_io (\<lambda>b. b) ex_http 9 ''https://x/a'' (stored_path ''/l'' ''a'') (etag_path ''/l'' ''a'') ex_disk = (Inr a, fs')
     \<and> aq_text a = ''||ads.com^''
     \<and> fs_files fs' (stored_path ''/l'' ''a'')
         \<in> {fs_files ex_disk (stored_path ''/l'' ''a''), Some \<lparr>fl_bytes = ''||ads.com^'', fl_mtime = 9\<rparr>}"
proof -
  obtain r fs' where f: "fetch_with_etag ex_io (\<lambda>b. b) ex_http 9 ''https://x/a'' (stored_path ''/l'' ''a'') (etag_path ''/l'' ''a'') ex_disk = (r, fs')"
    by fastforce
  moreover have "r = Inr \<lparr>aq_text = ''||ads.com^'', aq_origin = Downloaded, aq_verified_age_secs = Some 0\<rparr>"
    using f by (simp add: fetch_with_etag_def ex_http_def MAX_LIST_BYTES_def Let_def ex_count)
  ultimately show ?thesis using last_good_copy_safe [OF f] by auto
qed

definition ex_source :: list_source where
  "ex_source = \<lparr>ls_name = ''a'', ls_url = None, ls_path = Some ''/a.txt''\<rparr>"

definition ex_list_report :: list_report where
  "ex_list_report = \<lparr>lr_name = ''a'', lr_origin = LocalFile, lr_rules = 1, lr_issues = 0, lr_verified_age_secs = None\<rparr>"

lemma ex_load:
  assumes "fs_files fs ''/a.txt'' = Some \<lparr>fl_bytes = ''||ads.com^'', fl_mtime = 3\<rparr>" "is_dir ''/l'' fs"
  shows "\<exists>l fs'. lists_load (\<lambda>f xs. sort_key f xs) sha ex_io (\<lambda>b. b) fetcher 9 ''/l'' [ex_source] fs = Some (Inr l, fs')
    \<and> ll_reports l = [ex_list_report]"
proof -
  have 1: "length [''||ads.com^''] \<le> 2 ^ 16" by simp
  have 2: "seq_size (rules_of [''||ads.com^'']) < 2 ^ 32" by code_simp
  from compile_built [OF sort_ok_sort_key 1 2] obtain e where "compile (\<lambda>f xs. sort_key f xs) [''||ads.com^''] = Some e" by auto
  then obtain added e1 where e: "add_list_text ''||ads.com^'' engine_default = Some (added, e1)" "build (\<lambda>f xs. sort_key f xs) e1 = Some e"
    by (auto simp: compile_def split: bind_splits)
  have ne: "path_join ''/l'' ''.sumidero-probe'' \<noteq> ''/a.txt''" by code_simp
  obtain fs1 where p: "prepare_dir ex_io (fetcher \<noteq> None) 9 ''/l'' fs = (Inr (), fs1)" "fs_files fs1 ''/a.txt'' = fs_files fs ''/a.txt''"
    using assms(2) ne by (cases "fetcher = None") (auto simp: prepare_dir_def fs_write_def put_file_def remove_file_def ex_io_def)
  have a: "acquire_list ex_io (\<lambda>b. b) fetcher 9 ''/l'' ex_source fs1
      = (Inr \<lparr>aq_text = ''||ads.com^'', aq_origin = LocalFile, aq_verified_age_secs = None\<rparr>, fs1)"
    using p(2) assms(1) by (simp add: acquire_list_def acquire_file_def list_read_def read_to_string_def ex_io_def ex_source_def)
  have "al_rules added = lc_rules (count_rules ''||ads.com^'')" "length (al_issues added) = lc_issues (count_rules ''||ads.com^'')"
    using e(1) by (auto simp: add_list_text_def count_rules_def case_prod_beta split: bind_splits)
  moreover have "lc_issues (count_rules ''||ads.com^'') = 0" by code_simp
  ultimately obtain st where "add_source ''a'' \<lparr>aq_text = ''||ads.com^'', aq_origin = LocalFile, aq_verified_age_secs = None\<rparr> load_start = Some st"
    "lo_engine st = e1" "lo_reports st = [ex_list_report]"
    using e(1) by (simp add: add_source_def load_start_def ex_list_report_def ex_count)
  moreover have "ls_name ex_source = ''a''" by (simp add: ex_source_def)
  ultimately show ?thesis using e(2) a p(1) by (simp add: lists_load_def)
qed


end
