(* ===== verification/Daemon.thy ===== *)
theory Daemon
  imports Server Upstream Lists
begin

text \<open>
  The daemon's life cycle, from \<open>crates/core/src/daemon.rs\<close>: what it reports, how it decides
  that it is degraded, start-up, and the turns of the refresher and of the signal loop.

  The state \<open>daemon\<close> holds the pipeline, the pool, the database, the list directory, the shared
  runtime report, the configuration in force and the one the daemon started with, and the reloads
  queued for the refresher.  One turn of a loop is one function, for the schedule in which it is not
  interrupted, and reads the clock once; \<open>Refresher\<close> has the turns piece by piece.
  JSON and TOML writers, display forms of errors and SHA-256 are in the record \<open>denv\<close>.
\<close>

section \<open>Reports\<close>

definition STALE_LIST_SECS :: nat where "STALE_LIST_SECS = 3 * 86400"
definition REFRESH_EVERY :: nat where "REFRESH_EVERY = 24 * 3600"
definition RETRY_AFTER_FETCH_FAILURE :: nat where "RETRY_AFTER_FETCH_FAILURE = 3600"

datatype trigger = Startup | Signal | Timer

record reload_outcome =
  ro_ts :: int
  ro_trigger :: trigger
  ro_ok :: bool
  ro_error :: "string option"
  ro_duration_ms :: nat

record runtime_report =
  rr_lists_loaded_ts :: int
  rr_lists :: "list_report list"
  rr_lists_hash :: string
  rr_applied_config_hash :: string
  rr_last_reload :: "reload_outcome option"
  rr_pending_restart :: "string list"
  rr_next_refresh_ts :: int

record degraded_reason =
  dg_reason :: string
  dg_detail :: string
  dg_next :: string

definition degraded :: "string \<Rightarrow> string \<Rightarrow> string \<Rightarrow> degraded_reason" where
  "degraded reason detail next = \<lparr>dg_reason = reason, dg_detail = detail, dg_next = next\<rparr>"

definition list_reasons :: "nat \<Rightarrow> list_report \<Rightarrow> degraded_reason list" where
  "list_reasons since_load l =
     (let failed = (\<lambda>reason. [degraded ''list_fetch_failed'' (lr_name l @ '': '' @ reason)
            ''the last good copy is in use; the refresher retries hourly'']) in
      (case lr_origin l of
         StoredAfterFetchFailure reason \<Rightarrow> failed reason
       | SeedAfterFetchFailure reason \<Rightarrow> failed reason
       | _ \<Rightarrow> [])
      @ (case lr_verified_age_secs l of
           None \<Rightarrow> []
         | Some a \<Rightarrow>
             (let age = a + since_load in
              if age > STALE_LIST_SECS
              then [degraded ''list_stale'' (lr_name l @ '': content last confirmed '' @ show_nat (age div 3600) @ '' h ago'')
                     (''check the list URL; '' @ [CHR 0x60] @ ''sumidero reload'' @ [CHR 0x60] @ '' retries now'')]
              else [])))"

definition degraded_reasons :: "runtime_report \<Rightarrow> nat \<Rightarrow> nat \<Rightarrow> int \<Rightarrow> degraded_reason list" where
  "degraded_reasons runtime consecutive_all_failed log_events_dropped_recent now =
     (if consecutive_all_failed > 0
      then [degraded ''cannot_resolve'' (show_nat consecutive_all_failed @ '' consecutive queries found no upstream'')
             (''check the WAN link and '' @ [CHR 0x60] @ ''sumidero status --json'' @ [CHR 0x60] @ '' upstreams'')]
      else [])
   @ (if log_events_dropped_recent > 0
      then [degraded ''log_events_dropped''
             (show_nat log_events_dropped_recent @ '' query-log events dropped since the last sample'')
             ''the SQLite writer cannot keep up; check disk latency'']
      else [])
   @ concat (map (list_reasons (nat (now - rr_lists_loaded_ts runtime))) (rr_lists runtime))
   @ (case rr_last_reload runtime of
        None \<Rightarrow> []
      | Some outcome \<Rightarrow>
          if \<not> ro_ok outcome
          then [degraded ''reload_failed'' (case ro_error outcome of Some e \<Rightarrow> e | None \<Rightarrow> [])
                 ''the previous lists and policy are still in force; fix the cause and reload'']
          else [])
   @ (if rr_pending_restart runtime \<noteq> []
      then [degraded ''pending_restart'' (join '', '' (rr_pending_restart runtime)) ''systemctl restart sumidero'']
      else [])"

definition restart_only_changes :: "'net config \<Rightarrow> 'net config \<Rightarrow> string list" where
  "restart_only_changes started new =
     (if bind_addrs (cfg_server started) \<noteq> bind_addrs (cfg_server new) then [''server.bind''] else [])
   @ (if cfg_upstreams started \<noteq> cfg_upstreams new then [''upstreams''] else [])
   @ (if cfg_database started \<noteq> cfg_database new then [''database''] else [])
   @ (if cfg_tls started \<noteq> cfg_tls new then [''tls''] else [])
   @ (if cfg_cache started \<noteq> cfg_cache new then [''cache''] else [])"

section \<open>Policies\<close>

datatype ('io, 'pe) core_error =
    ConfigErr "('io, 'pe) config_error"
  | ListsErr list_error
  | DbErr db_error
  | UpstreamErr upstream_error
  | SafeSearchErr safesearch_error
  | IoErr string

record ('net, 'io, 'pe) denv =
  de_srt :: sorter
  de_sha256 :: "string \<Rightarrow> 8 word list"
  de_io :: io
  de_utf8_lossy :: "string \<Rightarrow> string"
  de_toml :: "'net config \<Rightarrow> string option"
  de_show :: "('io, 'pe) core_error \<Rightarrow> string"
  de_json_report :: "runtime_report \<Rightarrow> string option"
  de_json_health :: "pool_health_t \<Rightarrow> string option"

definition build_policy ::
    "('net, 'io, 'pe) denv \<Rightarrow> 'net config \<Rightarrow> fetcher option \<Rightarrow> nat \<Rightarrow> file_system
       \<Rightarrow> ((('io, 'pe) core_error + 'net policy \<times> loaded_lists) \<times> file_system) option" where
  "build_policy env config fetcher now fs =
     (case safesearch_new (ssc_enabled (cfg_safe_search config)) (ssc_providers (cfg_safe_search config)) of
        Inl e \<Rightarrow> Some (Inl (SafeSearchErr e), fs)
      | Inr ss \<Rightarrow> do {
          (r, fs1) \<leftarrow> lists_load (de_srt env) (de_sha256 env) (de_io env) (de_utf8_lossy env) fetcher now
            (fc_list_dir (cfg_filtering config)) (effective_lists config) fs;
          Some (case r of
             Inl e \<Rightarrow> Inl (ListsErr e)
           | Inr loaded \<Rightarrow> Inr (\<lparr>po_engine = ll_engine loaded, po_safesearch = ss, po_allow = allow (cfg_server config)\<rparr>,
                 loaded\<lparr>ll_engine := engine_default\<rparr>), fs1)
        })"

definition outcome_of :: "trigger \<Rightarrow> int \<Rightarrow> nat \<Rightarrow> string + unit \<Rightarrow> reload_outcome" where
  "outcome_of trigger ts elapsed_ms result =
     \<lparr>ro_ts = ts, ro_trigger = trigger, ro_ok = (case result of Inr _ \<Rightarrow> True | Inl _ \<Rightarrow> False),
      ro_error = (case result of Inl e \<Rightarrow> Some e | Inr _ \<Rightarrow> None),
      ro_duration_ms = (if elapsed_ms \<le> u64_max then elapsed_ms else u64_max)\<rparr>"

definition next_refresh :: "loaded_lists \<Rightarrow> nat" where
  "next_refresh loaded =
     (if list_ex (\<lambda>r. fetch_failed (lr_origin r)) (ll_reports loaded) then RETRY_AFTER_FETCH_FAILURE else REFRESH_EVERY)"

section \<open>State\<close>

record ('n, 'net, 't) daemon =
  da_pipe :: "('n, 'net) pipeline"
  da_pool :: "'t pool"
  da_db :: database
  da_disk :: file_system
  da_report :: runtime_report
  da_started_with :: "'net config"
  da_current :: "'net config"
  da_started_ts :: int
  da_pid :: nat
  da_reloads :: "'net config list"
  da_dropped_at_last_sample :: "64 word"

text \<open>What is written is a copy of the report, taken under its lock before the write.\<close>

definition write_report ::
    "('net, 'io, 'pe) denv \<Rightarrow> int \<Rightarrow> runtime_report \<Rightarrow> ('n, 'net, 't) daemon \<Rightarrow> ('n, 'net, 't) daemon" where
  "write_report env ts report s =
     (case de_json_report env report of
        None \<Rightarrow> s
      | Some json \<Rightarrow> (case write_runtime ts json (da_db s) of Inl _ \<Rightarrow> s | Inr d \<Rightarrow> s\<lparr>da_db := d\<rparr>))"

definition publish_runtime ::
    "('net, 'io, 'pe) denv \<Rightarrow> int \<Rightarrow> ('n, 'net, 't) daemon \<Rightarrow> ('n, 'net, 't) daemon" where
  "publish_runtime env ts s = write_report env ts (da_report s) s"

definition heartbeat_of :: "int \<Rightarrow> runtime_report \<Rightarrow> ('n, 'net, 't) daemon \<Rightarrow> ('n, 'net, 't) daemon" where
  "heartbeat_of ts report s =
     s\<lparr>da_db := write_heartbeat \<lparr>hb_pid = da_pid s, hb_started_ts = da_started_ts s, hb_updated_ts = ts,
          hb_config_hash = rr_applied_config_hash report, hb_lists_hash = rr_lists_hash report\<rparr> (da_db s)\<rparr>"

definition daemon_heartbeat :: "int \<Rightarrow> ('n, 'net, 't) daemon \<Rightarrow> ('n, 'net, 't) daemon" where
  "daemon_heartbeat ts s = heartbeat_of ts (da_report s) s"

definition stats_of ::
    "('net, 'io, 'pe) denv \<Rightarrow> int \<Rightarrow> runtime_report \<Rightarrow> ('n, 'net, 't) daemon \<Rightarrow> ('n, 'net, 't) daemon" where
  "stats_of env ts report s =
     (let health = pool_health ts (da_pool s);
          dropped_total = log_events_dropped (da_pipe s);
          dropped_recent = (if da_dropped_at_last_sample s \<le> dropped_total then dropped_total - da_dropped_at_last_sample s else 0);
          s1 = s\<lparr>da_dropped_at_last_sample := dropped_total\<rparr> in
      case (de_json_health env health, de_json_report env report) of
        (Some upstreams_json, Some runtime_json) \<Rightarrow>
          (case write_daemon_stats \<lparr>ds_updated_ts = ts, ds_log_events_dropped = dropped_total,
                  ds_log_events_dropped_recent = dropped_recent, ds_upstreams_json = upstreams_json,
                  ds_runtime_json = runtime_json\<rparr> (da_db s1) of
             Inl _ \<Rightarrow> s1
           | Inr d \<Rightarrow> s1\<lparr>da_db := d\<rparr>)
      | _ \<Rightarrow> s1)"

definition publish_stats ::
    "('net, 'io, 'pe) denv \<Rightarrow> int \<Rightarrow> ('n, 'net, 't) daemon \<Rightarrow> ('n, 'net, 't) daemon" where
  "publish_stats env ts s = stats_of env ts (da_report s) s"

lemmas report_write_defs = publish_runtime_def write_report_def daemon_heartbeat_def heartbeat_of_def publish_stats_def stats_of_def

section \<open>Refresher\<close>

text \<open>One turn of \<open>Refresher::run\<close>: the configuration of the oldest reload, or the current one when the
  timer fires; then the outcome is published.\<close>

definition refresher_turn ::
    "('net, 'io, 'pe) denv \<Rightarrow> fetcher \<Rightarrow> bool \<Rightarrow> nat \<Rightarrow> int \<Rightarrow> nat \<Rightarrow> ('n, 'net, 't) daemon \<Rightarrow> ('n, 'net, 't) daemon option" where
  "refresher_turn env http timer now ts elapsed_ms s =
     (let (trigger, config, reloads) = (case da_reloads s of
            c # cs \<Rightarrow> if timer then (Timer, da_current s, c # cs) else (Signal, c, cs)
          | [] \<Rightarrow> (Timer, da_current s, [])) in
      if \<not> timer \<and> da_reloads s = [] then Some s
      else do {
        (result, fs) \<leftarrow> build_policy env config (Some http) now (da_disk s);
        let s1 = s\<lparr>da_disk := fs, da_reloads := reloads\<rparr>;
        (s2, wait) \<leftarrow> (case result of
            Inr (policy, loaded) \<Rightarrow> do {
              hash \<leftarrow> config_hash (de_toml env) (de_sha256 env) config;
              Some (s1\<lparr>da_pipe := install policy (da_pipe s1), da_current := config,
                  da_report := (da_report s1)\<lparr>rr_lists_loaded_ts := ts, rr_lists_hash := ll_hash loaded,
                    rr_lists := ll_reports loaded, rr_applied_config_hash := hash,
                    rr_pending_restart := restart_only_changes (da_started_with s1) config,
                    rr_last_reload := Some (outcome_of trigger ts elapsed_ms (Inr ()))\<rparr>\<rparr>,
                next_refresh loaded)
            }
          | Inl err \<Rightarrow>
              Some (s1\<lparr>da_report := (da_report s1)\<lparr>rr_last_reload :=
                  Some (outcome_of trigger ts elapsed_ms (Inl (de_show env err)))\<rparr>\<rparr>, RETRY_AFTER_FETCH_FAILURE));
        let s3 = s2\<lparr>da_report := (da_report s2)\<lparr>rr_next_refresh_ts := ts + int wait\<rparr>\<rparr>;
        Some (daemon_heartbeat ts (publish_runtime env ts s3))
      })"

section \<open>Signal loop\<close>

text \<open>\<open>SIGHUP\<close>: \<open>loaded\<close> is what \<open>Config::load\<close> gives.  The queue holds one reload.\<close>

definition on_sighup ::
    "('net, 'io, 'pe) denv \<Rightarrow> (('io, 'pe) config_error \<Rightarrow> string) \<Rightarrow> ('io, 'pe) config_error + 'net config \<Rightarrow> int
       \<Rightarrow> ('n, 'net, 't) daemon \<Rightarrow> ('n, 'net, 't) daemon" where
  "on_sighup env show_config loaded ts s =
     (case loaded of
        Inr new \<Rightarrow> if length (da_reloads s) < 1 then s\<lparr>da_reloads := da_reloads s @ [new]\<rparr> else s
      | Inl err \<Rightarrow>
          publish_runtime env ts
            (s\<lparr>da_report := (da_report s)\<lparr>rr_last_reload := Some \<lparr>ro_ts = ts, ro_trigger = Signal, ro_ok = False,
                ro_error = Some (''config: '' @ show_config err), ro_duration_ms = 0\<rparr>\<rparr>\<rparr>))"

definition on_heartbeat :: "('net, 'io, 'pe) denv \<Rightarrow> int \<Rightarrow> ('n, 'net, 't) daemon \<Rightarrow> ('n, 'net, 't) daemon" where
  "on_heartbeat env ts s = publish_stats env ts (daemon_heartbeat ts s)"

definition on_retention :: "int \<Rightarrow> ('n, 'net, 't) daemon \<Rightarrow> ('n, 'net, 't) daemon" where
  "on_retention ts s = s\<lparr>da_db := snd (retention_sweep ts (da_db s))\<rparr>"

section \<open>Start-up\<close>

text \<open>Stored copies first; the network only when they are not complete.\<close>

definition startup_policy ::
    "('net, 'io, 'pe) denv \<Rightarrow> fetcher \<Rightarrow> 'net config \<Rightarrow> nat \<Rightarrow> file_system
       \<Rightarrow> ((('io, 'pe) core_error + 'net policy \<times> loaded_lists \<times> nat) \<times> file_system) option" where
  "startup_policy env http config now fs = do {
     (offline, fs1) \<leftarrow> build_policy env config None now fs;
     (case offline of
        Inr (policy, loaded) \<Rightarrow> Some (Inr (policy, loaded, 0), fs1)
      | Inl _ \<Rightarrow> do {
          (online, fs2) \<leftarrow> build_policy env config (Some http) now fs1;
          Some (case online of
             Inl e \<Rightarrow> Inl e
           | Inr (policy, loaded) \<Rightarrow> Inr (policy, loaded, next_refresh loaded), fs2)
        })
   }"

text \<open>\<open>run\<close> up to the sockets.  \<open>load_config\<close>, \<open>open_db\<close>, \<open>roots\<close>, \<open>make_pool\<close> and
  \<open>make_client\<close> are the constructors it calls, in its order.\<close>

definition daemon_start ::
    "('net, 'io, 'pe) denv \<Rightarrow> ('io, 'pe) config_error + 'net config \<Rightarrow> ('net config \<Rightarrow> db_error + database \<times> db_writer)
       \<Rightarrow> ('net config \<Rightarrow> ('io, 'pe) config_error + 'cert list) \<Rightarrow> ('cert list \<Rightarrow> 'net config \<Rightarrow> upstream_error + 't pool)
       \<Rightarrow> ('cert list \<Rightarrow> list_error + fetcher) \<Rightarrow> socket_addr option \<Rightarrow> nat \<Rightarrow> nat \<Rightarrow> int \<Rightarrow> nat \<Rightarrow> file_system
       \<Rightarrow> (('io, 'pe) core_error + ('n, 'net, 't) daemon) option" where
  "daemon_start env load_config open_db roots make_pool make_client shadow_addr pid now ts elapsed_ms fs =
     (case load_config of Inl e \<Rightarrow> Some (Inl (ConfigErr e)) | Inr config \<Rightarrow>
     (case open_db config of Inl e \<Rightarrow> Some (Inl (DbErr e)) | Inr (d, w) \<Rightarrow>
     (case roots config of Inl e \<Rightarrow> Some (Inl (ConfigErr e)) | Inr certs \<Rightarrow>
     (case make_pool certs config of Inl e \<Rightarrow> Some (Inl (UpstreamErr e)) | Inr pl \<Rightarrow>
     (case make_client certs of Inl e \<Rightarrow> Some (Inl (ListsErr e)) | Inr http \<Rightarrow> do {
        (r, fs1) \<leftarrow> startup_policy env http config now fs;
        (case r of
           Inl e \<Rightarrow> Some (Inl e)
         | Inr (policy, loaded, refresh_in) \<Rightarrow> do {
             hash \<leftarrow> config_hash (de_toml env) (de_sha256 env) config;
             c \<leftarrow> with_limits (max_entries (cfg_cache config)) DEFAULT_MAX_BYTES (serve_stale_secs (cfg_cache config));
             let p = from_policy policy c w;
             let p1 = (case shadow_addr of Some addr \<Rightarrow> set_shadow addr p | None \<Rightarrow> p);
             let report = \<lparr>rr_lists_loaded_ts = ts, rr_lists = ll_reports loaded, rr_lists_hash = ll_hash loaded,
                 rr_applied_config_hash = hash,
                 rr_last_reload = Some (outcome_of Startup ts elapsed_ms (Inr ())), rr_pending_restart = [],
                 rr_next_refresh_ts = ts + int refresh_in\<rparr>;
             let s = \<lparr>da_pipe = p1, da_pool = pl, da_db = d, da_disk = fs1, da_report = report, da_started_with = config,
                 da_current = config, da_started_ts = ts, da_pid = pid, da_reloads = [], da_dropped_at_last_sample = 0\<rparr>;
             Some (Inr (publish_stats env ts (daemon_heartbeat ts s)))
           })
      })))))"

end
