(* ===== verification/Daemon_Correct.thy ===== *)
theory Daemon_Correct
  imports Daemon Lists_Correct Server_Correct
begin

text \<open>
  Correctness of the daemon: a reload is applied whole or not at all, the degraded reasons are
  exact, and over any history of signals, timers and traffic what the daemon reports is what is in
  force.  The history machine interprets \<open>event_system\<close>.
\<close>

section \<open>Only a reload changes the policy\<close>

named_theorems policy_frame

lemma answered_policy [policy_frame]: "answered lg resp e p = (r, p') \<Longrightarrow> pl_policy p' = pl_policy p"
  by (auto simp: answered_def finish_def)

lemma answered_policy' [policy_frame]:
  "map_prod Answer id (answered lg resp e p) = (out, p') \<Longrightarrow> pl_policy p' = pl_policy p"
  by (auto simp: map_prod_def split: prod.splits dest: answered_policy)

lemma shadow_tap_policy [simp]: "pl_policy (shadow_tap a b c d e p) = pl_policy p"
  by (simp add: shadow_tap_def split: option.split)

lemma block_answer_policy [policy_frame]: "block_answer dp rq lg a b e p = Some (r, p') \<Longrightarrow> pl_policy p' = pl_policy p"
  by (auto simp: block_answer_def split: bind_splits prod.splits dest: policy_frame)

lemma complete_policy [policy_frame]: "complete dp t resp src e p = Some (r, p') \<Longrightarrow> pl_policy p' = pl_policy p"
  by (auto simp: complete_def complete_direct_def complete_target_def Let_def
      split: continuation.splits bind_splits option.splits prod.splits if_splits dest: policy_frame)

lemma settle_policy [policy_frame]: "settle dp key a now p = Some p' \<Longrightarrow> pl_policy p' = pl_policy p"
  by (auto simp: settle_def split: if_splits bind_splits)

lemma spawn_refresh_policy [simp]: "pl_policy (spawn_refresh rq key p) = pl_policy p"
  by (simp add: spawn_refresh_def split: option.split)

lemma resolve_shared_policy [simp]: "pl_policy (resolve_shared rq q key now p) = pl_policy p"
  by (simp add: resolve_shared_def split: option.split)

lemma resolve_cached_policy [policy_frame]:
  "resolve_cached dp rq q ty now p = Some (res, p') \<Longrightarrow> pl_policy p' = pl_policy p"
  by (auto simp: resolve_cached_def Let_def split: option.splits bind_splits lookup.splits if_splits)

lemma continue_with_policy [policy_frame]:
  "continue_with dp qid t res e p = Some (out, p') \<Longrightarrow> pl_policy p' = pl_policy p"
  by (auto simp: continue_with_def split: resolution.splits dest: policy_frame)

lemma answer_safesearch_policy [policy_frame]:
  "answer_safesearch dp qid t target now e p = Some (out, p') \<Longrightarrow> pl_policy p' = pl_policy p"
  by (auto simp: answer_safesearch_def Let_def map_prod_def split: option.splits bind_splits prod.splits dest!: policy_frame)

lemma handle_at_policy [policy_frame]:
  assumes "handle_at dp qid rq client now ts e p = Some (out, p')"
  shows "pl_policy p' = pl_policy p"
  using assms unfolding handle_at_def Let_def shed_overload_def
  by (auto split: if_splits list.splits bind_splits verdict_t.splits option.splits prod.splits dest!: policy_frame)

lemma file_result_policy: "file_result dp key now r p = Some p' \<Longrightarrow> pl_policy p' = pl_policy p"
  by (auto simp: file_result_def split: upstream_result.splits dest: policy_frame)

lemma machine_step_policy:
  assumes "machine_step dp ev s = Some s'" "\<forall>po. ev \<noteq> Install po"
  shows "pl_policy (mc_pipe s') = pl_policy (mc_pipe s)"
proof (cases ev)
  case (Arrive qid request client now ts elapsed)
  then show ?thesis using assms(1)
    by (auto simp: note_answer_def split: if_splits bind_splits outcome.splits dest: policy_frame)
next
  case (Publish key result)
  then show ?thesis using assms(1) by (auto simp: publish_alt split: bind_splits option.splits dest: file_result_policy)
next
  case (Resume qid elapsed)
  then show ?thesis using assms(1)
    by (auto simp: note_answer_def resume_def Let_def split: bind_splits outcome.splits option.splits wait_state.splits prod.splits
        dest!: policy_frame)
next
  case (EndRefresh key result)
  then show ?thesis using assms(1) by (auto simp: end_refresh_alt split: bind_splits option.splits dest: file_result_policy)
next
  case (Compare i reply ts)
  then show ?thesis using assms(1) by (auto simp: end_compare_def split: option.splits prod.splits)
qed (use assms in \<open>auto simp: cancel_def begin_refresh_def split: option.splits if_splits\<close>)

section \<open>What is in force\<close>

text \<open>The policy and the list hash that a configuration asks for: one text for every effective list,
  compiled; its safe-search table; its allowlist.\<close>

definition in_force :: "('net, 'io, 'pe) denv \<Rightarrow> 'net config \<Rightarrow> 'net policy \<Rightarrow> string \<Rightarrow> bool" where
  "in_force env config policy hash \<longleftrightarrow>
     (\<exists>texts. length texts = length (effective_lists config) \<and> compile (de_srt env) texts = Some (po_engine policy)
        \<and> hash = hex_encode (de_sha256 env (concat texts)))
   \<and> safesearch_new (ssc_enabled (cfg_safe_search config)) (ssc_providers (cfg_safe_search config)) = Inr (po_safesearch policy)
   \<and> po_allow policy = allow (cfg_server config)"

lemma build_policy_in_force:
  assumes "build_policy env config fetcher now fs = Some (Inr (policy, loaded), fs')"
  shows "in_force env config policy (ll_hash loaded)"
proof -
  from assms obtain ss l where l:
    "safesearch_new (ssc_enabled (cfg_safe_search config)) (ssc_providers (cfg_safe_search config)) = Inr ss"
    "lists_load (de_srt env) (de_sha256 env) (de_io env) (de_utf8_lossy env) fetcher now (fc_list_dir (cfg_filtering config))
        (effective_lists config) fs = Some (Inr l, fs')"
    "policy = \<lparr>po_engine = ll_engine l, po_safesearch = ss, po_allow = allow (cfg_server config)\<rparr>"
    "loaded = l\<lparr>ll_engine := engine_default\<rparr>"
    by (auto simp: build_policy_def split: sum.splits bind_splits)
  from lists_load_content [OF l(2)] l(1,3,4) show ?thesis by (auto simp: in_force_def)
qed

text \<open>The heartbeat row carries the hashes of the report.\<close>

definition heartbeat_current :: "('n, 'net, 't) daemon \<Rightarrow> bool" where
  "heartbeat_current s \<longleftrightarrow> (\<exists>r. db_heartbeat (da_db s) = Some r
     \<and> hr_config_hash r = rr_applied_config_hash (da_report s) \<and> hr_lists_hash r = rr_lists_hash (da_report s))"

definition daemon_inv :: "('net, 'io, 'pe) denv \<Rightarrow> ('n, 'net, 't) daemon \<Rightarrow> bool" where
  "daemon_inv env s \<longleftrightarrow>
     in_force env (da_current s) (pl_policy (da_pipe s)) (rr_lists_hash (da_report s))
   \<and> config_hash (de_toml env) (de_sha256 env) (da_current s) = Some (rr_applied_config_hash (da_report s))
   \<and> rr_pending_restart (da_report s) = restart_only_changes (da_started_with s) (da_current s)
   \<and> heartbeat_current s \<and> length (da_reloads s) \<le> 1"

datatype ('n, 'net, 'io, 'pe) daemon_event =
    Sighup "('io, 'pe) config_error + 'net config" int
  | RefreshTurn fetcher bool nat int nat
  | HeartbeatTick int
  | RetentionTick int
  | Traffic "('n, 'net) event"

text \<open>Traffic is any step of the pipeline but a change of policy, which the refresher alone makes.\<close>

fun daemon_step ::
    "('net, 'io, 'pe) denv \<Rightarrow> ('n, 'net) deps \<Rightarrow> (('io, 'pe) config_error \<Rightarrow> string) \<Rightarrow> ('n, 'net, 'io, 'pe) daemon_event
       \<Rightarrow> ('n, 'net, 't) daemon \<Rightarrow> ('n, 'net, 't) daemon option" where
  "daemon_step env dp show_config (Sighup loaded ts) s = Some (on_sighup env show_config loaded ts s)"
| "daemon_step env dp show_config (RefreshTurn http timer now ts elapsed_ms) s = refresher_turn env http timer now ts elapsed_ms s"
| "daemon_step env dp show_config (HeartbeatTick ts) s = Some (on_heartbeat env ts s)"
| "daemon_step env dp show_config (RetentionTick ts) s = Some (on_retention ts s)"
| "daemon_step env dp show_config (Traffic ev) s =
     (case ev of
        Install _ \<Rightarrow> None
      | _ \<Rightarrow> map_option (\<lambda>m. s\<lparr>da_pipe := mc_pipe m\<rparr>) (machine_step dp ev (machine_start (da_pipe s))))"

lemma write_runtime_heartbeat: "write_runtime ts j d = Inr d' \<Longrightarrow> db_heartbeat d' = db_heartbeat d"
  by (auto simp: write_runtime_def split: if_splits)

lemma write_daemon_stats_heartbeat: "write_daemon_stats st d = Inr d' \<Longrightarrow> db_heartbeat d' = db_heartbeat d"
  by (auto simp: write_daemon_stats_def split: if_splits)

lemma write_report_frame:
  "\<exists>d. write_report env ts r s = s\<lparr>da_db := d\<rparr> \<and> db_heartbeat d = db_heartbeat (da_db s)"
proof -
  have "\<exists>d. s = s\<lparr>da_db := d\<rparr> \<and> db_heartbeat d = db_heartbeat (da_db s)" by (rule exI [of _ "da_db s"]) simp
  then show ?thesis by (auto simp: write_report_def write_runtime_heartbeat split: option.split sum.split)
qed

lemma publish_runtime_frame:
  "\<exists>d. publish_runtime env ts s = s\<lparr>da_db := d\<rparr> \<and> db_heartbeat d = db_heartbeat (da_db s)"
  unfolding publish_runtime_def by (rule write_report_frame)

lemma stats_of_frame:
  "\<exists>n d. stats_of env ts r s = s\<lparr>da_dropped_at_last_sample := n, da_db := d\<rparr> \<and> db_heartbeat d = db_heartbeat (da_db s)"
proof -
  let ?n = "log_events_dropped (da_pipe s)"
  let ?s = "s\<lparr>da_dropped_at_last_sample := ?n\<rparr>"
  have same: "\<exists>d. ?s = ?s\<lparr>da_db := d\<rparr> \<and> db_heartbeat d = db_heartbeat (da_db s)" by (rule exI [of _ "da_db s"]) simp
  have "\<exists>d. stats_of env ts r s = ?s\<lparr>da_db := d\<rparr> \<and> db_heartbeat d = db_heartbeat (da_db s)"
    using same write_daemon_stats_heartbeat
    by (simp add: stats_of_def Let_def split: option.split sum.split) fastforce
  then show ?thesis by blast
qed

lemma publish_stats_frame:
  "\<exists>n d. publish_stats env ts s = s\<lparr>da_dropped_at_last_sample := n, da_db := d\<rparr> \<and> db_heartbeat d = db_heartbeat (da_db s)"
  unfolding publish_stats_def by (rule stats_of_frame)

lemma daemon_heartbeat_current: "heartbeat_current (daemon_heartbeat ts s)"
  by (simp add: heartbeat_current_def daemon_heartbeat_def heartbeat_of_def write_heartbeat_def)

text \<open>A change of the report that keeps its hashes and its pending settings, or of the database that
  keeps the heartbeat row, keeps the invariant.\<close>

lemma daemon_inv_frame:
  assumes "daemon_inv env s" "db_heartbeat d = db_heartbeat (da_db s)" "rr_lists_hash r = rr_lists_hash (da_report s)"
    "rr_applied_config_hash r = rr_applied_config_hash (da_report s)" "rr_pending_restart r = rr_pending_restart (da_report s)"
  shows "daemon_inv env (s\<lparr>da_report := r, da_db := d\<rparr>)" "daemon_inv env (s\<lparr>da_dropped_at_last_sample := n, da_db := d\<rparr>)"
  using assms by (simp_all add: daemon_inv_def heartbeat_current_def)

text \<open>How one turn of the refresher ends.\<close>

definition turn_config :: "bool \<Rightarrow> ('n, 'net, 't) daemon \<Rightarrow> 'net config" where
  "turn_config timer s = (if timer then da_current s else hd (da_reloads s))"

lemma refresher_turn_cases:
  assumes "refresher_turn env http timer now ts elapsed_ms s = Some s'" "timer \<or> da_reloads s \<noteq> []"
  obtains (installed) policy loaded hash fs d rel where
      "build_policy env (turn_config timer s) (Some http) now (da_disk s) = Some (Inr (policy, loaded), fs)"
      "config_hash (de_toml env) (de_sha256 env) (turn_config timer s) = Some hash"
      "length rel \<le> length (da_reloads s)"
      "\<exists>trig. s' = daemon_heartbeat ts (s\<lparr>da_disk := fs, da_reloads := rel, da_pipe := install policy (da_pipe s),
         da_current := turn_config timer s,
         da_report := (da_report s)\<lparr>rr_lists_loaded_ts := ts, rr_lists_hash := ll_hash loaded, rr_lists := ll_reports loaded,
           rr_applied_config_hash := hash, rr_pending_restart := restart_only_changes (da_started_with s) (turn_config timer s),
           rr_last_reload := Some (outcome_of trig ts elapsed_ms (Inr ())), rr_next_refresh_ts := ts + int (next_refresh loaded)\<rparr>, da_db := d\<rparr>)"
    | (kept) err fs d rel where
      "build_policy env (turn_config timer s) (Some http) now (da_disk s) = Some (Inl err, fs)"
      "length rel \<le> length (da_reloads s)" "db_heartbeat d = db_heartbeat (da_db s)"
      "\<exists>trig. s' = daemon_heartbeat ts (s\<lparr>da_disk := fs, da_reloads := rel,
         da_report := (da_report s)\<lparr>rr_last_reload := Some (outcome_of trig ts elapsed_ms (Inl (de_show env err))),
           rr_next_refresh_ts := ts + int RETRY_AFTER_FETCH_FAILURE\<rparr>, da_db := d\<rparr>)"
proof -
  define trig rel where tr: "trig = (if timer then Timer else Signal)" "rel = (if timer then da_reloads s else tl (da_reloads s))"
  have c: "(case da_reloads s of
            c # cs \<Rightarrow> if timer then (Timer, da_current s, c # cs) else (Signal, c, cs)
          | [] \<Rightarrow> (Timer, da_current s, [])) = (trig, turn_config timer s, rel)"
    using assms(2) by (cases "da_reloads s") (auto simp: tr turn_config_def)
  have len: "length rel \<le> length (da_reloads s)" by (simp add: tr)
  from assms(1) obtain result fs where b: "build_policy env (turn_config timer s) (Some http) now (da_disk s) = Some (result, fs)"
    unfolding refresher_turn_def c using assms(2) by (auto split: bind_splits if_splits)
  note red = assms(1) [unfolded refresher_turn_def c Let_def prod.case b Option.bind.bind_lunit]
  show thesis
  proof (cases result)
    case (Inl err)
    let ?s = "s\<lparr>da_disk := fs, da_reloads := rel, da_report := (da_report s)\<lparr>rr_last_reload :=
        Some (outcome_of trig ts elapsed_ms (Inl (de_show env err))), rr_next_refresh_ts := ts + int RETRY_AFTER_FETCH_FAILURE\<rparr>\<rparr>"
    have s': "s' = daemon_heartbeat ts (publish_runtime env ts ?s)" using red assms(2) Inl by (auto split: if_splits)
    obtain d where d: "publish_runtime env ts ?s = ?s\<lparr>da_db := d\<rparr>" "db_heartbeat d = db_heartbeat (da_db s)"
      using publish_runtime_frame [of env ts ?s] by auto
    show thesis by (rule kept [OF b [unfolded Inl] len d(2)]) (rule exI [of _ trig], simp add: s' d(1))
  next
    case (Inr pl)
    obtain policy loaded where pl: "pl = (policy, loaded)" by (cases pl)
    from red assms(2) Inr pl obtain hash where h: "config_hash (de_toml env) (de_sha256 env) (turn_config timer s) = Some hash"
      by (auto split: if_splits bind_splits)
    let ?s = "s\<lparr>da_disk := fs, da_reloads := rel, da_pipe := install policy (da_pipe s), da_current := turn_config timer s,
        da_report := (da_report s)\<lparr>rr_lists_loaded_ts := ts, rr_lists_hash := ll_hash loaded, rr_lists := ll_reports loaded,
           rr_applied_config_hash := hash, rr_pending_restart := restart_only_changes (da_started_with s) (turn_config timer s),
           rr_last_reload := Some (outcome_of trig ts elapsed_ms (Inr ())), rr_next_refresh_ts := ts + int (next_refresh loaded)\<rparr>\<rparr>"
    have s': "s' = daemon_heartbeat ts (publish_runtime env ts ?s)" using red assms(2) Inr pl h by (auto split: if_splits)
    obtain d where d: "publish_runtime env ts ?s = ?s\<lparr>da_db := d\<rparr>"
      using publish_runtime_frame [of env ts ?s] by auto
    show thesis by (rule installed [OF b [unfolded Inr pl] h len]) (rule exI [of _ trig], simp add: s' d)
  qed
qed

lemma heartbeat_row:
  "da_report (daemon_heartbeat ts s) = da_report s" "da_pipe (daemon_heartbeat ts s) = da_pipe s"
  "da_current (daemon_heartbeat ts s) = da_current s" "da_started_with (daemon_heartbeat ts s) = da_started_with s"
  "da_reloads (daemon_heartbeat ts s) = da_reloads s"
  by (simp_all add: daemon_heartbeat_def heartbeat_of_def)

lemma daemon_inv_heartbeat: "daemon_inv env s \<Longrightarrow> daemon_inv env (daemon_heartbeat ts s)"
  using daemon_heartbeat_current by (simp add: daemon_inv_def heartbeat_row)

lemma refresher_turn_inv:
  assumes "daemon_inv env s" "refresher_turn env http timer now ts elapsed_ms s = Some s'"
  shows "daemon_inv env s'"
proof (cases "timer \<or> da_reloads s \<noteq> []")
  case True
  from assms(2) True show ?thesis
  proof (cases rule: refresher_turn_cases)
    case (installed policy loaded hash fs d rel)
    from build_policy_in_force [OF installed(1)] installed(2-4) assms(1) show ?thesis
      by (auto simp: daemon_inv_def heartbeat_row daemon_heartbeat_current install_def)
  next
    case (kept err fs d rel)
    from kept(2-4) assms(1) show ?thesis
      by (auto simp: daemon_inv_def heartbeat_row daemon_heartbeat_current)
  qed
next
  case False
  then have "s' = s" using assms(2) by (auto simp: refresher_turn_def)
  with assms(1) show ?thesis by simp
qed

lemma daemon_step_inv:
  assumes "daemon_inv env s" "daemon_step env dp show_config e s = Some s'"
  shows "daemon_inv env s'"
proof (cases e)
  case (Sighup loaded ts)
  show ?thesis
  proof (cases loaded)
    case (Inl err)
    let ?r = "(da_report s)\<lparr>rr_last_reload := Some \<lparr>ro_ts = ts, ro_trigger = Signal, ro_ok = False,
                ro_error = Some (''config: '' @ show_config err), ro_duration_ms = 0\<rparr>\<rparr>"
    obtain d where "publish_runtime env ts (s\<lparr>da_report := ?r\<rparr>) = s\<lparr>da_report := ?r, da_db := d\<rparr>" "db_heartbeat d = db_heartbeat (da_db s)"
      using publish_runtime_frame [of env ts "s\<lparr>da_report := ?r\<rparr>"] by auto
    then show ?thesis using assms Sighup Inl daemon_inv_frame(1) [OF assms(1), of d ?r] by (simp add: on_sighup_def)
  next
    case (Inr new)
    then show ?thesis using assms Sighup
      by (auto simp: on_sighup_def daemon_inv_def heartbeat_current_def)
  qed
next
  case (RefreshTurn http timer now ts elapsed_ms)
  then show ?thesis using assms refresher_turn_inv by auto
next
  case (HeartbeatTick ts)
  obtain n d where p: "publish_stats env ts (daemon_heartbeat ts s) = (daemon_heartbeat ts s)\<lparr>da_dropped_at_last_sample := n, da_db := d\<rparr>"
      "db_heartbeat d = db_heartbeat (da_db (daemon_heartbeat ts s))"
    using publish_stats_frame [of env ts "daemon_heartbeat ts s"] by auto
  have "s' = (daemon_heartbeat ts s)\<lparr>da_dropped_at_last_sample := n, da_db := d\<rparr>" using assms(2) HeartbeatTick p(1) by (simp add: on_heartbeat_def)
  then show ?thesis using daemon_inv_frame(2) [OF daemon_inv_heartbeat [OF assms(1), of ts] p(2) refl refl refl] by simp
next
  case (RetentionTick ts)
  then show ?thesis using assms
    by (auto simp: on_retention_def retention_sweep_def Let_def daemon_inv_def heartbeat_current_def)
next
  case (Traffic ev)
  with assms(2) obtain m where m: "machine_step dp ev (machine_start (da_pipe s)) = Some m" "s' = s\<lparr>da_pipe := mc_pipe m\<rparr>" "\<forall>po. ev \<noteq> Install po"
    by (auto split: event.splits)
  from machine_step_policy [OF m(1,3)] have "pl_policy (mc_pipe m) = pl_policy (da_pipe s)" by (simp add: machine_start_def)
  then show ?thesis using assms(1) m(2) by (simp add: daemon_inv_def heartbeat_current_def)
qed

interpretation dm: event_system "daemon_step env dp show_config" "\<lambda>_. True" "daemon_inv env" for env dp show_config
  by unfold_locales (rule daemon_step_inv)

lemma daemon_start_inv:
  assumes "daemon_start env load_config open_db roots make_pool make_client shadow_addr pid now ts elapsed_ms fs = Some (Inr s)"
  shows "daemon_inv env s"
proof -
  from assms obtain config d w certs pl http policy loaded refresh_in fs1 hash c where st:
    "startup_policy env http config now fs = Some (Inr (policy, loaded, refresh_in), fs1)"
    "config_hash (de_toml env) (de_sha256 env) config = Some hash"
    "s = publish_stats env ts (daemon_heartbeat ts
       \<lparr>da_pipe = (case shadow_addr of Some addr \<Rightarrow> set_shadow addr (from_policy policy c w) | None \<Rightarrow> from_policy policy c w),
        da_pool = pl, da_db = d, da_disk = fs1,
        da_report = \<lparr>rr_lists_loaded_ts = ts, rr_lists = ll_reports loaded, rr_lists_hash = ll_hash loaded,
                 rr_applied_config_hash = hash, rr_last_reload = Some (outcome_of Startup ts elapsed_ms (Inr ())), rr_pending_restart = [],
                 rr_next_refresh_ts = ts + int refresh_in\<rparr>,
        da_started_with = config, da_current = config, da_started_ts = ts, da_pid = pid, da_reloads = [], da_dropped_at_last_sample = 0\<rparr>)"
    unfolding daemon_start_def Let_def by (auto split: sum.splits prod.splits bind_splits)
  from st(1) have f: "in_force env config policy (ll_hash loaded)"
    by (auto simp: startup_policy_def split: sum.splits prod.splits bind_splits dest: build_policy_in_force)
  let ?s = "\<lparr>da_pipe = (case shadow_addr of Some addr \<Rightarrow> set_shadow addr (from_policy policy c w) | None \<Rightarrow> from_policy policy c w),
        da_pool = pl, da_db = d, da_disk = fs1,
        da_report = \<lparr>rr_lists_loaded_ts = ts, rr_lists = ll_reports loaded, rr_lists_hash = ll_hash loaded,
                 rr_applied_config_hash = hash, rr_last_reload = Some (outcome_of Startup ts elapsed_ms (Inr ())), rr_pending_restart = [],
                 rr_next_refresh_ts = ts + int refresh_in\<rparr>,
        da_started_with = config, da_current = config, da_started_ts = ts, da_pid = pid, da_reloads = [], da_dropped_at_last_sample = 0\<rparr>"
  have "daemon_inv env (daemon_heartbeat ts ?s)"
    unfolding daemon_inv_def using f st(2)
    by (simp add: heartbeat_row daemon_heartbeat_current restart_only_changes_def from_policy_def set_shadow_def split: option.split)
  moreover obtain n db where "s = (daemon_heartbeat ts ?s)\<lparr>da_dropped_at_last_sample := n, da_db := db\<rparr>"
      "db_heartbeat db = db_heartbeat (da_db (daemon_heartbeat ts ?s))"
    using publish_stats_frame [of env ts "daemon_heartbeat ts ?s"] st(3) by auto
  ultimately show ?thesis using daemon_inv_frame(2) by blast
qed

section \<open>Properties\<close>

text \<open>From start-up on, after any history of signals, timers, heartbeats, retention sweeps and
  traffic, what the daemon reports is what is in force: the engine is the compilation of one text for
  every list of the configuration applied last, under the reported hash; safe search and allowlist are
  that configuration's; the reported configuration hash is its hash; the pending settings are exactly
  those that differ from the start-up configuration and need a restart; and the heartbeat row in the
  database, which other processes read, carries both hashes.\<close>
theorem report_is_in_force:
  assumes "daemon_start env load_config open_db roots make_pool make_client shadow_addr pid now ts elapsed_ms fs = Some (Inr s0)"
    and "run (daemon_step env dp show_config) es s0 = Some s"
  shows "in_force env (da_current s) (pl_policy (da_pipe s)) (rr_lists_hash (da_report s))
    \<and> config_hash (de_toml env) (de_sha256 env) (da_current s) = Some (rr_applied_config_hash (da_report s))
    \<and> rr_pending_restart (da_report s) = restart_only_changes (da_started_with s) (da_current s)
    \<and> heartbeat_current s"
  using dm.run_inv [OF daemon_start_inv [OF assms(1)] _ assms(2)] by (simp add: daemon_inv_def list_all_iff)

text \<open>C11: a reload is applied whole or not at all: after a turn of the refresher either the policy is
  the one the configuration asks for, the report says so and the configuration is current, or
  pipeline, current configuration, reported lists and hashes are as before, the report has the error
  and the next attempt is an hour away; and the cache, the lookups and the requests under way are
  untouched in both cases.\<close>
theorem reload_all_or_nothing:
  assumes "refresher_turn env http timer now ts elapsed_ms s = Some s'" and "timer \<or> da_reloads s \<noteq> []"
  shows "da_pipe s' = (da_pipe s)\<lparr>pl_policy := pl_policy (da_pipe s')\<rparr>
    \<and> (\<exists>oc. rr_last_reload (da_report s') = Some oc
        \<and> (if ro_ok oc
           then in_force env (turn_config timer s) (pl_policy (da_pipe s')) (rr_lists_hash (da_report s'))
             \<and> da_current s' = turn_config timer s
           else (\<exists>e. ro_error oc = Some e) \<and> da_pipe s' = da_pipe s \<and> da_current s' = da_current s
             \<and> rr_lists (da_report s') = rr_lists (da_report s) \<and> rr_lists_hash (da_report s') = rr_lists_hash (da_report s)
             \<and> rr_applied_config_hash (da_report s') = rr_applied_config_hash (da_report s)
             \<and> rr_next_refresh_ts (da_report s') = ts + 3600))"
  using assms
proof (cases rule: refresher_turn_cases)
  case (installed policy loaded hash fs d rel)
  from build_policy_in_force [OF installed(1)] installed(4) show ?thesis
    by (auto simp: heartbeat_row install_def outcome_of_def)
next
  case (kept err fs d rel)
  then show ?thesis by (auto simp: heartbeat_row outcome_of_def RETRY_AFTER_FETCH_FAILURE_def)
qed

text \<open>The daemon calls itself degraded exactly when something is wrong, and names each cause: no
  upstream answers, log records were dropped, a list's download failed, a list was not confirmed for
  more than three days, the last reload failed, or a setting waits for a restart.\<close>
theorem degraded_exact:
  "(degraded_reasons r fails drops now = [] \<longleftrightarrow>
      fails = 0 \<and> drops = 0
      \<and> (\<forall>l \<in> set (rr_lists r). \<not> fetch_failed (lr_origin l)
           \<and> (\<forall>a. lr_verified_age_secs l = Some a \<longrightarrow> a + nat (now - rr_lists_loaded_ts r) \<le> 259200))
      \<and> (\<forall>oc. rr_last_reload r = Some oc \<longrightarrow> ro_ok oc) \<and> rr_pending_restart r = [])
   \<and> (\<forall>x. x \<in> dg_reason ` set (degraded_reasons r fails drops now) \<longleftrightarrow>
        x = ''cannot_resolve'' \<and> fails > 0
      \<or> x = ''log_events_dropped'' \<and> drops > 0
      \<or> x = ''list_fetch_failed'' \<and> (\<exists>l \<in> set (rr_lists r). fetch_failed (lr_origin l))
      \<or> x = ''list_stale'' \<and> (\<exists>l \<in> set (rr_lists r). \<exists>a. lr_verified_age_secs l = Some a
            \<and> a + nat (now - rr_lists_loaded_ts r) > 259200)
      \<or> x = ''reload_failed'' \<and> (\<exists>oc. rr_last_reload r = Some oc \<and> \<not> ro_ok oc)
      \<or> x = ''pending_restart'' \<and> rr_pending_restart r \<noteq> [])"
proof -
  have l: "x \<in> dg_reason ` set (list_reasons n l) \<longleftrightarrow>
      x = ''list_fetch_failed'' \<and> fetch_failed (lr_origin l)
      \<or> x = ''list_stale'' \<and> (\<exists>a. lr_verified_age_secs l = Some a \<and> a + n > 259200)" for x n l
    by (cases "lr_origin l"; cases "lr_verified_age_secs l") (auto simp: list_reasons_def degraded_def Let_def STALE_LIST_SECS_def)
  have ne: "list_reasons n l = [] \<longleftrightarrow> \<not> fetch_failed (lr_origin l)
      \<and> (\<forall>a. lr_verified_age_secs l = Some a \<longrightarrow> a + n \<le> 259200)" for n l
    by (cases "lr_origin l"; cases "lr_verified_age_secs l") (auto simp: list_reasons_def Let_def STALE_LIST_SECS_def)
  have c: "x \<in> dg_reason ` set (concat (map (list_reasons n) ls)) \<longleftrightarrow> (\<exists>l \<in> set ls. x \<in> dg_reason ` set (list_reasons n l))" for x n ls
    by auto
  have one: "x \<in> dg_reason ` set (if b then [degraded a d m] else []) \<longleftrightarrow> x = a \<and> b" for x a d m b
    by (cases b) (simp_all add: degraded_def)
  have rel: "x \<in> dg_reason ` set (case lr of None \<Rightarrow> [] | Some oc \<Rightarrow> if \<not> ro_ok oc then [degraded a (d oc) m] else [])
      \<longleftrightarrow> x = a \<and> (\<exists>oc. lr = Some oc \<and> \<not> ro_ok oc)" for x a d m and lr :: "reload_outcome option"
    by (cases lr; cases "ro_ok (the lr)") (simp_all add: degraded_def)
  have "x \<in> dg_reason ` set (degraded_reasons r fails drops now) \<longleftrightarrow>
        x = ''cannot_resolve'' \<and> fails > 0
      \<or> x = ''log_events_dropped'' \<and> drops > 0
      \<or> x = ''list_fetch_failed'' \<and> (\<exists>l \<in> set (rr_lists r). fetch_failed (lr_origin l))
      \<or> x = ''list_stale'' \<and> (\<exists>l \<in> set (rr_lists r). \<exists>a. lr_verified_age_secs l = Some a
            \<and> a + nat (now - rr_lists_loaded_ts r) > 259200)
      \<or> x = ''reload_failed'' \<and> (\<exists>oc. rr_last_reload r = Some oc \<and> \<not> ro_ok oc)
      \<or> x = ''pending_restart'' \<and> rr_pending_restart r \<noteq> []" for x
    by (simp only: degraded_reasons_def set_append image_Un Un_iff one rel c l bex_disj_distrib bex_simps disj_assoc)
  moreover have "degraded_reasons r fails drops now = [] \<longleftrightarrow>
      fails = 0 \<and> drops = 0
      \<and> (\<forall>l \<in> set (rr_lists r). \<not> fetch_failed (lr_origin l)
           \<and> (\<forall>a. lr_verified_age_secs l = Some a \<longrightarrow> a + nat (now - rr_lists_loaded_ts r) \<le> 259200))
      \<and> (\<forall>oc. rr_last_reload r = Some oc \<longrightarrow> ro_ok oc) \<and> rr_pending_restart r = []"
    by (cases "rr_last_reload r") (simp_all add: degraded_reasons_def ne)
  ultimately show ?thesis by blast
qed

section \<open>Witnesses\<close>

definition ex_config :: "nat config" where
  "ex_config = \<lparr>cfg_server = \<lparr>bind_addrs = [], allow = [1]\<rparr>,
     cfg_filtering = \<lparr>fc_profile = None, fc_lists = [ex_source], fc_list_dir = ''/l''\<rparr>,
     cfg_upstreams = \<lparr>servers = [''quic://9.9.9.9''], bootstrap = [], timeout_ms = 2000\<rparr>,
     cfg_database = \<lparr>db_path = ''/db''\<rparr>, cfg_safe_search = \<lparr>ssc_enabled = False, ssc_providers = []\<rparr>,
     cfg_tls = \<lparr>extra_roots = []\<rparr>, cfg_cache = cache_config_default\<rparr>"

definition ex_env :: "(nat, unit, unit) denv" where
  "ex_env = \<lparr>de_srt = (\<lambda>f xs. sort_key f xs), de_sha256 = (\<lambda>_. []), de_io = ex_io, de_utf8_lossy = (\<lambda>b. b), de_toml = (\<lambda>_. Some []),
     de_show = (\<lambda>_. []), de_json_report = (\<lambda>_. Some ''{}''), de_json_health = (\<lambda>_. Some ''{}'')\<rparr>"

definition ex_pool :: "nat pool" where
  "ex_pool = \<lparr>pu_upstreams = [], pu_timeout = 0, pu_resolved = 0, pu_all_failed_total = 0, pu_consecutive_all_failed = 0\<rparr>"

lemma ex_effective: "effective_lists ex_config = [ex_source]"
  by (simp add: effective_lists_def ex_config_def apply_extra_def)

lemma ex_build_with:
  assumes "fs_files fs ''/a.txt'' = Some \<lparr>fl_bytes = ''||ads.com^'', fl_mtime = 3\<rparr>" "is_dir ''/l'' fs"
    and "de_srt env = (\<lambda>f xs. sort_key f xs)" "de_io env = ex_io" "de_utf8_lossy env = (\<lambda>b. b)"
  shows "\<exists>policy loaded fs'. build_policy env (ex_config\<lparr>cfg_server := srv\<rparr>) fetcher 9 fs = Some (Inr (policy, loaded), fs')
    \<and> ll_reports loaded = [ex_list_report] \<and> (fetcher = None \<longrightarrow> fs' = fs)"
proof -
  have "\<exists>ss. safesearch_new (ssc_enabled (cfg_safe_search ex_config)) (ssc_providers (cfg_safe_search ex_config)) = Inr ss"
    by (simp add: ex_config_def safesearch_new_def)
  moreover have "effective_lists (ex_config\<lparr>cfg_server := srv\<rparr>) = [ex_source]" "fc_list_dir (cfg_filtering ex_config) = ''/l''"
    by (simp_all add: effective_lists_def ex_config_def apply_extra_def)
  moreover obtain l fs' where l: "lists_load (\<lambda>f xs. sort_key f xs) (de_sha256 env) ex_io (\<lambda>b. b) fetcher 9 ''/l'' [ex_source] fs
      = Some (Inr l, fs')" "ll_reports l = [ex_list_report]"
    using ex_load [OF assms(1,2), of "de_sha256 env" fetcher] by blast
  moreover have "fetcher = None \<longrightarrow> fs' = fs" using lists_load_content [OF l(1)] by blast
  ultimately show ?thesis by (auto simp: build_policy_def assms(3-5))
qed

lemma ex_build:
  assumes "fs_files fs ''/a.txt'' = Some \<lparr>fl_bytes = ''||ads.com^'', fl_mtime = 3\<rparr>" "is_dir ''/l'' fs"
  shows "\<exists>policy loaded fs'. build_policy ex_env ex_config fetcher 9 fs = Some (Inr (policy, loaded), fs')
    \<and> ll_reports loaded = [ex_list_report]"
  using ex_build_with [OF assms, of ex_env "cfg_server ex_config" fetcher] by (auto simp: ex_env_def)

lemma ex_disk_ok: "fs_files ex_disk ''/a.txt'' = Some \<lparr>fl_bytes = ''||ads.com^'', fl_mtime = 3\<rparr>" "is_dir ''/l'' ex_disk"
  by (simp_all add: ex_disk_def is_dir_def)

lemma ex_hash: "config_hash (de_toml ex_env) (de_sha256 ex_env) c = Some []"
  by (simp add: config_hash_def ex_env_def hex_encode_def)

theorem report_is_in_force_witness:
  "\<exists>s0 s :: (string, nat, nat) daemon. daemon_start ex_env (Inr ex_config)
       (\<lambda>_. Inr (empty_database, \<lparr>dw_queue = [], dw_capacity = 4, dw_drops = 0\<rparr>)) (\<lambda>_. Inr ([] :: nat list)) (\<lambda>_ _. Inr ex_pool)
       (\<lambda>_. Inr ex_http) None 1 9 100 5 ex_disk = Some (Inr s0)
     \<and> run (daemon_step ex_env ex_deps (\<lambda>_. [])) [Sighup (Inr ex_config) 101, HeartbeatTick 102, RetentionTick 103] s0 = Some s
     \<and> heartbeat_current s"
proof -
  obtain policy loaded fs' where b: "build_policy ex_env ex_config None 9 ex_disk = Some (Inr (policy, loaded), fs')"
    using ex_build [OF ex_disk_ok] by blast
  then have st: "startup_policy ex_env ex_http ex_config 9 ex_disk = Some (Inr (policy, loaded, 0), fs')"
    by (simp add: startup_policy_def)
  obtain c where c: "with_limits (max_entries (cfg_cache ex_config)) DEFAULT_MAX_BYTES (serve_stale_secs (cfg_cache ex_config)) = Some (c :: (string cache_key, string) inner)"
    by (simp add: with_limits_def ex_config_def cache_config_default_def default_max_entries_def DEFAULT_MAX_BYTES_def)
  obtain s0 :: "(string, nat, nat) daemon" where s0: "daemon_start ex_env (Inr ex_config)
       (\<lambda>_. Inr (empty_database, \<lparr>dw_queue = [], dw_capacity = 4, dw_drops = 0\<rparr>)) (\<lambda>_. Inr ([] :: nat list)) (\<lambda>_ _. Inr ex_pool)
       (\<lambda>_. Inr ex_http) None 1 9 100 5 ex_disk = Some (Inr s0)"
    by (simp add: daemon_start_def st ex_hash c)
  obtain s where s: "run (daemon_step ex_env ex_deps (\<lambda>_. [])) [Sighup (Inr ex_config) 101, HeartbeatTick 102, RetentionTick 103] s0 = Some s"
    by simp
  from report_is_in_force [OF s0 s] s0 s show ?thesis by blast
qed

definition ex_daemon :: "(string, nat, nat) daemon" where
  "ex_daemon = \<lparr>da_pipe = from_policy \<lparr>po_engine = engine_default, po_safesearch = \<lparr>ss_enabled = 0\<rparr>, po_allow = []\<rparr>
       (the (with_limits 4 1000 60)) \<lparr>dw_queue = [], dw_capacity = 4, dw_drops = 0\<rparr>,
     da_pool = ex_pool, da_db = empty_database, da_disk = ex_disk,
     da_report = \<lparr>rr_lists_loaded_ts = 0, rr_lists = [], rr_lists_hash = [], rr_applied_config_hash = [], rr_last_reload = None,
       rr_pending_restart = [], rr_next_refresh_ts = 0\<rparr>,
     da_started_with = ex_config, da_current = ex_config, da_started_ts = 0, da_pid = 1, da_reloads = [], da_dropped_at_last_sample = 0\<rparr>"

theorem reload_all_or_nothing_witness:
  "\<exists>s' oc. refresher_turn ex_env ex_http True 9 100 5 ex_daemon = Some s' \<and> rr_last_reload (da_report s') = Some oc
    \<and> da_pipe s' = (da_pipe ex_daemon)\<lparr>pl_policy := pl_policy (da_pipe s')\<rparr>"
proof -
  have d: "da_disk ex_daemon = ex_disk" "da_current ex_daemon = ex_config" "da_reloads ex_daemon = []" by (simp_all add: ex_daemon_def)
  obtain policy loaded fs' where b: "build_policy ex_env ex_config (Some ex_http) 9 ex_disk = Some (Inr (policy, loaded), fs')"
    using ex_build [OF ex_disk_ok] by blast
  then obtain s' where s': "refresher_turn ex_env ex_http True 9 100 5 ex_daemon = Some s'"
    by (simp add: refresher_turn_def d Let_def ex_hash)
  from reload_all_or_nothing [OF s'] s' show ?thesis by auto
qed

definition ex_report :: runtime_report where
  "ex_report = \<lparr>rr_lists_loaded_ts = 50, rr_lists = [\<lparr>lr_name = ''a'', lr_origin = StoredAfterFetchFailure ''HTTP 503'',
       lr_rules = 1, lr_issues = 0, lr_verified_age_secs = Some 259190\<rparr>],
     rr_lists_hash = [], rr_applied_config_hash = [], rr_last_reload = None, rr_pending_restart = [], rr_next_refresh_ts = 0\<rparr>"

theorem degraded_exact_witness:
  "dg_reason ` set (degraded_reasons ex_report 0 0 61) = {''list_fetch_failed'', ''list_stale''}"
  by (rule set_eqI, subst degraded_exact [of ex_report 0 0 61, THEN conjunct2, rule_format]) (auto simp: ex_report_def)

end
