(* ===== verification/Refresher.thy ===== *)
theory Refresher
  imports Daemon_Correct
begin

text \<open>
  The refresher and the signal loop of \<open>crates/core/src/daemon.rs\<close> as the two tasks they are.
  Between two locks, writes or \<open>await\<close>s of one task the other may run, and so may the queries: a
  step here is one such piece of \<open>Refresher::run\<close> or of the loop of \<open>run\<close>, and what a task holds
  between two pieces (the configuration it loads, the policy it built, the copy of the report it is
  about to write) is in its stage.

  The turns of \<open>Daemon\<close> are the runs in which a task is not interrupted (\<open>turns_are_runs\<close>).  The
  invariant \<open>staged_inv\<close> holds under every interleaving; \<open>calm\<close> excludes the one overlap, a
  heartbeat across the refresher's report, after which the heartbeat row may lag.
\<close>

section \<open>Stages\<close>

text \<open>Where the refresher is.  \<open>RfLoading\<close> downloads and compiles; \<open>RfInstalled\<close> has the new policy
  in force and not yet reported; the copies of the report are taken on entering \<open>RfPublishing\<close> and
  \<open>RfBeating\<close>.\<close>

datatype ('net, 'io, 'pe) refresher_stage =
    RfWaiting
  | RfLoading trigger "'net config"
  | RfLoaded trigger "'net config" "('io, 'pe) core_error + 'net policy \<times> loaded_lists"
  | RfInstalled trigger "'net config" loaded_lists
  | RfReported nat
  | RfScheduled
  | RfPublishing runtime_report
  | RfPublished
  | RfBeating runtime_report

fun refresher_step ::
    "('net, 'io, 'pe) denv \<Rightarrow> fetcher \<Rightarrow> bool \<Rightarrow> nat \<Rightarrow> int \<Rightarrow> nat \<Rightarrow> ('net, 'io, 'pe) refresher_stage
       \<Rightarrow> ('n, 'net, 't) daemon \<Rightarrow> (('net, 'io, 'pe) refresher_stage \<times> ('n, 'net, 't) daemon) option" where
  "refresher_step env http timer now ts elapsed_ms RfWaiting s =
     (if timer then Some (RfLoading Timer (da_current s), s)
      else (case da_reloads s of
              [] \<Rightarrow> None
            | c # cs \<Rightarrow> Some (RfLoading Signal c, s\<lparr>da_reloads := cs\<rparr>)))"
| "refresher_step env http timer now ts elapsed_ms (RfLoading trig config) s = do {
     (result, fs) \<leftarrow> build_policy env config (Some http) now (da_disk s);
     Some (RfLoaded trig config result, s\<lparr>da_disk := fs\<rparr>)
   }"
| "refresher_step env http timer now ts elapsed_ms (RfLoaded trig config result) s =
     (case result of
        Inr (policy, loaded) \<Rightarrow> Some (RfInstalled trig config loaded, s\<lparr>da_pipe := install policy (da_pipe s)\<rparr>)
      | Inl err \<Rightarrow> Some (RfReported RETRY_AFTER_FETCH_FAILURE,
          s\<lparr>da_report := (da_report s)\<lparr>rr_last_reload := Some (outcome_of trig ts elapsed_ms (Inl (de_show env err)))\<rparr>\<rparr>))"
| "refresher_step env http timer now ts elapsed_ms (RfInstalled trig config loaded) s = do {
     hash \<leftarrow> config_hash (de_toml env) (de_sha256 env) config;
     Some (RfReported (next_refresh loaded),
       s\<lparr>da_current := config,
         da_report := (da_report s)\<lparr>rr_lists_loaded_ts := ts, rr_lists_hash := ll_hash loaded,
           rr_lists := ll_reports loaded, rr_applied_config_hash := hash,
           rr_pending_restart := restart_only_changes (da_started_with s) config,
           rr_last_reload := Some (outcome_of trig ts elapsed_ms (Inr ()))\<rparr>\<rparr>)
   }"
| "refresher_step env http timer now ts elapsed_ms (RfReported wait) s =
     Some (RfScheduled, s\<lparr>da_report := (da_report s)\<lparr>rr_next_refresh_ts := ts + int wait\<rparr>\<rparr>)"
| "refresher_step env http timer now ts elapsed_ms RfScheduled s = Some (RfPublishing (da_report s), s)"
| "refresher_step env http timer now ts elapsed_ms (RfPublishing report) s = Some (RfPublished, write_report env ts report s)"
| "refresher_step env http timer now ts elapsed_ms RfPublished s = Some (RfBeating (da_report s), s)"
| "refresher_step env http timer now ts elapsed_ms (RfBeating report) s = Some (RfWaiting, heartbeat_of ts report s)"

text \<open>Where the signal loop is: waiting, or within a heartbeat or a refused reload.\<close>

datatype signal_stage =
    SlIdle
  | SlBeating runtime_report
  | SlSampling runtime_report
  | SlRefused
  | SlRefusing runtime_report

datatype ('net, 'io, 'pe) loop_event =
    WakeHup "('io, 'pe) config_error + 'net config"
  | WakeHeartbeat
  | WakeRetention

definition signal_wake ::
    "(('io, 'pe) config_error \<Rightarrow> string) \<Rightarrow> ('net, 'io, 'pe) loop_event \<Rightarrow> int \<Rightarrow> ('n, 'net, 't) daemon
       \<Rightarrow> signal_stage \<times> ('n, 'net, 't) daemon" where
  "signal_wake show_config w ts s =
     (case w of
        WakeHup (Inr new) \<Rightarrow> (SlIdle, if length (da_reloads s) < 1 then s\<lparr>da_reloads := da_reloads s @ [new]\<rparr> else s)
      | WakeHup (Inl err) \<Rightarrow> (SlRefused,
          s\<lparr>da_report := (da_report s)\<lparr>rr_last_reload := Some \<lparr>ro_ts = ts, ro_trigger = Signal, ro_ok = False,
              ro_error = Some (''config: '' @ show_config err), ro_duration_ms = 0\<rparr>\<rparr>\<rparr>)
      | WakeHeartbeat \<Rightarrow> (SlBeating (da_report s), s)
      | WakeRetention \<Rightarrow> (SlIdle, on_retention ts s))"

fun signal_go_on ::
    "('net, 'io, 'pe) denv \<Rightarrow> int \<Rightarrow> signal_stage \<Rightarrow> ('n, 'net, 't) daemon \<Rightarrow> (signal_stage \<times> ('n, 'net, 't) daemon) option" where
  "signal_go_on env ts SlIdle s = None"
| "signal_go_on env ts (SlBeating report) s = Some (SlSampling report, heartbeat_of ts report s)"
| "signal_go_on env ts (SlSampling report) s = Some (SlIdle, stats_of env ts report s)"
| "signal_go_on env ts SlRefused s = Some (SlRefusing (da_report s), s)"
| "signal_go_on env ts (SlRefusing report) s = Some (SlIdle, write_report env ts report s)"

section \<open>The daemon, piece by piece\<close>

record ('n, 'net, 't, 'io, 'pe) staged =
  sg_daemon :: "('n, 'net, 't) daemon"
  sg_refresher :: "('net, 'io, 'pe) refresher_stage"
  sg_signals :: signal_stage

definition at_rest :: "('n, 'net, 't) daemon \<Rightarrow> ('n, 'net, 't, 'io, 'pe) staged" where
  "at_rest s = \<lparr>sg_daemon = s, sg_refresher = RfWaiting, sg_signals = SlIdle\<rparr>"

datatype ('n, 'net, 'io, 'pe) staged_event =
    is_Refresh: Refresh fetcher bool nat int nat
  | Wake "('net, 'io, 'pe) loop_event" int
  | GoOn int
  | Query "('n, 'net) event"

fun staged_step ::
    "('net, 'io, 'pe) denv \<Rightarrow> ('n, 'net) deps \<Rightarrow> (('io, 'pe) config_error \<Rightarrow> string) \<Rightarrow> ('n, 'net, 'io, 'pe) staged_event
       \<Rightarrow> ('n, 'net, 't, 'io, 'pe) staged \<Rightarrow> ('n, 'net, 't, 'io, 'pe) staged option" where
  "staged_step env dp show_config (Refresh http timer now ts elapsed_ms) x =
     map_option (\<lambda>(st, s). x\<lparr>sg_refresher := st, sg_daemon := s\<rparr>)
       (refresher_step env http timer now ts elapsed_ms (sg_refresher x) (sg_daemon x))"
| "staged_step env dp show_config (Wake w ts) x =
     (if sg_signals x = SlIdle
      then (case signal_wake show_config w ts (sg_daemon x) of (st, s) \<Rightarrow> Some (x\<lparr>sg_signals := st, sg_daemon := s\<rparr>))
      else None)"
| "staged_step env dp show_config (GoOn ts) x =
     map_option (\<lambda>(st, s). x\<lparr>sg_signals := st, sg_daemon := s\<rparr>) (signal_go_on env ts (sg_signals x) (sg_daemon x))"
| "staged_step env dp show_config (Query ev) x =
     map_option (\<lambda>s. x\<lparr>sg_daemon := s\<rparr>) (daemon_step env dp show_config (Traffic ev) (sg_daemon x))"

text \<open>The overlap that lets the heartbeat row lag: the refresher reports while the signal loop holds
  the copy of an older report that it is about to write.\<close>

definition overlaps :: "('n, 'net, 't, 'io, 'pe) staged \<Rightarrow> bool" where
  "overlaps x \<longleftrightarrow> (case (sg_refresher x, sg_signals x) of (RfInstalled _ _ _, SlBeating _) \<Rightarrow> True | _ \<Rightarrow> False)"

definition calm_step ::
    "('net, 'io, 'pe) denv \<Rightarrow> ('n, 'net) deps \<Rightarrow> (('io, 'pe) config_error \<Rightarrow> string) \<Rightarrow> ('n, 'net, 'io, 'pe) staged_event
       \<Rightarrow> ('n, 'net, 't, 'io, 'pe) staged \<Rightarrow> ('n, 'net, 't, 'io, 'pe) staged option" where
  "calm_step env dp show_config e x =
     (case e of
        Refresh _ _ _ _ _ \<Rightarrow> if overlaps x then None else staged_step env dp show_config e x
      | _ \<Rightarrow> staged_step env dp show_config e x)"

section \<open>The turns are runs\<close>

text \<open>Each step of the machine of turns is a run of pieces from rest to rest, in one order: the pieces
  of one task.\<close>

fun turn_pieces ::
    "('net, 'io, 'pe) denv \<Rightarrow> ('n, 'net, 'io, 'pe) daemon_event \<Rightarrow> ('n, 'net, 't) daemon \<Rightarrow> ('n, 'net, 'io, 'pe) staged_event list" where
  "turn_pieces env (Sighup loaded ts) s =
     (case loaded of Inr _ \<Rightarrow> [Wake (WakeHup loaded) ts] | Inl _ \<Rightarrow> [Wake (WakeHup loaded) ts, GoOn ts, GoOn ts])"
| "turn_pieces env (RefreshTurn http timer now ts elapsed_ms) s =
     (if \<not> timer \<and> da_reloads s = [] then []
      else replicate (case build_policy env (turn_config timer s) (Some http) now (da_disk s) of
          Some (Inr _, _) \<Rightarrow> 9 | _ \<Rightarrow> 8) (Refresh http timer now ts elapsed_ms))"
| "turn_pieces env (HeartbeatTick ts) s = [Wake WakeHeartbeat ts, GoOn ts, GoOn ts]"
| "turn_pieces env (RetentionTick ts) s = [Wake WakeRetention ts]"
| "turn_pieces env (Traffic ev) s = [Query ev]"

lemma heartbeat_of_report [simp]: "da_report (heartbeat_of ts r s) = da_report s"
  by (simp add: heartbeat_of_def)

lemma write_report_report [simp]: "da_report (write_report env ts r s) = da_report s"
  using write_report_frame [of env ts r s] by auto

lemma turn_is_run:
  assumes "daemon_step env dp show_config e s = Some s'"
  shows "run (staged_step env dp show_config) (turn_pieces env e s) (at_rest s) = Some (at_rest s')"
proof (cases e)
  case (Sighup loaded ts)
  then show ?thesis using assms
    by (auto simp: at_rest_def signal_wake_def on_sighup_def publish_runtime_def split: sum.split)
next
  case (RefreshTurn http timer now ts elapsed_ms)
  show ?thesis
  proof (cases "\<not> timer \<and> da_reloads s = []")
    case True
    then show ?thesis using assms RefreshTurn by (simp add: refresher_turn_def)
  next
    case False
    define rel where "rel = (if timer then da_reloads s else tl (da_reloads s))"
    define trig where "trig = (if timer then Timer else Signal)"
    have swap: "s\<lparr>da_reloads := rel, da_disk := fs\<rparr> = s\<lparr>da_disk := fs, da_reloads := rel\<rparr>" for fs by (cases s) simp
    let ?s = "s\<lparr>da_reloads := rel\<rparr>" and ?c = "turn_config timer s"
    let ?step = "refresher_step env http timer now ts elapsed_ms"
    have wait: "?step RfWaiting s = Some (RfLoading trig ?c, ?s)"
      using False by (cases "da_reloads s") (auto simp: rel_def trig_def turn_config_def)
    have c: "(case da_reloads s of
            c # cs \<Rightarrow> if timer then (Timer, da_current s, c # cs) else (Signal, c, cs)
          | [] \<Rightarrow> (Timer, da_current s, [])) = (trig, ?c, rel)"
      using False by (cases "da_reloads s") (auto simp: rel_def trig_def turn_config_def)
    from assms [unfolded RefreshTurn daemon_step.simps refresher_turn_def c Let_def prod.case] False
    obtain result fs where b: "build_policy env ?c (Some http) now (da_disk s) = Some (result, fs)"
      by (auto split: bind_splits if_splits)
    note red = assms [unfolded RefreshTurn daemon_step.simps refresher_turn_def c Let_def prod.case b Option.bind.bind_lunit]
    show ?thesis
    proof (cases result)
      case (Inl err)
      show ?thesis unfolding RefreshTurn using red False wait Inl b
        by (auto simp: swap at_rest_def publish_runtime_def daemon_heartbeat_def numeral_eq_Suc)
    next
      case (Inr pl)
      show ?thesis unfolding RefreshTurn using red False wait Inr b
        by (cases pl) (auto simp: swap at_rest_def publish_runtime_def daemon_heartbeat_def numeral_eq_Suc split: bind_splits)
    qed
  qed
next
  case (HeartbeatTick ts)
  then show ?thesis using assms
    by (auto simp: at_rest_def signal_wake_def on_heartbeat_def daemon_heartbeat_def publish_stats_def)
next
  case (RetentionTick ts)
  then show ?thesis using assms by (auto simp: at_rest_def signal_wake_def)
next
  case (Traffic ev)
  then show ?thesis using assms by (auto simp: at_rest_def)
qed

lemma calm_run_refresh:
  "list_all is_Refresh es \<Longrightarrow> sg_signals x = SlIdle \<Longrightarrow> run (calm_step env dp show_config) es x = run (staged_step env dp show_config) es x"
proof (induction es arbitrary: x)
  case (Cons e es)
  then have e: "calm_step env dp show_config e x = staged_step env dp show_config e x"
    by (auto simp: calm_step_def overlaps_def split: staged_event.split refresher_stage.split)
  show ?case
  proof (cases "staged_step env dp show_config e x")
    case (Some x')
    with Cons.prems have "sg_signals x' = SlIdle" by (cases e) auto
    with Cons Some e show ?thesis by simp
  qed (simp add: e)
qed simp

lemma calm_run_other:
  "list_all (\<lambda>e. \<not> is_Refresh e) es \<Longrightarrow> run (calm_step env dp show_config) es x = run (staged_step env dp show_config) es x"
proof (induction es arbitrary: x)
  case (Cons e es)
  then have e: "calm_step env dp show_config e x = staged_step env dp show_config e x" by (cases e) (simp_all add: calm_step_def)
  with Cons show ?case by (cases "staged_step env dp show_config e x") simp_all
qed simp

lemma turn_is_calm:
  assumes "daemon_step env dp show_config e s = Some s'"
  shows "run (calm_step env dp show_config) (turn_pieces env e s) (at_rest s) = Some (at_rest s')"
proof -
  have "list_all is_Refresh (turn_pieces env e s) \<or> list_all (\<lambda>e. \<not> is_Refresh e) (turn_pieces env e s)"
    by (cases e) (auto simp: list_all_iff split: sum.split)
  moreover have "sg_signals (at_rest s) = SlIdle" by (simp add: at_rest_def)
  ultimately show ?thesis using turn_is_run [OF assms] calm_run_refresh calm_run_other by metis
qed

section \<open>What holds under every interleaving\<close>

text \<open>Two hashes that belong to one load of one configuration.\<close>

definition whole_load :: "('net, 'io, 'pe) denv \<Rightarrow> string \<Rightarrow> string \<Rightarrow> bool" where
  "whole_load env ch lh \<longleftrightarrow>
     (\<exists>config policy. config_hash (de_toml env) (de_sha256 env) config = Some ch \<and> in_force env config policy lh)"

definition whole_report :: "('net, 'io, 'pe) denv \<Rightarrow> runtime_report \<Rightarrow> bool" where
  "whole_report env r \<longleftrightarrow> whole_load env (rr_applied_config_hash r) (rr_lists_hash r)"

definition row_hashes :: "database \<Rightarrow> (string \<times> string) option" where
  "row_hashes d = map_option (\<lambda>r. (hr_config_hash r, hr_lists_hash r)) (db_heartbeat d)"

definition report_hashes :: "runtime_report \<Rightarrow> string \<times> string" where
  "report_hashes r = (rr_applied_config_hash r, rr_lists_hash r)"

definition whole_row :: "('net, 'io, 'pe) denv \<Rightarrow> database \<Rightarrow> bool" where
  "whole_row env d \<longleftrightarrow> (case row_hashes d of None \<Rightarrow> True | Some (ch, lh) \<Rightarrow> whole_load env ch lh)"

text \<open>What a stage knows of the policy in force.\<close>

fun policy_known :: "('net, 'io, 'pe) denv \<Rightarrow> ('net, 'io, 'pe) refresher_stage \<Rightarrow> ('n, 'net, 't) daemon \<Rightarrow> bool" where
  "policy_known env (RfInstalled trig config loaded) s \<longleftrightarrow> in_force env config (pl_policy (da_pipe s)) (ll_hash loaded)"
| "policy_known env st s \<longleftrightarrow> in_force env (da_current s) (pl_policy (da_pipe s)) (rr_lists_hash (da_report s))"

fun refresher_holds :: "('net, 'io, 'pe) denv \<Rightarrow> ('net, 'io, 'pe) refresher_stage \<Rightarrow> runtime_report \<Rightarrow> bool" where
  "refresher_holds env (RfLoaded trig config (Inr (policy, loaded))) r \<longleftrightarrow> in_force env config policy (ll_hash loaded)"
| "refresher_holds env (RfBeating report) r \<longleftrightarrow> report_hashes report = report_hashes r"
| "refresher_holds env _ r \<longleftrightarrow> True"

fun signals_hold :: "('net, 'io, 'pe) denv \<Rightarrow> signal_stage \<Rightarrow> bool" where
  "signals_hold env (SlBeating report) \<longleftrightarrow> whole_report env report"
| "signals_hold env _ \<longleftrightarrow> True"

definition staged_inv :: "('net, 'io, 'pe) denv \<Rightarrow> ('n, 'net, 't, 'io, 'pe) staged \<Rightarrow> bool" where
  "staged_inv env x \<longleftrightarrow> (let s = sg_daemon x in
     policy_known env (sg_refresher x) s
   \<and> config_hash (de_toml env) (de_sha256 env) (da_current s) = Some (rr_applied_config_hash (da_report s))
   \<and> rr_pending_restart (da_report s) = restart_only_changes (da_started_with s) (da_current s)
   \<and> whole_report env (da_report s) \<and> whole_row env (da_db s)
   \<and> refresher_holds env (sg_refresher x) (da_report s) \<and> signals_hold env (sg_signals x)
   \<and> length (da_reloads s) \<le> 1)"

text \<open>Most pieces leave alone what the invariant speaks of.\<close>

definition steady :: "('n, 'net, 't) daemon \<Rightarrow> ('n, 'net, 't) daemon \<Rightarrow> bool" where
  "steady s s' \<longleftrightarrow> da_current s' = da_current s \<and> da_started_with s' = da_started_with s
   \<and> pl_policy (da_pipe s') = pl_policy (da_pipe s) \<and> report_hashes (da_report s') = report_hashes (da_report s)
   \<and> rr_pending_restart (da_report s') = rr_pending_restart (da_report s)
   \<and> (length (da_reloads s) \<le> 1 \<longrightarrow> length (da_reloads s') \<le> 1)"

lemma policy_known_frame: "steady s s' \<Longrightarrow> policy_known env st s' = policy_known env st s"
  by (cases st) (simp_all add: steady_def report_hashes_def)

lemma refresher_holds_frame: "report_hashes r = report_hashes r' \<Longrightarrow> refresher_holds env st r = refresher_holds env st r'"
  by (induction env st r rule: refresher_holds.induct) auto

lemma staged_inv_frame:
  assumes "staged_inv env x" "steady (sg_daemon x) s'"
    and "policy_known env (sg_refresher x) s' \<Longrightarrow> policy_known env st s'"
    and "refresher_holds env st (da_report s')" "signals_hold env sl" "whole_row env (da_db s')"
  shows "staged_inv env \<lparr>sg_daemon = s', sg_refresher = st, sg_signals = sl\<rparr>"
  using assms policy_known_frame [OF assms(2), of env "sg_refresher x"]
  by (auto simp: staged_inv_def steady_def report_hashes_def whole_report_def Let_def)

lemma steady_refl [simp]: "steady s s"
  by (simp add: steady_def)

lemma write_report_steady [simp]:
  "steady s (write_report env ts r s)" "row_hashes (da_db (write_report env ts r s)) = row_hashes (da_db s)"
  using write_report_frame [of env ts r s] by (auto simp: steady_def row_hashes_def)

lemma stats_of_steady [simp]:
  "steady s (stats_of env ts r s)" "row_hashes (da_db (stats_of env ts r s)) = row_hashes (da_db s)"
  "da_report (stats_of env ts r s) = da_report s"
  using stats_of_frame [of env ts r s] by (auto simp: steady_def row_hashes_def)

lemma heartbeat_of_steady [simp]:
  "steady s (heartbeat_of ts r s)" "row_hashes (da_db (heartbeat_of ts r s)) = Some (report_hashes r)"
  by (simp_all add: heartbeat_of_def write_heartbeat_def steady_def row_hashes_def report_hashes_def)

lemma on_retention_steady [simp]:
  "steady s (on_retention ts s)" "row_hashes (da_db (on_retention ts s)) = row_hashes (da_db s)"
  "da_report (on_retention ts s) = da_report s"
  by (simp_all add: on_retention_def retention_sweep_def Let_def steady_def row_hashes_def)

lemma traffic_steady:
  assumes "daemon_step env dp show_config (Traffic ev) s = Some s'"
  shows "steady s s'" "da_db s' = da_db s" "da_report s' = da_report s"
proof -
  from assms obtain m where m: "machine_step dp ev (machine_start (da_pipe s)) = Some m" "s' = s\<lparr>da_pipe := mc_pipe m\<rparr>" "\<forall>po. ev \<noteq> Install po"
    by (auto split: event.splits)
  from machine_step_policy [OF m(1,3)] m(2) show "steady s s'" "da_db s' = da_db s" "da_report s' = da_report s"
    by (simp_all add: steady_def machine_start_def)
qed

lemma signal_wake_steady:
  assumes "signal_wake show_config w ts s = (sl, s')"
  shows "steady s s'" "row_hashes (da_db s') = row_hashes (da_db s)" "sl = SlBeating r \<Longrightarrow> r = da_report s \<and> s' = s"
proof -
  have "steady s s' \<and> row_hashes (da_db s') = row_hashes (da_db s) \<and> (sl = SlBeating r \<longrightarrow> r = da_report s \<and> s' = s)"
  proof (cases w)
    case WakeRetention
    then show ?thesis using assms by (auto simp: signal_wake_def)
  qed (use assms in \<open>auto simp: signal_wake_def steady_def report_hashes_def split: sum.splits if_splits\<close>)
  then show "steady s s'" "row_hashes (da_db s') = row_hashes (da_db s)" "sl = SlBeating r \<Longrightarrow> r = da_report s \<and> s' = s"
    by auto
qed

lemma whole_row_cong: "row_hashes d = row_hashes d' \<Longrightarrow> whole_row env d = whole_row env d'"
  by (simp add: whole_row_def)

lemma whole_row_heartbeat [simp]: "whole_row env (da_db (heartbeat_of ts r s)) \<longleftrightarrow> whole_report env r"
  by (simp add: whole_row_def whole_report_def report_hashes_def)

text \<open>The pieces of the signal loop and the queries leave the refresher's stage and what is reported
  alone; the row changes when a heartbeat is written, to the hashes of the copy.\<close>

definition is_beating :: "signal_stage \<Rightarrow> bool" where
  "is_beating sl \<longleftrightarrow> (\<exists>r. sl = SlBeating r)"

lemma is_beating_simps [simp]: "is_beating (SlBeating r)" "\<not> is_beating SlIdle" "\<not> is_beating (SlSampling r)" "\<not> is_beating SlRefused"
  "\<not> is_beating (SlRefusing r)"
  by (simp_all add: is_beating_def)

lemma other_step_cases:
  assumes "staged_step env dp show_config e x = Some x'" "\<not> is_Refresh e"
  obtains (quiet) s' sl where "x' = \<lparr>sg_daemon = s', sg_refresher = sg_refresher x, sg_signals = sl\<rparr>" "steady (sg_daemon x) s'"
      "row_hashes (da_db s') = row_hashes (da_db (sg_daemon x))" "sl = sg_signals x \<or> \<not> is_beating (sg_signals x) \<and> \<not> is_beating sl"
    | (copied) s' where "x' = \<lparr>sg_daemon = s', sg_refresher = sg_refresher x, sg_signals = SlBeating (da_report s')\<rparr>"
      "s' = sg_daemon x" "sg_signals x = SlIdle"
    | (beat) ts r where "e = GoOn ts" "sg_signals x = SlBeating r"
      "x' = \<lparr>sg_daemon = heartbeat_of ts r (sg_daemon x), sg_refresher = sg_refresher x, sg_signals = SlSampling r\<rparr>"
proof (cases e)
  case (Refresh http timer now ts elapsed_ms)
  with assms(2) show thesis by simp
next
  case (Wake w ts)
  obtain sl s' where w: "signal_wake show_config w ts (sg_daemon x) = (sl, s')" by fastforce
  with assms(1) Wake have x: "x' = \<lparr>sg_daemon = s', sg_refresher = sg_refresher x, sg_signals = sl\<rparr>" "sg_signals x = SlIdle"
    by (cases x; auto split: if_splits)+
  note st = signal_wake_steady [OF w]
  show thesis
  proof (cases "is_beating sl")
    case True
    then obtain r where r: "sl = SlBeating r" by (auto simp: is_beating_def)
    from st(3) [OF r] have "r = da_report s'" "s' = sg_daemon x" by auto
    from copied [OF _ this(2) x(2)] x(1) r this(1) show thesis by blast
  next
    case False
    then show thesis using quiet [OF x(1) st(1,2)] x(2) by simp
  qed
next
  case (GoOn ts)
  show thesis
  proof (cases "sg_signals x")
    case (SlBeating r)
    from assms(1) GoOn SlBeating
    have "x' = \<lparr>sg_daemon = heartbeat_of ts r (sg_daemon x), sg_refresher = sg_refresher x, sg_signals = SlSampling r\<rparr>"
      by (cases x) auto
    from beat [OF GoOn SlBeating this] show thesis .
  next
    case (SlSampling r)
    from assms(1) GoOn SlSampling
    have x: "x' = \<lparr>sg_daemon = stats_of env ts r (sg_daemon x), sg_refresher = sg_refresher x, sg_signals = SlIdle\<rparr>" by (cases x) auto
    show thesis by (rule quiet [OF x]) (simp_all add: SlSampling)
  next
    case SlRefused
    from assms(1) GoOn SlRefused
    have x: "x' = \<lparr>sg_daemon = sg_daemon x, sg_refresher = sg_refresher x, sg_signals = SlRefusing (da_report (sg_daemon x))\<rparr>" by (cases x) auto
    show thesis by (rule quiet [OF x]) (simp_all add: SlRefused)
  next
    case (SlRefusing r)
    from assms(1) GoOn SlRefusing
    have x: "x' = \<lparr>sg_daemon = write_report env ts r (sg_daemon x), sg_refresher = sg_refresher x, sg_signals = SlIdle\<rparr>" by (cases x) auto
    show thesis by (rule quiet [OF x]) (simp_all add: SlRefusing)
  qed (use assms(1) GoOn in simp)
next
  case (Query ev)
  from assms(1) Query obtain s' where s': "daemon_step env dp show_config (Traffic ev) (sg_daemon x) = Some s'" and
      x: "x' = \<lparr>sg_daemon = s', sg_refresher = sg_refresher x, sg_signals = sg_signals x\<rparr>"
    by (cases x) (auto simp del: daemon_step.simps)
  show thesis using traffic_steady [OF s'] by (intro quiet [OF x]) simp_all
qed

lemma refresher_holds_steady: "steady s s' \<Longrightarrow> refresher_holds env st (da_report s') = refresher_holds env st (da_report s)"
  by (rule refresher_holds_frame) (simp add: steady_def)

lemma signals_hold_quiet: "\<not> is_beating sl \<Longrightarrow> signals_hold env sl"
  by (cases sl) simp_all

lemma other_step_inv:
  assumes "staged_inv env x" "staged_step env dp show_config e x = Some x'" "\<not> is_Refresh e"
  shows "staged_inv env x'"
proof -
  from assms(1) have h: "refresher_holds env (sg_refresher x) (da_report (sg_daemon x))" "signals_hold env (sg_signals x)"
      "whole_row env (da_db (sg_daemon x))" "whole_report env (da_report (sg_daemon x))"
    by (simp_all add: staged_inv_def Let_def)
  show ?thesis using assms(2,3)
  proof (cases rule: other_step_cases)
    case (quiet s' sl)
    from quiet(4) h(2) have "signals_hold env sl" by (auto intro: signals_hold_quiet)
    with staged_inv_frame [OF assms(1) quiet(2), of "sg_refresher x" sl] h show ?thesis
      by (simp add: quiet(1) refresher_holds_steady [OF quiet(2)] whole_row_cong [OF quiet(3)])
  next
    case (copied s')
    with staged_inv_frame [OF assms(1), of s' "sg_refresher x" "SlBeating (da_report s')"] h show ?thesis by simp
  next
    case (beat ts r)
    with staged_inv_frame [OF assms(1), of "heartbeat_of ts r (sg_daemon x)" "sg_refresher x" "SlSampling r"] h show ?thesis by simp
  qed
qed

text \<open>A step of the refresher: the copy to beat is of the current report, and the row changes only
  when it is written.\<close>

lemma refresher_step_inv:
  assumes "staged_inv env x" "staged_step env dp show_config (Refresh http timer now ts elapsed_ms) x = Some x'"
  shows "staged_inv env x'"
proof -
  from assms(2) obtain st s' where st: "refresher_step env http timer now ts elapsed_ms (sg_refresher x) (sg_daemon x) = Some (st, s')"
    and x': "x' = \<lparr>sg_daemon = s', sg_refresher = st, sg_signals = sg_signals x\<rparr>" by (cases x) auto
  have inv: "signals_hold env (sg_signals x)" "whole_row env (da_db (sg_daemon x))" "whole_report env (da_report (sg_daemon x))"
      "policy_known env (sg_refresher x) (sg_daemon x)" "refresher_holds env (sg_refresher x) (da_report (sg_daemon x))"
    using assms(1) by (simp_all add: staged_inv_def Let_def)
  note frame = staged_inv_frame [OF assms(1), of s' st "sg_signals x"]
  show ?thesis
  proof (cases "sg_refresher x")
    case RfWaiting
    then have "steady (sg_daemon x) s'" "da_db s' = da_db (sg_daemon x)" "da_report s' = da_report (sg_daemon x)"
        "\<exists>trig c. st = RfLoading trig c"
      using st by (auto simp: steady_def split: if_splits list.splits)
    then show ?thesis unfolding x' using frame inv RfWaiting by (auto simp: policy_known_frame)
  next
    case (RfLoading trig config)
    with st obtain result fs where b: "build_policy env config (Some http) now (da_disk (sg_daemon x)) = Some (result, fs)"
        "st = RfLoaded trig config result" "s' = (sg_daemon x)\<lparr>da_disk := fs\<rparr>" by (auto split: bind_splits)
    have "refresher_holds env st (da_report s')"
    proof (cases result)
      case (Inr pl)
      obtain policy loaded where "pl = (policy, loaded)" by (cases pl)
      then show ?thesis using build_policy_in_force b(1,2) Inr by simp
    qed (simp add: b(2))
    then show ?thesis unfolding x' using frame inv RfLoading b(2,3) by (auto simp: steady_def)
  next
    case (RfLoaded trig config result)
    show ?thesis
    proof (cases result)
      case (Inl err)
      then show ?thesis unfolding x' using st frame inv RfLoaded by (auto simp: steady_def report_hashes_def)
    next
      case (Inr pl)
      obtain policy loaded where "pl = (policy, loaded)" by (cases pl)
      then have s': "st = RfInstalled trig config loaded" "s' = (sg_daemon x)\<lparr>da_pipe := install policy (da_pipe (sg_daemon x))\<rparr>"
          "in_force env config policy (ll_hash loaded)" using st RfLoaded Inr inv(5) by auto
      then show ?thesis unfolding x' using assms(1) by (simp add: staged_inv_def Let_def install_def)
    qed
  next
    case (RfInstalled trig config loaded)
    with st obtain hash where h: "config_hash (de_toml env) (de_sha256 env) config = Some hash" "st = RfReported (next_refresh loaded)"
        "s' = (sg_daemon x)\<lparr>da_current := config, da_report := (da_report (sg_daemon x))\<lparr>rr_lists_loaded_ts := ts, rr_lists_hash := ll_hash loaded,
           rr_lists := ll_reports loaded, rr_applied_config_hash := hash,
           rr_pending_restart := restart_only_changes (da_started_with (sg_daemon x)) config,
           rr_last_reload := Some (outcome_of trig ts elapsed_ms (Inr ()))\<rparr>\<rparr>" by (auto split: bind_splits)
    from inv(4) RfInstalled have f: "in_force env config (pl_policy (da_pipe (sg_daemon x))) (ll_hash loaded)" by simp
    with h(1) have "whole_load env hash (ll_hash loaded)" by (auto simp: whole_load_def)
    then show ?thesis unfolding x' using assms(1) f h by (simp add: staged_inv_def Let_def whole_report_def)
  next
    case (RfReported wait)
    then show ?thesis unfolding x' using st frame inv by (auto simp: steady_def report_hashes_def)
  next
    case RfScheduled
    then show ?thesis unfolding x' using st frame inv by auto
  next
    case (RfPublishing r)
    then have "st = RfPublished" "s' = write_report env ts r (sg_daemon x)" using st by auto
    then show ?thesis unfolding x' using frame inv RfPublishing
      by (simp add: policy_known_frame whole_row_cong [OF write_report_steady(2)])
  next
    case RfPublished
    then show ?thesis unfolding x' using st frame inv by auto
  next
    case (RfBeating r)
    then have "st = RfWaiting" "s' = heartbeat_of ts r (sg_daemon x)" using st by auto
    moreover have "whole_report env r" using RfBeating inv(3,5) by (simp add: whole_report_def report_hashes_def)
    ultimately show ?thesis unfolding x' using frame inv RfBeating by (simp add: policy_known_frame)
  qed
qed

lemma staged_step_inv:
  assumes "staged_inv env x" "staged_step env dp show_config e x = Some x'"
  shows "staged_inv env x'"
proof (cases "is_Refresh e")
  case True
  then obtain http timer now ts elapsed_ms where "e = Refresh http timer now ts elapsed_ms" by (cases e) auto
  with assms refresher_step_inv show ?thesis by blast
next
  case False
  from other_step_inv [OF assms this] show ?thesis .
qed

interpretation sg: event_system "staged_step env dp show_config" "\<lambda>_. True" "staged_inv env" for env dp show_config
  by unfold_locales (rule staged_step_inv)

lemma at_rest_inv:
  assumes "daemon_inv env s"
  shows "staged_inv env (at_rest s)"
proof -
  from assms have "whole_load env (rr_applied_config_hash (da_report s)) (rr_lists_hash (da_report s))"
    by (auto simp: daemon_inv_def whole_load_def)
  then show ?thesis using assms
    by (auto simp: daemon_inv_def staged_inv_def at_rest_def whole_report_def whole_row_def row_hashes_def
        heartbeat_current_def Let_def)
qed

section \<open>When the heartbeat row is that of the policy in force\<close>

text \<open>From the report of a load to the write of its heartbeat the row is behind.\<close>

fun reporting :: "('net, 'io, 'pe) refresher_stage \<Rightarrow> bool" where
  "reporting (RfReported wait) = True"
| "reporting RfScheduled = True"
| "reporting (RfPublishing r) = True"
| "reporting RfPublished = True"
| "reporting (RfBeating r) = True"
| "reporting _ = False"

definition caught_up :: "('n, 'net, 't, 'io, 'pe) staged \<Rightarrow> bool" where
  "caught_up x \<longleftrightarrow> reporting (sg_refresher x) \<or> row_hashes (da_db (sg_daemon x)) = Some (report_hashes (da_report (sg_daemon x)))"

definition fresh_inv :: "('net, 'io, 'pe) denv \<Rightarrow> ('n, 'net, 't, 'io, 'pe) staged \<Rightarrow> bool" where
  "fresh_inv env x \<longleftrightarrow> staged_inv env x
     \<and> (case sg_signals x of SlBeating r \<Rightarrow> report_hashes r = report_hashes (da_report (sg_daemon x)) | _ \<Rightarrow> True)"

lemma heartbeat_current_row: "heartbeat_current s \<longleftrightarrow> row_hashes (da_db s) = Some (report_hashes (da_report s))"
  by (auto simp: heartbeat_current_def row_hashes_def report_hashes_def)

lemma calm_is_staged: "calm_step env dp show_config e x = Some x' \<Longrightarrow> staged_step env dp show_config e x = Some x'"
  by (auto simp: calm_step_def split: staged_event.splits if_splits)

lemma fresh_quiet: "staged_inv env x \<Longrightarrow> \<not> is_beating (sg_signals x) \<Longrightarrow> fresh_inv env x"
  by (auto simp: fresh_inv_def split: signal_stage.split)

text \<open>What one calm step of the refresher does to the hashes.\<close>

lemma calm_refresh:
  assumes "fresh_inv env x" "calm_step env dp show_config (Refresh http timer now ts elapsed_ms) x = Some x'"
  shows "fresh_inv env x'" "caught_up x \<Longrightarrow> caught_up x'" "sg_signals x' = sg_signals x"
proof -
  from calm_is_staged [OF assms(2)] obtain st s' where
    st: "refresher_step env http timer now ts elapsed_ms (sg_refresher x) (sg_daemon x) = Some (st, s')"
    and x': "x' = \<lparr>sg_daemon = s', sg_refresher = st, sg_signals = sg_signals x\<rparr>" by (cases x) auto
  show sl: "sg_signals x' = sg_signals x" by (simp add: x')
  from assms(1) have si: "staged_inv env x" by (simp add: fresh_inv_def)
  from staged_step_inv [OF si calm_is_staged [OF assms(2)]] have si': "staged_inv env x'" .
  have no: "\<not> overlaps x" using assms(2) by (auto simp: calm_step_def split: if_splits)
  have beating: "refresher_holds env (sg_refresher x) (da_report (sg_daemon x))" using si by (simp add: staged_inv_def Let_def)
  have hashes: "report_hashes (da_report s') = report_hashes (da_report (sg_daemon x)) \<or> (\<exists>trig c l. sg_refresher x = RfInstalled trig c l)"
    using st by (cases "sg_refresher x") (auto simp: report_hashes_def split: if_splits list.splits sum.splits bind_splits)
  show "fresh_inv env x'"
    using assms(1) si' sl no hashes by (cases "sg_signals x") (auto simp: fresh_inv_def overlaps_def x')
  show "caught_up x'" if "caught_up x"
    using that st beating
    by (cases "sg_refresher x") (auto simp: caught_up_def x' report_hashes_def split: if_splits list.splits sum.splits bind_splits)
qed

lemma calm_other:
  assumes "fresh_inv env x" "calm_step env dp show_config e x = Some x'" "\<not> is_Refresh e"
  shows "fresh_inv env x'" "caught_up x \<Longrightarrow> caught_up x'" "is_beating (sg_signals x) \<Longrightarrow> is_beating (sg_signals x') \<or> caught_up x'"
    "is_beating (sg_signals x) \<Longrightarrow> e = GoOn ts \<Longrightarrow> caught_up x'"
proof -
  from assms(1) have si: "staged_inv env x" by (simp add: fresh_inv_def)
  note step = calm_is_staged [OF assms(2)]
  from staged_step_inv [OF si step] have si': "staged_inv env x'" .
  have all: "fresh_inv env x' \<and> (caught_up x \<longrightarrow> caught_up x') \<and> (is_beating (sg_signals x) \<longrightarrow> is_beating (sg_signals x') \<or> caught_up x')
      \<and> (is_beating (sg_signals x) \<and> e = GoOn ts \<longrightarrow> caught_up x')"
    using step assms(3)
  proof (cases rule: other_step_cases)
    case (quiet s' sl)
    have go: "e = GoOn ts \<Longrightarrow> is_beating (sg_signals x) \<Longrightarrow> sl \<noteq> sg_signals x"
      using step quiet(1) by (cases x) (auto simp: is_beating_def)
    show ?thesis using quiet go si' assms(1)
      by (cases "sg_signals x") (auto simp: fresh_inv_def caught_up_def steady_def split: signal_stage.split)
  next
    case (copied s')
    then show ?thesis using si' by (auto simp: fresh_inv_def caught_up_def)
  next
    case (beat ts' r)
    then show ?thesis using si' assms(1) by (auto simp: fresh_inv_def caught_up_def)
  qed
  then show "fresh_inv env x'" "caught_up x \<Longrightarrow> caught_up x'" "is_beating (sg_signals x) \<Longrightarrow> is_beating (sg_signals x') \<or> caught_up x'"
    "is_beating (sg_signals x) \<Longrightarrow> e = GoOn ts \<Longrightarrow> caught_up x'" by auto
qed

lemma calm_step_inv:
  assumes "fresh_inv env x" "calm_step env dp show_config e x = Some x'"
  shows "fresh_inv env x'" "caught_up x \<Longrightarrow> caught_up x'"
    "is_beating (sg_signals x) \<or> caught_up x \<Longrightarrow> is_beating (sg_signals x') \<or> caught_up x'"
proof -
  have "fresh_inv env x' \<and> (caught_up x \<longrightarrow> caught_up x')
      \<and> (is_beating (sg_signals x) \<or> caught_up x \<longrightarrow> is_beating (sg_signals x') \<or> caught_up x')"
  proof (cases "is_Refresh e")
    case True
    then obtain http timer now ts elapsed_ms where e: "e = Refresh http timer now ts elapsed_ms" by (cases e) auto
    from calm_refresh [OF assms(1) assms(2) [unfolded e]] show ?thesis by auto
  next
    case False
    from calm_other [OF assms False] show ?thesis by blast
  qed
  then show "fresh_inv env x'" "caught_up x \<Longrightarrow> caught_up x'"
    "is_beating (sg_signals x) \<or> caught_up x \<Longrightarrow> is_beating (sg_signals x') \<or> caught_up x'" by auto
qed

interpretation calm: event_system "calm_step env dp show_config" "\<lambda>_. True" "\<lambda>x. fresh_inv env x \<and> caught_up x"
  for env dp show_config
  by unfold_locales (use calm_step_inv in blast)

interpretation beat: event_system "calm_step env dp show_config" "\<lambda>_. True"
  "\<lambda>x. fresh_inv env x \<and> (is_beating (sg_signals x) \<or> caught_up x)" for env dp show_config
  by unfold_locales (use calm_step_inv in blast)

lemma all_ok [simp]: "list_all (\<lambda>_. True) es"
  by (simp add: list_all_iff)

lemma beat_catches_up:
  assumes "staged_inv env x" "run (calm_step env dp show_config) (Wake WakeHeartbeat ts0 # es1 @ GoOn ts1 # es2) x = Some y"
  shows "caught_up y"
proof -
  from assms(2) obtain x1 x2 x3 where r: "calm_step env dp show_config (Wake WakeHeartbeat ts0) x = Some x1"
      "run (calm_step env dp show_config) es1 x1 = Some x2" "calm_step env dp show_config (GoOn ts1) x2 = Some x3"
      "run (calm_step env dp show_config) es2 x3 = Some y"
    by (auto simp: run_append split: bind_splits)
  from calm_is_staged [OF r(1)] have q: "\<not> is_beating (sg_signals x)" by (auto split: if_splits)
  from calm_is_staged [OF r(1)] have "is_beating (sg_signals x1)" by (auto simp: signal_wake_def split: if_splits)
  with calm_step_inv(1) [OF fresh_quiet [OF assms(1) q] r(1)]
  have "fresh_inv env x2 \<and> (is_beating (sg_signals x2) \<or> caught_up x2)" using beat.run_inv [OF _ all_ok r(2)] by blast
  then have "fresh_inv env x3 \<and> caught_up x3"
    using calm_step_inv [OF _ r(3)] calm_other(4) [OF _ r(3), where ts = ts1] by auto
  then show ?thesis using calm.run_inv [OF _ all_ok r(4)] by blast
qed

section \<open>Properties\<close>

lemma start_staged_inv:
  assumes "daemon_start env load_config open_db roots make_pool make_client shadow_addr pid now ts elapsed_ms fs = Some (Inr s0)"
    and "run (staged_step env dp show_config) es (at_rest s0) = Some x"
  shows "staged_inv env x"
  using sg.run_inv [OF at_rest_inv [OF daemon_start_inv [OF assms(1)]] all_ok assms(2)] .




text \<open>C14: the overlap that \<open>heartbeat_heals\<close> excludes loses the refresher's own heartbeat: when the signal
  loop took its copy of the report before a load was reported and writes it after the refresher is
  back at rest, the row has the hashes of the copy and the report those of the load; so the row is
  current only if the load changed neither hash.\<close>
theorem overlap_leaves_row_behind:
  assumes "sg_refresher x = RfInstalled trig config loaded" "sg_signals x = SlBeating r"
    and "config_hash (de_toml env) (de_sha256 env) config = Some hash"
    and "list_all is_Refresh es" "length es = 6"
  shows "\<exists>y. run (staged_step env dp show_config) (es @ [GoOn ts]) x = Some y
    \<and> sg_refresher y = RfWaiting \<and> sg_signals y = SlSampling r
    \<and> (heartbeat_current (sg_daemon y) \<longleftrightarrow> rr_applied_config_hash r = hash \<and> rr_lists_hash r = ll_hash loaded)"
proof -
  from assms(4,5) obtain e1 e2 e3 e4 e5 e6 where es: "es = [e1, e2, e3, e4, e5, e6]"
      "is_Refresh e1" "is_Refresh e2" "is_Refresh e3" "is_Refresh e4" "is_Refresh e5" "is_Refresh e6"
    by (auto simp: length_Suc_conv numeral_eq_Suc)
  then show ?thesis using assms(1-3)
    unfolding is_Refresh_def by (elim exE) (simp add: heartbeat_current_row, simp add: report_hashes_def)
qed

section \<open>Witnesses\<close>

text \<open>A daemon whose configuration hash tells its two allowlists apart, a reload, and a heartbeat that
  takes its copy while the new policy is installed and not yet reported.\<close>

definition ex_renv :: "(nat, unit, unit) denv" where
  "ex_renv = ex_env\<lparr>de_toml := (\<lambda>c. Some (if allow (cfg_server c) = [1] then [] else ''x'')),
     de_sha256 := (\<lambda>b. if b = ''x'' then [1] else [])\<rparr>"

definition ex_reload :: "nat config" where
  "ex_reload = ex_config\<lparr>cfg_server := \<lparr>bind_addrs = [], allow = [2]\<rparr>\<rparr>"

definition ex_start :: "(unit, unit) config_error + nat config \<Rightarrow> ((unit, unit) core_error + (string, nat, nat) daemon) option" where
  "ex_start config = daemon_start ex_renv config (\<lambda>_. Inr (empty_database, \<lparr>dw_queue = [], dw_capacity = 4, dw_drops = 0\<rparr>))
     (\<lambda>_. Inr ([] :: nat list)) (\<lambda>_ _. Inr ex_pool) (\<lambda>_. Inr ex_http) None 1 9 100 5 ex_disk"

definition ex_piece :: "(string, nat, unit, unit) staged_event" where
  "ex_piece = Refresh ex_http False 9 102 5"

definition ex_overlap :: "(string, nat, unit, unit) staged_event list" where
  "ex_overlap = [Wake (WakeHup (Inr ex_reload)) 101, ex_piece, ex_piece, ex_piece, Wake WakeHeartbeat 160]"

lemma ex_rhash: "config_hash (de_toml ex_renv) (de_sha256 ex_renv) ex_config = Some []"
    "config_hash (de_toml ex_renv) (de_sha256 ex_renv) ex_reload = Some ''01''"
proof -
  have "hex_encode [1] = ''01''" by code_simp
  then show "config_hash (de_toml ex_renv) (de_sha256 ex_renv) ex_config = Some []"
    "config_hash (de_toml ex_renv) (de_sha256 ex_renv) ex_reload = Some ''01''"
    by (simp_all add: config_hash_def ex_renv_def ex_config_def ex_reload_def hex_encode_def)
qed

lemma ex_start_ok:
  obtains s0 where "ex_start (Inr ex_config) = Some (Inr s0)" "da_reloads s0 = []" "da_disk s0 = ex_disk"
    "rr_applied_config_hash (da_report s0) = []"
proof -
  have e: "de_srt ex_renv = (\<lambda>f xs. sort_key f xs)" "de_io ex_renv = ex_io" "de_utf8_lossy ex_renv = (\<lambda>b. b)"
    by (simp_all add: ex_renv_def ex_env_def)
  obtain policy loaded where b: "build_policy ex_renv ex_config None 9 ex_disk = Some (Inr (policy, loaded), ex_disk)"
    using ex_build_with [OF ex_disk_ok e, of "cfg_server ex_config" None] by auto
  then have st: "startup_policy ex_renv ex_http ex_config 9 ex_disk = Some (Inr (policy, loaded, 0), ex_disk)"
    by (simp add: startup_policy_def)
  obtain c where c: "with_limits (max_entries (cfg_cache ex_config)) DEFAULT_MAX_BYTES (serve_stale_secs (cfg_cache ex_config)) = Some (c :: (string cache_key, string) inner)"
    by (simp add: with_limits_def ex_config_def cache_config_default_def default_max_entries_def DEFAULT_MAX_BYTES_def)
  obtain s where s: "ex_start (Inr ex_config) = Some (Inr (publish_stats ex_renv 100 (daemon_heartbeat 100 s)))"
      "da_reloads s = []" "da_disk s = ex_disk" "rr_applied_config_hash (da_report s) = []"
    by (simp add: ex_start_def daemon_start_def st ex_rhash c)
  obtain n d where "publish_stats ex_renv 100 (daemon_heartbeat 100 s) = (daemon_heartbeat 100 s)\<lparr>da_dropped_at_last_sample := n, da_db := d\<rparr>"
    using publish_stats_frame [of ex_renv 100 "daemon_heartbeat 100 s"] by blast
  with that [OF s(1)] s(2-) show thesis by (simp add: daemon_heartbeat_def heartbeat_of_def)
qed

lemma ex_overlap_ok:
  obtains s0 x r loaded where "ex_start (Inr ex_config) = Some (Inr s0)"
    "run (staged_step ex_renv ex_deps (\<lambda>_. [])) ex_overlap (at_rest s0) = Some x"
    "sg_refresher x = RfInstalled Signal ex_reload loaded" "sg_signals x = SlBeating r" "rr_applied_config_hash r = []"
proof -
  obtain s0 where s0: "ex_start (Inr ex_config) = Some (Inr s0)" "da_reloads s0 = []" "da_disk s0 = ex_disk"
      "rr_applied_config_hash (da_report s0) = []" by (rule ex_start_ok)
  have e: "de_srt ex_renv = (\<lambda>f xs. sort_key f xs)" "de_io ex_renv = ex_io" "de_utf8_lossy ex_renv = (\<lambda>b. b)"
    by (simp_all add: ex_renv_def ex_env_def)
  obtain policy loaded fs where b: "build_policy ex_renv ex_reload (Some ex_http) 9 ex_disk = Some (Inr (policy, loaded), fs)"
    using ex_build_with [OF ex_disk_ok e, of "cfg_server ex_reload" "Some ex_http"] by (auto simp: ex_reload_def)
  let ?s = "s0\<lparr>da_reloads := [], da_disk := fs, da_pipe := install policy (da_pipe s0)\<rparr>"
  have "run (staged_step ex_renv ex_deps (\<lambda>_. [])) ex_overlap (at_rest s0)
      = Some \<lparr>sg_daemon = ?s, sg_refresher = RfInstalled Signal ex_reload loaded, sg_signals = SlBeating (da_report s0)\<rparr>"
    by (simp add: ex_overlap_def ex_piece_def at_rest_def signal_wake_def s0(2,3) b)
  from that [OF s0(1) this _ _ s0(4)] show thesis by simp
qed



theorem overlap_leaves_row_behind_witness:
  "\<exists>s0 y. ex_start (Inr ex_config) = Some (Inr s0)
     \<and> run (staged_step ex_renv ex_deps (\<lambda>_. [])) (ex_overlap @ replicate 6 ex_piece @ [GoOn 161]) (at_rest s0) = Some y
     \<and> sg_refresher y = RfWaiting \<and> \<not> heartbeat_current (sg_daemon y)"
proof -
  obtain s0 x r loaded where x: "ex_start (Inr ex_config) = Some (Inr s0)"
    "run (staged_step ex_renv ex_deps (\<lambda>_. [])) ex_overlap (at_rest s0) = Some x"
    "sg_refresher x = RfInstalled Signal ex_reload loaded" "sg_signals x = SlBeating r" "rr_applied_config_hash r = []"
    by (rule ex_overlap_ok)
  have six: "list_all is_Refresh (replicate 6 ex_piece)" "length (replicate 6 ex_piece) = 6" by (simp_all add: ex_piece_def list_all_iff)
  from overlap_leaves_row_behind [OF x(3,4) ex_rhash(2) six, of ex_deps "\<lambda>_. []" 161] x(2,5)
  have "\<exists>y. run (staged_step ex_renv ex_deps (\<lambda>_. [])) (ex_overlap @ replicate 6 ex_piece @ [GoOn 161]) (at_rest s0) = Some y
     \<and> sg_refresher y = RfWaiting \<and> \<not> heartbeat_current (sg_daemon y)"
    unfolding run_append by auto
  with x(1) show ?thesis by blast
qed


end
