(* ===== verification/Shutdown.thy ===== *)
theory Shutdown
  imports Daemon Db_Correct Server_Correct
begin

text \<open>
  The end of \<open>run\<close> in \<open>crates/core/src/daemon.rs\<close>: requests in flight are given \<open>DRAIN\<close> to finish,
  then \<open>Db::flush\<close> waits until the writer has caught up with the log.  Requests, the writer thread
  and the comparisons of shadow mode go on meanwhile, in any interleaving.
\<close>

section \<open>Model\<close>

text \<open>Milliseconds.\<close>

definition DRAIN :: nat where "DRAIN = 2000"

definition in_flight :: "('n, 'net) pipeline \<Rightarrow> nat" where
  "in_flight p = pl_in_flight p"

text \<open>Where the shutting-down task is: in the drain loop, waiting for room in the log queue to send its
  flush, waiting for the acknowledgement, or done.\<close>

datatype phase = Draining | Sending | Awaiting | Exited

text \<open>The pipeline with its log queue, the database file, the clock since the drain began, and three
  histories: the messages the writer has taken, the events of failed batches, and the pipeline and
  the events logged when the drain ended.\<close>

record ('n, 'net) shutdown =
  sd_machine :: "('n, 'net) machine"
  sd_db :: database
  sd_clock :: nat
  sd_phase :: phase
  sd_taken :: "msg list"
  sd_lost :: "log_event_t list"
  sd_drained :: "(('n, 'net) machine \<times> log_event_t list) option"

definition log_queue :: "('n, 'net) shutdown \<Rightarrow> msg list" where
  "log_queue s = dw_queue (pl_writer (mc_pipe (sd_machine s)))"

definition set_writer :: "db_writer \<Rightarrow> ('n, 'net) shutdown \<Rightarrow> ('n, 'net) shutdown" where
  "set_writer w s = s\<lparr>sd_machine := (sd_machine s)\<lparr>mc_pipe := (mc_pipe (sd_machine s))\<lparr>pl_writer := w\<rparr>\<rparr>\<rparr>"

text \<open>The start of \<open>flush\<close>: \<open>try_send\<close>, or a blocking send when the queue is full.\<close>

definition flush :: "('n, 'net) shutdown \<Rightarrow> ('n, 'net) shutdown" where
  "flush s =
     (let s1 = s\<lparr>sd_drained := Some (sd_machine s, events_of (sd_taken s @ log_queue s))\<rparr> in
      case try_send (Flush 0) (pl_writer (mc_pipe (sd_machine s1))) of
        (True, w) \<Rightarrow> (set_writer w s1)\<lparr>sd_phase := Awaiting\<rparr>
      | (False, _) \<Rightarrow> s1\<lparr>sd_phase := Sending\<rparr>)"

text \<open>The head of the drain loop, and its sleep, which takes \<open>extra\<close> longer than asked.\<close>

definition drain_poll :: "nat \<Rightarrow> ('n, 'net) shutdown \<Rightarrow> ('n, 'net) shutdown" where
  "drain_poll extra s =
     (if in_flight (mc_pipe (sd_machine s)) > 0 \<and> sd_clock s < DRAIN then s\<lparr>sd_clock := sd_clock s + 20 + extra\<rparr>
      else flush s)"

text \<open>One turn of the writer: at most \<open>n\<close> of the messages it finds.  The first slot it frees goes to a
  sender that waits; the flush is over when its channel was acknowledged or dropped with its batch.\<close>

definition write_batch :: "nat \<Rightarrow> (nat \<Rightarrow> sql_error option) \<Rightarrow> ('n, 'net) shutdown \<Rightarrow> ('n, 'net) shutdown" where
  "write_batch n io s =
     (let w = pl_writer (mc_pipe (sd_machine s));
          batch = take (max 1 (min n BATCH_SIZE)) (dw_queue w);
          rest = drop (max 1 (min n BATCH_SIZE)) (dw_queue w) in
      if batch = [] then s
      else
        (case process_batch io batch (sd_db s) of ((err, acks), d) \<Rightarrow>
          (set_writer (w\<lparr>dw_queue := rest @ (if sd_phase s = Sending then [Flush 0] else [])\<rparr>) s)
            \<lparr>sd_db := d, sd_taken := sd_taken s @ batch,
              sd_lost := sd_lost s @ (if err = None then [] else events_of batch),
              sd_phase := (if sd_phase s = Sending then Awaiting
                 else if sd_phase s = Awaiting \<and> Flush 0 \<in> set batch then Exited else sd_phase s)\<rparr>))"

datatype ('n, 'net) shutdown_event = Poll nat | Write nat "nat \<Rightarrow> sql_error option" | Meanwhile "('n, 'net) event"

fun shutdown_step :: "('n, 'net) deps \<Rightarrow> ('n, 'net) shutdown_event \<Rightarrow> ('n, 'net) shutdown \<Rightarrow> ('n, 'net) shutdown option" where
  "shutdown_step dp (Poll extra) s = Some (if sd_phase s = Draining then drain_poll extra s else s)"
| "shutdown_step dp (Write n io) s = Some (write_batch n io s)"
| "shutdown_step dp (Meanwhile ev) s = map_option (\<lambda>m. s\<lparr>sd_machine := m\<rparr>) (machine_step dp ev (sd_machine s))"

definition shutdown_start :: "('n, 'net) machine \<Rightarrow> database \<Rightarrow> ('n, 'net) shutdown" where
  "shutdown_start m d = \<lparr>sd_machine = m, sd_db = d, sd_clock = 0, sd_phase = Draining, sd_taken = [], sd_lost = [], sd_drained = None\<rparr>"

section \<open>The pipeline only adds events to the queue\<close>

definition log_grows :: "db_writer \<Rightarrow> db_writer \<Rightarrow> bool" where
  "log_grows w w' \<longleftrightarrow> dw_capacity w' = dw_capacity w \<and> (\<exists>es. dw_queue w' = dw_queue w @ map Event es)"

lemma log_grows_refl [simp]: "log_grows w w"
  by (simp add: log_grows_def)

lemma log_event_grows [simp]: "log_grows w (snd (log_event e w))"
  by (auto simp: log_grows_def log_event_def try_send_def intro: exI [of _ "[e]"])

named_theorems writer_frame

lemma answered_grows [writer_frame]: "answered lg resp e p = (r, p') \<Longrightarrow> log_grows (pl_writer p) (pl_writer p')"
  by (auto simp: answered_def finish_def)

lemma answered_grows' [writer_frame]:
  "map_prod Answer id (answered lg resp e p) = (out, p') \<Longrightarrow> log_grows (pl_writer p) (pl_writer p')"
  by (auto simp: map_prod_def split: prod.splits dest: answered_grows)

lemma shadow_tap_writer [simp]: "pl_writer (shadow_tap a b c d e p) = pl_writer p"
  by (simp add: shadow_tap_def split: option.split)

lemma block_answer_grows [writer_frame]:
  "block_answer dp rq lg a b e p = Some (r, p') \<Longrightarrow> log_grows (pl_writer p) (pl_writer p')"
  by (auto simp: block_answer_def split: bind_splits prod.splits dest: writer_frame)

lemma complete_grows [writer_frame]: "complete dp t resp src e p = Some (r, p') \<Longrightarrow> log_grows (pl_writer p) (pl_writer p')"
  by (auto simp: complete_def complete_direct_def complete_target_def Let_def
      split: continuation.splits bind_splits option.splits prod.splits if_splits dest: writer_frame)

lemma settle_writer [writer_frame]: "settle dp key a now p = Some p' \<Longrightarrow> pl_writer p' = pl_writer p"
  by (auto simp: settle_def split: if_splits bind_splits)

lemma spawn_refresh_writer [simp]: "pl_writer (spawn_refresh rq key p) = pl_writer p"
  by (simp add: spawn_refresh_def split: option.split)

lemma resolve_shared_writer [simp]: "pl_writer (resolve_shared rq q key now p) = pl_writer p"
  by (simp add: resolve_shared_def split: option.split)

lemma resolve_cached_writer [writer_frame]:
  "resolve_cached dp rq q ty now p = Some (res, p') \<Longrightarrow> pl_writer p' = pl_writer p"
  by (auto simp: resolve_cached_def Let_def split: option.splits bind_splits lookup.splits if_splits)

lemma continue_with_grows [writer_frame]:
  "continue_with dp qid t res e p = Some (out, p') \<Longrightarrow> log_grows (pl_writer p) (pl_writer p')"
  by (auto simp: continue_with_def split: resolution.splits dest: writer_frame)

lemma answer_safesearch_grows [writer_frame]:
  "answer_safesearch dp qid t target now e p = Some (out, p') \<Longrightarrow> log_grows (pl_writer p) (pl_writer p')"
  by (auto simp: answer_safesearch_def Let_def map_prod_def split: option.splits bind_splits prod.splits dest!: writer_frame)

lemma handle_at_grows [writer_frame]:
  assumes "handle_at dp qid rq client now ts e p = Some (out, p')"
  shows "log_grows (pl_writer p) (pl_writer p')"
  using assms unfolding handle_at_def Let_def shed_overload_def
  by (auto split: if_splits list.splits bind_splits verdict_t.splits option.splits prod.splits dest!: writer_frame)

lemma file_result_writer: "file_result dp key now r p = Some p' \<Longrightarrow> pl_writer p' = pl_writer p"
  by (auto simp: file_result_def split: upstream_result.splits dest: writer_frame)

lemma finish_compare_grows: "finish_compare f i reply ts sh w = Some (sh', w') \<Longrightarrow> log_grows w w'"
  by (auto simp: finish_compare_def Let_def split: if_splits sum.splits option.splits)

lemma machine_step_grows:
  assumes "machine_step dp ev s = Some s'"
  shows "log_grows (pl_writer (mc_pipe s)) (pl_writer (mc_pipe s'))"
proof (cases ev)
  case (Arrive qid request client now ts elapsed)
  then show ?thesis using assms
    by (auto simp: note_answer_def split: if_splits bind_splits outcome.splits dest: writer_frame)
next
  case (Publish key result)
  then show ?thesis using assms by (auto simp: publish_alt split: bind_splits option.splits dest: file_result_writer)
next
  case (Resume qid elapsed)
  then show ?thesis using assms
    by (auto simp: note_answer_def resume_def Let_def split: bind_splits outcome.splits option.splits wait_state.splits prod.splits
        dest!: writer_frame)
next
  case (EndRefresh key result)
  then show ?thesis using assms by (auto simp: end_refresh_alt split: bind_splits option.splits dest: file_result_writer)
next
  case (Compare i reply ts)
  then show ?thesis using assms by (auto simp: end_compare_def split: option.splits prod.splits dest: finish_compare_grows)
qed (use assms in \<open>auto simp: cancel_def begin_refresh_def install_def split: option.splits if_splits\<close>)


section \<open>Invariant\<close>

text \<open>The refresher is gone, so no policy is installed.\<close>

definition shutdown_ok :: "('n, 'net) shutdown_event \<Rightarrow> bool" where
  "shutdown_ok e \<longleftrightarrow> (case e of Meanwhile ev \<Rightarrow> event_ok ev \<and> (\<forall>po. ev \<noteq> Install po) | _ \<Rightarrow> True)"

definition drain_over :: "('n, 'net) machine \<Rightarrow> nat \<Rightarrow> bool" where
  "drain_over m clock \<longleftrightarrow> machine_inv m \<and> (in_flight (mc_pipe m) = 0 \<or> DRAIN \<le> clock)"

text \<open>Everything the writer has been given, in order.\<close>

definition given :: "('n, 'net) shutdown \<Rightarrow> msg list" where
  "given s = sd_taken s @ log_queue s"

definition phase_inv :: "('n, 'net) shutdown \<Rightarrow> bool" where
  "phase_inv s \<longleftrightarrow>
     (case sd_phase s of
        Draining \<Rightarrow> sd_drained s = None \<and> (\<exists>es. given s = map Event es)
      | Sending \<Rightarrow> \<exists>m es r. sd_drained s = Some (m, es) \<and> drain_over m (sd_clock s) \<and> given s = map Event (es @ r) \<and> log_queue s \<noteq> []
      | Awaiting \<Rightarrow> \<exists>m es r r2. sd_drained s = Some (m, es) \<and> drain_over m (sd_clock s)
          \<and> given s = map Event (es @ r) @ Flush 0 # map Event r2 \<and> length (sd_taken s) \<le> length (es @ r)
      | Exited \<Rightarrow> \<exists>m es r r2. sd_drained s = Some (m, es) \<and> drain_over m (sd_clock s)
          \<and> given s = map Event (es @ r) @ Flush 0 # map Event r2 \<and> length (es @ r) < length (sd_taken s))"

definition capacity :: "('n, 'net) shutdown \<Rightarrow> nat" where
  "capacity s = dw_capacity (pl_writer (mc_pipe (sd_machine s)))"

definition store_kept :: "database \<Rightarrow> ('n, 'net) shutdown \<Rightarrow> bool" where
  "store_kept d0 s \<longleftrightarrow> schema_ok (sd_db s)
     \<and> (\<exists>written. sd_db s = add_rows written d0 \<and> events_of (sd_taken s) \<in> shuffles written (sd_lost s))"

definition shutdown_inv :: "database \<Rightarrow> nat \<Rightarrow> ('n, 'net) shutdown \<Rightarrow> bool" where
  "shutdown_inv d0 c s \<longleftrightarrow> machine_inv (sd_machine s) \<and> 0 < c \<and> capacity s = c \<and> store_kept d0 s \<and> phase_inv s"

lemma events_of_Event [simp]: "events_of (map Event es) = es"
  by (induction es) auto

lemma phase_awaiting:
  "sd_phase s = Awaiting \<Longrightarrow> sd_drained s = Some (m, es) \<Longrightarrow> drain_over m (sd_clock s)
     \<Longrightarrow> given s = map Event (es @ r) @ Flush 0 # map Event r2 \<Longrightarrow> length (sd_taken s) \<le> length (es @ r) \<Longrightarrow> phase_inv s"
  unfolding phase_inv_def by (simp, intro exI conjI) (rule refl)+

lemma machine_inv_writer:
  "machine_inv m \<Longrightarrow> writer_ok w \<Longrightarrow> machine_inv (m\<lparr>mc_pipe := (mc_pipe m)\<lparr>pl_writer := w\<rparr>\<rparr>)"
  by (simp add: machine_inv_def inv_defs fates_def)

lemma machine_inv_writer_ok: "machine_inv m \<Longrightarrow> writer_ok (pl_writer (mc_pipe m))"
  by (simp add: machine_inv_def inv_defs)

lemma queue_bound: "shutdown_inv d0 c s \<Longrightarrow> length (log_queue s) \<le> c \<and> capacity s = c \<and> phase_inv s"
  using machine_inv_writer_ok [of "sd_machine s"] by (auto simp: shutdown_inv_def writer_ok_def capacity_def log_queue_def)

lemma flush_inv:
  assumes "shutdown_inv d0 c s" "sd_phase s = Draining" "drain_over (sd_machine s) (sd_clock s)"
  shows "shutdown_inv d0 c (flush s)"
proof -
  let ?w = "pl_writer (mc_pipe (sd_machine s))"
  from assms(1) have i: "machine_inv (sd_machine s)" "0 < c" "dw_capacity ?w = c" "store_kept d0 s" "phase_inv s"
    by (simp_all add: shutdown_inv_def capacity_def)
  then obtain es where es: "given s = map Event es" using assms(2) by (auto simp: phase_inv_def)
  then have e: "events_of (sd_taken s) @ events_of (log_queue s) = es" by (metis events_of_Event events_of_append given_def)
  show ?thesis
  proof (cases "length (dw_queue ?w) < dw_capacity ?w")
    case True
    then have f: "flush s = (set_writer (?w\<lparr>dw_queue := dw_queue ?w @ [Flush 0]\<rparr>) (s\<lparr>sd_drained := Some (sd_machine s, es)\<rparr>))\<lparr>sd_phase := Awaiting\<rparr>"
      by (simp add: flush_def try_send_def Let_def e)
    have "given (flush s) = map Event (es @ []) @ Flush 0 # map Event []"
      using es by (simp add: f given_def log_queue_def set_writer_def)
    moreover have "length (sd_taken (flush s)) \<le> length (es @ [])"
      using arg_cong [OF es, of length] by (simp add: given_def f set_writer_def)
    ultimately have "phase_inv (flush s)" using assms(3)
      by (intro phase_awaiting [of _ "sd_machine s" es "[]" "[]"]) (simp_all add: f set_writer_def)
    moreover have "writer_ok (?w\<lparr>dw_queue := dw_queue ?w @ [Flush 0]\<rparr>)" using True by (simp add: writer_ok_def)
    ultimately show ?thesis using i machine_inv_writer
      by (simp add: shutdown_inv_def capacity_def store_kept_def f set_writer_def)
  next
    case False
    then have "flush s = s\<lparr>sd_drained := Some (sd_machine s, es), sd_phase := Sending\<rparr>"
      by (simp add: flush_def try_send_def Let_def e)
    moreover have "dw_queue ?w \<noteq> []" using False i(2,3) by auto
    ultimately show ?thesis using i es assms(3)
      by (auto simp: shutdown_inv_def capacity_def store_kept_def phase_inv_def given_def log_queue_def)
  qed
qed

lemma drain_poll_inv:
  assumes "shutdown_inv d0 c s" "sd_phase s = Draining"
  shows "shutdown_inv d0 c (drain_poll extra s)"
proof (cases "in_flight (mc_pipe (sd_machine s)) > 0 \<and> sd_clock s < DRAIN")
  case True
  then show ?thesis using assms
    by (auto simp: drain_poll_def shutdown_inv_def capacity_def store_kept_def phase_inv_def given_def log_queue_def)
next
  case False
  then have "drain_over (sd_machine s) (sd_clock s)" using assms(1) by (auto simp: drain_over_def shutdown_inv_def)
  then show ?thesis unfolding drain_poll_def if_not_P [OF False] by (rule flush_inv [OF assms])
qed

text \<open>What a turn of the writer does to the queue and the phase.\<close>

lemma write_batch_cases:
  assumes "shutdown_inv d0 c s" "log_queue s \<noteq> []"
  obtains k where "0 < k" "k \<le> length (log_queue s)"
    "sd_taken (write_batch n io s) = sd_taken s @ take k (log_queue s)"
    "log_queue (write_batch n io s) = drop k (log_queue s) @ (if sd_phase s = Sending then [Flush 0] else [])"
    "sd_phase (write_batch n io s) = (if sd_phase s = Sending then Awaiting
       else if sd_phase s = Awaiting \<and> Flush 0 \<in> set (take k (log_queue s)) then Exited else sd_phase s)"
    "sd_drained (write_batch n io s) = sd_drained s" "sd_clock (write_batch n io s) = sd_clock s"
    "machine_inv (sd_machine (write_batch n io s))" "capacity (write_batch n io s) = c" "store_kept d0 (write_batch n io s)"
proof -
  let ?q = "log_queue s" let ?w = "pl_writer (mc_pipe (sd_machine s))"
  define k where "k = min (length ?q) (max 1 (min n BATCH_SIZE))"
  have q: "dw_queue ?w = ?q" by (simp add: log_queue_def)
  have k: "0 < k" "k \<le> length ?q" using assms(2) by (auto simp: k_def)
  have t: "take (max 1 (min n BATCH_SIZE)) ?q = take k ?q" "drop (max 1 (min n BATCH_SIZE)) ?q = drop k ?q"
    by (simp_all add: k_def min_def)
  have b0: "take k ?q \<noteq> []" using k assms(2) by simp
  obtain err acks d where p: "process_batch io (take k ?q) (sd_db s) = ((err, acks), d)" by (metis surj_pair)
  have b: "write_batch n io s = (set_writer (?w\<lparr>dw_queue := drop k ?q @ (if sd_phase s = Sending then [Flush 0] else [])\<rparr>) s)
      \<lparr>sd_db := d, sd_taken := sd_taken s @ take k ?q, sd_lost := sd_lost s @ (if err = None then [] else events_of (take k ?q)),
        sd_phase := (if sd_phase s = Sending then Awaiting
          else if sd_phase s = Awaiting \<and> Flush 0 \<in> set (take k ?q) then Exited else sd_phase s)\<rparr>"
    unfolding write_batch_def Let_def q t p prod.case using b0 by (rule if_not_P)
  from assms(1) have i: "machine_inv (sd_machine s)" "dw_capacity ?w = c" "schema_ok (sd_db s)" "writer_ok ?w"
    by (simp_all add: shutdown_inv_def capacity_def store_kept_def machine_inv_writer_ok)
  obtain written where w: "sd_db s = add_rows written d0" "events_of (sd_taken s) \<in> shuffles written (sd_lost s)"
    using assms(1) by (auto simp: shutdown_inv_def store_kept_def)
  note c = process_batch_cases [OF i(3) p]
  have "schema_ok d" using c i(3) by (auto split: if_splits)
  moreover have "\<exists>written. d = add_rows written d0
      \<and> events_of (sd_taken s @ take k ?q) \<in> shuffles written (sd_lost s @ (if err = None then [] else events_of (take k ?q)))"
  proof (cases "err = None")
    case True
    then show ?thesis using c w shuffles_snoc_left [OF w(2)]
      by (intro exI [of _ "written @ events_of (take k ?q)"]) (simp add: add_rows_append)
  next
    case False
    then show ?thesis using c w shuffles_snoc_right [OF w(2)] by (intro exI [of _ written]) auto
  qed
  ultimately have s: "store_kept d0 (write_batch n io s)" by (simp add: b store_kept_def set_writer_def)
  have "length (drop k ?q) < length ?q" "length ?q \<le> dw_capacity ?w" using i(4) k by (simp_all add: writer_ok_def q)
  then have "writer_ok (?w\<lparr>dw_queue := drop k ?q @ (if sd_phase s = Sending then [Flush 0] else [])\<rparr>)"
    by (simp add: writer_ok_def)
  from machine_inv_writer [OF i(1) this] show ?thesis
    by (intro that [OF k]) (use s i(2) in \<open>simp_all add: b set_writer_def log_queue_def capacity_def\<close>)
qed

lemma write_batch_idle [simp]: "log_queue s = [] \<Longrightarrow> write_batch n io s = s"
  by (simp add: write_batch_def Let_def log_queue_def)


text \<open>A message of the first \<open>k\<close>, given the position of the flush.\<close>

lemma flush_position:
  assumes "taken @ q = map Event es @ Flush 0 # map Event r2" "length taken \<le> length es" "k \<le> length q"
  shows "Flush 0 \<in> set (take k q) \<longleftrightarrow> length es < length taken + k"
proof -
  have q: "q = map Event (drop (length taken) es) @ Flush 0 # map Event r2"
    using arg_cong [OF assms(1), of "drop (length taken)"] assms(2) by (simp add: drop_map)
  have "Flush 0 \<notin> Event ` A" for A by auto
  then show ?thesis using assms(2) unfolding q
    by (cases "k - length (map Event (drop (length taken) es))") (auto simp: take_map take_Cons' dest: in_set_takeD)
qed

lemma phase_exited:
  "sd_phase s = Exited \<Longrightarrow> sd_drained s = Some (m, es) \<Longrightarrow> drain_over m (sd_clock s)
     \<Longrightarrow> given s = map Event (es @ r) @ Flush 0 # map Event r2 \<Longrightarrow> length (es @ r) < length (sd_taken s) \<Longrightarrow> phase_inv s"
  unfolding phase_inv_def by (simp, intro exI conjI) (rule refl)+

lemma write_batch_inv:
  assumes "shutdown_inv d0 c s"
  shows "shutdown_inv d0 c (write_batch n io s)"
proof (cases "log_queue s = []")
  case False
  let ?q = "log_queue s" let ?s = "write_batch n io s"
  from write_batch_cases [OF assms False, of n io] obtain k where k: "0 < k" "k \<le> length ?q"
    "sd_taken ?s = sd_taken s @ take k ?q"
    "log_queue ?s = drop k ?q @ (if sd_phase s = Sending then [Flush 0] else [])"
    "sd_phase ?s = (if sd_phase s = Sending then Awaiting
       else if sd_phase s = Awaiting \<and> Flush 0 \<in> set (take k ?q) then Exited else sd_phase s)"
    "sd_drained ?s = sd_drained s" "sd_clock ?s = sd_clock s"
    "machine_inv (sd_machine ?s)" "capacity ?s = c" "store_kept d0 ?s" by blast
  have g: "given ?s = given s @ (if sd_phase s = Sending then [Flush 0] else [])"
    by (simp add: given_def k(3,4))
  have p: "phase_inv s" "0 < c" using assms by (simp_all add: shutdown_inv_def)
  have "phase_inv ?s"
  proof (cases "sd_phase s")
    case Draining
    then show ?thesis using p(1) k(5,6) g by (simp add: phase_inv_def)
  next
    case Sending
    with p(1) obtain m es r where m: "sd_drained s = Some (m, es)" "drain_over m (sd_clock s)" "given s = map Event (es @ r)"
      by (auto simp: phase_inv_def)
    have "length (sd_taken ?s) \<le> length (es @ r)"
      using arg_cong [OF m(3), of length] k(2,3) by (simp add: given_def)
    then show ?thesis using m k(5-7) g Sending by (intro phase_awaiting [of _ m es r "[]"]) simp_all
  next
    case Awaiting
    with p(1) obtain m es r r2 where m: "sd_drained s = Some (m, es)" "drain_over m (sd_clock s)"
        "given s = map Event (es @ r) @ Flush 0 # map Event r2" "length (sd_taken s) \<le> length (es @ r)"
      by (auto simp: phase_inv_def)
    from flush_position [OF m(3) [unfolded given_def] m(4) k(2)]
    have f: "Flush 0 \<in> set (take k ?q) \<longleftrightarrow> length (es @ r) < length (sd_taken s) + k" .
    have l: "length (sd_taken ?s) = length (sd_taken s) + k" using k(2,3) by simp
    show ?thesis
    proof (cases "Flush 0 \<in> set (take k ?q)")
      case True
      then show ?thesis using m k(5-7) g Awaiting f l by (intro phase_exited [of _ m es r r2]) simp_all
    next
      case False
      then show ?thesis using m k(5-7) g Awaiting f l by (intro phase_awaiting [of _ m es r r2]) simp_all
    qed
  next
    case Exited
    with p(1) obtain m es r r2 where m: "sd_drained s = Some (m, es)" "drain_over m (sd_clock s)"
        "given s = map Event (es @ r) @ Flush 0 # map Event r2" "length (es @ r) < length (sd_taken s)"
      by (auto simp: phase_inv_def)
    then show ?thesis using k(3,5-7) g Exited by (intro phase_exited [of _ m es r r2]) simp_all
  qed
  then show ?thesis using k p(2) by (simp add: shutdown_inv_def)
qed (simp add: assms)

text \<open>Requests and comparisons: the machine moves and the queue grows by events.\<close>

lemma meanwhile_cases:
  assumes "machine_step dp ev (sd_machine s) = Some m"
  obtains r where "capacity (s\<lparr>sd_machine := m\<rparr>) = capacity s" "given (s\<lparr>sd_machine := m\<rparr>) = given s @ map Event r"
    "log_queue (s\<lparr>sd_machine := m\<rparr>) = log_queue s @ map Event r"
  using machine_step_grows [OF assms] by (auto simp: log_grows_def capacity_def given_def log_queue_def)

lemma phase_inv_grows:
  assumes "phase_inv s" "given (s\<lparr>sd_machine := m\<rparr>) = given s @ map Event x" "log_queue (s\<lparr>sd_machine := m\<rparr>) = log_queue s @ map Event x"
  shows "phase_inv (s\<lparr>sd_machine := m\<rparr>)"
proof (cases "sd_phase s")
  case Draining
  then obtain es where "given s = map Event es" "sd_drained s = None" using assms(1) by (auto simp: phase_inv_def)
  then show ?thesis using Draining assms(2) by (simp add: phase_inv_def) (metis map_append)
next
  case Sending
  then obtain m' es r where "sd_drained s = Some (m', es)" "drain_over m' (sd_clock s)" "given s = map Event (es @ r)" "log_queue s \<noteq> []"
    using assms(1) by (auto simp: phase_inv_def)
  then show ?thesis using Sending assms(2,3) by (simp add: phase_inv_def) (metis map_append)
next
  case Awaiting
  with assms(1) obtain m' es r r2 where "sd_drained s = Some (m', es)" "drain_over m' (sd_clock s)"
      "given s = map Event (es @ r) @ Flush 0 # map Event r2" "length (sd_taken s) \<le> length (es @ r)"
    by (auto simp: phase_inv_def)
  then show ?thesis using Awaiting assms(2) by (intro phase_awaiting [of _ m' es r "r2 @ x"]) simp_all
next
  case Exited
  with assms(1) obtain m' es r r2 where "sd_drained s = Some (m', es)" "drain_over m' (sd_clock s)"
      "given s = map Event (es @ r) @ Flush 0 # map Event r2" "length (es @ r) < length (sd_taken s)"
    by (auto simp: phase_inv_def)
  then show ?thesis using Exited assms(2) by (intro phase_exited [of _ m' es r "r2 @ x"]) simp_all
qed

lemma shutdown_step_total:
  assumes "deps_ok dp" "shutdown_inv d0 c s" "shutdown_ok e"
  shows "\<exists>s'. shutdown_step dp e s = Some s' \<and> shutdown_inv d0 c s'"
proof (cases e)
  case (Poll extra)
  then show ?thesis using drain_poll_inv [OF assms(2)] assms(2) by simp
next
  case (Write n io)
  then show ?thesis using write_batch_inv [OF assms(2)] by simp
next
  case (Meanwhile ev)
  have "machine_inv (sd_machine s)" "event_ok ev" using assms(2,3) Meanwhile by (simp_all add: shutdown_inv_def shutdown_ok_def)
  from machine_step_total [OF assms(1) this] obtain m where m: "machine_step dp ev (sd_machine s) = Some m" "machine_inv m" by blast
  from meanwhile_cases [OF m(1)] obtain r where r: "capacity (s\<lparr>sd_machine := m\<rparr>) = capacity s"
    "given (s\<lparr>sd_machine := m\<rparr>) = given s @ map Event r" "log_queue (s\<lparr>sd_machine := m\<rparr>) = log_queue s @ map Event r" by blast
  have "phase_inv (s\<lparr>sd_machine := m\<rparr>)" using phase_inv_grows [OF _ r(2,3)] assms(2) by (simp add: shutdown_inv_def)
  then show ?thesis using m r(1) assms(2) Meanwhile by (simp add: shutdown_inv_def store_kept_def)
qed

interpretation sd: total_system "shutdown_step dp" shutdown_ok "\<lambda>s. deps_ok dp \<and> shutdown_inv d0 c s" for dp d0 c
  by unfold_locales (use shutdown_step_total in fastforce)+

section \<open>Progress\<close>

fun is_poll :: "('n, 'net) shutdown_event \<Rightarrow> bool" where
  "is_poll (Poll extra) = True"
| "is_poll _ = False"

fun is_write :: "('n, 'net) shutdown_event \<Rightarrow> bool" where
  "is_write (Write n io) = True"
| "is_write _ = False"

definition polls :: "('n, 'net) shutdown_event list \<Rightarrow> nat" where
  "polls es = length (filter is_poll es)"

definition writes :: "('n, 'net) shutdown_event list \<Rightarrow> nat" where
  "writes es = length (filter is_write es)"

text \<open>Turns of the drain loop left, and turns of the writer until the flush is over.\<close>

definition poll_left :: "('n, 'net) shutdown \<Rightarrow> nat" where
  "poll_left s = (if sd_phase s = Draining then Suc ((DRAIN + 19 - sd_clock s) div 20) else 0)"

definition ahead :: "msg list \<Rightarrow> nat" where
  "ahead q = length (takeWhile (\<lambda>m. m \<noteq> Flush 0) q)"

definition write_left :: "('n, 'net) shutdown \<Rightarrow> nat" where
  "write_left s = (case sd_phase s of Exited \<Rightarrow> 0 | Awaiting \<Rightarrow> Suc (ahead (log_queue s)) | _ \<Rightarrow> Suc (capacity s))"

lemma flush_phase: "sd_phase (flush s) \<noteq> Draining"
  by (auto simp: flush_def Let_def split: prod.split bool.split)

lemma write_batch_phase: "sd_phase (write_batch n io s) = Draining \<longleftrightarrow> sd_phase s = Draining"
  by (auto simp: write_batch_def Let_def split: prod.split)

lemma write_batch_clock: "sd_clock (write_batch n io s) = sd_clock s"
  by (simp add: write_batch_def set_writer_def Let_def split: prod.split)

lemma poll_left_step:
  assumes "shutdown_step dp e s = Some s'"
  shows "poll_left s' + (if is_poll e then 1 else 0) \<le> poll_left s \<or> poll_left s' = 0"
proof (cases e)
  case (Poll extra)
  show ?thesis
  proof (cases "sd_phase s = Draining \<and> 0 < in_flight (mc_pipe (sd_machine s)) \<and> sd_clock s < DRAIN")
    case True
    then have "s' = s\<lparr>sd_clock := sd_clock s + 20 + extra\<rparr>" using Poll assms by (simp add: drain_poll_def)
    moreover have "(DRAIN + 19 - (sd_clock s + 20 + extra)) div 20 < (DRAIN + 19 - sd_clock s) div 20"
    proof -
      have "(DRAIN + 19 - (sd_clock s + 20 + extra)) div 20 \<le> (DRAIN + 19 - sd_clock s - 20) div 20" by (rule div_le_mono) simp
      moreover have "20 \<le> DRAIN + 19 - sd_clock s" using True by auto
      ultimately show ?thesis using le_div_geq [of 20 "DRAIN + 19 - sd_clock s"] by linarith
    qed
    ultimately show ?thesis using True by (simp add: poll_left_def)
  next
    case False
    then show ?thesis using Poll assms flush_phase [of s] by (auto simp: poll_left_def drain_poll_def split: if_splits)
  qed
next
  case (Write n io)
  then show ?thesis using assms by (auto simp: poll_left_def write_batch_phase write_batch_clock)
next
  case (Meanwhile ev)
  then show ?thesis using assms by (auto simp: poll_left_def)
qed

lemma poll_left_run: "run (shutdown_step dp) es s = Some s' \<Longrightarrow> poll_left s \<le> polls es \<Longrightarrow> poll_left s' = 0"
proof (induction es arbitrary: s)
  case Nil
  then show ?case by (simp add: polls_def)
next
  case (Cons e es)
  then obtain s1 where s1: "shutdown_step dp e s = Some s1" "run (shutdown_step dp) es s1 = Some s'" by (auto split: bind_splits)
  have "poll_left s1 \<le> polls es"
    using poll_left_step [OF s1(1)] Cons.prems(2) by (auto simp: polls_def split: if_splits)
  then show ?case by (rule Cons.IH [OF s1(2)])
qed

lemma ahead_Event [simp]: "ahead (map Event es @ Flush 0 # q) = length es"
  by (induction es) (simp_all add: ahead_def)

lemma ahead_le: "ahead (q @ [Flush 0]) \<le> length q"
  by (induction q) (simp_all add: ahead_def)

lemma awaiting_queue:
  assumes "phase_inv s" "sd_phase s = Awaiting"
  obtains es r2 where "log_queue s = map Event es @ Flush 0 # map Event r2"
proof -
  from assms obtain m es r r2 where "given s = map Event (es @ r) @ Flush 0 # map Event r2" "length (sd_taken s) \<le> length (es @ r)"
    by (auto simp: phase_inv_def)
  then obtain ys where g: "sd_taken s @ log_queue s = map Event ys @ Flush 0 # map Event r2" "length (sd_taken s) \<le> length ys"
    unfolding given_def by blast
  have "log_queue s = map Event (drop (length (sd_taken s)) ys) @ Flush 0 # map Event r2"
    using arg_cong [OF g(1), of "drop (length (sd_taken s))"] g(2) by (simp add: drop_map)
  then show ?thesis by (rule that)
qed

lemma write_left_write:
  assumes "shutdown_inv d0 c s" "sd_phase s \<noteq> Draining" "sd_phase s \<noteq> Exited"
  shows "write_left (write_batch n io s) < write_left s"
proof -
  let ?q = "log_queue s" let ?s = "write_batch n io s"
  from queue_bound [OF assms(1)] have p: "phase_inv s" and cap: "capacity s = c" and wr: "length ?q \<le> c" by simp_all
  have ne: "?q \<noteq> []"
  proof (cases "sd_phase s")
    case Awaiting
    from awaiting_queue [OF p this] obtain es r2 where "?q = map Event es @ Flush 0 # map Event r2" .
    then show ?thesis by simp
  next
    case Sending
    then show ?thesis using p by (auto simp: phase_inv_def)
  qed (use assms(2,3) in simp_all)
  from write_batch_cases [OF assms(1) ne, of n io] obtain k where k: "0 < k" "k \<le> length ?q"
    "log_queue ?s = drop k ?q @ (if sd_phase s = Sending then [Flush 0] else [])"
    "sd_phase ?s = (if sd_phase s = Sending then Awaiting
       else if sd_phase s = Awaiting \<and> Flush 0 \<in> set (take k ?q) then Exited else sd_phase s)" by blast
  show ?thesis
  proof (cases "sd_phase s = Sending")
    case True
    then show ?thesis using k cap wr ahead_le [of "drop k ?q"] by (simp add: write_left_def)
  next
    case False
    then have a: "sd_phase s = Awaiting" using assms(2,3) by (cases "sd_phase s") auto
    from awaiting_queue [OF p a] obtain es r2 where q: "?q = map Event es @ Flush 0 # map Event r2" .
    show ?thesis
    proof (cases "k \<le> length es")
      case True
      then have "drop k ?q = map Event (drop k es) @ Flush 0 # map Event r2" by (simp add: q drop_map)
      moreover have "Flush 0 \<notin> set (take k ?q)" using True by (auto simp: q dest: in_set_takeD)
      ultimately show ?thesis using a False k True by (simp add: write_left_def q)
    next
      case beyond: False
      then have "Flush 0 \<in> set (take k ?q)" by (cases "k - length es") (auto simp: q)
      then show ?thesis using a k by (simp add: write_left_def)
    qed
  qed
qed

lemma write_left_bound:
  assumes "shutdown_inv d0 c s"
  shows "write_left s \<le> Suc c"
proof (cases "sd_phase s")
  case Awaiting
  from queue_bound [OF assms] have q: "length (log_queue s) \<le> c" "phase_inv s" by simp_all
  from awaiting_queue [OF q(2) Awaiting] obtain es r2 where "log_queue s = map Event es @ Flush 0 # map Event r2" .
  then show ?thesis using q(1) Awaiting by (simp add: write_left_def)
qed (use queue_bound [OF assms] in \<open>simp_all add: write_left_def\<close>)

lemma write_left_other:
  assumes "shutdown_inv d0 c s" "sd_phase s \<noteq> Draining" "shutdown_step dp e s = Some s'" "\<not> is_write e"
  shows "write_left s' = write_left s \<and> sd_phase s' = sd_phase s"
proof (cases e)
  case (Meanwhile ev)
  then obtain m where m: "machine_step dp ev (sd_machine s) = Some m" "s' = s\<lparr>sd_machine := m\<rparr>" using assms(3) by auto
  from meanwhile_cases [OF m(1)] obtain r where r: "capacity s' = capacity s" "log_queue s' = log_queue s @ map Event r"
    unfolding m(2) by blast
  have "ahead (log_queue s') = ahead (log_queue s)" if "sd_phase s = Awaiting"
    using awaiting_queue [OF _ that] assms(1) r(2) by (fastforce simp: shutdown_inv_def)
  then show ?thesis using r(1) m(2) by (auto simp: write_left_def split: phase.split)
qed (use assms in auto)

lemma write_left_run:
  assumes "deps_ok dp" "shutdown_inv d0 c s" "list_all shutdown_ok es" "run (shutdown_step dp) es s = Some s'"
    "sd_phase s \<noteq> Draining" "write_left s \<le> writes es"
  shows "sd_phase s' = Exited"
  using assms(2-)
proof (induction es arbitrary: s)
  case Nil
  then show ?case by (auto simp: writes_def write_left_def split: phase.splits)
next
  case (Cons e es)
  then obtain s1 where s1: "shutdown_step dp e s = Some s1" "run (shutdown_step dp) es s1 = Some s'" by (auto split: bind_splits)
  have i: "shutdown_inv d0 c s1" "list_all shutdown_ok es" using shutdown_step_total [OF assms(1) Cons.prems(1), of e] s1(1) Cons.prems(2) by auto
  show ?case
  proof (cases "is_write e")
    case False
    then show ?thesis using Cons.IH [OF i s1(2)] write_left_other [OF Cons.prems(1,4) s1(1)] Cons.prems(4,5) by (simp add: writes_def)
  next
    case True
    then obtain n io where e: "s1 = write_batch n io s" using s1(1) by (cases e) auto
    have "write_left s1 \<le> writes es"
    proof (cases "sd_phase s = Exited")
      case ex: True
      have "sd_phase s1 = Exited" using ex by (simp add: e write_batch_def Let_def split: prod.split)
      then show ?thesis by (simp add: write_left_def)
    next
      case False
      then show ?thesis using write_left_write [OF Cons.prems(1,4) False, of n io] Cons.prems(5) True by (simp add: e writes_def)
    qed
    then show ?thesis using Cons.IH [OF i s1(2)] Cons.prems(4) by (simp add: e write_batch_phase)
  qed
qed

section \<open>Properties\<close>

lemma shutdown_start_inv:
  assumes "machine_inv m" "dw_queue (pl_writer (mc_pipe m)) = map Event es" "0 < dw_capacity (pl_writer (mc_pipe m))" "schema_ok d"
  shows "shutdown_inv d (dw_capacity (pl_writer (mc_pipe m))) (shutdown_start m d)"
proof -
  have "store_kept d (shutdown_start m d)" using assms(4) by (auto simp: store_kept_def shutdown_start_def intro!: exI [of _ "[]"])
  moreover have "phase_inv (shutdown_start m d)" using assms(2) by (auto simp: phase_inv_def shutdown_start_def given_def log_queue_def)
  ultimately show ?thesis using assms by (simp add: shutdown_inv_def capacity_def) (simp add: shutdown_start_def)
qed

text \<open>C22: a shutdown ends and loses no log record.  However requests, comparisons and turns of the
  writer interleave with it, after at most 101 turns of the drain loop and as many turns of the
  writer as the log queue has places, and one, the flush is over.  The drain then ended with every
  request that had arrived answered or cancelled, or lasted two seconds; and every record logged up to
  then has been taken by the writer, so it is in the database or was reported lost with a failed
  batch.\<close>
theorem shutdown_flushes:
  assumes "deps_ok dp" and "machine_inv m" and "dw_queue (pl_writer (mc_pipe m)) = map Event es0"
    and "0 < dw_capacity (pl_writer (mc_pipe m))" and "schema_ok d"
    and "list_all shutdown_ok (es1 @ es2)" and "101 \<le> polls es1" and "dw_capacity (pl_writer (mc_pipe m)) < writes es2"
  shows "\<exists>s m' logged rest written. run (shutdown_step dp) (es1 @ es2) (shutdown_start m d) = Some s \<and> sd_phase s = Exited
    \<and> sd_drained s = Some (m', logged)
    \<and> (DRAIN \<le> sd_clock s \<or> in_flight (mc_pipe m') = 0
         \<and> mset (map fst (mc_answers m')) + mset (mc_cancelled m') = mset (map fst (mc_arrived m')))
    \<and> sd_taken s = map Event logged @ rest \<and> sd_db s = add_rows written d
    \<and> events_of (sd_taken s) \<in> shuffles written (sd_lost s)
    \<and> (sd_lost s = [] \<longrightarrow> take (length logged) written = logged)"
proof -
  let ?s0 = "shutdown_start m d" and ?c = "dw_capacity (pl_writer (mc_pipe m))"
  have i0: "shutdown_inv d ?c ?s0" by (rule shutdown_start_inv [OF assms(2-5)])
  have ok: "list_all shutdown_ok es1" "list_all shutdown_ok es2" using assms(6) by simp_all
  from sd.run_total [OF conjI [OF assms(1) i0] ok(1)] obtain s1 where
    s1: "run (shutdown_step dp) es1 ?s0 = Some s1" "shutdown_inv d ?c s1" by blast
  from sd.run_total [OF conjI [OF assms(1) s1(2)] ok(2)] obtain s where
    s: "run (shutdown_step dp) es2 s1 = Some s" "shutdown_inv d ?c s" by blast
  have "poll_left ?s0 \<le> polls es1" using assms(7) by (simp add: poll_left_def shutdown_start_def DRAIN_def)
  from poll_left_run [OF s1(1) this] have nd: "sd_phase s1 \<noteq> Draining" by (auto simp: poll_left_def split: if_splits)
  have "write_left s1 \<le> writes es2" using write_left_bound [OF s1(2)] assms(8) by simp
  from write_left_run [OF assms(1) s1(2) ok(2) s(1) nd this] have ex: "sd_phase s = Exited" .
  with s(2) obtain m' es r r2 where m': "sd_drained s = Some (m', es)" "drain_over m' (sd_clock s)"
      "given s = map Event (es @ r) @ Flush 0 # map Event r2" "length (es @ r) < length (sd_taken s)"
    by (auto simp: shutdown_inv_def phase_inv_def)
  have "take (length es) (sd_taken s) = take (length es) (given s)" using m'(4) by (simp add: given_def)
  also have "\<dots> = map Event es" by (simp add: m'(3))
  finally have t: "sd_taken s = map Event es @ drop (length es) (sd_taken s)" by (metis append_take_drop_id)
  obtain written where w: "sd_db s = add_rows written d" "events_of (sd_taken s) \<in> shuffles written (sd_lost s)"
    using s(2) by (auto simp: shutdown_inv_def store_kept_def)
  have e: "events_of (sd_taken s) = es @ events_of (drop (length es) (sd_taken s))" by (subst t) simp
  have "take (length es) written = es" if "sd_lost s = []" using w(2) that unfolding e by auto
  moreover have "DRAIN \<le> sd_clock s \<or> in_flight (mc_pipe m') = 0
      \<and> mset (map fst (mc_answers m')) + mset (mc_cancelled m') = mset (map fst (mc_arrived m'))"
    using m'(2) by (auto simp: drain_over_def in_flight_def machine_inv_def pipe_inv_def fates_def)
  ultimately show ?thesis
    by (intro exI [of _ s] exI [of _ m'] exI [of _ es] exI [of _ "drop (length es) (sd_taken s)"] exI [of _ written])
      (use s1(1) s(1) ex m'(1) t w in \<open>simp add: run_append\<close>)
qed

section \<open>Witness\<close>

definition ex_stopping :: "(string, nat) shutdown_event list \<times> (string, nat) shutdown_event list" where
  "ex_stopping = (Meanwhile (Arrive 1 ex_request ex_client 0 0 5) # replicate 101 (Poll 0), replicate 5 (Write 1 (\<lambda>_. None)))"

theorem shutdown_flushes_witness:
  "\<exists>p s. machine_inv (machine_start p)
    \<and> run (shutdown_step ex_deps) (fst ex_stopping @ snd ex_stopping) (shutdown_start (machine_start p) example_database) = Some s
    \<and> sd_phase s = Exited"
proof -
  from ex_engine obtain e where "compiled_engine e" by blast
  moreover obtain c :: "(string cache_key, string) inner" where "with_limits 4 1000 60 = Some c" by (auto simp: with_limits_def)
  moreover have "4 \<le> NONE" "writer_ok \<lparr>dw_queue = [], dw_capacity = 4, dw_drops = 0\<rparr>"
    by (simp_all add: NONE_def u64_max_def writer_ok_def)
  ultimately have st: "started (pipeline_new e c \<lparr>ss_enabled = 0\<rparr> \<lparr>dw_queue = [], dw_capacity = 4, dw_drops = 0\<rparr> [1])"
    unfolding started_def by blast
  let ?p = "pipeline_new e c \<lparr>ss_enabled = 0\<rparr> \<lparr>dw_queue = [], dw_capacity = 4, dw_drops = 0\<rparr> [1] :: (string, nat) pipeline"
  have w: "dw_queue (pl_writer (mc_pipe (machine_start ?p))) = map Event []" "dw_capacity (pl_writer (mc_pipe (machine_start ?p))) = 4"
    by (simp_all add: machine_start_def pipeline_new_def from_policy_def)
  have ok: "list_all shutdown_ok (fst ex_stopping @ snd ex_stopping)"
    by (simp add: ex_stopping_def shutdown_ok_def event_ok_def list_all_iff)
  have n: "101 \<le> polls (fst ex_stopping)" "dw_capacity (pl_writer (mc_pipe (machine_start ?p))) < writes (snd ex_stopping)"
    unfolding w(2) by (simp_all add: ex_stopping_def polls_def writes_def)
  from shutdown_flushes [OF ex_deps_ok started_inv [OF st] w(1) _ example_schema_ok ok n] w(2) started_inv [OF st] show ?thesis
    by fastforce
qed

end
