(* ===== verification/Rust_Fmt.thy ===== *)
theory Rust_Fmt
  imports Net_Show Config
begin

text \<open>
  Formatting of the standard library that the command line uses: \<open>Display\<close> of signed numbers and
  socket addresses, and \<open>Debug\<close> (\<open>{:?}\<close>) of strings and lists of strings.

  \<open>Debug\<close> of a string escapes the quote, the backslash and control characters.  Whether a character
  beyond ASCII is printable is decided by the Unicode tables of the standard library; the argument
  \<open>wide\<close> gives the text of such a character from its bytes.
\<close>

definition show_int :: "int \<Rightarrow> string" where
  "show_int n = (if n < 0 then CHR ''-'' # show_nat (nat (- n)) else show_nat (nat n))"

definition show_socket_addr :: "socket_addr \<Rightarrow> string" where
  "show_socket_addr a =
     (case sa_ip a of
        V4 _ \<Rightarrow> show_ip (sa_ip a) @ '':'' @ show_nat (sa_port a)
      | V6 _ \<Rightarrow> ''['' @ show_ip (sa_ip a) @ '']:'' @ show_nat (sa_port a))"

definition escape_ascii :: "char \<Rightarrow> string" where
  "escape_ascii c =
     (if c = CHR 0x00 then [CHR 0x5C, CHR ''0'']
      else if c = CHR 0x09 then [CHR 0x5C, CHR ''t'']
      else if c = CHR 0x0D then [CHR 0x5C, CHR ''r'']
      else if c = CHR 0x0A then [CHR 0x5C, CHR ''n'']
      else if c = CHR 0x5C then [CHR 0x5C, CHR 0x5C]
      else if c = CHR 0x22 then [CHR 0x5C, CHR 0x22]
      else if byte c < 32 \<or> byte c = 127 then [CHR 0x5C, CHR ''u'', CHR ''{''] @ show_radix 16 (byte c) @ ''}''
      else [c])"

text \<open>Character by character; a byte that starts no well-formed character stands alone.\<close>

function escape_debug :: "(string \<Rightarrow> string) \<Rightarrow> string \<Rightarrow> string" where
  "escape_debug wide s =
     (case s of
        [] \<Rightarrow> []
      | c # cs \<Rightarrow>
          if byte c < 128 then escape_ascii c @ escape_debug wide cs
          else wide (take (max 1 (utf8_len s)) s) @ escape_debug wide (drop (max 1 (utf8_len s)) s))"
  by pat_completeness auto
termination
  by (relation "measure (\<lambda>(wide, s). length s)") auto

declare escape_debug.simps [simp del]

definition debug_str :: "(string \<Rightarrow> string) \<Rightarrow> string \<Rightarrow> string" where
  "debug_str wide s = CHR 0x22 # escape_debug wide s @ [CHR 0x22]"

fun comma_sep :: "string list \<Rightarrow> string" where
  "comma_sep [] = []"
| "comma_sep [s] = s"
| "comma_sep (s # ss) = s @ '', '' @ comma_sep ss"

definition debug_strs :: "(string \<Rightarrow> string) \<Rightarrow> string list \<Rightarrow> string" where
  "debug_strs wide ss = ''['' @ comma_sep (map (debug_str wide) ss) @ '']''"

text \<open>Text without backslash, quote, control or wide characters is only quoted.\<close>

definition plain_text :: "string \<Rightarrow> bool" where
  "plain_text s \<longleftrightarrow> (\<forall>c \<in> set s. 32 \<le> byte c \<and> byte c < 127 \<and> c \<noteq> CHR 0x22 \<and> c \<noteq> CHR 0x5C)"

lemma escape_plain: "plain_text s \<Longrightarrow> escape_debug wide s = s"
proof (induction s)
  case Nil
  show ?case by (simp add: escape_debug.simps)
next
  case (Cons c s)
  from Cons.prems have c: "32 \<le> byte c" "byte c < 127" "c \<noteq> CHR 0x22" "c \<noteq> CHR 0x5C" and s: "plain_text s"
    by (simp_all add: plain_text_def)
  have "c \<noteq> CHR 0x00" "c \<noteq> CHR 0x09" "c \<noteq> CHR 0x0D" "c \<noteq> CHR 0x0A" using c(1) by auto
  then have "escape_ascii c = [c]" using c by (simp add: escape_ascii_def)
  then show ?case using c(2) Cons.IH [OF s] by (simp add: escape_debug.simps [of wide "c # s"])
qed

lemma debug_str_plain: "plain_text s \<Longrightarrow> debug_str wide s = CHR 0x22 # s @ [CHR 0x22]"
  by (simp add: debug_str_def escape_plain)

end
