(* ===== verification/Front.thy ===== *)
theory Front
  imports Server_Correct Rust_Fmt
begin

text \<open>
  The sockets of \<open>crates/core/src/server.rs\<close>: \<open>serve\<close> binds UDP and TCP on every address, and its
  tasks turn datagrams and connections into requests of the pipeline until the server stops.

  A system call is an argument: \<open>sys\<close> says which fails, with the display of its error, and
  \<open>local_addr\<close> which address a socket got.  The codec of the DNS library is the record \<open>codec\<close>.
\<close>

section \<open>Binding\<close>

datatype proto = Tcp | Udp

datatype sys_call = New_Socket | Set_Only_V6 | Set_Reuse_Address | Bind_Socket | Listen | Set_Nonblocking | Register

fun proto_name :: "proto \<Rightarrow> string" where
  "proto_name Tcp = ''tcp''"
| "proto_name Udp = ''udp''"

definition bind_error :: "socket_addr \<Rightarrow> proto \<Rightarrow> string \<Rightarrow> string" where
  "bind_error addr proto err = ''cannot bind '' @ proto_name proto @ '' '' @ show_socket_addr addr @ '': '' @ err"

fun is_ipv6 :: "ip_addr \<Rightarrow> bool" where
  "is_ipv6 (V6 _) = True"
| "is_ipv6 (V4 _) = False"

text \<open>Calls in order, up to the first that fails.\<close>

fun calls :: "(proto \<Rightarrow> socket_addr \<Rightarrow> sys_call \<Rightarrow> string option) \<Rightarrow> proto \<Rightarrow> socket_addr \<Rightarrow> sys_call list \<Rightarrow> string + unit" where
  "calls sys proto addr [] = Inr ()"
| "calls sys proto addr (c # cs) =
     (case sys proto addr c of Some err \<Rightarrow> Inl (bind_error addr proto err) | None \<Rightarrow> calls sys proto addr cs)"

definition new_socket :: "socket_addr \<Rightarrow> sys_call list" where
  "new_socket addr = New_Socket # (if is_ipv6 (sa_ip addr) then [Set_Only_V6] else [])"

definition bind_tcp :: "(proto \<Rightarrow> socket_addr \<Rightarrow> sys_call \<Rightarrow> string option) \<Rightarrow> socket_addr \<Rightarrow> string + unit" where
  "bind_tcp sys addr = calls sys Tcp addr (new_socket addr @ [Set_Reuse_Address, Bind_Socket, Listen, Set_Nonblocking, Register])"

definition bind_udp :: "(proto \<Rightarrow> socket_addr \<Rightarrow> sys_call \<Rightarrow> string option) \<Rightarrow> socket_addr \<Rightarrow> string + unit" where
  "bind_udp sys addr = calls sys Udp addr (new_socket addr @ [Bind_Socket, Set_Nonblocking, Register])"

text \<open>The addresses bound: UDP and TCP.\<close>

fun bind_all ::
    "(proto \<Rightarrow> socket_addr \<Rightarrow> sys_call \<Rightarrow> string option) \<Rightarrow> (proto \<Rightarrow> socket_addr \<Rightarrow> string + socket_addr) \<Rightarrow> socket_addr list
       \<Rightarrow> string + socket_addr list \<times> socket_addr list" where
  "bind_all sys local_addr [] = Inr ([], [])"
| "bind_all sys local_addr (at # ats) =
     (case bind_tcp sys at of Inl e \<Rightarrow> Inl e | Inr _ \<Rightarrow>
     (case local_addr Tcp at of Inl e \<Rightarrow> Inl e | Inr tcp_addr \<Rightarrow>
       (let udp_bind = \<lparr>sa_ip = sa_ip at, sa_port = sa_port tcp_addr\<rparr> in
        case bind_udp sys udp_bind of Inl e \<Rightarrow> Inl e | Inr _ \<Rightarrow>
        (case local_addr Udp udp_bind of Inl e \<Rightarrow> Inl e | Inr udp_addr \<Rightarrow>
         (case bind_all sys local_addr ats of
            Inl e \<Rightarrow> Inl e
          | Inr (udps, tcps) \<Rightarrow> Inr (udp_addr # udps, tcp_addr # tcps))))))"

section \<open>Serving\<close>

record 'n codec =
  cd_from_vec :: "string \<Rightarrow> 'n message option"
  cd_to_vec :: "'n message \<Rightarrow> string option"
  cd_truncate :: "'n message \<Rightarrow> 'n message"

text \<open>The pipeline; for the handler of each datagram its request identifier, peer and request; what was
  sent; the open connections with their listener; whether the server was stopped.\<close>

record ('n, 'net) front =
  fr_machine :: "('n, 'net) machine"
  fr_udp :: "(nat \<times> socket_addr \<times> 'n message) list"
  fr_sent :: "(nat \<times> socket_addr \<times> string) list"
  fr_conns :: "(nat \<times> nat \<times> ip_addr) list"
  fr_stopped :: bool

datatype ('n, 'net) front_event =
    Datagram nat socket_addr string instant int nat
  | Accept nat nat ip_addr
  | Tcp_Query nat nat string instant int nat
  | Close nat
  | Proceed "('n, 'net) event"
  | Stop

text \<open>The end of a datagram's handler: what it sends for the pipeline's answer.\<close>

definition send_back ::
    "('n, 'net) deps \<Rightarrow> 'n codec \<Rightarrow> (nat \<times> socket_addr \<times> 'n message) list \<Rightarrow> nat \<times> 'n message
       \<Rightarrow> (nat \<times> socket_addr \<times> string) option" where
  "send_back dp cd udp answer =
     (case answer of (qid, response) \<Rightarrow>
       (case map_of udp qid of
          None \<Rightarrow> None
        | Some (peer, request) \<Rightarrow>
            map_option (\<lambda>bytes. (qid, peer, bytes)) (udp_reply dp (cd_to_vec cd) (cd_truncate cd) request response)))"

text \<open>A step of the pipeline, and the replies to the answers it gave.\<close>

definition proceed ::
    "('n, 'net) deps \<Rightarrow> 'n codec \<Rightarrow> ('n, 'net) event \<Rightarrow> ('n, 'net) front \<Rightarrow> ('n, 'net) front option" where
  "proceed dp cd ev s = do {
     m \<leftarrow> machine_step dp ev (fr_machine s);
     Some (s\<lparr>fr_machine := m,
       fr_sent := fr_sent s @ List.map_filter (send_back dp cd (fr_udp s)) (drop (length (mc_answers (fr_machine s))) (mc_answers m))\<rparr>)
   }"

definition connections :: "nat \<Rightarrow> (nat \<times> nat \<times> ip_addr) list \<Rightarrow> nat" where
  "connections listener conns = length (filter (\<lambda>(l, _). l = listener) conns)"

fun front_step ::
    "('n, 'net) deps \<Rightarrow> 'n codec \<Rightarrow> ('n, 'net) front_event \<Rightarrow> ('n, 'net) front \<Rightarrow> ('n, 'net) front option" where
  "front_step dp cd (Datagram qid peer bytes now ts elapsed) s =
     (if fr_stopped s then Some s
      else
        (case cd_from_vec cd bytes of
           None \<Rightarrow> Some s
         | Some request \<Rightarrow>
             if qid \<in> set (map fst (mc_arrived (fr_machine s))) then Some s
             else proceed dp cd (Arrive qid request (sa_ip peer) now ts elapsed)
                    (s\<lparr>fr_udp := (qid, peer, request) # fr_udp s\<rparr>)))"
| "front_step dp cd (Accept listener conn peer) s =
     (if fr_stopped s \<or> conn \<in> set (map (fst \<circ> snd) (fr_conns s)) then Some s
      else if accept_tcp dp peer (connections listener (fr_conns s)) (mc_pipe (fr_machine s))
      then Some (s\<lparr>fr_conns := (listener, conn, peer) # fr_conns s\<rparr>)
      else Some s)"
| "front_step dp cd (Tcp_Query conn qid bytes now ts elapsed) s =
     (case map_of (map snd (fr_conns s)) conn of
        None \<Rightarrow> Some s
      | Some peer \<Rightarrow>
          (case cd_from_vec cd bytes of
             None \<Rightarrow> Some (s\<lparr>fr_conns := filter (\<lambda>(_, c, _). c \<noteq> conn) (fr_conns s)\<rparr>)
           | Some request \<Rightarrow> proceed dp cd (Arrive qid request peer now ts elapsed) s))"
| "front_step dp cd (Close conn) s = Some (s\<lparr>fr_conns := filter (\<lambda>(_, c, _). c \<noteq> conn) (fr_conns s)\<rparr>)"
| "front_step dp cd (Proceed ev) s = (case ev of Arrive _ _ _ _ _ _ \<Rightarrow> Some s | _ \<Rightarrow> proceed dp cd ev s)"
| "front_step dp cd Stop s = Some (s\<lparr>fr_stopped := True\<rparr>)"

definition front_start :: "('n, 'net) pipeline \<Rightarrow> ('n, 'net) front" where
  "front_start p = \<lparr>fr_machine = machine_start p, fr_udp = [], fr_sent = [], fr_conns = [], fr_stopped = False\<rparr>"

section \<open>Binding is all or nothing\<close>

lemma calls_Inr: "calls sys proto addr cs = Inr u \<longleftrightarrow> (\<forall>c \<in> set cs. sys proto addr c = None)"
  by (induction cs) (auto split: option.split)

lemma bind_tcp_Inr:
  "bind_tcp sys a = Inr u \<Longrightarrow> sys Tcp a Bind_Socket = None \<and> (is_ipv6 (sa_ip a) \<longrightarrow> sys Tcp a Set_Only_V6 = None)"
  by (simp only: bind_tcp_def calls_Inr) (auto simp: new_socket_def)

lemma bind_udp_Inr:
  "bind_udp sys a = Inr u \<Longrightarrow> sys Udp a Bind_Socket = None \<and> (is_ipv6 (sa_ip a) \<longrightarrow> sys Udp a Set_Only_V6 = None)"
  by (simp only: bind_udp_def calls_Inr) (auto simp: new_socket_def)

text \<open>When every address is bound, both protocols of an address share its port, every IPv6 socket is
  restricted to IPv6, and no call failed.\<close>

lemma bind_all_Inr:
  assumes "bind_all sys local_addr ats = Inr (udps, tcps)"
    and "\<And>proto a b. local_addr proto a = Inr b \<Longrightarrow> sa_ip b = sa_ip a \<and> (sa_port a \<noteq> 0 \<longrightarrow> sa_port b = sa_port a)"
    and "\<And>a b. local_addr Tcp a = Inr b \<Longrightarrow> sa_port b \<noteq> 0"
  shows "udps = tcps \<and> map sa_ip tcps = map sa_ip ats
    \<and> list_all2 (\<lambda>at a. sa_port at \<noteq> 0 \<longrightarrow> sa_port a = sa_port at) ats tcps
    \<and> (\<forall>at \<in> set ats. sys Tcp at Bind_Socket = None \<and> (is_ipv6 (sa_ip at) \<longrightarrow> sys Tcp at Set_Only_V6 = None))
    \<and> (\<forall>a \<in> set udps. sys Udp a Bind_Socket = None \<and> (is_ipv6 (sa_ip a) \<longrightarrow> sys Udp a Set_Only_V6 = None))"
  using assms(1)
proof (induction ats arbitrary: udps tcps)
  case (Cons at ats)
  then obtain ta ua us ts where b: "bind_tcp sys at = Inr ()" "local_addr Tcp at = Inr ta"
    "bind_udp sys \<lparr>sa_ip = sa_ip at, sa_port = sa_port ta\<rparr> = Inr ()"
    "local_addr Udp \<lparr>sa_ip = sa_ip at, sa_port = sa_port ta\<rparr> = Inr ua"
    "bind_all sys local_addr ats = Inr (us, ts)" "udps = ua # us" "tcps = ta # ts"
    by (auto simp: Let_def split: sum.splits)
  have t: "sa_ip ta = sa_ip at" "sa_port at \<noteq> 0 \<longrightarrow> sa_port ta = sa_port at" "sa_port ta \<noteq> 0" using assms(2,3) b(2) by blast+
  have r: "\<lparr>sa_ip = sa_ip at, sa_port = sa_port ta\<rparr> = ta" using t(1) by (cases ta) simp
  have u: "ua = ta" using assms(2) [OF b(4)] t(3) by (simp add: r)
  have tcp: "sys Tcp at Bind_Socket = None \<and> (is_ipv6 (sa_ip at) \<longrightarrow> sys Tcp at Set_Only_V6 = None)"
    by (rule bind_tcp_Inr [OF b(1)])
  have udp: "sys Udp ta Bind_Socket = None \<and> (is_ipv6 (sa_ip ta) \<longrightarrow> sys Udp ta Set_Only_V6 = None)"
    by (rule bind_udp_Inr [OF b(3) [unfolded r]])
  show ?case using Cons.IH [OF b(5)] b(6,7) t u tcp udp by auto
qed simp

section \<open>Invariant\<close>

text \<open>A step appends answers and arrivals; only an arrival arrives.\<close>

lemma machine_step_account:
  assumes "machine_step dp ev s = Some s'"
  shows "(\<exists>as. mc_answers s' = mc_answers s @ as)
    \<and> (case ev of Arrive qid request _ _ _ _ \<Rightarrow>
         mc_arrived s' = (if qid \<in> set (map fst (mc_arrived s)) then mc_arrived s else mc_arrived s @ [(qid, request)])
       | _ \<Rightarrow> mc_arrived s' = mc_arrived s)"
  using assms by (cases ev) (auto simp: note_answer_def split: bind_splits outcome.splits option.splits if_splits)

definition front_ok :: "('n, 'net) front_event \<Rightarrow> bool" where
  "front_ok e \<longleftrightarrow> (case e of Proceed ev \<Rightarrow> event_ok ev | _ \<Rightarrow> True)"

definition front_inv :: "('n, 'net) deps \<Rightarrow> 'n codec \<Rightarrow> ('n, 'net) front \<Rightarrow> bool" where
  "front_inv dp cd s \<longleftrightarrow> machine_inv (fr_machine s)
     \<and> (\<forall>(q, peer, request) \<in> set (fr_udp s). (q, request) \<in> set (mc_arrived (fr_machine s)))
     \<and> distinct (map fst (fr_udp s))
     \<and> fr_sent s = List.map_filter (send_back dp cd (fr_udp s)) (mc_answers (fr_machine s))
     \<and> (\<forall>listener. connections listener (fr_conns s) \<le> MAX_TCP_CONNECTIONS)"

lemma map_filter_append': "List.map_filter f (xs @ ys) = List.map_filter f xs @ List.map_filter f ys"
  by (simp add: List.map_filter_def)

lemma map_filter_eq: "\<forall>x \<in> set xs. f x = g x \<Longrightarrow> List.map_filter f xs = List.map_filter g xs"
  by (induction xs) (auto split: option.split)

lemma proceed_total:
  assumes "deps_ok dp" "front_inv dp cd s" "event_ok ev"
  shows "\<exists>s'. proceed dp cd ev s = Some s' \<and> front_inv dp cd s'"
proof -
  have "machine_inv (fr_machine s)" using assms(2) by (simp add: front_inv_def)
  from machine_step_total [OF assms(1) this assms(3)] obtain m where
    m: "machine_step dp ev (fr_machine s) = Some m" "machine_inv m" by blast
  from machine_step_account [OF m(1)] obtain as where
    as: "mc_answers m = mc_answers (fr_machine s) @ as" "set (mc_arrived (fr_machine s)) \<subseteq> set (mc_arrived m)"
    by (cases ev) (auto split: if_splits)
  show ?thesis using m as assms(2) by (auto simp: proceed_def front_inv_def map_filter_append')
qed

lemma datagram_front:
  assumes "deps_ok dp" "front_inv dp cd s" "qid \<notin> set (map fst (mc_arrived (fr_machine s)))"
  shows "\<exists>s'. proceed dp cd (Arrive qid request ip now ts elapsed) (s\<lparr>fr_udp := (qid, peer, request) # fr_udp s\<rparr>) = Some s'
    \<and> front_inv dp cd s'"
proof -
  let ?u = "(qid, peer, request) # fr_udp s"
  from assms(2) have i: "machine_inv (fr_machine s)" by (simp add: front_inv_def)
  from machine_step_total [OF assms(1) i, of "Arrive qid request ip now ts elapsed"] obtain m where
    m: "machine_step dp (Arrive qid request ip now ts elapsed) (fr_machine s) = Some m" "machine_inv m"
    by (auto simp: event_ok_def simp del: machine_step.simps)
  from machine_step_account [OF m(1)] assms(3) obtain as where
    as: "mc_answers m = mc_answers (fr_machine s) @ as" "mc_arrived m = mc_arrived (fr_machine s) @ [(qid, request)]" by auto
  have "q \<noteq> qid" if "(q, r) \<in> set (mc_answers (fr_machine s))" for q r
    using i that assms(3) by (force simp: machine_inv_def)
  then have "List.map_filter (send_back dp cd ?u) (mc_answers (fr_machine s))
      = List.map_filter (send_back dp cd (fr_udp s)) (mc_answers (fr_machine s))"
    by (auto simp: send_back_def intro!: map_filter_eq)
  moreover have "qid \<notin> fst ` set (fr_udp s)" using assms(2,3) by (force simp: front_inv_def)
  ultimately show ?thesis using m as assms(2) by (auto simp: proceed_def front_inv_def map_filter_append')
qed

lemma connections_filter: "connections l (filter P cs) \<le> connections l cs"
  by (induction cs) (auto simp: connections_def)

lemma front_inv_conns:
  "front_inv dp cd s \<Longrightarrow> (\<And>l. connections l cs \<le> MAX_TCP_CONNECTIONS) \<Longrightarrow> front_inv dp cd (s\<lparr>fr_conns := cs\<rparr>)"
  by (simp add: front_inv_def)

lemma close_inv: "front_inv dp cd s \<Longrightarrow> front_inv dp cd (s\<lparr>fr_conns := filter P (fr_conns s)\<rparr>)"
proof (rule front_inv_conns)
  fix l
  assume "front_inv dp cd s"
  then have "connections l (fr_conns s) \<le> MAX_TCP_CONNECTIONS" by (simp add: front_inv_def)
  with connections_filter [of l P "fr_conns s"] show "connections l (filter P (fr_conns s)) \<le> MAX_TCP_CONNECTIONS" by simp
qed

lemma front_step_total:
  assumes "deps_ok dp" "front_inv dp cd s" "front_ok e"
  shows "\<exists>s'. front_step dp cd e s = Some s' \<and> front_inv dp cd s'"
proof (cases e)
  case (Datagram qid peer bytes now ts elapsed)
  then show ?thesis using datagram_front [OF assms(1,2)] assms(2) by (auto split: option.split)
next
  case (Accept listener conn peer)
  have "front_inv dp cd (s\<lparr>fr_conns := (listener, conn, peer) # fr_conns s\<rparr>)"
    if "accept_tcp dp peer (connections listener (fr_conns s)) (mc_pipe (fr_machine s))"
    using that assms(2) by (intro front_inv_conns) (auto simp: accept_tcp_def connections_def front_inv_def)
  then show ?thesis using Accept assms(2) by simp
next
  case (Tcp_Query conn qid bytes now ts elapsed)
  then show ?thesis
    using assms(2) close_inv [OF assms(2)] proceed_total [OF assms(1,2)] by (auto simp: event_ok_def split: option.split)
next
  case (Close conn)
  then show ?thesis using close_inv [OF assms(2)] by simp
next
  case (Proceed ev)
  then show ?thesis
    using assms(2,3) proceed_total [OF assms(1,2), of ev] by (cases ev) (simp_all add: front_ok_def)
next
  case Stop
  then show ?thesis using assms(2) by (simp add: front_inv_def)
qed

interpretation fe: total_system "front_step dp cd" front_ok "\<lambda>s. deps_ok dp \<and> front_inv dp cd s" for dp cd
  by unfold_locales (use front_step_total in fastforce)+

lemma front_start_inv: "started p \<Longrightarrow> front_inv dp cd (front_start p)"
  using started_inv [of p]
  by (simp add: front_inv_def front_start_def machine_start_def connections_def List.map_filter_def)

section \<open>Properties\<close>

text \<open>What a client receives for a datagram: the answer when it fits, else its truncated form.\<close>

definition carries :: "('n, 'net) deps \<Rightarrow> 'n codec \<Rightarrow> 'n message \<Rightarrow> 'n message \<Rightarrow> string \<Rightarrow> bool" where
  "carries dp cd request response bytes \<longleftrightarrow>
     (\<exists>full. cd_to_vec cd response = Some full
       \<and> (if length full \<le> max 512 (min (dp_max_payload dp request) 1232) then bytes = full
          else cd_to_vec cd (cd_truncate cd response) = Some bytes))"

lemma udp_reply_carries: "udp_reply dp (cd_to_vec cd) (cd_truncate cd) request response = Some bytes \<longleftrightarrow> carries dp cd request response bytes"
  by (auto simp: udp_reply_def carries_def udp_payload_limit_def split: option.split)

lemma in_sent:
  assumes "front_inv dp cd s"
  shows "(q, peer, bytes) \<in> set (fr_sent s) \<longleftrightarrow>
    (\<exists>request response. (q, peer, request) \<in> set (fr_udp s) \<and> (q, response) \<in> set (mc_answers (fr_machine s))
       \<and> carries dp cd request response bytes)"
proof -
  have "distinct (map fst (fr_udp s))" using assms by (simp add: front_inv_def)
  then have mo: "map_of (fr_udp s) q = Some (p, r) \<longleftrightarrow> (q, p, r) \<in> set (fr_udp s)" for p r by (rule map_of_eq_Some_iff)
  have sb: "send_back dp cd (fr_udp s) (q', response) = Some (q, peer, bytes) \<longleftrightarrow>
      q' = q \<and> (\<exists>request. map_of (fr_udp s) q = Some (peer, request) \<and> carries dp cd request response bytes)" for q' response
    by (auto simp: send_back_def udp_reply_carries split: option.splits)
  have "(q, peer, bytes) \<in> set (fr_sent s) \<longleftrightarrow>
      (\<exists>a \<in> set (mc_answers (fr_machine s)). send_back dp cd (fr_udp s) a = Some (q, peer, bytes))"
    using assms by (force simp: front_inv_def List.map_filter_def)
  also have "\<dots> \<longleftrightarrow> (\<exists>q' response. (q', response) \<in> set (mc_answers (fr_machine s))
      \<and> send_back dp cd (fr_udp s) (q', response) = Some (q, peer, bytes))" by force
  finally show ?thesis unfolding sb mo by blast
qed

lemma distinct_sent: "distinct (map fst as) \<Longrightarrow> distinct (map fst (List.map_filter (send_back dp cd udp) as))"
proof (induction as)
  case (Cons a as)
  have "fst b = fst a'" if "send_back dp cd udp a' = Some b" for a' b
    using that by (auto simp: send_back_def split: prod.splits option.splits)
  then have "fst ` set (List.map_filter (send_back dp cd udp) as) \<subseteq> fst ` set as"
    by (force simp: List.map_filter_def)
  with Cons \<open>\<And>a' b. send_back dp cd udp a' = Some b \<Longrightarrow> fst b = fst a'\<close> show ?case by (auto split: option.split)
qed (simp add: List.map_filter_def)

text \<open>C5: the front end answers the right client, once, within its limits.  Over any history of
  datagrams, connections, steps of the pipeline and a stop, nothing panics; every datagram sent goes to
  the peer of a request that arrived, carries the pipeline's answer to that request with its identifier
  and flags, whole when it fits the client's limit of 512 to 1232 bytes and truncated otherwise;
  no request gets two, and every answer that can be encoded was sent; every request has its answer, waits
  or was given up; and no listener has more than 128 connections.\<close>
theorem front_end_answers:
  assumes "deps_ok dp" and "started p" and "list_all front_ok es"
  shows "\<exists>s. run (front_step dp cd) es (front_start p) = Some s
    \<and> (\<forall>(q, peer, bytes) \<in> set (fr_sent s). \<exists>request response. (q, peer, request) \<in> set (fr_udp s)
         \<and> map_of (mc_arrived (fr_machine s)) q = Some request \<and> (q, response) \<in> set (mc_answers (fr_machine s))
         \<and> shaped request response \<and> carries dp cd request response bytes)
    \<and> distinct (map fst (fr_sent s))
    \<and> (\<forall>(q, peer, request) \<in> set (fr_udp s).
         q \<in> fst ` set (mc_answers (fr_machine s)) \<or> q \<in> fst ` set (pl_tasks (mc_pipe (fr_machine s))) \<or> q \<in> set (mc_cancelled (fr_machine s)))
    \<and> (\<forall>(q, response) \<in> set (mc_answers (fr_machine s)). \<forall>peer request bytes.
         (q, peer, request) \<in> set (fr_udp s) \<and> carries dp cd request response bytes \<longrightarrow> (q, peer, bytes) \<in> set (fr_sent s))
    \<and> (\<forall>listener. connections listener (fr_conns s) \<le> 128)"
proof -
  from fe.run_total [OF conjI [OF assms(1) front_start_inv [OF assms(2)]] assms(3)] obtain s where
    s: "run (front_step dp cd) es (front_start p) = Some s" "front_inv dp cd s" by blast
  from s(2) have m: "machine_inv (fr_machine s)"
    and u: "\<forall>(q, peer, request) \<in> set (fr_udp s). (q, request) \<in> set (mc_arrived (fr_machine s))" by (simp_all add: front_inv_def)
  from m have d: "distinct (map fst (mc_arrived (fr_machine s)))"
    and f: "fates (fr_machine s) = mset (map fst (mc_arrived (fr_machine s)))"
    and sh: "\<forall>(q, response) \<in> set (mc_answers (fr_machine s)). \<exists>r. (q, r) \<in> set (mc_arrived (fr_machine s)) \<and> shaped r response"
    by (simp_all add: machine_inv_def)
  have arrived: "map_of (mc_arrived (fr_machine s)) q = Some request \<and> shaped request response"
    if "(q, peer, request) \<in> set (fr_udp s)" "(q, response) \<in> set (mc_answers (fr_machine s))" for q peer request response
  proof -
    from sh that(2) obtain r where "(q, r) \<in> set (mc_arrived (fr_machine s))" "shaped r response" by blast
    moreover have "(q, request) \<in> set (mc_arrived (fr_machine s))" using u that(1) by blast
    ultimately show ?thesis using map_of_is_SomeI [OF d] by (metis option.inject)
  qed
  have "mset (map fst (mc_answers (fr_machine s)) @ map fst (pl_tasks (mc_pipe (fr_machine s))) @ mc_cancelled (fr_machine s))
      = mset (map fst (mc_arrived (fr_machine s)))" using f by (simp add: fates_def add.assoc)
  from mset_eq_imp_distinct_iff [OF this] d have "distinct (map fst (mc_answers (fr_machine s)))" by simp
  then have c2: "distinct (map fst (fr_sent s))" using s(2) distinct_sent by (simp add: front_inv_def)
  have c1: "\<exists>request response. (q, peer, request) \<in> set (fr_udp s)
      \<and> map_of (mc_arrived (fr_machine s)) q = Some request \<and> (q, response) \<in> set (mc_answers (fr_machine s))
      \<and> shaped request response \<and> carries dp cd request response bytes" if "(q, peer, bytes) \<in> set (fr_sent s)" for q peer bytes
    using that in_sent [OF s(2)] arrived by blast
  have c3: "q \<in> fst ` set (mc_answers (fr_machine s)) \<or> q \<in> fst ` set (pl_tasks (mc_pipe (fr_machine s))) \<or> q \<in> set (mc_cancelled (fr_machine s))"
    if "(q, peer, request) \<in> set (fr_udp s)" for q peer request
  proof -
    have "q \<in># fates (fr_machine s)" using u that unfolding f by force
    then show ?thesis by (auto simp: fates_def)
  qed
  have c4: "(q, peer, bytes) \<in> set (fr_sent s)"
    if "(q, response) \<in> set (mc_answers (fr_machine s))" "(q, peer, request) \<in> set (fr_udp s)" "carries dp cd request response bytes"
    for q response peer request bytes
    using that in_sent [OF s(2)] by blast
  have c5: "\<forall>listener. connections listener (fr_conns s) \<le> 128" using s(2) by (simp add: front_inv_def MAX_TCP_CONNECTIONS_def)
  show ?thesis
  proof (intro exI [of _ s] conjI s(1) c2 c5)
    show "\<forall>(q, peer, bytes) \<in> set (fr_sent s). \<exists>request response. (q, peer, request) \<in> set (fr_udp s)
        \<and> map_of (mc_arrived (fr_machine s)) q = Some request \<and> (q, response) \<in> set (mc_answers (fr_machine s))
        \<and> shaped request response \<and> carries dp cd request response bytes"
      by (clarify, rule c1)
    show "\<forall>(q, peer, request) \<in> set (fr_udp s). q \<in> fst ` set (mc_answers (fr_machine s))
        \<or> q \<in> fst ` set (pl_tasks (mc_pipe (fr_machine s))) \<or> q \<in> set (mc_cancelled (fr_machine s))"
      by (clarify, drule c3) blast
    show "\<forall>(q, response) \<in> set (mc_answers (fr_machine s)). \<forall>peer request bytes.
        (q, peer, request) \<in> set (fr_udp s) \<and> carries dp cd request response bytes \<longrightarrow> (q, peer, bytes) \<in> set (fr_sent s)"
      by (clarify, rule c4)
  qed
qed

section \<open>Witness\<close>

definition ex_codec :: "string codec" where
  "ex_codec = \<lparr>cd_from_vec = (\<lambda>b. if b = ''q'' then Some ex_request else None), cd_to_vec = (\<lambda>m. Some ''r''), cd_truncate = (\<lambda>m. m)\<rparr>"

definition ex_peer :: socket_addr where
  "ex_peer = \<lparr>sa_ip = ex_client, sa_port = 5000\<rparr>"

definition ex_traffic :: "(string, nat) front_event list" where
  "ex_traffic = [Datagram 1 ex_peer ''q'' 0 0 5, Datagram 2 ex_peer ''junk'' 0 0 5, Accept 0 7 ex_client, Stop]"

theorem front_end_answers_witness:
  "\<exists>(p :: (string, nat) pipeline) s. started p \<and> run (front_step ex_deps ex_codec) ex_traffic (front_start p) = Some s
    \<and> distinct (map fst (fr_sent s))"
proof -
  have "list_all front_ok ex_traffic" by (simp add: ex_traffic_def front_ok_def)
  with ex_started front_end_answers [OF ex_deps_ok] show ?thesis by blast
qed

end
