(* ===== verification/Report_Json.thy ===== *)
theory Report_Json
  imports Daemon
begin

text \<open>
  The JSON form of what the daemon publishes: the values \<open>serde\<close> derives for \<open>RuntimeReport\<close>,
  \<open>ReloadOutcome\<close>, \<open>ListReport\<close> (with its flattened, tagged \<open>ListOrigin\<close>), \<open>Degraded\<close> and
  \<open>PoolHealth\<close>, and the reading of a \<open>RuntimeReport\<close> back.

  A JSON value is a tree; objects are association lists.  The text of a value is the JSON library's.
  The reader has the derived behaviour on objects: unknown members are ignored, a missing optional
  member is \<^const>\<open>None\<close>, a missing, repeated or ill-typed member is an error.  The other spellings the
  derived code would also accept (a struct as an array, an enum variant as a number) are read as errors:
  the program never writes them.
\<close>

section \<open>Values\<close>

datatype json =
    JNull
  | JBool bool
  | JNum int
  | JFloat string
  | JStr string
  | JArr "json list"
  | JObj "(string \<times> json) list"

text \<open>\<open>Value::index\<close>, \<open>as_u64\<close>, \<open>as_str\<close>, \<open>as_array\<close>.\<close>

fun json_index :: "string \<Rightarrow> json \<Rightarrow> json" where
  "json_index k (JObj o') = (case map_of (rev o') k of Some v \<Rightarrow> v | None \<Rightarrow> JNull)"
| "json_index k _ = JNull"

fun as_u64 :: "json \<Rightarrow> nat option" where
  "as_u64 (JNum n) = (if 0 \<le> n \<and> n \<le> int u64_max then Some (nat n) else None)"
| "as_u64 _ = None"

fun as_i64 :: "json \<Rightarrow> int option" where
  "as_i64 (JNum n) = (if - (2 ^ 63) \<le> n \<and> n < 2 ^ 63 then Some n else None)"
| "as_i64 _ = None"

fun as_str :: "json \<Rightarrow> string option" where
  "as_str (JStr s) = Some s"
| "as_str _ = None"

fun as_bool :: "json \<Rightarrow> bool option" where
  "as_bool (JBool b) = Some b"
| "as_bool _ = None"

fun as_array :: "json \<Rightarrow> json list option" where
  "as_array (JArr xs) = Some xs"
| "as_array _ = None"

fun as_object :: "json \<Rightarrow> (string \<times> json) list option" where
  "as_object (JObj ms) = Some ms"
| "as_object _ = None"

definition u64_json :: "64 word \<Rightarrow> json" where
  "u64_json w = JNum (uint w)"

definition option_json :: "('a \<Rightarrow> json) \<Rightarrow> 'a option \<Rightarrow> json" where
  "option_json f x = (case x of None \<Rightarrow> JNull | Some a \<Rightarrow> f a)"

section \<open>Writing\<close>

text \<open>\<open>#[serde(tag = "origin", rename_all = "snake_case")]\<close>, flattened into the report.\<close>

fun origin_tag :: "list_origin \<Rightarrow> string" where
  "origin_tag Downloaded = ''downloaded''"
| "origin_tag NotModified = ''not_modified''"
| "origin_tag (StoredAfterFetchFailure _) = ''stored_after_fetch_failure''"
| "origin_tag (SeedAfterFetchFailure _) = ''seed_after_fetch_failure''"
| "origin_tag LocalFile = ''local_file''"
| "origin_tag StoredOffline = ''stored_offline''"
| "origin_tag SeedOffline = ''seed_offline''"

fun origin_reason :: "list_origin \<Rightarrow> (string \<times> json) list" where
  "origin_reason (StoredAfterFetchFailure reason) = [(''reason'', JStr reason)]"
| "origin_reason (SeedAfterFetchFailure reason) = [(''reason'', JStr reason)]"
| "origin_reason _ = []"

definition list_report_json :: "list_report \<Rightarrow> json" where
  "list_report_json r =
     JObj ([(''name'', JStr (lr_name r)), (''origin'', JStr (origin_tag (lr_origin r)))]
         @ origin_reason (lr_origin r)
         @ [(''rules'', JNum (int (lr_rules r))), (''issues'', JNum (int (lr_issues r))),
            (''verified_age_secs'', option_json (\<lambda>n. JNum (int n)) (lr_verified_age_secs r))])"

fun trigger_tag :: "trigger \<Rightarrow> string" where
  "trigger_tag Startup = ''startup''"
| "trigger_tag Signal = ''signal''"
| "trigger_tag Timer = ''timer''"

definition outcome_json :: "reload_outcome \<Rightarrow> json" where
  "outcome_json oc =
     JObj [(''ts'', JNum (ro_ts oc)), (''trigger'', JStr (trigger_tag (ro_trigger oc))), (''ok'', JBool (ro_ok oc)),
           (''error'', option_json JStr (ro_error oc)), (''duration_ms'', JNum (int (ro_duration_ms oc)))]"

definition runtime_json :: "runtime_report \<Rightarrow> json" where
  "runtime_json r =
     JObj [(''lists_loaded_ts'', JNum (rr_lists_loaded_ts r)), (''lists'', JArr (map list_report_json (rr_lists r))),
           (''lists_hash'', JStr (rr_lists_hash r)), (''applied_config_hash'', JStr (rr_applied_config_hash r)),
           (''last_reload'', option_json outcome_json (rr_last_reload r)),
           (''pending_restart'', JArr (map JStr (rr_pending_restart r))),
           (''next_refresh_ts'', JNum (rr_next_refresh_ts r))]"

definition degraded_json :: "degraded_reason \<Rightarrow> json" where
  "degraded_json d = JObj [(''reason'', JStr (dg_reason d)), (''detail'', JStr (dg_detail d)), (''next'', JStr (dg_next d))]"

definition upstream_health_json :: "upstream_health \<Rightarrow> json" where
  "upstream_health_json h =
     JObj [(''url'', JStr (uh_url h)), (''state'', JStr (uh_state h)), (''connected'', JBool (uh_connected h)),
           (''last_error'', option_json JStr (uh_last_error h)),
           (''last_success_secs_ago'', option_json (\<lambda>n. JNum (int n)) (uh_last_success_secs_ago h)),
           (''queries'', u64_json (uh_queries h)), (''failures'', u64_json (uh_failures h)),
           (''reconnects'', u64_json (uh_reconnects h)), (''consecutive_failures'', u64_json (uh_consecutive_failures h))]"

definition pool_health_json :: "pool_health_t \<Rightarrow> json" where
  "pool_health_json h =
     JObj [(''upstreams'', JArr (map upstream_health_json (ph_upstreams h))), (''resolved'', u64_json (ph_resolved h)),
           (''all_failed_total'', u64_json (ph_all_failed_total h)),
           (''consecutive_all_failed'', u64_json (ph_consecutive_all_failed h))]"

section \<open>Reading\<close>

text \<open>A member of an object: an error when it is repeated, \<^term>\<open>Some None\<close> when it is missing.\<close>

definition member :: "string \<Rightarrow> (string \<times> json) list \<Rightarrow> json option option" where
  "member k ms = (case filter (\<lambda>(k', _). k' = k) ms of [] \<Rightarrow> Some None | [(_, v)] \<Rightarrow> Some (Some v) | _ \<Rightarrow> None)"

definition required :: "(json \<Rightarrow> 'a option) \<Rightarrow> string \<Rightarrow> (string \<times> json) list \<Rightarrow> 'a option" where
  "required dec k ms = do { m \<leftarrow> member k ms; v \<leftarrow> m; dec v }"

definition optional :: "(json \<Rightarrow> 'a option) \<Rightarrow> string \<Rightarrow> (string \<times> json) list \<Rightarrow> 'a option option" where
  "optional dec k ms = do {
     m \<leftarrow> member k ms;
     (case m of None \<Rightarrow> Some None | Some v \<Rightarrow> if v = JNull then Some None else map_option Some (dec v))
   }"

definition list_of :: "(json \<Rightarrow> 'a option) \<Rightarrow> json \<Rightarrow> 'a list option" where
  "list_of dec v = do { xs \<leftarrow> as_array v; those (map dec xs) }"

definition origin_of :: "(string \<times> json) list \<Rightarrow> list_origin option" where
  "origin_of ms = do {
     tag \<leftarrow> required as_str ''origin'' ms;
     if tag = ''downloaded'' then Some Downloaded
     else if tag = ''not_modified'' then Some NotModified
     else if tag = ''stored_after_fetch_failure'' then map_option StoredAfterFetchFailure (required as_str ''reason'' ms)
     else if tag = ''seed_after_fetch_failure'' then map_option SeedAfterFetchFailure (required as_str ''reason'' ms)
     else if tag = ''local_file'' then Some LocalFile
     else if tag = ''stored_offline'' then Some StoredOffline
     else if tag = ''seed_offline'' then Some SeedOffline
     else None
   }"

definition list_report_of :: "json \<Rightarrow> list_report option" where
  "list_report_of v = do {
     ms \<leftarrow> as_object v;
     name \<leftarrow> required as_str ''name'' ms;
     origin \<leftarrow> origin_of ms;
     rules \<leftarrow> required as_u64 ''rules'' ms;
     issues \<leftarrow> required as_u64 ''issues'' ms;
     age \<leftarrow> optional as_u64 ''verified_age_secs'' ms;
     Some \<lparr>lr_name = name, lr_origin = origin, lr_rules = rules, lr_issues = issues, lr_verified_age_secs = age\<rparr>
   }"

definition trigger_of :: "json \<Rightarrow> trigger option" where
  "trigger_of v = do {
     s \<leftarrow> as_str v;
     if s = ''startup'' then Some Startup else if s = ''signal'' then Some Signal
     else if s = ''timer'' then Some Timer else None
   }"

definition outcome_of_json :: "json \<Rightarrow> reload_outcome option" where
  "outcome_of_json v = do {
     ms \<leftarrow> as_object v;
     ts \<leftarrow> required as_i64 ''ts'' ms;
     trigger \<leftarrow> required trigger_of ''trigger'' ms;
     ok \<leftarrow> required as_bool ''ok'' ms;
     error \<leftarrow> optional as_str ''error'' ms;
     duration_ms \<leftarrow> required as_u64 ''duration_ms'' ms;
     Some \<lparr>ro_ts = ts, ro_trigger = trigger, ro_ok = ok, ro_error = error, ro_duration_ms = duration_ms\<rparr>
   }"

definition runtime_of :: "json \<Rightarrow> runtime_report option" where
  "runtime_of v = do {
     ms \<leftarrow> as_object v;
     lists_loaded_ts \<leftarrow> required as_i64 ''lists_loaded_ts'' ms;
     lists \<leftarrow> required (list_of list_report_of) ''lists'' ms;
     lists_hash \<leftarrow> required as_str ''lists_hash'' ms;
     applied_config_hash \<leftarrow> required as_str ''applied_config_hash'' ms;
     last_reload \<leftarrow> optional outcome_of_json ''last_reload'' ms;
     pending_restart \<leftarrow> required (list_of as_str) ''pending_restart'' ms;
     next_refresh_ts \<leftarrow> required as_i64 ''next_refresh_ts'' ms;
     Some \<lparr>rr_lists_loaded_ts = lists_loaded_ts, rr_lists = lists, rr_lists_hash = lists_hash,
           rr_applied_config_hash = applied_config_hash, rr_last_reload = last_reload,
           rr_pending_restart = pending_restart, rr_next_refresh_ts = next_refresh_ts\<rparr>
   }"

text \<open>\<open>RuntimeReport::default\<close>.\<close>

definition runtime_default :: runtime_report where
  "runtime_default = \<lparr>rr_lists_loaded_ts = 0, rr_lists = [], rr_lists_hash = [], rr_applied_config_hash = [],
     rr_last_reload = None, rr_pending_restart = [], rr_next_refresh_ts = 0\<rparr>"

section \<open>Round trip\<close>

named_theorems json_simps

lemma member_Nil [json_simps]: "member k [] = Some None"
  by (simp add: member_def)

lemma member_other [json_simps]: "k' \<noteq> k \<Longrightarrow> member k ((k', v) # ms) = member k ms"
  by (simp add: member_def)

lemma member_this [json_simps]: "k \<notin> fst ` set ms \<Longrightarrow> member k ((k, v) # ms) = Some (Some v)"
proof -
  assume "k \<notin> fst ` set ms"
  then have "filter (\<lambda>(k', _). k' = k) ms = []" by (force simp: filter_empty_conv)
  then show ?thesis by (simp add: member_def)
qed

lemma those_map: "(\<And>x. x \<in> set xs \<Longrightarrow> dec (enc x) = Some x) \<Longrightarrow> those (map dec (map enc xs)) = Some xs"
  by (induction xs) simp_all

lemma list_of_map: "(\<And>x. x \<in> set xs \<Longrightarrow> dec (enc x) = Some x) \<Longrightarrow> list_of dec (JArr (map enc xs)) = Some xs"
  unfolding list_of_def as_array.simps Option.bind.bind_lunit by (rule those_map)

text \<open>Numbers within the range of their Rust types.\<close>

definition i64_ok :: "int \<Rightarrow> bool" where
  "i64_ok n \<longleftrightarrow> - (2 ^ 63) \<le> n \<and> n < 2 ^ 63"

definition list_report_wf :: "list_report \<Rightarrow> bool" where
  "list_report_wf r \<longleftrightarrow> lr_rules r \<le> u64_max \<and> lr_issues r \<le> u64_max \<and> (\<forall>a. lr_verified_age_secs r = Some a \<longrightarrow> a \<le> u64_max)"

definition outcome_wf :: "reload_outcome \<Rightarrow> bool" where
  "outcome_wf oc \<longleftrightarrow> i64_ok (ro_ts oc) \<and> ro_duration_ms oc \<le> u64_max"

definition runtime_wf :: "runtime_report \<Rightarrow> bool" where
  "runtime_wf r \<longleftrightarrow> i64_ok (rr_lists_loaded_ts r) \<and> i64_ok (rr_next_refresh_ts r)
     \<and> (\<forall>l \<in> set (rr_lists r). list_report_wf l) \<and> (\<forall>oc. rr_last_reload r = Some oc \<longrightarrow> outcome_wf oc)"

lemma as_u64_nat [json_simps]: "n \<le> u64_max \<Longrightarrow> as_u64 (JNum (int n)) = Some n"
  by simp

lemma as_i64_ok [json_simps]: "i64_ok n \<Longrightarrow> as_i64 (JNum n) = Some n"
  by (simp add: i64_ok_def)

lemma list_report_roundtrip:
  assumes "list_report_wf r"
  shows "list_report_of (list_report_json r) = Some r"
proof -
  have n: "lr_rules r \<le> u64_max" "lr_issues r \<le> u64_max" "\<And>a. lr_verified_age_secs r = Some a \<Longrightarrow> a \<le> u64_max"
    using assms by (auto simp: list_report_wf_def)
  show ?thesis
    by (cases r; cases "lr_origin r"; cases "lr_verified_age_secs r")
      (use n in \<open>simp_all del: as_u64.simps add: list_report_of_def list_report_json_def required_def optional_def origin_of_def
         option_json_def json_simps\<close>)
qed

lemma outcome_roundtrip:
  assumes "outcome_wf oc"
  shows "outcome_of_json (outcome_json oc) = Some oc"
  using assms
  by (cases oc; cases "ro_trigger oc"; cases "ro_error oc")
    (simp_all del: as_u64.simps as_i64.simps add: outcome_wf_def outcome_of_json_def outcome_json_def required_def optional_def
       option_json_def trigger_of_def json_simps)

lemma outcome_json_not_null [simp]: "outcome_json oc \<noteq> JNull"
  by (simp add: outcome_json_def)

lemma runtime_roundtrip_lemma:
  assumes "runtime_wf r"
  shows "runtime_of (runtime_json r) = Some r"
proof -
  have l: "list_of list_report_of (JArr (map list_report_json (rr_lists r))) = Some (rr_lists r)"
    using assms by (intro list_of_map list_report_roundtrip) (auto simp: runtime_wf_def)
  have p: "list_of as_str (JArr (map JStr (rr_pending_restart r))) = Some (rr_pending_restart r)"
    by (rule list_of_map) simp
  have t: "i64_ok (rr_lists_loaded_ts r)" "i64_ok (rr_next_refresh_ts r)" using assms by (simp_all add: runtime_wf_def)
  have o': "rr_last_reload r = Some oc \<Longrightarrow> outcome_of_json (outcome_json oc) = Some oc" for oc
    using assms by (auto simp: runtime_wf_def intro: outcome_roundtrip)
  show ?thesis
    by (cases "rr_last_reload r")
      (use t o' in \<open>simp_all del: as_i64.simps add: runtime_of_def runtime_json_def required_def optional_def option_json_def
         json_simps l p\<close>)
qed

end
