(* ===== verification/Cli.thy ===== *)
theory Cli
  imports Report_Json Rust_Fmt
begin

text \<open>
  The command line of \<open>crates/cli/src\<close>: the output envelope and exit codes, and the commands
  \<open>check\<close>, \<open>explain\<close>, \<open>init\<close>, \<open>log\<close>, \<open>stats\<close> and \<open>shadow report\<close>.

  What a command prints and its exit code are its result.  The result of \<open>Config::load\<close> is the
  argument \<open>loaded\<close>; the record \<open>cenv\<close> holds the display forms of errors, the contents of
  the database file, the JSON library's writer and reader, the order SQLite leaves open and the
  failure, if any, to start the asynchronous runtime.  Argument parsing is the library's.
\<close>

section \<open>Output\<close>

definition SCHEMA :: string where "SCHEMA = ''v1''"
definition HEARTBEAT_FRESH_SECS :: int where "HEARTBEAT_FRESH_SECS = 150"

datatype cli_output = NoOutput | JsonLine json | HumanLine string | ErrorLine string

type_synonym cli_result = "cli_output \<times> nat"

text \<open>The payload of every caller is an object; \<open>payload\<close> are its members.\<close>

definition emit_code :: "bool \<Rightarrow> string \<Rightarrow> (string \<times> json) list \<Rightarrow> string \<Rightarrow> nat \<Rightarrow> cli_result" where
  "emit_code json_mode command payload human code =
     (if json_mode
      then JsonLine (JObj (AList.update ''command'' (JStr command) (AList.update ''schema'' (JStr SCHEMA) payload)))
      else if human \<noteq> [] then HumanLine human else NoOutput,
      code)"

definition emit :: "bool \<Rightarrow> string \<Rightarrow> (string \<times> json) list \<Rightarrow> string \<Rightarrow> cli_result" where
  "emit json_mode command payload human = emit_code json_mode command payload human 0"

definition fail :: "bool \<Rightarrow> string \<Rightarrow> string \<Rightarrow> nat \<Rightarrow> cli_result" where
  "fail json_mode command message code =
     (if json_mode
      then JsonLine (JObj [(''schema'', JStr SCHEMA), (''command'', JStr command), (''error'', JStr message)])
      else ErrorLine (''error: '' @ message),
      code)"

section \<open>Shared plumbing\<close>

record ('net, 'io, 'pe) cenv =
  ce_daemon :: "('net, 'io, 'pe) denv"
  ce_show_config :: "('io, 'pe) config_error \<Rightarrow> string"
  ce_show_db :: "db_error \<Rightarrow> string"
  ce_show_list :: "list_error \<Rightarrow> string"
  ce_conn :: "string \<Rightarrow> sql_error + database"
  ce_order :: "(string \<times> nat) list \<Rightarrow> (string \<times> nat) list"
  ce_wide :: "string \<Rightarrow> string"
  ce_print :: "json \<Rightarrow> string"
  ce_parse :: "string \<Rightarrow> json option"
  ce_runtime :: "string option"

definition load_config ::
    "('net, 'io, 'pe) cenv \<Rightarrow> ('io, 'pe) config_error + 'net config \<Rightarrow> string + 'net config" where
  "load_config ce loaded = (case loaded of Inl e \<Rightarrow> Inl (ce_show_config ce e) | Inr c \<Rightarrow> Inr c)"

definition open_db :: "('net, 'io, 'pe) cenv \<Rightarrow> 'net config \<Rightarrow> string + database" where
  "open_db ce cfg =
     (let path = db_path (cfg_database cfg) in
      case db_open path (ce_conn ce path) of Inl e \<Rightarrow> Inl (ce_show_db ce e) | Inr (d, _) \<Rightarrow> Inr d)"

text \<open>The prologue of the commands that read the database.\<close>

definition with_db ::
    "('net, 'io, 'pe) cenv \<Rightarrow> ('io, 'pe) config_error + 'net config \<Rightarrow> bool \<Rightarrow> string
       \<Rightarrow> ('net config \<Rightarrow> database \<Rightarrow> cli_result) \<Rightarrow> cli_result" where
  "with_db ce loaded json command k =
     (case load_config ce loaded of
        Inl e \<Rightarrow> fail json command e 1
      | Inr cfg \<Rightarrow> (case open_db ce cfg of Inl e \<Rightarrow> fail json command e 1 | Inr d \<Rightarrow> k cfg d))"

text \<open>An offline load of the configured lists, as \<open>check\<close> and \<open>explain\<close> make it.\<close>

definition offline_load ::
    "('net, 'io, 'pe) cenv \<Rightarrow> nat \<Rightarrow> 'net config \<Rightarrow> file_system \<Rightarrow> (list_error + loaded_lists) option" where
  "offline_load ce now cfg fs =
     map_option fst (lists_load (de_srt (ce_daemon ce)) (de_sha256 (ce_daemon ce)) (de_io (ce_daemon ce))
       (de_utf8_lossy (ce_daemon ce)) None now (fc_list_dir (cfg_filtering cfg)) (effective_lists cfg) fs)"

section \<open>\<open>check\<close>\<close>

record check_report =
  cr_lists :: "string list"
  cr_rule_counts :: "nat list"
  cr_issues :: nat
  cr_lists_hash :: string
  cr_config_hash :: string

definition check_validate ::
    "('net, 'io, 'pe) cenv \<Rightarrow> nat \<Rightarrow> ('io, 'pe) config_error + 'net config \<Rightarrow> file_system \<Rightarrow> (string + check_report) option" where
  "check_validate ce now loaded fs =
     (case load_config ce loaded of
        Inl e \<Rightarrow> Some (Inl e)
      | Inr cfg \<Rightarrow>
          (case ce_runtime ce of
             Some e \<Rightarrow> Some (Inl e)
           | None \<Rightarrow> do {
               r \<leftarrow> offline_load ce now cfg fs;
               (case r of
                  Inl e \<Rightarrow> Some (Inl (ce_show_list ce e))
                | Inr l \<Rightarrow> do {
                    hash \<leftarrow> config_hash (de_toml (ce_daemon ce)) (de_sha256 (ce_daemon ce)) cfg;
                    Some (Inr \<lparr>cr_lists = ll_names l, cr_rule_counts = map lr_rules (ll_reports l),
                               cr_issues = length (ll_issues l), cr_lists_hash = ll_hash l, cr_config_hash = hash\<rparr>)
                  })
             }))"

definition nums_json :: "nat list \<Rightarrow> json" where
  "nums_json ns = JArr (map (\<lambda>n. JNum (int n)) ns)"

definition strs_json :: "string list \<Rightarrow> json" where
  "strs_json ss = JArr (map JStr ss)"

definition check_run ::
    "('net, 'io, 'pe) cenv \<Rightarrow> nat \<Rightarrow> ('io, 'pe) config_error + 'net config \<Rightarrow> bool \<Rightarrow> file_system \<Rightarrow> cli_result option" where
  "check_run ce now loaded json fs = do {
     r \<leftarrow> check_validate ce now loaded fs;
     Some (case r of
       Inr report \<Rightarrow>
         (let total = sum_list (cr_rule_counts report) in
          emit json ''check''
            [(''valid'', JBool True), (''lists'', strs_json (cr_lists report)), (''rule_counts'', nums_json (cr_rule_counts report)),
             (''total_rules'', JNum (int total)), (''parse_issues'', JNum (int (cr_issues report))),
             (''lists_hash'', JStr (cr_lists_hash report)), (''config_hash'', JStr (cr_config_hash report))]
            (''config OK: '' @ show_nat (length (cr_lists report)) @ '' lists, '' @ show_nat total @ '' rules, ''
               @ show_nat (cr_issues report) @ '' parse issues''))
     | Inl e \<Rightarrow> fail json ''check'' e 1)
   }"

section \<open>\<open>explain\<close>\<close>

definition plausible_domain :: "string \<Rightarrow> bool" where
  "plausible_domain domain \<longleftrightarrow> domain \<noteq> [] \<and> length domain \<le> 254
     \<and> list_all (\<lambda>b. is_ascii_alphanumeric b \<or> b = CHR ''-'' \<or> b = CHR ''_'' \<or> b = CHR ''.'' \<or> b = CHR ''*'') domain"

definition stale_warning_text :: string where
  "stale_warning_text = ''list hash differs from the daemon's heartbeat: the daemon may be ''
     @ ''filtering with a different rule set than this verdict''"

fun verdict_report :: "verdict_t \<Rightarrow> string \<times> string option \<times> nat option \<times> nat" where
  "verdict_report NoMatch = (''no-match'', None, None, 0)"
| "verdict_report (Block l r) = (''blocked'', Some (mr_text r), Some l, 3)"
| "verdict_report (Except l r) = (''excepted'', Some (mr_text r), Some l, 4)"

text \<open>The report on a loaded engine; \<open>names[l]\<close> out of range is a panic.\<close>

definition explain_report ::
    "bool \<Rightarrow> string \<Rightarrow> loaded_lists \<Rightarrow> string option \<Rightarrow> cli_result option" where
  "explain_report json domain loaded daemon_hash = do {
     let hash_match = map_option (\<lambda>h. h = ll_hash loaded) daemon_hash;
     let stale_warning = (if hash_match = Some False then Some stale_warning_text else None);
     v \<leftarrow> verdict (ll_engine loaded) domain;
     let (verdict_str, rule, list, code) = verdict_report v;
     list_name \<leftarrow> (case list of None \<Rightarrow> Some None | Some l \<Rightarrow> map_option Some (nth_opt (ll_names loaded) l));
     Some (emit_code json ''explain''
       [(''domain'', JStr domain), (''verdict'', JStr verdict_str), (''rule'', option_json JStr rule),
        (''list'', option_json JStr list_name), (''lists_hash'', JStr (ll_hash loaded)),
        (''daemon_lists_hash'', option_json JStr daemon_hash), (''hash_match'', option_json JBool hash_match),
        (''warning'', option_json JStr stale_warning)]
       ((case (rule, list_name) of
           (Some r, Some l) \<Rightarrow> domain @ '': '' @ verdict_str @ '' by '' @ [CHR 0x60] @ r @ [CHR 0x60] @ '' (list '' @ l @ '')''
         | _ \<Rightarrow> domain @ '': '' @ verdict_str)
        @ (case stale_warning of Some w \<Rightarrow> [CHR 0x0A] @ ''warning: '' @ w | None \<Rightarrow> []))
       code)
   }"

definition explain_run ::
    "('net, 'io, 'pe) cenv \<Rightarrow> nat \<Rightarrow> ('io, 'pe) config_error + 'net config \<Rightarrow> bool \<Rightarrow> string \<Rightarrow> file_system \<Rightarrow> cli_result option" where
  "explain_run ce now loaded json domain fs =
     (if \<not> plausible_domain domain
      then Some (fail json ''explain'' (debug_str (ce_wide ce) domain @ '' is not a plausible DNS name'') 2)
      else
        (case load_config ce loaded of
           Inl e \<Rightarrow> Some (fail json ''explain'' e 1)
         | Inr cfg \<Rightarrow>
             (case ce_runtime ce of
                Some e \<Rightarrow> Some (fail json ''explain'' e 1)
              | None \<Rightarrow> do {
                  r \<leftarrow> offline_load ce now cfg fs;
                  (case r of
                     Inl e \<Rightarrow> Some (fail json ''explain'' (ce_show_list ce e) 1)
                   | Inr l \<Rightarrow>
                       explain_report json domain l
                         (case open_db ce cfg of Inl _ \<Rightarrow> None | Inr d \<Rightarrow> map_option hb_lists_hash (read_heartbeat d)))
                })))"

section \<open>\<open>init\<close>\<close>

definition path_exists :: "string \<Rightarrow> file_system \<Rightarrow> bool" where
  "path_exists p fs \<longleftrightarrow> is_file p fs \<or> is_dir p fs"

definition init_run ::
    "io \<Rightarrow> nat \<Rightarrow> string \<Rightarrow> bool \<Rightarrow> string \<Rightarrow> string option \<Rightarrow> bool \<Rightarrow> file_system \<Rightarrow> cli_result \<times> file_system" where
  "init_run io now config json profile out force fs =
     (case (if profile = ''minimal'' then Some Minimal else if profile = ''balanced'' then Some Balanced
            else if profile = ''strict'' then Some Strict else None) of
        None \<Rightarrow> (fail json ''init'' (''unknown profile '' @ profile) 2, fs)
      | Some p \<Rightarrow>
          (let target = (case out of Some t \<Rightarrow> t | None \<Rightarrow> config) in
           if path_exists target fs \<and> \<not> force
           then (fail json ''init'' (target @ '' exists; pass --force to overwrite'') 6, fs)
           else (case fs_write io now target (starter_config p) fs of
                   (Some e, fs1) \<Rightarrow> (fail json ''init'' (''cannot write '' @ target @ '': '' @ io_show io e) 1, fs1)
                 | (None, fs1) \<Rightarrow>
                     (emit json ''init'' [(''written'', JStr target), (''profile'', JStr profile)] (''wrote '' @ target), fs1))))"

section \<open>\<open>log\<close>, \<open>stats\<close>, \<open>shadow report\<close>\<close>

definition log_entry_json :: "query_record \<Rightarrow> json" where
  "log_entry_json r =
     JObj [(''ts'', JNum (qr_ts r)), (''client'', JStr (show_ip (qr_client r))), (''qname'', JStr (qr_qname r)),
           (''qtype'', JNum (int (qr_qtype r))), (''verdict'', JStr (verdict_as_str (qr_verdict r))),
           (''rule'', option_json JStr (qr_rule r)), (''list'', option_json (\<lambda>n. JNum (int n)) (qr_list r)),
           (''source'', JStr (source_as_str (qr_source r))), (''rcode'', JNum (int (qr_rcode r))),
           (''duration_us'', JNum (int (qr_duration_us r)))]"

definition log_line :: "query_record \<Rightarrow> string" where
  "log_line r = show_int (qr_ts r) @ '' '' @ show_ip (qr_client r) @ '' '' @ qr_qname r @ '' '' @ verdict_as_str (qr_verdict r)
     @ '' ('' @ source_as_str (qr_source r) @ '', rcode '' @ show_nat (qr_rcode r) @ '')''"

definition log_run ::
    "('net, 'io, 'pe) cenv \<Rightarrow> ('io, 'pe) config_error + 'net config \<Rightarrow> bool \<Rightarrow> nat \<Rightarrow> cli_result" where
  "log_run ce loaded json limit =
     with_db ce loaded json ''log'' (\<lambda>cfg d.
       (case recent_queries limit d of
          Inl e \<Rightarrow> fail json ''log'' (ce_show_db ce e) 1
        | Inr rows \<Rightarrow>
            emit json ''log'' [(''entries'', JArr (map log_entry_json rows))] (join [CHR 0x0A] (map log_line rows))))"

definition pairs_json :: "(string \<times> nat) list \<Rightarrow> json" where
  "pairs_json ps = JArr (map (\<lambda>(s, n). JArr [JStr s, JNum (int n)]) ps)"

definition stats_run ::
    "('net, 'io, 'pe) cenv \<Rightarrow> ('io, 'pe) config_error + 'net config \<Rightarrow> int \<Rightarrow> bool \<Rightarrow> nat \<Rightarrow> cli_result" where
  "stats_run ce loaded now json hours =
     with_db ce loaded json ''stats'' (\<lambda>cfg d.
       (let st = db_stats_since (ce_order ce) (now - int hours * 3600) d in
        emit json ''stats''
          [(''window_hours'', JNum (int hours)), (''total'', JNum (int (st_total st))), (''blocked'', JNum (int (st_blocked st))),
           (''excepted'', JNum (int (st_excepted st))), (''rewritten'', JNum (int (st_rewritten st))),
           (''cache_hits'', JNum (int (st_cache_hits st))), (''stale_hits'', JNum (int (st_stale_hits st))),
           (''upstream_failures'', JNum (int (st_upstream_failures st))), (''failure_cached'', JNum (int (st_failure_cached st))),
           (''top_queried'', pairs_json (st_top_queried st)), (''top_blocked'', pairs_json (st_top_blocked st))]
          (''last '' @ show_nat hours @ ''h: '' @ show_nat (st_total st) @ '' queries, '' @ show_nat (st_blocked st) @ '' blocked, ''
             @ show_nat (st_excepted st) @ '' excepted, '' @ show_nat (st_rewritten st) @ '' safe-search rewrites, ''
             @ show_nat (st_cache_hits st) @ '' cache hits, '' @ show_nat (st_stale_hits st) @ '' stale hits, ''
             @ show_nat (st_upstream_failures st) @ '' upstream failures, '' @ show_nat (st_failure_cached st) @ '' held failures'')))"

definition divergence_json :: "divergence_row \<Rightarrow> json" where
  "divergence_json d =
     JObj [(''ts'', JNum (dv_ts d)), (''qname'', JStr (dv_qname d)), (''qtype'', JNum (int (dv_qtype d))),
           (''ours'', JStr (dv_ours d)), (''theirs'', JStr (dv_theirs d)), (''class'', JStr (dv_class d))]"

definition shadow_report_run ::
    "('net, 'io, 'pe) cenv \<Rightarrow> ('io, 'pe) config_error + 'net config \<Rightarrow> int \<Rightarrow> bool \<Rightarrow> nat \<Rightarrow> nat \<Rightarrow> cli_result" where
  "shadow_report_run ce loaded now json hours limit =
     with_db ce loaded json ''shadow-report'' (\<lambda>cfg d.
       (let summary = divergence_summary (ce_order ce) (now - int hours * 3600) d;
            recent = recent_divergences limit d;
            unexpected = sum_list (map snd (filter (\<lambda>(class, _). class \<noteq> ''expected'') summary)) in
        emit json ''shadow-report''
          [(''window_hours'', JNum (int hours)), (''summary'', pairs_json summary), (''unexpected'', JNum (int unexpected)),
           (''recent'', JArr (map divergence_json recent))]
          (''divergences in the last '' @ show_nat hours @ ''h:'' @ (if summary = [] then '' none'' else [])
             @ concat (map (\<lambda>(class, n). [CHR 0x0A] @ ''  '' @ class @ '': '' @ show_nat n) summary)
             @ [CHR 0x0A] @ ''unexpected total: '' @ show_nat unexpected)))"

end
