(* ===== verification/Cli_Status.thy ===== *)
theory Cli_Status
  imports Cli
begin

text \<open>
  The commands that ask about or act on the running daemon, \<open>crates/cli/src/commands/status.rs\<close>
  and \<open>reload.rs\<close>.  They see the daemon only through the database: the heartbeat row, and the
  counters and the runtime report next to it.
\<close>

section \<open>\<open>status\<close>\<close>

definition upstream_line :: "(json \<Rightarrow> string) \<Rightarrow> json \<Rightarrow> string" where
  "upstream_line print entry =
     (let answered = (case as_u64 (json_index ''last_success_secs_ago'' entry) of
            None \<Rightarrow> ''never answered'' | Some s \<Rightarrow> ''last answer '' @ show_nat s @ ''s ago'') in
      [CHR 0x0A] @ ''upstream '' @ (case as_str (json_index ''url'' entry) of Some u \<Rightarrow> u | None \<Rightarrow> ''?'')
        @ '' ('' @ answered @ '', '' @ print (json_index ''queries'' entry) @ '' queries, ''
        @ print (json_index ''failures'' entry) @ '' failures, '' @ print (json_index ''reconnects'' entry) @ '' reconnects)'')"

definition running_text ::
    "(json \<Rightarrow> string) \<Rightarrow> heartbeat \<Rightarrow> int \<Rightarrow> json \<Rightarrow> json \<Rightarrow> json \<Rightarrow> json \<Rightarrow> string" where
  "running_text print hb age pool upstreams events_dropped events_dropped_recent =
     ''running: pid '' @ show_nat (hb_pid hb) @ '' (heartbeat '' @ show_int age @ ''s ago)'' @ [CHR 0x0A]
     @ ''config '' @ hb_config_hash hb @ [CHR 0x0A] @ ''lists  '' @ hb_lists_hash hb
     @ (case as_array upstreams of Some entries \<Rightarrow> concat (map (upstream_line print) entries) | None \<Rightarrow> [])
     @ (case as_u64 (json_index ''consecutive_all_failed'' pool) of
          Some stuck \<Rightarrow>
            if stuck > 0
            then [CHR 0x0A] @ ''ERROR: every upstream is failing ('' @ show_nat stuck @ '' consecutive queries unanswered)''
            else []
        | None \<Rightarrow> [])
     @ (case as_u64 events_dropped_recent of
          Some n \<Rightarrow>
            if n > 0
            then [CHR 0x0A] @ ''WARNING: '' @ show_nat n @ '' query-log events dropped since the last sample''
            else (case as_u64 events_dropped of
              Some n \<Rightarrow> if n > 0 then [CHR 0x0A] @ ''note: '' @ show_nat n @ '' query-log events dropped since start'' else []
            | None \<Rightarrow> [])
        | None \<Rightarrow> (case as_u64 events_dropped of
              Some n \<Rightarrow> if n > 0 then [CHR 0x0A] @ ''note: '' @ show_nat n @ '' query-log events dropped since start'' else []
            | None \<Rightarrow> []))"

definition runtime_text :: "runtime_report \<Rightarrow> degraded_reason list \<Rightarrow> string" where
  "runtime_text runtime reasons =
     concat (map (\<lambda>l. [CHR 0x0A] @ ''list '' @ lr_name l @ '' ('' @ origin_as_str (lr_origin l) @ '', '' @ show_nat (lr_rules l)
         @ '' rules'' @ (case lr_verified_age_secs l of Some s \<Rightarrow> '', confirmed '' @ show_nat (s div 3600) @ '' h ago'' | None \<Rightarrow> [])
         @ '')'') (rr_lists runtime))
   @ concat (map (\<lambda>r. [CHR 0x0A] @ ''DEGRADED '' @ dg_reason r @ '': '' @ dg_detail r @ '' (next: '' @ dg_next r @ '')'') reasons)"

definition never_ran :: "(string \<times> json) list" where
  "never_ran =
     [(''running'', JBool False), (''degraded'', JBool False), (''degraded_reasons'', JArr [])]
     @ map (\<lambda>k. (k, JNull))
         [''lists'', ''last_reload'', ''pending_restart'', ''next_refresh_ts'', ''pid'', ''started_ts'', ''updated_ts'',
          ''heartbeat_age_secs'', ''config_hash'', ''lists_hash'', ''log_events_dropped'', ''log_events_dropped_recent'',
          ''upstreams'', ''queries_resolved'', ''queries_all_upstreams_failed'', ''consecutive_all_upstreams_failed'']"

text \<open>What \<open>status\<close> makes of the two rows.\<close>

definition status_report ::
    "('net, 'io, 'pe) cenv \<Rightarrow> bool \<Rightarrow> int \<Rightarrow> heartbeat option \<Rightarrow> daemon_stats option \<Rightarrow> cli_result" where
  "status_report ce json now hb stats =
     (let pool = (case stats of None \<Rightarrow> JNull
                  | Some s \<Rightarrow> (case ce_parse ce (ds_upstreams_json s) of Some v \<Rightarrow> v | None \<Rightarrow> JNull));
          upstreams = json_index ''upstreams'' pool;
          events_dropped = (case stats of None \<Rightarrow> JNull | Some s \<Rightarrow> u64_json (ds_log_events_dropped s));
          events_dropped_recent = (case stats of None \<Rightarrow> JNull | Some s \<Rightarrow> u64_json (ds_log_events_dropped_recent s));
          runtime = (case stats of None \<Rightarrow> runtime_default
                     | Some s \<Rightarrow> (case Option.bind (ce_parse ce (ds_runtime_json s)) runtime_of of
                                   Some r \<Rightarrow> r | None \<Rightarrow> runtime_default)) in
      case hb of
        None \<Rightarrow> emit_code json ''status'' never_ran ''NOT running: no heartbeat recorded'' 5
      | Some hb \<Rightarrow>
          (let age = now - hb_updated_ts hb;
               running = (age \<le> HEARTBEAT_FRESH_SECS);
               reasons = (if running
                 then degraded_reasons runtime
                   (case as_u64 (json_index ''consecutive_all_failed'' pool) of Some n \<Rightarrow> n | None \<Rightarrow> 0)
                   (case as_u64 events_dropped_recent of Some n \<Rightarrow> n | None \<Rightarrow> 0) now
                 else []);
               degraded = (reasons \<noteq> []) in
           emit_code json ''status''
             [(''running'', JBool running), (''degraded'', JBool degraded), (''degraded_reasons'', JArr (map degraded_json reasons)),
              (''lists'', JArr (map list_report_json (rr_lists runtime))),
              (''last_reload'', option_json outcome_json (rr_last_reload runtime)),
              (''pending_restart'', strs_json (rr_pending_restart runtime)),
              (''next_refresh_ts'', JNum (rr_next_refresh_ts runtime)),
              (''pid'', JNum (int (hb_pid hb))), (''started_ts'', JNum (hb_started_ts hb)),
              (''updated_ts'', JNum (hb_updated_ts hb)), (''heartbeat_age_secs'', JNum age),
              (''config_hash'', JStr (hb_config_hash hb)), (''lists_hash'', JStr (hb_lists_hash hb)),
              (''log_events_dropped'', events_dropped), (''log_events_dropped_recent'', events_dropped_recent),
              (''upstreams'', upstreams), (''queries_resolved'', json_index ''resolved'' pool),
              (''queries_all_upstreams_failed'', json_index ''all_failed_total'' pool),
              (''consecutive_all_upstreams_failed'', json_index ''consecutive_all_failed'' pool)]
             (if running then running_text (ce_print ce) hb age pool upstreams events_dropped events_dropped_recent @ runtime_text runtime reasons
              else ''NOT running: last heartbeat '' @ show_int age @ ''s ago (pid was '' @ show_nat (hb_pid hb) @ '')'')
             (if running then if degraded then 7 else 0 else 5)))"

definition status_run ::
    "('net, 'io, 'pe) cenv \<Rightarrow> ('io, 'pe) config_error + 'net config \<Rightarrow> int \<Rightarrow> bool \<Rightarrow> cli_result" where
  "status_run ce loaded now json =
     with_db ce loaded json ''status'' (\<lambda>cfg d.
       (case read_daemon_stats d of
          Inl e \<Rightarrow> fail json ''status'' (ce_show_db ce e) 1
        | Inr stats \<Rightarrow> status_report ce json now (read_heartbeat d) stats))"

section \<open>\<open>reload\<close>\<close>

definition last_signal_reload :: "('net, 'io, 'pe) cenv \<Rightarrow> database \<Rightarrow> reload_outcome option" where
  "last_signal_reload ce d =
     (case read_daemon_stats d of
        Inl _ \<Rightarrow> None
      | Inr stats \<Rightarrow> do {
          s \<leftarrow> stats;
          v \<leftarrow> ce_parse ce (ds_runtime_json s);
          runtime \<leftarrow> runtime_of v;
          oc \<leftarrow> rr_last_reload runtime;
          if ro_trigger oc = Signal then Some oc else None
        })"

text \<open>The wait: the clock in milliseconds at the head of the loop, the database after the sleep of
  poll \<open>k\<close>, and how much longer than 250 ms a poll took.\<close>

function reload_wait ::
    "('net, 'io, 'pe) cenv \<Rightarrow> (nat \<Rightarrow> database) \<Rightarrow> (nat \<Rightarrow> nat) \<Rightarrow> reload_outcome option \<Rightarrow> nat \<Rightarrow> nat \<Rightarrow> nat
       \<Rightarrow> reload_outcome option" where
  "reload_wait ce seen extra before deadline t k =
     (if t < deadline
      then (case last_signal_reload ce (seen k) of
              Some oc \<Rightarrow> if Some oc = before then reload_wait ce seen extra before deadline (t + 250 + extra k) (Suc k) else Some oc
            | None \<Rightarrow> reload_wait ce seen extra before deadline (t + 250 + extra k) (Suc k))
      else None)"
  by pat_completeness auto
termination
  by (relation "measure (\<lambda>(ce, seen, extra, before, deadline, t, k). deadline - t)") auto

declare reload_wait.simps [simp del]

definition i32_max :: nat where "i32_max = 2147483647"

text \<open>\<open>kill\<close> is the signal's delivery; \<open>d\<close> is the database before it, \<open>seen\<close> after it.\<close>

definition reload_run ::
    "('net, 'io, 'pe) cenv \<Rightarrow> (nat \<Rightarrow> string option) \<Rightarrow> ('io, 'pe) config_error + 'net config \<Rightarrow> int \<Rightarrow> bool \<Rightarrow> nat
       \<Rightarrow> (nat \<Rightarrow> database) \<Rightarrow> (nat \<Rightarrow> nat) \<Rightarrow> cli_result" where
  "reload_run ce kill loaded now json wait_secs seen extra =
     with_db ce loaded json ''reload'' (\<lambda>cfg d.
       (case read_heartbeat d of
          None \<Rightarrow> fail json ''reload'' ''daemon not running (no heartbeat)'' 5
        | Some hb \<Rightarrow>
            (let age = now - hb_updated_ts hb in
             if age > HEARTBEAT_FRESH_SECS
             then fail json ''reload'' (''daemon not running (heartbeat '' @ show_int age @ ''s old)'') 5
             else if hb_pid hb > i32_max then fail json ''reload'' ''heartbeat pid out of range'' 1
             else
               (let pid = hb_pid hb; before = last_signal_reload ce d;
                    payload = (\<lambda>oc. [(''signalled_pid'', JNum (int pid)), (''outcome'', option_json outcome_json oc)]) in
                case kill pid of
                  Some e \<Rightarrow> fail json ''reload'' (''cannot signal pid '' @ show_nat pid @ '': '' @ e) 1
                | None \<Rightarrow>
                    if wait_secs = 0
                    then emit json ''reload'' (payload None) (''reload signalled to pid '' @ show_nat pid)
                    else
                      (case reload_wait ce seen extra before (wait_secs * 1000) 0 0 of
                         Some oc \<Rightarrow>
                           if ro_ok oc
                           then emit json ''reload'' (payload (Some oc))
                                  (''reload applied by pid '' @ show_nat pid @ '' in '' @ show_nat (ro_duration_ms oc) @ '' ms'')
                           else emit_code json ''reload'' (payload (Some oc))
                                  (''reload FAILED, previous lists and policy still in force: ''
                                     @ (case ro_error oc of Some why \<Rightarrow> why | None \<Rightarrow> [])) 1
                       | None \<Rightarrow>
                           emit_code json ''reload'' (payload None)
                             (''signalled pid '' @ show_nat pid @ '', but it reported no outcome within '' @ show_nat wait_secs
                                @ ''s; check '' @ [CHR 0x60] @ ''sumidero status'' @ [CHR 0x60]) 8)))))"

end
