(* ===== verification/Cli_Correct.thy ===== *)
theory Cli_Correct
  imports Cli_Status Daemon_Correct "HOL-Library.Countable"
begin

text \<open>
  What the command line's answers are worth.  \<open>status\<close> sees the daemon's own report: over any
  history the row it reads is the report in memory, so its exit code is the daemon's condition.
  \<open>explain\<close> gives the reference verdict on the lists on disk.  \<open>reload\<close> ends in time and reports
  an outcome it has seen, which need not be that of its own signal.
\<close>

section \<open>The published report\<close>

definition writes_json :: "(json \<Rightarrow> string) \<Rightarrow> ('net, 'io, 'pe) denv \<Rightarrow> bool" where
  "writes_json print env \<longleftrightarrow> de_json_report env = (\<lambda>r. Some (print (runtime_json r)))
     \<and> de_json_health env = (\<lambda>h. Some (print (pool_health_json h)))"

text \<open>The row of counters exists, with the health of the pool as of some heartbeat.\<close>

definition sampled :: "(json \<Rightarrow> string) \<Rightarrow> database \<Rightarrow> bool" where
  "sampled print d \<longleftrightarrow> schema_ok d \<and> (\<exists>r h. db_stats d = Some r \<and> sr_upstreams_json r = print (pool_health_json h))"

definition published :: "(json \<Rightarrow> string) \<Rightarrow> ('n, 'net, 't) daemon \<Rightarrow> bool" where
  "published print s \<longleftrightarrow> sampled print (da_db s)
     \<and> (\<exists>r. db_stats (da_db s) = Some r \<and> sr_runtime_json r = print (runtime_json (da_report s)))"

lemma schema_ok_stats: "schema_ok d \<Longrightarrow> has_stats_columns d"
  by (simp add: schema_ok_def)

lemma schema_ok_rows [simp]:
  "schema_ok (d\<lparr>db_stats := r\<rparr>) = schema_ok d" "schema_ok (d\<lparr>db_heartbeat := h\<rparr>) = schema_ok d"
  "schema_ok (d\<lparr>db_queries := q, db_divergences := v\<rparr>) = schema_ok d"
  by (simp_all add: schema_ok_def has_stats_columns_def)

lemma publish_runtime_published:
  "writes_json print env \<Longrightarrow> sampled print (da_db s) \<Longrightarrow> published print (publish_runtime env ts s)"
  by (auto simp: writes_json_def sampled_def published_def publish_runtime_def write_report_def write_runtime_def schema_ok_stats)

lemma publish_stats_published:
  "writes_json print env \<Longrightarrow> schema_ok (da_db s) \<Longrightarrow> published print (publish_stats env ts s)"
  by (auto simp: writes_json_def sampled_def published_def publish_stats_def stats_of_def write_daemon_stats_def schema_ok_stats Let_def)

lemma daemon_heartbeat_published [simp]: "published print (daemon_heartbeat ts s) = published print s"
  by (simp add: published_def sampled_def daemon_heartbeat_def heartbeat_of_def write_heartbeat_def)

lemma schema_ok_heartbeat [simp]: "schema_ok (da_db (daemon_heartbeat ts s)) = schema_ok (da_db s)"
  by (simp add: daemon_heartbeat_def heartbeat_of_def write_heartbeat_def)

lemma refresher_turn_published:
  assumes "writes_json print env" "published print s" "refresher_turn env http timer now ts elapsed_ms s = Some s'"
  shows "published print s'"
proof -
  have p: "sampled print (da_db s2) \<Longrightarrow> published print (daemon_heartbeat ts (publish_runtime env ts s2))" for s2
    by (simp add: publish_runtime_published [OF assms(1)])
  have c: "sampled print (da_db s)" using assms(2) by (simp add: published_def)
  show ?thesis
    using assms(2,3) unfolding refresher_turn_def Let_def
    by (auto split: if_splits list.splits bind_splits sum.splits prod.splits intro!: p simp: c)
qed

definition publishing :: "(json \<Rightarrow> string) \<Rightarrow> ('net, 'io, 'pe) denv \<Rightarrow> ('n, 'net, 't) daemon \<Rightarrow> bool" where
  "publishing print env s \<longleftrightarrow> writes_json print env \<and> published print s"

lemma daemon_step_publishing:
  assumes "publishing print env s" "daemon_step env dp show_config e s = Some s'"
  shows "publishing print env s'"
proof -
  from assms(1) have w: "writes_json print env" and p: "published print s" by (simp_all add: publishing_def)
  then have c: "sampled print (da_db s)" "schema_ok (da_db s)" by (simp_all add: published_def sampled_def)
  have "published print s'"
  proof (cases e)
    case (Sighup loaded ts)
    show ?thesis
    proof (cases loaded)
      case (Inl err)
      then obtain r where "s' = publish_runtime env ts (s\<lparr>da_report := r\<rparr>)"
        using assms(2) Sighup by (auto simp: on_sighup_def)
      then show ?thesis by (simp add: publish_runtime_published [OF w] c(1))
    next
      case (Inr new)
      then show ?thesis using assms(2) Sighup p by (auto simp: on_sighup_def published_def)
    qed
  next
    case (RefreshTurn http timer now ts elapsed_ms)
    then show ?thesis using assms(2) refresher_turn_published [OF w p] by simp
  next
    case (HeartbeatTick ts)
    then show ?thesis using assms(2) c(2) by (auto simp: on_heartbeat_def publish_stats_published [OF w])
  next
    case (RetentionTick ts)
    then show ?thesis using assms(2) p by (auto simp: on_retention_def retention_sweep_def Let_def published_def sampled_def)
  next
    case (Traffic ev)
    then show ?thesis using assms(2) p by (cases ev) (auto simp: published_def)
  qed
  with w show ?thesis by (simp add: publishing_def)
qed

interpretation dp: event_system "daemon_step env dp show_config" "\<lambda>_. True" "publishing print env"
  for env dp show_config print
  by unfold_locales (rule daemon_step_publishing)

lemma daemon_start_publishing:
  assumes "daemon_start env loaded open_database roots make_pool make_client shadow_addr pid now ts elapsed_ms fs = Some (Inr s)"
    and "writes_json print env" and "\<And>c d w. open_database c = Inr (d, w) \<Longrightarrow> schema_ok d"
  shows "publishing print env s"
proof -
  from assms(1) obtain s1 where "s = publish_stats env ts (daemon_heartbeat ts s1)" "schema_ok (da_db s1)"
    unfolding daemon_start_def Let_def by (auto split: sum.splits prod.splits bind_splits dest!: assms(3))
  then show ?thesis using assms(2) by (simp add: publishing_def publish_stats_published)
qed

section \<open>Reading it back\<close>

text \<open>Opening a database that is up to date changes nothing.\<close>

lemma db_open_same:
  assumes "schema_ok d"
  shows "\<exists>w. db_open path (Inr d) = Inr (d, w)"
proof -
  from assms have m: "db_meta d = Some (show_nat SCHEMA_VERSION)" and c: "\<exists>c. db_check d = Some c"
    and t: "\<exists>cols. db_stats_cols d = Some cols"
    by (auto simp: schema_ok_def has_stats_columns_def split: option.splits)
  have "create_schema d = d" using c t by (auto simp: create_schema_def)
  then show ?thesis using m
    by (simp add: db_open_def open_with_queue_capacity_def ensure_schema_version_def parse_u32_show SCHEMA_VERSION_def)
qed

lemma open_db_same:
  assumes "schema_ok d" "ce_conn ce (db_path (cfg_database cfg)) = Inr d"
  shows "open_db ce cfg = Inr d"
  using db_open_same [OF assms(1), of "db_path (cfg_database cfg)"] assms(2) by (auto simp: open_db_def Let_def)

lemma with_db_same:
  assumes "schema_ok d" "ce_conn ce (db_path (cfg_database cfg)) = Inr d"
  shows "with_db ce (Inr cfg) json command k = k cfg d"
  by (simp add: with_db_def load_config_def open_db_same [OF assms])

text \<open>What \<open>status\<close> makes of the rows of a publishing daemon.\<close>

definition status_code :: "bool \<Rightarrow> degraded_reason list \<Rightarrow> nat" where
  "status_code running reasons = (if \<not> running then 5 else if reasons = [] then 0 else 7)"

lemma as_u64_word [simp]: "as_u64 (u64_json w) = Some (unat w)"
proof -
  have "uint w \<le> int u64_max" using uint_lt2p [of w] by (simp add: u64_max_def)
  then show ?thesis by (simp add: u64_json_def)
qed

lemma json_index_failed [simp]:
  "json_index ''consecutive_all_failed'' (pool_health_json h) = u64_json (ph_consecutive_all_failed h)"
  by (simp add: pool_health_json_def)

lemma parse_u32_4: "parse_u32 (show_nat SCHEMA_VERSION) = Some SCHEMA_VERSION"
  by (simp add: parse_u32_show SCHEMA_VERSION_def)

lemma status_report_code:
  assumes "ce_parse ce (ds_upstreams_json st) = Some (pool_health_json h)"
    and "ce_parse ce (ds_runtime_json st) = Some (runtime_json r)" and "runtime_wf r"
  shows "snd (status_report ce json now (Some hb) (Some st)) =
    status_code (now - hb_updated_ts hb \<le> 150)
      (degraded_reasons r (unat (ph_consecutive_all_failed h)) (unat (ds_log_events_dropped_recent st)) now)"
  by (simp add: status_report_def assms(1,2) runtime_roundtrip_lemma [OF assms(3)] Let_def emit_code_def status_code_def
      HEARTBEAT_FRESH_SECS_def)

section \<open>Properties\<close>

text \<open>What the rows hold right after a heartbeat.\<close>

lemma heartbeat_rows:
  assumes "writes_json print env" "schema_ok (da_db s)"
  shows "\<exists>hb st. read_heartbeat (da_db (on_heartbeat env ts s)) = Some hb \<and> hb_updated_ts hb = ts
    \<and> read_daemon_stats (da_db (on_heartbeat env ts s)) = Inr (Some st)
    \<and> ds_upstreams_json st = print (pool_health_json (pool_health ts (da_pool (on_heartbeat env ts s))))
    \<and> ds_log_events_dropped st = log_events_dropped (da_pipe (on_heartbeat env ts s))"
  using assms
  by (auto simp: on_heartbeat_def publish_stats_def stats_of_def daemon_heartbeat_def heartbeat_of_def writes_json_def write_daemon_stats_def schema_ok_stats
      Let_def write_heartbeat_def read_heartbeat_def read_daemon_stats_def has_stats_columns_def schema_ok_def split: option.splits)

lemma published_rows:
  assumes "published print s"
  shows "\<exists>st h. read_daemon_stats (da_db s) = Inr (Some st) \<and> ds_upstreams_json st = print (pool_health_json h)
    \<and> ds_runtime_json st = print (runtime_json (da_report s))"
  using assms by (auto simp: published_def sampled_def read_daemon_stats_def schema_ok_stats)

lemma current_rows:
  assumes "heartbeat_current s"
  shows "\<exists>hb. read_heartbeat (da_db s) = Some hb \<and> hb_lists_hash hb = rr_lists_hash (da_report s)
    \<and> hb_config_hash hb = rr_applied_config_hash (da_report s)"
proof -
  from assms obtain r where "db_heartbeat (da_db s) = Some r" "hr_config_hash r = rr_applied_config_hash (da_report s)"
      "hr_lists_hash r = rr_lists_hash (da_report s)" by (auto simp: heartbeat_current_def)
  then show ?thesis by (simp add: read_heartbeat_def)
qed


section \<open>\<open>explain\<close>\<close>

fun kind_code :: "kind \<Rightarrow> nat" where
  "kind_code KNoMatch = 0"
| "kind_code KBlock = 3"
| "kind_code KExcept = 4"

lemma rules_of_index: "(l, r) \<in> set (rules_of texts) \<Longrightarrow> l < length texts"
  by (auto simp: rules_of_def set_enumerate0)

lemma real_rule_index:
  "reports_real_rule (rules_of texts) name v \<Longrightarrow> v = Block l m \<or> v = Except l m \<Longrightarrow> l < length texts"
  by (auto simp: list_ex_iff dest: rules_of_index)

text \<open>The members of the report that name the rule and its list.\<close>

lemma explain_report_verdict:
  assumes "verdict (ll_engine l) name = Some v" "\<forall>i m. v = Block i m \<or> v = Except i m \<longrightarrow> i < length (ll_names l)"
  shows "\<exists>out. explain_report json name l hash = Some (out, kind_code (kind_of v))
    \<and> (\<forall>j i m. out = JsonLine j \<and> (v = Block i m \<or> v = Except i m) \<longrightarrow>
         json_index ''list'' j = JStr (ll_names l ! i) \<and> json_index ''rule'' j = JStr (mr_text m))"
  using assms(2)
  by (cases v) (auto simp: explain_report_def assms(1) Let_def emit_code_def option_json_def)


section \<open>\<open>reload\<close>\<close>

definition poll_time :: "(nat \<Rightarrow> nat) \<Rightarrow> nat \<Rightarrow> nat" where
  "poll_time extra k = sum_list (map (\<lambda>i. 250 + extra i) [0..<k])"

lemma poll_time_simps [simp]: "poll_time extra 0 = 0" "poll_time extra (Suc k) = poll_time extra k + 250 + extra k"
  by (simp_all add: poll_time_def)

lemma poll_time_mono: "k \<le> i \<Longrightarrow> poll_time extra k \<le> poll_time extra i"
  by (induction i) (auto simp: le_Suc_eq)

lemma poll_time_ge: "250 * k \<le> poll_time extra k"
  by (induction k) auto

text \<open>Poll \<open>k\<close> sees nothing new.\<close>

definition nothing_new :: "('net, 'io, 'pe) cenv \<Rightarrow> (nat \<Rightarrow> database) \<Rightarrow> reload_outcome option \<Rightarrow> nat \<Rightarrow> bool" where
  "nothing_new ce seen before k \<longleftrightarrow> last_signal_reload ce (seen k) = None \<or> last_signal_reload ce (seen k) = before"

lemma reload_wait_spec:
  assumes "t = poll_time extra k"
  shows "case reload_wait ce seen extra before deadline t k of
      Some oc \<Rightarrow> \<exists>i\<ge>k. poll_time extra i < deadline \<and> last_signal_reload ce (seen i) = Some oc \<and> Some oc \<noteq> before
    | None \<Rightarrow> \<forall>i\<ge>k. poll_time extra i < deadline \<longrightarrow> nothing_new ce seen before i"
  using assms
proof (induction ce seen extra before deadline t k rule: reload_wait.induct)
  case (1 ce seen extra before deadline t k)
  show ?case
  proof (cases "t < deadline")
    case False
    then have "\<not> poll_time extra i < deadline" if "k \<le> i" for i using "1.prems" poll_time_mono [OF that, of extra] by simp
    then show ?thesis using False by (simp add: reload_wait.simps [of ce seen extra before deadline t k])
  next
    case True
    let ?next = "reload_wait ce seen extra before deadline (t + 250 + extra k) (Suc k)"
    have t: "t + 250 + extra k = poll_time extra (Suc k)" using "1.prems" by simp
    show ?thesis
    proof (cases "nothing_new ce seen before k")
      case new: False
      then obtain oc where oc: "last_signal_reload ce (seen k) = Some oc" "Some oc \<noteq> before" by (auto simp: nothing_new_def)
      then have "reload_wait ce seen extra before deadline t k = Some oc"
        using True by (simp add: reload_wait.simps [of ce seen extra before deadline t k])
      then show ?thesis using True "1.prems" oc by auto
    next
      case old: True
      have w: "reload_wait ce seen extra before deadline t k = ?next"
        using True old by (auto simp: reload_wait.simps [of ce seen extra before deadline t k] nothing_new_def split: option.split)
      have ih: "case ?next of
          Some oc \<Rightarrow> \<exists>i\<ge>Suc k. poll_time extra i < deadline \<and> last_signal_reload ce (seen i) = Some oc \<and> Some oc \<noteq> before
        | None \<Rightarrow> \<forall>i\<ge>Suc k. poll_time extra i < deadline \<longrightarrow> nothing_new ce seen before i"
        using old by (cases "last_signal_reload ce (seen k)")
          (use "1.IH" True t in \<open>auto simp: nothing_new_def\<close>)
      show ?thesis
      proof (cases ?next)
        case None
        then show ?thesis using ih old by (simp add: w) (metis le_Suc_eq Suc_le_eq order_le_less)
      next
        case (Some oc)
        then show ?thesis using ih by (simp add: w) (meson Suc_leD)
      qed
    qed
  qed
qed

text \<open>C20: \<open>reload\<close> always ends: after at most four polls a second within the wait it exits 0 or 1 with an
  outcome some poll read from the database, ok or failed, different from the one before the signal; and
  it exits 8 exactly when no poll within the wait found one.\<close>
theorem reload_ends:
  assumes "schema_ok d" and "ce_conn ce (db_path (cfg_database cfg)) = Inr d" and "read_heartbeat d = Some hb"
    and "clock - hb_updated_ts hb \<le> 150" and "hb_pid hb \<le> i32_max" and "kill (hb_pid hb) = None" and "0 < wait_secs"
    and "snd (reload_run ce kill (Inr cfg) clock json wait_secs seen extra) = code"
  shows "(code = 8 \<longleftrightarrow> (\<forall>k. poll_time extra k < wait_secs * 1000 \<longrightarrow> nothing_new ce seen (last_signal_reload ce d) k))
    \<and> (code \<noteq> 8 \<longrightarrow> (\<exists>k < 4 * wait_secs. \<exists>oc. last_signal_reload ce (seen k) = Some oc
         \<and> Some oc \<noteq> last_signal_reload ce d \<and> code = (if ro_ok oc then 0 else 1)))"
proof -
  let ?w = "reload_wait ce seen extra (last_signal_reload ce d) (wait_secs * 1000) 0 0"
  have code: "code = (case ?w of Some oc \<Rightarrow> if ro_ok oc then 0 else 1 | None \<Rightarrow> 8)"
    using assms(3-8)
    by (auto simp: reload_run_def with_db_same [OF assms(1,2)] HEARTBEAT_FRESH_SECS_def Let_def emit_def emit_code_def split: option.split)
  have spec: "case ?w of
      Some oc \<Rightarrow> \<exists>i\<ge>0. poll_time extra i < wait_secs * 1000 \<and> last_signal_reload ce (seen i) = Some oc \<and> Some oc \<noteq> last_signal_reload ce d
    | None \<Rightarrow> \<forall>i\<ge>0. poll_time extra i < wait_secs * 1000 \<longrightarrow> nothing_new ce seen (last_signal_reload ce d) i"
    by (rule reload_wait_spec) simp
  show ?thesis
  proof (cases ?w)
    case None
    then show ?thesis using spec code by simp
  next
    case (Some oc)
    with spec obtain i where i: "poll_time extra i < wait_secs * 1000" "last_signal_reload ce (seen i) = Some oc"
      "Some oc \<noteq> last_signal_reload ce d" by auto
    have "i < 4 * wait_secs" using poll_time_ge [of i extra] i(1) by linarith
    moreover have "\<not> nothing_new ce seen (last_signal_reload ce d) i" using i(2,3) by (simp add: nothing_new_def)
    ultimately show ?thesis using i Some code by auto
  qed
qed

text \<open>What \<open>reload\<close> reads from a publishing daemon.\<close>

lemma last_signal_published:
  assumes "published print s" "\<And>v. ce_parse ce (print v) = Some v" "runtime_wf (da_report s)"
  shows "last_signal_reload ce (da_db s) =
    (case rr_last_reload (da_report s) of None \<Rightarrow> None | Some oc \<Rightarrow> if ro_trigger oc = Signal then Some oc else None)"
proof -
  from published_rows [OF assms(1)] obtain st where "read_daemon_stats (da_db s) = Inr (Some st)"
      "ds_runtime_json st = print (runtime_json (da_report s))" by blast
  then show ?thesis
    by (simp add: last_signal_reload_def assms(2) runtime_roundtrip_lemma [OF assms(3)] split: option.split)
qed

lemma publish_runtime_simps [simp]:
  "da_report (publish_runtime env ts s) = da_report s" "da_current (publish_runtime env ts s) = da_current s"
  "da_reloads (publish_runtime env ts s) = da_reloads s"
  by (simp_all add: publish_runtime_def write_report_def split: option.split sum.split)

text \<open>A turn on a queued reload takes the oldest.\<close>

lemma signal_turn:
  assumes "refresher_turn env http False now ts elapsed_ms s = Some s'" "da_reloads s = c # q"
  shows "\<exists>oc. rr_last_reload (da_report s') = Some oc \<and> ro_trigger oc = Signal \<and> da_reloads s' = q
    \<and> da_current s' = (if ro_ok oc then c else da_current s)"
proof -
  have turn: "case rr_last_reload (da_report s') of None \<Rightarrow> False
    | Some oc \<Rightarrow> ro_trigger oc = Signal \<and> da_reloads s' = q \<and> da_current s' = (if ro_ok oc then c else da_current s)"
    using assms by (auto simp: refresher_turn_def Let_def outcome_of_def heartbeat_row split: bind_splits sum.splits)
  show ?thesis
  proof (cases "rr_last_reload (da_report s')")
    case None
    with turn show ?thesis by simp
  next
    case (Some oc)
    with turn show ?thesis by (intro exI [of _ oc]) simp
  qed
qed


section \<open>Witnesses\<close>

text \<open>A writer and a reader of JSON values that are inverse: the number of a value in unary.\<close>

instance json :: countable by countable_datatype

definition ex_print :: "json \<Rightarrow> string" where
  "ex_print v = replicate (to_nat v) (CHR ''x'')"

definition ex_parse :: "string \<Rightarrow> json option" where
  "ex_parse s = Some (from_nat (length s))"

lemma ex_parse_print: "ex_parse (ex_print v) = Some v"
  by (simp add: ex_parse_def ex_print_def)

definition ex_jenv :: "(nat, unit, unit) denv" where
  "ex_jenv = ex_env\<lparr>de_json_report := (\<lambda>r. Some (ex_print (runtime_json r))), de_json_health := (\<lambda>h. Some (ex_print (pool_health_json h)))\<rparr>"

definition ex_cenv :: "database \<Rightarrow> (nat, unit, unit) cenv" where
  "ex_cenv d = \<lparr>ce_daemon = ex_jenv, ce_show_config = (\<lambda>_. []), ce_show_db = (\<lambda>_. []), ce_show_list = (\<lambda>_. []),
     ce_conn = (\<lambda>_. Inr d), ce_order = (\<lambda>ps. ps), ce_wide = (\<lambda>s. s), ce_print = ex_print, ce_parse = ex_parse, ce_runtime = None\<rparr>"

definition ex_open :: "nat config \<Rightarrow> db_error + database \<times> db_writer" where
  "ex_open c = Inr (example_database, \<lparr>dw_queue = [], dw_capacity = 4, dw_drops = 0\<rparr>)"

lemma ex_writes: "writes_json ex_print ex_jenv"
  by (simp add: writes_json_def ex_jenv_def)

lemma ex_cenv_parse: "ce_parse (ex_cenv d) (ex_print v) = Some v"
  by (simp add: ex_cenv_def ex_parse_print)

lemma ex_open_ok: "ex_open c = Inr (d, w) \<Longrightarrow> schema_ok d"
  using example_schema_ok by (auto simp: ex_open_def)

lemma ex_jenv_fields:
  "de_srt ex_jenv = de_srt ex_env" "de_sha256 ex_jenv = de_sha256 ex_env" "de_io ex_jenv = de_io ex_env"
  "de_utf8_lossy ex_jenv = de_utf8_lossy ex_env" "de_toml ex_jenv = de_toml ex_env"
  by (simp_all add: ex_jenv_def)

lemma ex_jbuild: "build_policy ex_jenv c f n fs = build_policy ex_env c f n fs"
  unfolding build_policy_def ex_jenv_fields ..

lemma ex_jhash: "config_hash (de_toml ex_jenv) (de_sha256 ex_jenv) c = Some []"
  using ex_hash [of c] by (simp add: ex_jenv_fields)

lemma build_policy_offline:
  assumes "build_policy env c None now fs = Some (r, fs')"
  shows "fs' = fs"
  using assms lists_load_content [of "de_srt env" "de_sha256 env" "de_io env" "de_utf8_lossy env" None now]
  by (auto simp: build_policy_def split: sum.splits bind_splits)

lemma ex_report_wf: "list_report_wf ex_list_report"
  by (simp add: list_report_wf_def ex_list_report_def u64_max_def)

lemma ex_started_daemon:
  "\<exists>s0 :: (string, nat, nat) daemon. daemon_start ex_jenv (Inr ex_config) ex_open (\<lambda>_. Inr ([] :: nat list)) (\<lambda>_ _. Inr ex_pool)
       (\<lambda>_. Inr ex_http) None 1 9 100 5 ex_disk = Some (Inr s0)
     \<and> (da_disk s0 = ex_disk \<and> da_reloads s0 = [] \<and> da_current s0 = ex_config
     \<and> rr_last_reload (da_report s0) = Some \<lparr>ro_ts = 100, ro_trigger = Startup, ro_ok = True, ro_error = None, ro_duration_ms = 5\<rparr>
     \<and> runtime_wf (da_report s0) \<and> (\<exists>hb. read_heartbeat (da_db s0) = Some hb \<and> hb_updated_ts hb = 100 \<and> hb_pid hb = 1))"
  (is "\<exists>s0. _ \<and> ?P s0")
proof -
  obtain policy loaded fs' where b: "build_policy ex_env ex_config None 9 ex_disk = Some (Inr (policy, loaded), fs')"
      "ll_reports loaded = [ex_list_report]"
    using ex_build [OF ex_disk_ok] by blast
  have fs: "fs' = ex_disk" by (rule build_policy_offline [OF b(1)])
  have st: "startup_policy ex_jenv ex_http ex_config 9 ex_disk = Some (Inr (policy, loaded, 0), ex_disk)"
    using b(1) by (simp add: startup_policy_def ex_jbuild fs)
  obtain c where c: "with_limits (max_entries (cfg_cache ex_config)) DEFAULT_MAX_BYTES (serve_stale_secs (cfg_cache ex_config)) = Some (c :: (string cache_key, string) inner)"
    by (simp add: with_limits_def ex_config_def cache_config_default_def default_max_entries_def DEFAULT_MAX_BYTES_def)
  define s1 :: "(string, nat, nat) daemon" where "s1 = \<lparr>da_pipe = from_policy policy c \<lparr>dw_queue = [], dw_capacity = 4, dw_drops = 0\<rparr>,
      da_pool = ex_pool, da_db = example_database, da_disk = ex_disk,
      da_report = \<lparr>rr_lists_loaded_ts = 100, rr_lists = [ex_list_report], rr_lists_hash = ll_hash loaded,
        rr_applied_config_hash = [], rr_last_reload = Some (outcome_of Startup 100 5 (Inr ())), rr_pending_restart = [],
        rr_next_refresh_ts = 100\<rparr>,
      da_started_with = ex_config, da_current = ex_config, da_started_ts = 100, da_pid = 1, da_reloads = [], da_dropped_at_last_sample = 0\<rparr>"
  have run: "daemon_start ex_jenv (Inr ex_config) ex_open (\<lambda>_. Inr ([] :: nat list)) (\<lambda>_ _. Inr ex_pool)
       (\<lambda>_. Inr ex_http) None 1 9 100 5 ex_disk = Some (Inr (publish_stats ex_jenv 100 (daemon_heartbeat 100 s1)))"
    by (simp add: daemon_start_def ex_open_def st ex_jhash c s1_def b(2))
  obtain n d where p: "publish_stats ex_jenv 100 (daemon_heartbeat 100 s1) = (daemon_heartbeat 100 s1)\<lparr>da_dropped_at_last_sample := n, da_db := d\<rparr>"
      "db_heartbeat d = db_heartbeat (da_db (daemon_heartbeat 100 s1))"
    using publish_stats_frame [of ex_jenv 100 "daemon_heartbeat 100 s1"] by blast
  have "runtime_wf (da_report s1)"
    by (simp add: runtime_wf_def s1_def i64_ok_def ex_report_wf outcome_wf_def outcome_of_def u64_max_def)
  moreover have "read_heartbeat d = Some \<lparr>hb_pid = 1, hb_started_ts = 100, hb_updated_ts = 100, hb_config_hash = [], hb_lists_hash = ll_hash loaded\<rparr>"
    by (simp add: read_heartbeat_def p(2) daemon_heartbeat_def heartbeat_of_def write_heartbeat_def s1_def)
  ultimately have props: "?P (publish_stats ex_jenv 100 (daemon_heartbeat 100 s1))"
    by (simp add: p(1) heartbeat_row) (simp add: daemon_heartbeat_def heartbeat_of_def s1_def outcome_of_def u64_max_def)
  show ?thesis using run props by blast
qed


definition ex_config2 :: "nat config" where
  "ex_config2 = ex_config\<lparr>cfg_server := \<lparr>bind_addrs = [], allow = [2]\<rparr>\<rparr>"

lemma ex_signal_turn:
  fixes s :: "(string, nat, nat) daemon"
  assumes "da_reloads s = [ex_config]" "da_disk s = ex_disk" "runtime_wf (da_report s)"
  shows "\<exists>s'. refresher_turn ex_jenv ex_http False 9 103 5 s = Some s' \<and> runtime_wf (da_report s')
    \<and> rr_last_reload (da_report s') = Some \<lparr>ro_ts = 103, ro_trigger = Signal, ro_ok = True, ro_error = None, ro_duration_ms = 5\<rparr>"
proof -
  obtain policy loaded fs' where b: "build_policy ex_env ex_config (Some ex_http) 9 ex_disk = Some (Inr (policy, loaded), fs')"
      "ll_reports loaded = [ex_list_report]"
    using ex_build [OF ex_disk_ok] by blast
  have "next_refresh loaded = REFRESH_EVERY" by (simp add: next_refresh_def b(2) ex_list_report_def)
  then show ?thesis
    by (simp add: refresher_turn_def Let_def assms(1,2) ex_jbuild b ex_jhash heartbeat_row outcome_of_def u64_max_def
        runtime_wf_def i64_ok_def ex_report_wf outcome_wf_def REFRESH_EVERY_def)
qed


theorem reload_ends_witness:
  "\<exists>d hb. read_heartbeat d = Some hb
     \<and> snd (reload_run (ex_cenv d) (\<lambda>_. None) (Inr ex_config) 110 True 2 (\<lambda>_. d) (\<lambda>_. 3)) = 8"
proof -
  define d where "d = write_heartbeat \<lparr>hb_pid = 7, hb_started_ts = 1, hb_updated_ts = 100, hb_config_hash = [], hb_lists_hash = []\<rparr> example_database"
  have sc: "schema_ok d" using example_schema_ok by (simp add: d_def write_heartbeat_def)
  have hb: "read_heartbeat d = Some \<lparr>hb_pid = 7, hb_started_ts = 1, hb_updated_ts = 100, hb_config_hash = [], hb_lists_hash = []\<rparr>"
    by (simp add: d_def write_heartbeat_def read_heartbeat_def)
  have "ce_conn (ex_cenv d) (db_path (cfg_database ex_config)) = Inr d" by (simp add: ex_cenv_def)
  from reload_ends [where kill = "\<lambda>_. None" and clock = 110 and json = True and wait_secs = 2 and seen = "\<lambda>_. d" and extra = "\<lambda>_. 3",
      OF sc this hb _ _ _ _ refl]
  have "snd (reload_run (ex_cenv d) (\<lambda>_. None) (Inr ex_config) 110 True 2 (\<lambda>_. d) (\<lambda>_. 3)) = 8"
    by (simp add: i32_max_def nothing_new_def)
  with hb show ?thesis by blast
qed


end
