(* ===== verification/Migrate.thy ===== *)
theory Migrate
  imports Cli
begin

text \<open>
  The one-shot conversion of an \<open>AdGuard Home\<close> configuration,
  \<open>crates/cli/src/commands/migrate.rs\<close>: the sections of the YAML file it reads, the mapping of each
  section with its warnings, the assembled TOML text and the command.

  The YAML reader is the argument \<open>yaml\<close>, from the text of the file to an error or the sections; the
  TOML reader that checks the result is \<open>toml_from_str\<close>.  \<open>wide\<close> is \<open>Debug\<close> of characters beyond
  ASCII.  A duration is multiplied in 64 bits and wraps, as in the release build.
\<close>

section \<open>AdGuard's sections\<close>

record agh_dns =
  ad_bind_hosts :: "string list"
  ad_port :: nat
  ad_upstream_dns :: "string list"
  ad_fallback_dns :: "string list"
  ad_bootstrap_dns :: "ip_addr list"
  ad_upstream_timeout :: string
  ad_allowed_clients :: "string list"
  ad_blocked_hosts :: "string list"
  ad_ratelimit :: nat

definition agh_dns_default :: agh_dns where
  "agh_dns_default = \<lparr>ad_bind_hosts = [''0.0.0.0''], ad_port = 53, ad_upstream_dns = [], ad_fallback_dns = [],
     ad_bootstrap_dns = [], ad_upstream_timeout = ''5s'', ad_allowed_clients = [], ad_blocked_hosts = [], ad_ratelimit = 0\<rparr>"

record agh_filter =
  af_enabled :: bool
  af_url :: string
  af_name :: string

record agh_safe_search =
  as_enabled :: bool
  as_google :: bool
  as_youtube :: bool
  as_bing :: bool
  as_duckduckgo :: bool
  as_ecosia :: bool
  as_pixabay :: bool
  as_yandex :: bool

record agh =
  ag_dns :: agh_dns
  ag_filters :: "agh_filter list"
  ag_user_rules :: "string list"
  ag_safe_search :: agh_safe_search
  ag_dhcp_enabled :: bool
  ag_tls_enabled :: bool

record migration =
  mg_toml :: string
  mg_warnings :: "string list"
  mg_user_rules :: "string option"

section \<open>Names and durations\<close>

text \<open>Each character that is not an ASCII letter or digit becomes one dash.\<close>

function dashed :: "string \<Rightarrow> string" where
  "dashed s =
     (case s of
        [] \<Rightarrow> []
      | c # cs \<Rightarrow>
          if byte c < 128 then (if is_ascii_alphanumeric c then c else CHR ''-'') # dashed cs
          else CHR ''-'' # dashed (drop (max 1 (utf8_len s)) s))"
  by pat_completeness auto
termination
  by (relation "measure length") auto

declare dashed.simps [simp del]

text \<open>\<open>s.replace("--", "-")\<close>, until nothing is left to replace.\<close>

fun replace_dashes :: "string \<Rightarrow> string" where
  "replace_dashes [] = []"
| "replace_dashes [c] = [c]"
| "replace_dashes (c # d # s) =
     (if c = CHR ''-'' \<and> d = CHR ''-'' then CHR ''-'' # replace_dashes s else c # replace_dashes (d # s))"

lemma replace_dashes_le: "length (replace_dashes s) \<le> length s"
  by (induction s rule: replace_dashes.induct) auto

lemma replace_dashes_less: "contains_str ''--'' s \<Longrightarrow> length (replace_dashes s) < length s"
proof (induction s rule: replace_dashes.induct)
  case (3 c d s)
  show ?case
  proof (cases "c = CHR ''-'' \<and> d = CHR ''-''")
    case True
    then show ?thesis using replace_dashes_le [of s] by simp
  next
    case False
    then have "contains_str ''--'' (d # s)" using "3.prems" by (auto simp: starts_with_def strip_prefix_def split: if_splits)
    then show ?thesis using "3.IH"(2) [OF False] by (simp add: False)
  qed
qed (auto simp: starts_with_def strip_prefix_def)

function squeeze :: "string \<Rightarrow> string" where
  "squeeze s = (if contains_str ''--'' s then squeeze (replace_dashes s) else s)"
  by pat_completeness auto
termination
  by (relation "measure length") (auto simp: replace_dashes_less)

declare squeeze.simps [simp del]

definition trim_dashes :: "string \<Rightarrow> string" where
  "trim_dashes s = rev (dropWhile (\<lambda>c. c = CHR ''-'') (rev (dropWhile (\<lambda>c. c = CHR ''-'') s)))"

definition slug :: "string \<Rightarrow> string" where
  "slug name = trim_dashes (squeeze (dashed (to_ascii_lowercase name)))"

text \<open>\<open>str::parse::<u64>\<close>.\<close>

definition parse_u64 :: "string \<Rightarrow> nat option" where
  "parse_u64 s =
     (let ds = (case s of c # cs \<Rightarrow> if c = CHR ''+'' then cs else s | [] \<Rightarrow> s) in
      if ds \<noteq> [] \<and> list_all is_ascii_digit ds
      then (let v = fold (\<lambda>c v. v * 10 + the (to_digit 10 c)) ds 0 in if v \<le> u64_max then Some v else None)
      else None)"

definition parse_go_duration_ms :: "string \<Rightarrow> nat option" where
  "parse_go_duration_ms s =
     (case strip_suffix ''ms'' s of
        Some ms \<Rightarrow> parse_u64 ms
      | None \<Rightarrow>
          (case strip_suffix ''s'' s of
             Some secs \<Rightarrow> map_option (\<lambda>v. (v * 1000) mod 2 ^ 64) (parse_u64 secs)
           | None \<Rightarrow> None))"

section \<open>Sections\<close>

text \<open>Addresses to bind; \<open>0.0.0.0\<close> brings the IPv6 wildcard with it.\<close>

fun bind_loop :: "nat \<Rightarrow> string list \<Rightarrow> string list \<Rightarrow> string + string list" where
  "bind_loop port [] bound = Inr bound"
| "bind_loop port (host # hosts) bound =
     (case parse_ip_addr host of
        None \<Rightarrow> Inl (''bind host '' @ host @ '': invalid IP address syntax'')
      | Some ip \<Rightarrow>
          bind_loop port hosts
            (bound @ [show_socket_addr \<lparr>sa_ip = ip, sa_port = port\<rparr>]
               @ (if ip = V4 [0, 0, 0, 0] then [''[::]:'' @ show_nat port] else [])))"

fun retain_new :: "string set \<Rightarrow> string list \<Rightarrow> string list" where
  "retain_new seen [] = []"
| "retain_new seen (b # bs) = (if b \<in> seen then retain_new seen bs else b # retain_new (insert b seen) bs)"

definition conv_bind :: "agh \<Rightarrow> string + string list" where
  "conv_bind a =
     (case bind_loop (ad_port (ag_dns a)) (ad_bind_hosts (ag_dns a)) [] of
        Inl e \<Rightarrow> Inl e
      | Inr bound \<Rightarrow> Inr (retain_new {} (remdups_adj bound)))"

definition usable_upstream :: "string \<Rightarrow> bool" where
  "usable_upstream u \<longleftrightarrow> starts_with ''https://'' u \<or> starts_with ''quic://'' u"

definition skipped_upstream :: "string \<Rightarrow> string" where
  "skipped_upstream u = ''upstream '' @ u @ '' skipped: sumidero v1 supports only https:// (DoH) and quic:// (DoQ)''"

definition default_allow :: "string list" where
  "default_allow = [''192.168.0.0/16'', ''10.0.0.0/8'', ''172.16.0.0/12'', ''127.0.0.0/8'', ''::1/128'']"

definition skipped_client :: "(string \<Rightarrow> string) \<Rightarrow> string \<Rightarrow> string" where
  "skipped_client wide client = ''allowed client '' @ debug_str wide client
     @ '' skipped: not an IP or CIDR (client IDs are not supported)''"

text \<open>One allowed client: its network, or a warning.\<close>

definition conv_client :: "(string \<Rightarrow> string) \<Rightarrow> string \<Rightarrow> string + string" where
  "conv_client wide client =
     (if contains_char (CHR ''/'') client then Inr client
      else (case parse_ip_addr client of
              Some (V4 os) \<Rightarrow> Inr (show_ip (V4 os) @ ''/32'')
            | Some (V6 gs) \<Rightarrow> Inr (show_ip (V6 gs) @ ''/128'')
            | None \<Rightarrow> Inl (skipped_client wide client)))"

definition rights :: "('a + 'b) list \<Rightarrow> 'b list" where
  "rights xs = List.map_filter (\<lambda>x. case x of Inr b \<Rightarrow> Some b | Inl _ \<Rightarrow> None) xs"

definition lefts :: "('a + 'b) list \<Rightarrow> 'a list" where
  "lefts xs = List.map_filter (\<lambda>x. case x of Inl a \<Rightarrow> Some a | Inr _ \<Rightarrow> None) xs"

definition conv_allow :: "(string \<Rightarrow> string) \<Rightarrow> string list \<Rightarrow> string list \<times> string list" where
  "conv_allow wide clients =
     (let empty = (clients = []);
          rs = map (conv_client wide) clients;
          allow1 = (if empty then default_allow else []) @ rights rs;
          w1 = (if empty
                then [''allowed_clients is empty: AdGuard would answer everyone; sumidero requires an ''
                      @ ''explicit allowlist '' @ [CHR 0xE2, CHR 0x80, CHR 0x94] @ '' defaulting to RFC1918 + loopback, EDIT THIS'']
                else []) @ lefts rs in
      if allow1 = []
      then (default_allow, w1 @ [''no allowed client survived the conversion; defaulting to RFC1918 + loopback, EDIT THIS''])
      else (allow1, w1))"

text \<open>\<open>while !used_names.insert(name)\<close>: number the name until it is new.\<close>

definition numbered :: "string \<Rightarrow> nat \<Rightarrow> string" where
  "numbered base n = base @ ''-'' @ show_nat n"

lemma show_nat_inj: "show_nat a = show_nat b \<Longrightarrow> a = b"
proof -
  assume eq: "show_nat a = show_nat b"
  have "2 \<le> (10 :: nat)" "(10 :: nat) \<le> 16" by simp_all
  from show_radix_value [OF this, of a] show_radix_value [OF this, of b] show "a = b" unfolding eq by (rule trans [OF sym])
qed

lemma numbered_inj [simp]: "numbered base a = numbered base b \<longleftrightarrow> a = b"
  by (auto simp: numbered_def dest: show_nat_inj)

definition taken_from :: "string list \<Rightarrow> string \<Rightarrow> nat \<Rightarrow> string set" where
  "taken_from used base n = {s \<in> set used. \<exists>m\<ge>n. s = numbered base m}"

lemma taken_from_finite [simp]: "finite (taken_from used base n)"
  by (simp add: taken_from_def)

lemma taken_from_Suc: "taken_from used base (Suc n) = taken_from used base n - {numbered base n}"
  by (auto simp: taken_from_def Suc_le_eq order_le_less)

function unique_name :: "string list \<Rightarrow> string \<Rightarrow> string \<Rightarrow> nat \<Rightarrow> string" where
  "unique_name used base name n =
     (if name \<in> set used then unique_name used base (numbered base n) (Suc n) else name)"
  by pat_completeness auto
termination
proof (relation "measure (\<lambda>(used, base, name, n). card (taken_from used base n) + (if name \<in> set used then 1 else 0))")
  fix used :: "string list" and base name :: string and n :: nat
  assume "name \<in> set used"
  moreover have "numbered base n \<in> taken_from used base n" if "numbered base n \<in> set used" using that by (auto simp: taken_from_def)
  ultimately show "((used, base, numbered base n, Suc n), used, base, name, n)
      \<in> measure (\<lambda>(used, base, name, n). card (taken_from used base n) + (if name \<in> set used then 1 else 0))"
    using card_Diff1_less [of "taken_from used base n" "numbered base n"] card_Diff1_le [of "taken_from used base n" "numbered base n"]
    by (auto simp: taken_from_Suc)
qed simp

declare unique_name.simps [simp del]

definition renamed_filter :: "(string \<Rightarrow> string) \<Rightarrow> agh_filter \<Rightarrow> string \<Rightarrow> string" where
  "renamed_filter wide f name = ''filter '' @ debug_str wide (af_name f) @ '' renamed to '' @ debug_str wide name
     @ '' to keep list names unique''"

definition disabled_filter :: "(string \<Rightarrow> string) \<Rightarrow> agh_filter \<Rightarrow> string" where
  "disabled_filter wide f = ''disabled filter '' @ debug_str wide (af_name f) @ '' not migrated''"

fun conv_filters ::
    "(string \<Rightarrow> string) \<Rightarrow> nat \<Rightarrow> string list \<Rightarrow> agh_filter list \<Rightarrow> (string \<times> string) list \<times> string list" where
  "conv_filters wide i used [] = ([], [])"
| "conv_filters wide i used (f # fs) =
     (if af_enabled f then
        (let base = (if slug (af_name f) = [] then ''list-'' @ show_nat (i + 1) else slug (af_name f));
             name = unique_name used base base 2;
             (lists, warnings) = conv_filters wide (Suc i) (name # used) fs in
         ((name, af_url f) # lists, (if name \<noteq> base then [renamed_filter wide f name] else []) @ warnings))
      else
        (let (lists, warnings) = conv_filters wide (Suc i) used fs in
         (lists, disabled_filter wide f # warnings)))"

definition conv_user_rules :: "agh \<Rightarrow> string option" where
  "conv_user_rules a =
     (let rules = ag_user_rules a @ ad_blocked_hosts (ag_dns a) in
      if rules = [] then None
      else Some (''! migrated from AdGuardHome.yaml (user_rules + blocked_hosts)'' @ [CHR 0x0A]
             @ join [CHR 0x0A] rules @ [CHR 0x0A]))"

definition conv_safe_search :: "agh_safe_search \<Rightarrow> (bool \<times> string list) \<times> string list" where
  "conv_safe_search ss =
     (if as_enabled ss then
        (let providers = map snd (filter fst [(as_google ss, ''google''), (as_youtube ss, ''youtube''), (as_bing ss, ''bing''),
                (as_duckduckgo ss, ''duckduckgo'')]);
             w1 = map (\<lambda>(_, name). ''safe-search provider '' @ name @ '' is not supported in v1'')
                (filter fst [(as_ecosia ss, ''ecosia''), (as_pixabay ss, ''pixabay''), (as_yandex ss, ''yandex'')]) in
         ((providers \<noteq> [], providers),
          w1 @ (if providers = [] then [''safe_search was enabled but no supported provider is active; disabled''] else [])))
      else ((False, []), []))"

definition scope_warnings :: "agh \<Rightarrow> string list" where
  "scope_warnings a =
     (if ag_dhcp_enabled a then [''DHCP is enabled in AdGuard but out of scope for sumidero''] else [])
     @ (if ag_tls_enabled a then [''TLS serving (DoT/DoH server) is out of scope for sumidero v1''] else [])
     @ (if ad_ratelimit (ag_dns a) > 0 then [''ratelimit has no equivalent in sumidero v1''] else [])
     @ [''web UI, query-log settings, and statistics settings do not apply: sumidero's control ''
        @ ''plane is the config file + SQLite + CLI'']"

section \<open>Conversion\<close>

text \<open>What the sections map to, before it is written out.\<close>

record converted =
  cv_bind :: "string list"
  cv_allow :: "string list"
  cv_lists :: "(string \<times> string) list"
  cv_servers :: "string list"
  cv_bootstrap :: "string list"
  cv_timeout_ms :: nat
  cv_safe_search :: bool
  cv_providers :: "string list"
  cv_user_rules :: "string option"
  cv_warnings :: "string list"

definition conv_sections :: "(string \<Rightarrow> string) \<Rightarrow> agh \<Rightarrow> string + converted" where
  "conv_sections wide a =
     (case conv_bind a of
        Inl e \<Rightarrow> Inl e
      | Inr bound \<Rightarrow>
          (let d = ag_dns a;
               servers = filter usable_upstream (ad_upstream_dns d);
               w_up = map skipped_upstream (filter (\<lambda>u. \<not> usable_upstream u) (ad_upstream_dns d)) in
           if servers = [] then Inl ''no usable upstream (need at least one https:// or quic:// server)''
           else if ad_bootstrap_dns d = [] then Inl ''bootstrap_dns is empty; sumidero requires bootstrap IPs''
           else
             (let w_fb = (if ad_fallback_dns d \<noteq> []
                          then [''fallback_dns has no equivalent: sumidero races all upstreams in parallel''] else []);
                  (timeout, w_to) = (case parse_go_duration_ms (ad_upstream_timeout d) of
                       Some t \<Rightarrow> (t, [])
                     | None \<Rightarrow> (5000, [''cannot parse upstream_timeout '' @ debug_str wide (ad_upstream_timeout d) @ ''; using 5000 ms'']));
                  (allow, w_al) = conv_allow wide (ad_allowed_clients d);
                  (lists, w_li) = conv_filters wide 0 [''user-rules''] (ag_filters a);
                  user_rules = conv_user_rules a;
                  ((ss_enabled, providers), w_ss) = conv_safe_search (ag_safe_search a);
                  warnings = w_up @ w_fb @ w_to @ w_al @ w_li @ w_ss @ scope_warnings a in
              if lists = [] \<and> user_rules = None
              then Inl (''nothing to filter with: no enabled filters and no user rules in the AdGuard ''
                     @ ''config; start from '' @ [CHR 0x60] @ ''sumidero init --profile'' @ [CHR 0x60] @ '' instead'')
              else Inr \<lparr>cv_bind = bound, cv_allow = allow, cv_lists = lists, cv_servers = servers,
                        cv_bootstrap = map show_ip (ad_bootstrap_dns d), cv_timeout_ms = timeout, cv_safe_search = ss_enabled,
                        cv_providers = providers, cv_user_rules = user_rules, cv_warnings = warnings\<rparr>)))"

definition ln :: "string \<Rightarrow> string" where
  "ln s = s @ [CHR 0x0A]"

definition toml_text :: "(string \<Rightarrow> string) \<Rightarrow> string \<Rightarrow> string \<Rightarrow> string \<Rightarrow> converted \<Rightarrow> string" where
  "toml_text wide list_dir database user_rules_path c =
     ln (''# sumidero config '' @ [CHR 0xE2, CHR 0x80, CHR 0x94] @ '' generated by '' @ [CHR 0x60] @ ''sumidero migrate'' @ [CHR 0x60]
          @ '' from AdGuardHome.yaml'')
     @ concat (map (\<lambda>w. ln (''# WARNING: '' @ w)) (cv_warnings c))
     @ [CHR 0x0A] @ ln ''[server]''
     @ ln (''bind = '' @ debug_strs wide (cv_bind c))
     @ ln (''allow = '' @ debug_strs wide (cv_allow c))
     @ [CHR 0x0A] @ ln ''[filtering]''
     @ ln (''list_dir = '' @ debug_str wide list_dir)
     @ concat (map (\<lambda>(name, url). [CHR 0x0A] @ ln ''[[filtering.lists]]'' @ ln (''name = '' @ debug_str wide name)
          @ ln (''url = '' @ debug_str wide url)) (cv_lists c))
     @ (if cv_user_rules c \<noteq> None
        then [CHR 0x0A] @ ln ''[[filtering.lists]]'' @ ln (''name = '' @ [CHR 0x22] @ ''user-rules'' @ [CHR 0x22])
          @ ln (''path = '' @ debug_str wide user_rules_path)
        else [])
     @ [CHR 0x0A] @ ln ''[upstreams]''
     @ ln (''servers = '' @ debug_strs wide (cv_servers c))
     @ ln (''bootstrap = '' @ debug_strs wide (cv_bootstrap c))
     @ ln (''timeout_ms = '' @ show_nat (cv_timeout_ms c))
     @ [CHR 0x0A] @ ln ''[database]''
     @ ln (''path = '' @ debug_str wide database)
     @ [CHR 0x0A] @ ln ''[safe_search]''
     @ ln (''enabled = '' @ (if cv_safe_search c then ''true'' else ''false''))
     @ ln (''providers = '' @ debug_strs wide (cv_providers c))"

definition convert ::
    "(string \<Rightarrow> string) \<Rightarrow> (string \<Rightarrow> string + agh) \<Rightarrow> (string \<Rightarrow> 'pe + 'net config) \<Rightarrow> (('io, 'pe) config_error \<Rightarrow> string)
       \<Rightarrow> string \<Rightarrow> string \<Rightarrow> string \<Rightarrow> string \<Rightarrow> string + migration" where
  "convert wide yaml toml_from_str show_config text list_dir database user_rules_path =
     (case yaml text of
        Inl e \<Rightarrow> Inl (''cannot parse YAML: '' @ e)
      | Inr a \<Rightarrow>
          (case conv_sections wide a of
             Inl e \<Rightarrow> Inl e
           | Inr c \<Rightarrow>
               (let toml = toml_text wide list_dir database user_rules_path c in
                case from_toml toml_from_str toml ''<migrated>'' of
                  Inl e \<Rightarrow> Inl (''generated config failed validation (bug): '' @ show_config e)
                | Inr _ \<Rightarrow> Inr \<lparr>mg_toml = toml, mg_warnings = cv_warnings c, mg_user_rules = cv_user_rules c\<rparr>)))"

section \<open>The command\<close>

text \<open>\<open>rules_path\<close> is the absolute path of \<open>user-rules.txt\<close> beside the target.\<close>

definition migrate_run ::
    "io \<Rightarrow> nat \<Rightarrow> (string \<Rightarrow> string) \<Rightarrow> (string \<Rightarrow> string + agh) \<Rightarrow> (string \<Rightarrow> 'pe + 'net config) \<Rightarrow> (('io, 'pe) config_error \<Rightarrow> string)
       \<Rightarrow> (string \<Rightarrow> string) \<Rightarrow> string \<Rightarrow> bool \<Rightarrow> string \<Rightarrow> string option \<Rightarrow> bool \<Rightarrow> file_system \<Rightarrow> cli_result \<times> file_system" where
  "migrate_run io now wide yaml toml_from_str show_config rules_path config json input out force fs =
     (let target = (case out of Some t \<Rightarrow> t | None \<Rightarrow> config) in
      if path_exists target fs \<and> \<not> force
      then (fail json ''migrate'' (target @ '' exists; pass --force to overwrite'') 6, fs)
      else
        (case read_to_string io input fs of
           Inl e \<Rightarrow> (fail json ''migrate'' (''cannot read '' @ input @ '': '' @ io_show io e) 1, fs)
         | Inr text \<Rightarrow>
             (let user_rules_path = rules_path target in
              case convert wide yaml toml_from_str show_config text ''/var/lib/sumidero/lists''
                     ''/var/lib/sumidero/sumidero.sqlite'' user_rules_path of
                Inl e \<Rightarrow> (fail json ''migrate'' e 1, fs)
              | Inr m \<Rightarrow>
                  (case (case mg_user_rules m of Some rules \<Rightarrow> fs_write io now user_rules_path rules fs | None \<Rightarrow> (None, fs)) of
                     (Some e, fs1) \<Rightarrow> (fail json ''migrate'' (''cannot write '' @ user_rules_path @ '': '' @ io_show io e) 1, fs1)
                   | (None, fs1) \<Rightarrow>
                       (case fs_write io now target (mg_toml m) fs1 of
                          (Some e, fs2) \<Rightarrow> (fail json ''migrate'' (''cannot write '' @ target @ '': '' @ io_show io e) 1, fs2)
                        | (None, fs2) \<Rightarrow>
                            (emit json ''migrate''
                               [(''written'', JStr target),
                                (''user_rules'', option_json JStr (map_option (\<lambda>_. user_rules_path) (mg_user_rules m))),
                                (''warnings'', strs_json (mg_warnings m))]
                               (''wrote '' @ target
                                  @ (case mg_user_rules m of Some _ \<Rightarrow> '' and '' @ user_rules_path | None \<Rightarrow> [])
                                  @ [CHR 0x0A] @ show_nat (length (mg_warnings m)) @ '' warnings:'' @ [CHR 0x0A] @ ''  ''
                                  @ join ([CHR 0x0A] @ ''  '') (mg_warnings m)),
                             fs2))))))"

end
