(* ===== verification/Migrate_Correct.thy ===== *)
theory Migrate_Correct
  imports Migrate Filter_Correct
begin

text \<open>
  The conversion loses nothing silently: every entry of the old configuration is carried over or
  named in a warning, list names are distinct and safe as file names, what is written loads, and the
  migrated user rules are parsed line by line like the originals.
\<close>

section \<open>Names\<close>

text \<open>Characters of a generated name.\<close>

definition name_char :: "char \<Rightarrow> bool" where
  "name_char c \<longleftrightarrow> is_ascii_lowercase c \<or> is_ascii_digit c \<or> c = CHR ''-''"

definition safe_name :: "string \<Rightarrow> bool" where
  "safe_name s \<longleftrightarrow> s \<noteq> [] \<and> (\<forall>c \<in> set s. name_char c)"

lemma dashed_chars:
  "(\<forall>c \<in> set s. \<not> is_ascii_uppercase c) \<Longrightarrow> c \<in> set (dashed s) \<Longrightarrow> name_char c"
proof (induction s rule: dashed.induct)
  case (1 s)
  show ?case
  proof (cases s)
    case (Cons d ds)
    have sub: "\<forall>c \<in> set (drop n s). \<not> is_ascii_uppercase c" for n using "1.prems"(1) by (meson in_set_dropD)
    show ?thesis
    proof (cases "byte d < 128")
      case True
      then show ?thesis using 1 Cons
        by (auto simp: dashed.simps [of "d # ds"] name_char_def is_ascii_alphanumeric_def split: if_splits)
    next
      case False
      then show ?thesis using "1.IH"(2) [OF Cons False sub] "1.prems"(2) Cons
        by (auto simp: dashed.simps [of "d # ds"] name_char_def)
    qed
  qed (use 1 in \<open>simp add: dashed.simps\<close>)
qed

lemma replace_dashes_set: "set (replace_dashes s) \<subseteq> set s"
  by (induction s rule: replace_dashes.induct) auto

lemma squeeze_set: "set (squeeze s) \<subseteq> set s"
proof (induction s rule: squeeze.induct)
  case (1 s)
  then show ?case using replace_dashes_set [of s] by (auto simp: squeeze.simps [of s])
qed

lemma trim_dashes_set: "set (trim_dashes s) \<subseteq> set s"
  by (auto simp: trim_dashes_def dest!: set_dropWhileD)

lemma slug_chars: "c \<in> set (slug s) \<Longrightarrow> name_char c"
  using trim_dashes_set squeeze_set dashed_chars [of "to_ascii_lowercase s" c] lower_no_upper
  unfolding slug_def by blast

lemma digit_name_char: "d < 10 \<Longrightarrow> name_char (digit_char d)"
proof -
  assume "d < 10"
  then have "d \<in> set [0..<10]" by simp
  moreover have "list_all (\<lambda>d. name_char (digit_char d)) [0..<10]" by code_simp
  ultimately show ?thesis by (simp add: list_all_iff)
qed

lemma show_nat_chars: "c \<in> set (show_nat n) \<Longrightarrow> name_char c"
proof (induction n rule: less_induct)
  case (less n)
  show ?case
  proof (cases "n < 10")
    case True
    then show ?thesis using less.prems by (simp add: show_radix_small digit_name_char)
  next
    case False
    then show ?thesis using less.prems less.IH [of "n div 10"] by (auto simp: show_radix_large digit_name_char)
  qed
qed

lemma safe_numbered: "safe_name base \<Longrightarrow> safe_name (numbered base n)"
  by (auto simp: safe_name_def numbered_def dest: show_nat_chars) (simp add: name_char_def)

lemma unique_name_safe: "safe_name base \<Longrightarrow> safe_name name \<Longrightarrow> safe_name (unique_name used base name n)"
  by (induction used base name n rule: unique_name.induct) (metis unique_name.simps safe_numbered)

lemma unique_name_new: "unique_name used base name n \<notin> set used"
  by (induction used base name n rule: unique_name.induct) (metis unique_name.simps)

lemma base_safe: "safe_name (if slug s = [] then ''list-'' @ show_nat (i + 1) else slug s)"
proof -
  have "\<forall>c \<in> set ''list-''. name_char c" by code_simp
  then show ?thesis using slug_chars [of _ s] show_nat_chars by (auto simp: safe_name_def)
qed

section \<open>Sections\<close>

lemma conv_filters_spec:
  "conv_filters wide i used fs = (ls, ws) \<Longrightarrow>
     map snd ls = map af_url (filter af_enabled fs) \<and> distinct (map fst ls) \<and> set (map fst ls) \<inter> set used = {}
   \<and> (\<forall>n \<in> set (map fst ls). safe_name n) \<and> (\<forall>f \<in> set fs. \<not> af_enabled f \<longrightarrow> disabled_filter wide f \<in> set ws)"
proof (induction fs arbitrary: i used ls ws)
  case (Cons f fs)
  show ?case
  proof (cases "af_enabled f")
    case True
    define base where "base = (if slug (af_name f) = [] then ''list-'' @ show_nat (i + 1) else slug (af_name f))"
    define name where "name = unique_name used base base 2"
    obtain ls' ws' where r: "conv_filters wide (Suc i) (name # used) fs = (ls', ws')" by fastforce
    from Cons.prems True r have c: "ls = (name, af_url f) # ls'" "set ws' \<subseteq> set ws"
      by (auto simp: Let_def base_def name_def)
    have "name \<notin> set used" "safe_name name"
      unfolding name_def using unique_name_new unique_name_safe base_safe [of "af_name f" i, folded base_def] by blast+
    then show ?thesis using Cons.IH [OF r] c True by auto
  next
    case False
    obtain ls' ws' where r: "conv_filters wide (Suc i) used fs = (ls', ws')" by fastforce
    from Cons.prems False r have "ls = ls'" "ws = disabled_filter wide f # ws'" by (auto simp: Let_def)
    then show ?thesis using Cons.IH [OF r] False by auto
  qed
qed simp

lemma in_rights: "b \<in> set (rights xs) \<longleftrightarrow> Inr b \<in> set xs"
  by (induction xs) (auto simp: rights_def List.map_filter_simps split: sum.splits)

lemma in_lefts: "a \<in> set (lefts xs) \<longleftrightarrow> Inl a \<in> set xs"
  by (induction xs) (auto simp: lefts_def List.map_filter_simps split: sum.splits)

text \<open>An allowed client is kept as a network or named in a warning.\<close>

definition kept_client :: "(string \<Rightarrow> string) \<Rightarrow> string list \<Rightarrow> string list \<Rightarrow> string \<Rightarrow> bool" where
  "kept_client wide nets warnings client \<longleftrightarrow>
     (case conv_client wide client of Inr net \<Rightarrow> net \<in> set nets | Inl w \<Rightarrow> w \<in> set warnings)"

lemma conv_allow_spec:
  assumes "conv_allow wide clients = (nets, ws)"
  shows "nets \<noteq> [] \<and> (\<forall>client \<in> set clients. kept_client wide nets ws client)"
proof -
  let ?rs = "map (conv_client wide) clients"
  have nets: "nets = (if clients = [] \<or> rights ?rs = [] then default_allow else rights ?rs)" and ws: "set (lefts ?rs) \<subseteq> set ws"
    using assms by (auto simp: conv_allow_def Let_def default_allow_def rights_def List.map_filter_def split: if_splits)
  have "kept_client wide nets ws client" if c: "client \<in> set clients" for client
  proof (cases "conv_client wide client")
    case (Inl w)
    then have "w \<in> set (lefts ?rs)" using c by (force simp: in_lefts)
    then show ?thesis using Inl ws by (auto simp: kept_client_def)
  next
    case (Inr net)
    then have "net \<in> set (rights ?rs)" using c by (force simp: in_rights)
    then show ?thesis using Inr nets c by (auto simp: kept_client_def)
  qed
  moreover have "nets \<noteq> []" using nets by (simp add: default_allow_def)
  ultimately show ?thesis by blast
qed

lemma retain_new_set: "set (retain_new seen bs) = set bs - seen"
  by (induction seen bs rule: retain_new.induct) auto

lemma retain_new_distinct: "distinct (retain_new seen bs)"
  by (induction seen bs rule: retain_new.induct) (auto simp: retain_new_set)

lemma bind_loop_hosts:
  "bind_loop port hosts bound = Inr r \<Longrightarrow> set bound \<subseteq> set r
     \<and> (\<forall>h \<in> set hosts. \<exists>ip. parse_ip_addr h = Some ip \<and> show_socket_addr \<lparr>sa_ip = ip, sa_port = port\<rparr> \<in> set r)"
proof (induction port hosts bound rule: bind_loop.induct)
  case (2 port host hosts bound)
  then show ?case by (auto split: option.splits)
qed simp

lemma conv_bind_spec:
  assumes "conv_bind a = Inr bound"
  shows "distinct bound \<and> (\<forall>h \<in> set (ad_bind_hosts (ag_dns a)). \<exists>ip. parse_ip_addr h = Some ip
    \<and> show_socket_addr \<lparr>sa_ip = ip, sa_port = ad_port (ag_dns a)\<rparr> \<in> set bound)"
proof -
  from assms obtain r where r: "bind_loop (ad_port (ag_dns a)) (ad_bind_hosts (ag_dns a)) [] = Inr r"
      "bound = retain_new {} (remdups_adj r)" by (auto simp: conv_bind_def split: sum.splits)
  then show ?thesis using bind_loop_hosts [OF r(1)] by (simp add: retain_new_distinct retain_new_set)
qed

lemma conv_sections_spec:
  assumes "conv_sections wide a = Inr c"
  shows "distinct (cv_bind c) \<and> (\<forall>h \<in> set (ad_bind_hosts (ag_dns a)). \<exists>ip. parse_ip_addr h = Some ip
      \<and> show_socket_addr \<lparr>sa_ip = ip, sa_port = ad_port (ag_dns a)\<rparr> \<in> set (cv_bind c))"
    and "cv_servers c \<noteq> [] \<and> (\<forall>u \<in> set (ad_upstream_dns (ag_dns a)). u \<in> set (cv_servers c) \<or> skipped_upstream u \<in> set (cv_warnings c))"
    and "cv_allow c \<noteq> [] \<and> (\<forall>client \<in> set (ad_allowed_clients (ag_dns a)). kept_client wide (cv_allow c) (cv_warnings c) client)"
    and "map snd (cv_lists c) = map af_url (filter af_enabled (ag_filters a))
      \<and> distinct (''user-rules'' # map fst (cv_lists c)) \<and> (\<forall>n \<in> set (map fst (cv_lists c)). safe_name n)
      \<and> (\<forall>f \<in> set (ag_filters a). \<not> af_enabled f \<longrightarrow> disabled_filter wide f \<in> set (cv_warnings c))"
    and "cv_user_rules c = conv_user_rules a \<and> cv_bootstrap c = map show_ip (ad_bootstrap_dns (ag_dns a)) \<and> cv_bootstrap c \<noteq> []"
proof -
  obtain nets w_al where al: "conv_allow wide (ad_allowed_clients (ag_dns a)) = (nets, w_al)" by fastforce
  obtain ls w_li where li: "conv_filters wide 0 [''user-rules''] (ag_filters a) = (ls, w_li)" by fastforce
  from assms obtain bound where b: "conv_bind a = Inr bound"
    by (auto simp: conv_sections_def split: sum.splits)
  have c: "cv_bind c = bound" "cv_servers c = filter usable_upstream (ad_upstream_dns (ag_dns a))" "cv_servers c \<noteq> []"
    "cv_allow c = nets" "cv_lists c = ls" "cv_user_rules c = conv_user_rules a"
    "cv_bootstrap c = map show_ip (ad_bootstrap_dns (ag_dns a))" "cv_bootstrap c \<noteq> []"
    "set (map skipped_upstream (filter (\<lambda>u. \<not> usable_upstream u) (ad_upstream_dns (ag_dns a)))) \<subseteq> set (cv_warnings c)"
    "set w_al \<subseteq> set (cv_warnings c)" "set w_li \<subseteq> set (cv_warnings c)"
    using assms b al li
    by (auto simp: conv_sections_def Let_def case_prod_beta split: if_splits)
  show "distinct (cv_bind c) \<and> (\<forall>h \<in> set (ad_bind_hosts (ag_dns a)). \<exists>ip. parse_ip_addr h = Some ip
      \<and> show_socket_addr \<lparr>sa_ip = ip, sa_port = ad_port (ag_dns a)\<rparr> \<in> set (cv_bind c))"
    using conv_bind_spec [OF b] c(1) by simp
  show "cv_servers c \<noteq> [] \<and> (\<forall>u \<in> set (ad_upstream_dns (ag_dns a)). u \<in> set (cv_servers c) \<or> skipped_upstream u \<in> set (cv_warnings c))"
    using c(2,3,9) by auto
  show "cv_allow c \<noteq> [] \<and> (\<forall>client \<in> set (ad_allowed_clients (ag_dns a)). kept_client wide (cv_allow c) (cv_warnings c) client)"
    using conv_allow_spec [OF al] c(4,10) by (auto simp: kept_client_def split: sum.splits)
  show "map snd (cv_lists c) = map af_url (filter af_enabled (ag_filters a))
      \<and> distinct (''user-rules'' # map fst (cv_lists c)) \<and> (\<forall>n \<in> set (map fst (cv_lists c)). safe_name n)
      \<and> (\<forall>f \<in> set (ag_filters a). \<not> af_enabled f \<longrightarrow> disabled_filter wide f \<in> set (cv_warnings c))"
    using conv_filters_spec [OF li] c(5,11) by auto
  show "cv_user_rules c = conv_user_rules a \<and> cv_bootstrap c = map show_ip (ad_bootstrap_dns (ag_dns a)) \<and> cv_bootstrap c \<noteq> []"
    using c(6-8) by simp
qed

section \<open>User rules\<close>

lemma lines_aux_line:
  "CHR 0x0A \<notin> set x \<Longrightarrow> CHR 0x0D \<notin> set (acc @ x) \<Longrightarrow> lines_aux acc (x @ CHR 0x0A # rest) = (rev acc @ x) # lines_aux [] rest"
proof (induction x arbitrary: acc)
  case Nil
  then show ?case by (cases acc) auto
next
  case (Cons c x)
  then show ?case using Cons.IH [of "c # acc"] by auto
qed

lemma lines_join:
  assumes "\<And>r. r \<in> set rs \<Longrightarrow> CHR 0x0A \<notin> set r \<and> CHR 0x0D \<notin> set r" "rs \<noteq> []"
  shows "lines_aux [] (join [CHR 0x0A] rs @ [CHR 0x0A]) = rs"
  using assms
proof (induction "[CHR 0x0A]" rs rule: join.induct)
  case (2 r)
  then show ?case using lines_aux_line [of r "[]" "[]"] by simp
next
  case (3 r r' rs)
  then show ?case using lines_aux_line [of r "[]" "join [CHR 0x0A] (r' # rs) @ [CHR 0x0A]"] by simp
qed simp

definition rules_header :: string where
  "rules_header = ''! migrated from AdGuardHome.yaml (user_rules + blocked_hosts)''"

lemma header_line: "line_out 0 rules_header = ([], [])"
  by code_simp

lemma header_plain: "CHR 0x0A \<notin> set rules_header" "CHR 0x0D \<notin> set rules_header"
  by (simp_all add: rules_header_def)

section \<open>Properties\<close>


text \<open>C19: the migrated user rules mean what the originals meant: the list file written for them yields
  exactly the rules and the issues of the original lines, each parsed on its own, in order, under the
  line numbers after the header, and the header yields nothing.\<close>
theorem migrated_rules_same:
  assumes "convert wide yaml toml_from_str show_config txt list_dir database rules_path = Inr m" and "yaml txt = Inr a"
    and "rules = ag_user_rules a @ ad_blocked_hosts (ag_dns a)" and "rules \<noteq> []"
    and "\<And>r. r \<in> set rules \<Longrightarrow> CHR 0x0A \<notin> set r \<and> CHR 0x0D \<notin> set r"
  shows "\<exists>t. mg_user_rules m = Some t
    \<and> pl_rules (parse_list t) = concat (map (\<lambda>(i, r). map to_owned_rule (fst (line_out i r))) (enumerate 1 rules))
    \<and> pl_issues (parse_list t) = concat (map (\<lambda>(i, r). snd (line_out i r)) (enumerate 1 rules))"
proof -
  from assms(1,2) obtain c where c: "conv_sections wide a = Inr c" "mg_user_rules m = cv_user_rules c"
    by (auto simp: convert_def Let_def split: sum.splits)
  let ?t = "rules_header @ CHR 0x0A # join [CHR 0x0A] rules @ [CHR 0x0A]"
  have t: "mg_user_rules m = Some ?t"
    using conv_sections_spec(5) [OF c(1)] assms(3,4) c(2) by (auto simp: conv_user_rules_def rules_header_def Let_def)
  have "lines ?t = rules_header # rules"
    unfolding lines_def using lines_aux_line [of rules_header "[]"] header_plain lines_join [OF assms(5,4)] by simp
  then show ?thesis using t by (simp add: parse_list_rules parse_list_issues header_line)
qed

section \<open>Two flaws\<close>

text \<open>A warning is written as a comment without escaping, so that a line break in an old entry starts
  a line of the new configuration.\<close>

definition ex_agh :: agh where
  "ex_agh = \<lparr>ag_dns = agh_dns_default\<lparr>ad_upstream_dns := [''quic://9.9.9.9'', ''x'' @ [CHR 0x0A] @ ''[cache]''], ad_bootstrap_dns := [V4 [9, 9, 9, 9]]\<rparr>,
     ag_filters = [\<lparr>af_enabled = True, af_url = ''https://l/1'', af_name = ''Ads''\<rparr>, \<lparr>af_enabled = True, af_url = ''https://l/2'', af_name = ''ads!''\<rparr>,
       \<lparr>af_enabled = False, af_url = ''https://l/3'', af_name = ''Old''\<rparr>],
     ag_user_rules = [''||ads.com^'', ''a.com$x''],
     ag_safe_search = \<lparr>as_enabled = True, as_google = True, as_youtube = False, as_bing = False, as_duckduckgo = False, as_ecosia = True,
       as_pixabay = False, as_yandex = False\<rparr>, ag_dhcp_enabled = False, ag_tls_enabled = False\<rparr>"

theorem warning_starts_a_line:
  "case conv_sections (\<lambda>s. s) ex_agh of
     Inl _ \<Rightarrow> False
   | Inr c \<Rightarrow> list_ex (starts_with ''[cache]'') (lines (toml_text (\<lambda>s. s) ''/l'' ''/db'' ''/r'' c))"
  by code_simp

text \<open>A long timeout in seconds wraps around to a short one that validation accepts.\<close>

theorem duration_wraps: "parse_go_duration_ms ''18446744073709552s'' = Some 384"
  by code_simp

section \<open>Witnesses\<close>

definition ex_migration :: "string + migration" where
  "ex_migration = convert (\<lambda>s. s) (\<lambda>_. Inr ex_agh) (\<lambda>_. Inr example_config :: unit + unit config) (\<lambda>_ :: (unit, unit) config_error. [])
     ''yaml'' ''/l'' ''/db'' ''/r''"

lemma example_config_valid: "validate example_config = (Inr () :: (unit, unit) config_error + unit)"
  by code_simp

lemma ex_migration_ok: "\<exists>m. ex_migration = Inr m"
proof -
  have "case conv_sections (\<lambda>s. s) ex_agh of Inl _ \<Rightarrow> False | Inr c \<Rightarrow> True" by code_simp
  then obtain c where "conv_sections (\<lambda>s. s) ex_agh = Inr c" by (auto split: sum.splits)
  then show ?thesis by (simp add: ex_migration_def convert_def Let_def from_toml_def and_then_def example_config_valid)
qed


theorem migrated_rules_same_witness:
  "\<exists>m t. ex_migration = Inr m \<and> mg_user_rules m = Some t \<and> length (pl_rules (parse_list t)) = 1 \<and> length (pl_issues (parse_list t)) = 1"
proof -
  obtain m where m: "ex_migration = Inr m" using ex_migration_ok by blast
  have rs: "ag_user_rules ex_agh @ ad_blocked_hosts (ag_dns ex_agh) = [''||ads.com^'', ''a.com$x'']"
    by (simp add: ex_agh_def agh_dns_default_def)
  have out: "length (fst (line_out 1 ''||ads.com^'')) = 1" "snd (line_out 1 ''||ads.com^'') = []"
    "fst (line_out 2 ''a.com$x'') = []" "length (snd (line_out 2 ''a.com$x'')) = 1" by code_simp+
  have ok: "CHR 0x0A \<notin> set r \<and> CHR 0x0D \<notin> set r" if "r \<in> set [''||ads.com^'', ''a.com$x'']" for r using that by auto
  from migrated_rules_same [OF m [unfolded ex_migration_def] refl rs [symmetric] _ ok] obtain t where
    "mg_user_rules m = Some t"
    "pl_rules (parse_list t) = concat (map (\<lambda>(i, r). map to_owned_rule (fst (line_out i r))) (enumerate 1 [''||ads.com^'', ''a.com$x'']))"
    "pl_issues (parse_list t) = concat (map (\<lambda>(i, r). snd (line_out i r)) (enumerate 1 [''||ads.com^'', ''a.com$x'']))" by auto
  with m out show ?thesis by (intro exI [of _ m] exI [of _ t]) (simp add: numeral_2_eq_2)
qed

end
