(* ===== verification/Cli_Main.thy ===== *)
theory Cli_Main
  imports Cli_Correct Migrate
begin

text \<open>
  The entry point of the command line, \<open>crates/cli/src/main.rs\<close> and \<open>commands/serve.rs\<close>: the parsed
  command, its dispatch, and the exit codes and JSON envelope every command keeps to.

  Parsing is the library's: \<open>parse\<close> gives an error or the parsed command.  The record \<open>cli_world\<close>
  holds what the commands find: the configuration loader, the two clocks, the other process and what
  it does, and the readers the migration uses.
\<close>

section \<open>Commands\<close>

datatype command =
    Cmd_Serve "socket_addr option"
  | Cmd_Status
  | Cmd_Log nat
  | Cmd_Stats nat
  | Cmd_Explain string
  | Cmd_Check
  | Cmd_Reload nat
  | Cmd_Init string "string option" bool
  | Cmd_Shadow_Report nat nat
  | Cmd_Migrate string "string option" bool

record cli =
  cli_config :: string
  cli_json :: bool
  cli_command :: command

text \<open>A parse error of the library: its exit code, its text, and what its \<open>print\<close> shows.\<close>

record clap_error =
  ck_code :: int
  ck_text :: string
  ck_print :: cli_output

record ('net, 'io, 'pe) cli_world =
  cw_env :: "('net, 'io, 'pe) cenv"
  cw_load :: "string \<Rightarrow> file_system \<Rightarrow> ('io, 'pe) config_error + 'net config"
  cw_now :: nat
  cw_unix :: int
  cw_daemon :: "string \<Rightarrow> socket_addr option \<Rightarrow> file_system \<Rightarrow> string option \<times> file_system"
  cw_kill :: "nat \<Rightarrow> string option"
  cw_seen :: "nat \<Rightarrow> database"
  cw_extra :: "nat \<Rightarrow> nat"
  cw_yaml :: "string \<Rightarrow> string + agh"
  cw_toml :: "string \<Rightarrow> 'pe + 'net config"
  cw_rules_path :: "string \<Rightarrow> string"

text \<open>\<open>serve\<close>: \<open>daemon\<close> is how \<open>daemon::run\<close> ends.\<close>

definition serve_run ::
    "('net, 'io, 'pe) cenv \<Rightarrow> (file_system \<Rightarrow> string option \<times> file_system) \<Rightarrow> bool \<Rightarrow> file_system \<Rightarrow> cli_result \<times> file_system" where
  "serve_run ce daemon json fs =
     (case ce_runtime ce of
        Some e \<Rightarrow> (fail json ''serve'' (''cannot start runtime: '' @ e) 1, fs)
      | None \<Rightarrow>
          (case daemon fs of
             (None, fs1) \<Rightarrow> ((NoOutput, 0), fs1)
           | (Some e, fs1) \<Rightarrow> (fail json ''serve'' e 1, fs1)))"

definition dispatch ::
    "('net, 'io, 'pe) cli_world \<Rightarrow> cli \<Rightarrow> file_system \<Rightarrow> (cli_result \<times> file_system) option" where
  "dispatch w c fs =
     (let json = cli_json c; config = cli_config c; ce = cw_env w; loaded = cw_load w config fs;
          reads = (\<lambda>r. Some (r, fs)) in
      case cli_command c of
        Cmd_Serve shadow \<Rightarrow> Some (serve_run ce (cw_daemon w config shadow) json fs)
      | Cmd_Status \<Rightarrow> reads (status_run ce loaded (cw_unix w) json)
      | Cmd_Log limit \<Rightarrow> reads (log_run ce loaded json limit)
      | Cmd_Stats hours \<Rightarrow> reads (stats_run ce loaded (cw_unix w) json hours)
      | Cmd_Explain domain \<Rightarrow> map_option (\<lambda>r. (r, fs)) (explain_run ce (cw_now w) loaded json domain fs)
      | Cmd_Check \<Rightarrow> map_option (\<lambda>r. (r, fs)) (check_run ce (cw_now w) loaded json fs)
      | Cmd_Reload wait_secs \<Rightarrow>
          reads (reload_run ce (cw_kill w) loaded (cw_unix w) json wait_secs (cw_seen w) (cw_extra w))
      | Cmd_Init profile out force \<Rightarrow> Some (init_run (de_io (ce_daemon ce)) (cw_now w) config json profile out force fs)
      | Cmd_Shadow_Report hours limit \<Rightarrow> reads (shadow_report_run ce loaded (cw_unix w) json hours limit)
      | Cmd_Migrate input out force \<Rightarrow>
          Some (migrate_run (de_io (ce_daemon ce)) (cw_now w) (ce_wide ce) (cw_yaml w) (cw_toml w) (ce_show_config ce)
            (cw_rules_path w) config json input out force fs))"

definition main_run ::
    "('net, 'io, 'pe) cli_world \<Rightarrow> (string list \<Rightarrow> clap_error + cli) \<Rightarrow> string list \<Rightarrow> file_system
       \<Rightarrow> (cli_result \<times> file_system) option" where
  "main_run w parse args fs =
     (case parse args of
        Inr c \<Rightarrow> dispatch w c fs
      | Inl e \<Rightarrow>
          Some ((if ck_code e = 2 \<and> ''--json'' \<in> set args
                 then JsonLine (JObj [(''schema'', JStr SCHEMA), (''command'', JStr ''usage''), (''error'', JStr (ck_text e))])
                 else ck_print e,
                 if 0 \<le> ck_code e \<and> ck_code e \<le> 255 then nat (ck_code e) else 2), fs))"

section \<open>The contract\<close>

text \<open>One JSON object in the envelope with \<open>--json\<close>, none without.\<close>

definition speaks :: "bool \<Rightarrow> string \<Rightarrow> cli_output \<Rightarrow> bool" where
  "speaks json command out \<longleftrightarrow>
     (if json then \<exists>ms. out = JsonLine (JObj ms) \<and> map_of ms ''schema'' = Some (JStr ''v1'') \<and> map_of ms ''command'' = Some (JStr command)
      else \<forall>j. out \<noteq> JsonLine j)"

text \<open>The name in the envelope, and the exit codes of a command.\<close>

fun command_name :: "command \<Rightarrow> string" where
  "command_name (Cmd_Serve _) = ''serve''"
| "command_name Cmd_Status = ''status''"
| "command_name (Cmd_Log _) = ''log''"
| "command_name (Cmd_Stats _) = ''stats''"
| "command_name (Cmd_Explain _) = ''explain''"
| "command_name Cmd_Check = ''check''"
| "command_name (Cmd_Reload _) = ''reload''"
| "command_name (Cmd_Init _ _ _) = ''init''"
| "command_name (Cmd_Shadow_Report _ _) = ''shadow-report''"
| "command_name (Cmd_Migrate _ _ _) = ''migrate''"

fun exit_codes :: "command \<Rightarrow> nat list" where
  "exit_codes Cmd_Status = [0, 1, 5, 7]"
| "exit_codes (Cmd_Explain _) = [0, 1, 2, 3, 4]"
| "exit_codes (Cmd_Reload _) = [0, 1, 5, 8]"
| "exit_codes (Cmd_Init _ _ _) = [0, 1, 2, 6]"
| "exit_codes (Cmd_Migrate _ _ _) = [0, 1, 6]"
| "exit_codes _ = [0, 1]"

text \<open>A result within the contract of a command with these exit codes.\<close>

definition kept :: "bool \<Rightarrow> string \<Rightarrow> nat list \<Rightarrow> cli_result \<Rightarrow> bool" where
  "kept json command codes r \<longleftrightarrow> speaks json command (fst r) \<and> snd r \<in> set codes"

lemma kept_eq: "kept json command codes r \<Longrightarrow> r = r' \<Longrightarrow> kept json command codes r'"
  by simp

lemma kept_fst: "kept json command codes (fst r) \<Longrightarrow> r = (r', fs) \<Longrightarrow> kept json command codes r'"
  by simp

lemma emit_code_kept [simp]: "code \<in> set codes \<Longrightarrow> kept json command codes (emit_code json command payload human code)"
  by (simp add: kept_def speaks_def emit_code_def SCHEMA_def update_conv')

lemma emit_kept [simp]: "0 \<in> set codes \<Longrightarrow> kept json command codes (emit json command payload human)"
  by (simp add: emit_def)

lemma fail_kept [simp]: "code \<in> set codes \<Longrightarrow> kept json command codes (fail json command message code)"
  by (simp add: kept_def speaks_def fail_def SCHEMA_def)

lemma with_db_kept:
  assumes "1 \<in> set codes" "\<And>cfg d. kept json command codes (k cfg d)"
  shows "kept json command codes (with_db ce loaded json command k)"
  using assms by (auto simp: with_db_def split: sum.split)

lemma status_kept: "kept json ''status'' [0, 1, 5, 7] (status_run ce loaded now json)"
  unfolding status_run_def
  by (rule with_db_kept) (auto simp: status_report_def Let_def split: sum.split option.split)

lemma log_kept: "kept json ''log'' [0, 1] (log_run ce loaded json limit)"
  unfolding log_run_def by (rule with_db_kept) (auto split: sum.split)

lemma stats_kept: "kept json ''stats'' [0, 1] (stats_run ce loaded now json hours)"
  unfolding stats_run_def by (rule with_db_kept) (auto simp: Let_def)

lemma shadow_report_kept: "kept json ''shadow-report'' [0, 1] (shadow_report_run ce loaded now json hours limit)"
  unfolding shadow_report_run_def by (rule with_db_kept) (auto simp: Let_def)

lemma reload_kept: "kept json ''reload'' [0, 1, 5, 8] (reload_run ce kill loaded now json wait_secs seen extra)"
  unfolding reload_run_def by (rule with_db_kept) (auto simp: Let_def split: option.split)

lemma check_kept: "check_run ce now loaded json fs = Some r \<Longrightarrow> kept json ''check'' [0, 1] r"
  by (auto simp: check_run_def Let_def split: bind_splits sum.split)

lemma explain_report_kept: "explain_report json domain l hash = Some r \<Longrightarrow> kept json ''explain'' [0, 1, 2, 3, 4] r"
proof -
  assume r: "explain_report json domain l hash = Some r"
  then obtain v where "verdict (ll_engine l) domain = Some v" by (auto simp: explain_report_def Let_def split: bind_splits)
  with r show ?thesis by (cases v) (auto simp: explain_report_def Let_def split: bind_splits)
qed

lemma explain_kept: "explain_run ce now loaded json domain fs = Some r \<Longrightarrow> kept json ''explain'' [0, 1, 2, 3, 4] r"
  by (auto simp: explain_run_def split: if_splits sum.splits option.splits bind_splits dest: explain_report_kept)

lemma init_kept: "kept json ''init'' [0, 1, 2, 6] (fst (init_run io now config json profile out force fs))"
  by (auto simp: init_run_def Let_def split: prod.split option.split)

lemma migrate_kept:
  "kept json ''migrate'' [0, 1, 6]
     (fst (migrate_run io now wide yaml toml_from_str show_config rules_path config json input out force fs))"
  by (auto simp: migrate_run_def Let_def split: prod.split option.split sum.split)

text \<open>Files that exist are only overwritten with \<open>--force\<close>.\<close>

lemma init_forced:
  assumes "init_run io now config json profile out force fs = (r, fs')" "fs' \<noteq> fs"
    "path_exists (case out of Some t \<Rightarrow> t | None \<Rightarrow> config) fs"
  shows force
proof (rule ccontr)
  assume "\<not> force"
  then have "fs' = fs" using assms(1,3) by (auto simp: init_run_def Let_def split: option.splits if_splits)
  then show False using assms(2) by simp
qed

lemma migrate_forced:
  assumes "migrate_run io now wide yaml toml_from_str show_config rules_path config json input out force fs = (r, fs')" "fs' \<noteq> fs"
    "path_exists (case out of Some t \<Rightarrow> t | None \<Rightarrow> config) fs"
  shows force
  using assms by (cases force) (simp_all add: migrate_run_def Let_def)

fun target :: "cli \<Rightarrow> (string \<times> bool) option" where
  "target c = (case cli_command c of
      Cmd_Init _ out force \<Rightarrow> Some (case out of Some t \<Rightarrow> t | None \<Rightarrow> cli_config c, force)
    | Cmd_Migrate _ out force \<Rightarrow> Some (case out of Some t \<Rightarrow> t | None \<Rightarrow> cli_config c, force)
    | _ \<Rightarrow> None)"

fun serves :: "command \<Rightarrow> bool" where
  "serves (Cmd_Serve _) = True"
| "serves _ = False"


section \<open>Witness\<close>

definition ex_world :: "(nat, unit, unit) cli_world" where
  "ex_world = \<lparr>cw_env = ex_cenv example_database, cw_load = (\<lambda>_ _. Inr ex_config), cw_now = 9, cw_unix = 100,
     cw_daemon = (\<lambda>_ _ fs. (None, fs)), cw_kill = (\<lambda>_. None), cw_seen = (\<lambda>_. example_database), cw_extra = (\<lambda>_. 0),
     cw_yaml = (\<lambda>_. Inl []), cw_toml = (\<lambda>_. Inr ex_config), cw_rules_path = (\<lambda>t. t)\<rparr>"

definition ex_cli :: cli where
  "ex_cli = \<lparr>cli_config = ''/c.toml'', cli_json = True, cli_command = Cmd_Init ''minimal'' (Some ''/a.txt'') False\<rparr>"


end
