(* ===== verification/Testkit.thy ===== *)
theory Testkit
  imports Lists_Fresh Server_Correct Rust_Fmt
begin

text \<open>
  The servers the repository's end-to-end tests talk to, from \<open>crates/testkit/src/lib.rs\<close>: the list
  host with its entity tags, its failures and its captive portal, and the DNS upstream with its zone.
  The list host is shown to be honest in the sense of \<open>Lists_Fresh\<close>, so that a test of revalidation
  exercises what \<open>confirmed_list_is_current\<close> promises.  Certificates, sockets and the HTTP and DNS
  servers around the handlers belong to libraries.
\<close>

section \<open>List host\<close>

datatype list_mode = LmServe | LmStatus nat | LmStall | LmCaptivePortal

record list_host =
  lh_addr :: socket_addr
  lh_files :: "string \<Rightarrow> string option"
  lh_mode :: list_mode
  lh_requests :: "64 word"

definition list_host_start :: "socket_addr \<Rightarrow> list_host" where
  "list_host_start addr = \<lparr>lh_addr = addr, lh_files = (\<lambda>_. None), lh_mode = LmServe, lh_requests = 0\<rparr>"

definition put :: "string \<Rightarrow> string \<Rightarrow> list_host \<Rightarrow> list_host" where
  "put name body st = st\<lparr>lh_files := (lh_files st)(name \<mapsto> body)\<rparr>"

definition list_set_mode :: "list_mode \<Rightarrow> list_host \<Rightarrow> list_host" where
  "list_set_mode m st = st\<lparr>lh_mode := m\<rparr>"

definition list_url :: "list_host \<Rightarrow> string \<Rightarrow> string" where
  "list_url st name = ''https://'' @ show_socket_addr (lh_addr st) @ ''/'' @ name"

definition named_url :: "list_host \<Rightarrow> string \<Rightarrow> string" where
  "named_url st name = ''https://lists.test:'' @ show_nat (sa_port (lh_addr st)) @ ''/'' @ name"

text \<open>FNV-1a over the bytes of the body, as sixteen hexadecimal digits between quotes.\<close>

definition fnv1a :: "string \<Rightarrow> 64 word" where
  "fnv1a body = foldl (\<lambda>h b. (xor h (of_nat (byte b))) * 0x100000001b3) 0xcbf29ce484222325 body"

definition hex_016 :: "64 word \<Rightarrow> string" where
  "hex_016 w = (let s = show_radix 16 (unat w) in replicate (16 - length s) CHR ''0'' @ s)"

definition etag_of :: "string \<Rightarrow> string" where
  "etag_of body = [CHR 0x22] @ hex_016 (fnv1a body) @ [CHR 0x22]"

definition crlf :: string where
  "crlf = [CHR 0x0D, CHR 0x0A]"

text \<open>The request head: what the reads gave until the blank line; the end of the stream or an error
  before it ends the connection.\<close>

fun read_head :: "string list \<Rightarrow> string \<Rightarrow> string option" where
  "read_head chunks buf =
     (if contains_str (crlf @ crlf) buf then Some buf
      else (case chunks of
              [] \<Rightarrow> None
            | chunk # rest \<Rightarrow> if chunk = [] then None else read_head rest (buf @ chunk)))"

definition head_path :: "string \<Rightarrow> string" where
  "head_path head =
     dropWhile (\<lambda>c. c = CHR ''/'')
       (case lines head of
          [] \<Rightarrow> ''/''
        | l # _ \<Rightarrow> (case nth_opt (split_whitespace l) 1 of Some p \<Rightarrow> p | None \<Rightarrow> ''/''))"

fun find_none_match :: "string list \<Rightarrow> string option" where
  "find_none_match [] = None"
| "find_none_match (l # ls) =
     (case find_char CHR '':'' l of
        None \<Rightarrow> find_none_match ls
      | Some i \<Rightarrow> if eq_ignore_ascii_case (take i l) ''if-none-match'' then Some (trim (drop (i + 1) l)) else find_none_match ls)"

lemma head_example:
  "head_path (''GET /a HTTP/1.1'' @ crlf @ ''host: lists.test'' @ crlf @ ''If-None-Match: v1'' @ crlf @ crlf) = ''a''"
  "find_none_match (lines (''GET /a HTTP/1.1'' @ crlf @ ''host: lists.test'' @ crlf @ ''If-None-Match: v1'' @ crlf @ crlf)) = Some ''v1''"
  by code_simp+

text \<open>A reply before it is written: status line, headers, body.\<close>

record http_reply =
  hr_status :: nat
  hr_reason :: string
  hr_headers :: "(string \<times> string) list"
  hr_body :: string

definition portal_page :: string where
  "portal_page = ''<html><body>Please log in to the hotel Wi-Fi</body></html>''"

definition list_reply :: "list_host \<Rightarrow> string \<Rightarrow> string option \<Rightarrow> http_reply option" where
  "list_reply st path inm =
     (let close = (''connection'', ''close'') in
      case lh_mode st of
        LmStall \<Rightarrow> None
      | LmStatus code \<Rightarrow> Some \<lparr>hr_status = code, hr_reason = ''Error'', hr_headers = [(''content-length'', ''0''), close], hr_body = []\<rparr>
      | LmCaptivePortal \<Rightarrow> Some \<lparr>hr_status = 200, hr_reason = ''OK'',
          hr_headers = [(''content-type'', ''text/html''), (''content-length'', show_nat (length portal_page)), close],
          hr_body = portal_page\<rparr>
      | LmServe \<Rightarrow>
          (case lh_files st path of
             None \<Rightarrow> Some \<lparr>hr_status = 404, hr_reason = ''Not Found'', hr_headers = [(''content-length'', ''0''), close], hr_body = []\<rparr>
           | Some body \<Rightarrow>
               (let etag = etag_of body in
                if inm = Some etag
                then Some \<lparr>hr_status = 304, hr_reason = ''Not Modified'', hr_headers = [(''etag'', etag), close], hr_body = []\<rparr>
                else Some \<lparr>hr_status = 200, hr_reason = ''OK'',
                  hr_headers = [(''etag'', etag), (''content-length'', show_nat (length body)), close], hr_body = body\<rparr>)))"

definition reply_text :: "http_reply \<Rightarrow> string" where
  "reply_text r = ''HTTP/1.1 '' @ show_nat (hr_status r) @ '' '' @ hr_reason r @ crlf
     @ concat (map (\<lambda>(k, v). k @ '': '' @ v @ crlf) (hr_headers r)) @ crlf @ hr_body r"

definition serve_http :: "(string \<Rightarrow> string) \<Rightarrow> string list \<Rightarrow> list_host \<Rightarrow> string option \<times> list_host" where
  "serve_http utf8_lossy chunks st =
     (case read_head chunks [] of
        None \<Rightarrow> (None, st)
      | Some buf \<Rightarrow>
          (let st1 = st\<lparr>lh_requests := lh_requests st + 1\<rparr>; head = utf8_lossy buf in
           (map_option reply_text (list_reply st1 (head_path head) (find_none_match (lines head))), st1)))"

section \<open>DNS upstream\<close>

datatype upstream_mode = MoAnswer | MoServFail | MoHang | MoDelay nat

record zone =
  zn_cnames :: "string \<Rightarrow> string option"
  zn_a :: "string \<Rightarrow> nat list list option"
  zn_nx :: "string list"

record upstream_state =
  us_mode :: upstream_mode
  us_signed :: bool
  us_zone :: zone
  us_ttl :: nat
  us_queries :: "64 word"
  us_names :: "string list"

text \<open>What the handler uses of the DNS library: names from and to text, the number of labels, and the
  metadata of a response to a request.\<close>

record 'n name_deps =
  nd_from_ascii :: "string \<Rightarrow> 'n option"
  nd_show :: "'n \<Rightarrow> string"
  nd_num_labels :: "'n \<Rightarrow> nat"
  nd_response_metadata :: "metadata \<Rightarrow> metadata"

definition upstream_start :: upstream_state where
  "upstream_start = \<lparr>us_mode = MoAnswer, us_signed = False, us_zone = \<lparr>zn_cnames = (\<lambda>_. None), zn_a = (\<lambda>_. None), zn_nx = []\<rparr>,
     us_ttl = 300, us_queries = 0, us_names = []\<rparr>"

definition set_mode :: "upstream_mode \<Rightarrow> upstream_state \<Rightarrow> upstream_state" where
  "set_mode m st = st\<lparr>us_mode := m\<rparr>"

definition set_signed :: "bool \<Rightarrow> upstream_state \<Rightarrow> upstream_state" where
  "set_signed b st = st\<lparr>us_signed := b\<rparr>"

definition set_ttl :: "nat \<Rightarrow> upstream_state \<Rightarrow> upstream_state" where
  "set_ttl ttl st = st\<lparr>us_ttl := ttl\<rparr>"

definition add_cname :: "string \<Rightarrow> string \<Rightarrow> upstream_state \<Rightarrow> upstream_state" where
  "add_cname name target st = st\<lparr>us_zone := (us_zone st)\<lparr>zn_cnames := (zn_cnames (us_zone st))(name \<mapsto> target)\<rparr>\<rparr>"

definition add_a :: "string \<Rightarrow> nat list list \<Rightarrow> upstream_state \<Rightarrow> upstream_state" where
  "add_a name ips st = st\<lparr>us_zone := (us_zone st)\<lparr>zn_a := (zn_a (us_zone st))(name \<mapsto> ips)\<rparr>\<rparr>"

definition add_nxdomain :: "string \<Rightarrow> upstream_state \<Rightarrow> upstream_state" where
  "add_nxdomain name st = st\<lparr>us_zone := (us_zone st)\<lparr>zn_nx := zn_nx (us_zone st) @ [name]\<rparr>\<rparr>"

definition asked :: "upstream_state \<Rightarrow> string \<Rightarrow> nat" where
  "asked st name = length (filter (\<lambda>n. n = name) (us_names st))"

definition synth_v4 :: "string \<Rightarrow> nat list" where
  "synth_v4 name =
     (let h = foldl (\<lambda>h b. h * 31 + of_nat (byte b)) (7 :: 32 word) name in [198, 51, 100, unat (h mod 250) + 1])"

definition fqdn :: "'n name_deps \<Rightarrow> string \<Rightarrow> 'n option" where
  "fqdn nd name = nd_from_ascii nd (name @ ''.'')"

definition soa_record :: "'n name_deps \<Rightarrow> nat \<Rightarrow> 'n dns_record option" where
  "soa_record nd ttl = do {
     origin \<leftarrow> fqdn nd ''test'';
     rname \<leftarrow> fqdn nd ''hostmaster.test'';
     Some (from_rdata origin ttl (RData_SOA \<lparr>soa_mname = origin, soa_rname = rname, soa_serial = 1, soa_refresh = 3600,
       soa_retry = 600, soa_expire = 86400, soa_minimum = ttl\<rparr>))
   }"

definition be32 :: "nat \<Rightarrow> string" where
  "be32 n = be_bytes (n div 65536) @ be_bytes (n mod 65536)"

definition rrsig_for :: "'n name_deps \<Rightarrow> 'n \<Rightarrow> nat \<Rightarrow> nat \<Rightarrow> 'n dns_record" where
  "rrsig_for nd name covered ttl =
     from_rdata name ttl (RData_Other 46
       (be_bytes covered @ [char_of (13::nat), char_of (nd_num_labels nd name)] @ be32 ttl @ be32 u32_max @ be32 0 @ be_bytes 4242
        @ [CHR 0x04] @ ''test'' @ [CHR 0x00] @ replicate 64 (CHR 0xAB)))"

fun rdata_type :: "'n rdata \<Rightarrow> nat" where
  "rdata_type (RData_A _) = 1"
| "rdata_type (RData_AAAA _) = 28"
| "rdata_type (RData_CNAME _) = 5"
| "rdata_type (RData_SOA _) = 6"
| "rdata_type (RData_Other n _) = n"

text \<open>At most \<open>k\<close> links of the zone from a name, and where they end.\<close>

fun follow_cnames :: "nat \<Rightarrow> (string \<Rightarrow> string option) \<Rightarrow> string \<Rightarrow> (string \<times> string) list \<times> string" where
  "follow_cnames 0 cnames name = ([], name)"
| "follow_cnames (Suc k) cnames name =
     (case cnames name of
        None \<Rightarrow> ([], name)
      | Some target \<Rightarrow> (case follow_cnames k cnames target of (hops, end') \<Rightarrow> ((name, target) # hops, end')))"

fun cname_records :: "'n name_deps \<Rightarrow> nat \<Rightarrow> (string \<times> string) list \<Rightarrow> 'n dns_record list option" where
  "cname_records nd ttl [] = Some []"
| "cname_records nd ttl ((name, target) # hops) = do {
     owner \<leftarrow> fqdn nd name;
     alias \<leftarrow> fqdn nd target;
     rest \<leftarrow> cname_records nd ttl hops;
     Some (from_rdata owner ttl (RData_CNAME alias) # rest)
   }"

fun address_records :: "'n name_deps \<Rightarrow> nat \<Rightarrow> string \<Rightarrow> 'n rdata list \<Rightarrow> 'n dns_record list option" where
  "address_records nd ttl name [] = Some []"
| "address_records nd ttl name (d # ds) = do {
     owner \<leftarrow> fqdn nd name;
     rest \<leftarrow> address_records nd ttl name ds;
     Some (from_rdata owner ttl d # rest)
   }"

text \<open>What is handed to the response builder.\<close>

record 'n sent =
  sn_metadata :: metadata
  sn_answers :: "'n dns_record list"
  sn_authority :: "'n dns_record list"
  sn_edns :: "edns option"

definition zone_sections ::
    "'n name_deps \<Rightarrow> zone \<Rightarrow> nat \<Rightarrow> string \<Rightarrow> nat \<Rightarrow> ('n dns_record list \<times> 'n dns_record list \<times> response_code) option" where
  "zone_sections nd zone ttl qname qtype =
     (case follow_cnames 8 (zn_cnames zone) qname of (hops, name) \<Rightarrow> do {
        chain \<leftarrow> cname_records nd ttl hops;
        (if name \<in> set (zn_nx zone) then do { soa \<leftarrow> soa_record nd ttl; Some (chain, [soa], NXDomain) }
         else if qtype = 1 then do {
           addrs \<leftarrow> address_records nd ttl name
             (map RData_A (case zn_a zone name of Some ips \<Rightarrow> ips | None \<Rightarrow> [synth_v4 name]));
           Some (chain @ addrs, [], NoError)
         }
         else if qtype = 28 then do {
           addrs \<leftarrow> address_records nd ttl name [RData_AAAA [0x2001, 0xdb8, 0, 0, 0, 0, 0, synth_v4 name ! 3]];
           Some (chain @ addrs, [], NoError)
         }
         else do { soa \<leftarrow> soa_record nd ttl; Some (chain, [soa], NoError) })
      })"

text \<open>After the wait, if any: the zone, the lifetime and the signing are read now.\<close>

definition answer_query ::
    "'n name_deps \<Rightarrow> metadata \<Rightarrow> string \<Rightarrow> nat \<Rightarrow> bool \<Rightarrow> upstream_state \<Rightarrow> 'n sent option" where
  "answer_query nd meta qname qtype dnssec_ok st =
     (let ttl = (if us_ttl st \<le> u32_max then us_ttl st else 300) in do {
        (answers, authority, rc) \<leftarrow> zone_sections nd (us_zone st) ttl qname qtype;
        let meta1 = meta\<lparr>md_response_code := rc\<rparr>;
        Some (if us_signed st \<and> dnssec_ok \<and> answers \<noteq> []
              then \<lparr>sn_metadata = meta1,
                sn_answers = answers @ [rrsig_for nd (dr_name (answers ! 0)) (rdata_type (dr_data (answers ! 0))) ttl],
                sn_authority = authority, sn_edns = Some \<lparr>ed_max_payload = 1232, ed_dnssec_ok = True, ed_rest = []\<rparr>\<rparr>
              else \<lparr>sn_metadata = meta1, sn_answers = answers, sn_authority = authority, sn_edns = None\<rparr>)
      })"

datatype 'n handling = Sent "'n sent" | Never | Sleeping nat metadata string nat bool

definition handle_request ::
    "'n name_deps \<Rightarrow> 'n message \<Rightarrow> upstream_state \<Rightarrow> ('n handling \<times> upstream_state) option" where
  "handle_request nd request st0 =
     (let st = st0\<lparr>us_queries := us_queries st0 + 1\<rparr>;
          meta = (nd_response_metadata nd (ms_metadata request))\<lparr>md_recursion_available := True\<rparr>;
          bare = (\<lambda>rc. Sent \<lparr>sn_metadata = meta\<lparr>md_response_code := rc\<rparr>, sn_answers = [], sn_authority = [], sn_edns = None\<rparr>) in
      case ms_queries request of
        [] \<Rightarrow> Some (bare FormErr, st)
      | query # _ \<Rightarrow>
          (let qname = to_ascii_lowercase (rev (dropWhile (\<lambda>c. c = CHR ''.'') (rev (nd_show nd (dq_name query)))));
               dnssec_ok = (case ms_edns request of Some e \<Rightarrow> ed_dnssec_ok e | None \<Rightarrow> False);
               st1 = st\<lparr>us_names := us_names st @ [qname]\<rparr> in
           case us_mode st1 of
             MoHang \<Rightarrow> Some (Never, st1)
           | MoDelay d \<Rightarrow> Some (Sleeping d meta qname (dq_type query) dnssec_ok, st1)
           | MoServFail \<Rightarrow> Some (bare ServFail, st1)
           | MoAnswer \<Rightarrow> map_option (\<lambda>s. (Sent s, st1)) (answer_query nd meta qname (dq_type query) dnssec_ok st1)))"

text \<open>The upstream as the tests hold it: the handler's state, the addresses, and whether it listens.  A
  restart listens again on the same addresses and keeps the state.\<close>

record dns_upstream =
  du_state :: upstream_state
  du_doh :: socket_addr
  du_doq :: socket_addr
  du_udp :: socket_addr
  du_listening :: bool

definition dns_serve :: "dns_upstream \<Rightarrow> dns_upstream" where
  "dns_serve u = u\<lparr>du_listening := True\<rparr>"

definition dns_start :: "socket_addr \<Rightarrow> socket_addr \<Rightarrow> socket_addr \<Rightarrow> dns_upstream" where
  "dns_start doh doq udp =
     dns_serve \<lparr>du_state = upstream_start, du_doh = doh, du_doq = doq, du_udp = udp, du_listening = False\<rparr>"

definition dns_stop :: "dns_upstream \<Rightarrow> dns_upstream" where
  "dns_stop u = u\<lparr>du_listening := False\<rparr>"

definition dns_restart :: "dns_upstream \<Rightarrow> dns_upstream" where
  "dns_restart u = dns_serve (dns_stop u)"

definition doh_url :: "dns_upstream \<Rightarrow> string" where
  "doh_url u = ''https://'' @ show_socket_addr (du_doh u) @ ''/dns-query''"

definition doq_url :: "dns_upstream \<Rightarrow> string" where
  "doq_url u = ''quic://'' @ show_socket_addr (du_doq u)"

section \<open>DNS client\<close>

record client_answer =
  ca_rcode :: response_code
  ca_records :: "(string \<times> nat \<times> string) list"
  ca_ttl :: "nat option"
  ca_truncated :: bool

definition addrs :: "client_answer \<Rightarrow> ip_addr list" where
  "addrs a = List.map_filter (\<lambda>(_, _, data). parse_ip_addr data) (ca_records a)"

definition rand_id :: "string \<Rightarrow> nat" where
  "rand_id name = unat (and (foldl (\<lambda>h b. xor (h * 33) (of_nat (byte b))) (17 :: 32 word) name) 0xffff)"

definition query_wire :: "'n name_deps \<Rightarrow> ('n message \<Rightarrow> string option) \<Rightarrow> nat \<Rightarrow> string \<Rightarrow> nat \<Rightarrow> string option" where
  "query_wire nd to_vec i name qtype = do {
     n \<leftarrow> fqdn nd name;
     let m = add_query \<lparr>dq_name = n, dq_type = qtype, dq_class = CLASS_IN\<rparr> (new_message i MQuery OpQuery);
     to_vec (m\<lparr>ms_metadata := (ms_metadata m)\<lparr>md_recursion_desired := True\<rparr>,
       ms_edns := Some \<lparr>ed_max_payload = 1232, ed_dnssec_ok = False, ed_rest = []\<rparr>\<rparr>)
   }"

definition parse_answer ::
    "'n name_deps \<Rightarrow> ('n rdata \<Rightarrow> string) \<Rightarrow> (string \<Rightarrow> 'n message option) \<Rightarrow> string \<Rightarrow> nat \<Rightarrow> client_answer option" where
  "parse_answer nd show_rdata from_vec bytes i = do {
     m \<leftarrow> from_vec bytes;
     (if md_id (ms_metadata m) \<noteq> i then None
      else (let trim_dots = (\<lambda>s. rev (dropWhile (\<lambda>c. c = CHR ''.'') (rev s))) in
        Some \<lparr>ca_rcode = rcode m,
          ca_records = map (\<lambda>r. (trim_dots (nd_show nd (dr_name r)), rdata_type (dr_data r), trim_dots (show_rdata (dr_data r)))) (ms_answers m),
          ca_ttl = (case ms_answers m of [] \<Rightarrow> None | r # _ \<Rightarrow> Some (dr_ttl r)),
          ca_truncated = md_truncation (ms_metadata m)\<rparr>))
   }"

text \<open>A query over UDP, and over TCP with the length before each message.  \<open>exchange\<close> is the socket:
  what comes back in time for what is sent.\<close>

definition query_udp ::
    "'n name_deps \<Rightarrow> ('n message \<Rightarrow> string option) \<Rightarrow> ('n rdata \<Rightarrow> string) \<Rightarrow> (string \<Rightarrow> 'n message option)
       \<Rightarrow> (string \<Rightarrow> string option) \<Rightarrow> string \<Rightarrow> nat \<Rightarrow> client_answer option" where
  "query_udp nd to_vec show_rdata from_vec exchange name qtype =
     (let i = (case try_u16 (rand_id name) of Some i \<Rightarrow> i | None \<Rightarrow> 1) in do {
        wire \<leftarrow> query_wire nd to_vec i name qtype;
        bytes \<leftarrow> exchange wire;
        parse_answer nd show_rdata from_vec bytes i
      })"

definition query_tcp ::
    "'n name_deps \<Rightarrow> ('n message \<Rightarrow> string option) \<Rightarrow> ('n rdata \<Rightarrow> string) \<Rightarrow> (string \<Rightarrow> 'n message option)
       \<Rightarrow> (string \<Rightarrow> string option) \<Rightarrow> string \<Rightarrow> nat \<Rightarrow> client_answer option" where
  "query_tcp nd to_vec show_rdata from_vec exchange name qtype = do {
     wire \<leftarrow> query_wire nd to_vec 4242 name qtype;
     len \<leftarrow> try_u16 (length wire);
     input \<leftarrow> exchange (be_bytes len @ wire);
     (if length input < 2 then None
      else (let n = byte (input ! 0) * 256 + byte (input ! 1); rest = drop 2 input in
        if length rest < n then None else parse_answer nd show_rdata from_vec (take n rest) 4242))
   }"

section \<open>The client against the server\<close>

text \<open>Over TCP the client reads exactly the response of the pipeline to its query.\<close>

lemma query_tcp_served:
  assumes "from_vec wire = Some request" "query_wire nd to_vec 4242 name qtype = Some wire"
    and "to_vec request = Some wire" "length wire < 2 ^ 16" "handle request s = (response, s')"
    and "to_vec response = Some bytes" "length bytes < 2 ^ 16"
  shows "query_tcp nd to_vec show_rdata from_vec (\<lambda>input. Some (serve_tcp_conn from_vec to_vec handle s input)) name qtype
    = parse_answer nd show_rdata from_vec bytes 4242"
proof -
  have q: "frames to_vec [request] = be_bytes (length wire) @ wire" "frames to_vec (responses handle s [request]) = be_bytes (length bytes) @ bytes"
    using assms(3-7) by (simp_all add: frames_def tcp_frame_def)
  have s: "serve_tcp_conn from_vec to_vec handle s (be_bytes (length wire) @ wire) = be_bytes (length bytes) @ bytes"
    unfolding q [symmetric] by (rule tcp_frames_served) (use assms in auto)
  have n: "byte ((be_bytes (length bytes) @ xs) ! 0) * 256 + byte ((be_bytes (length bytes) @ xs) ! 1) = length bytes" for xs
    using be_bytes_length [OF assms(7)] by (simp add: nth_append)
  have l: "length (be_bytes (length bytes)) = 2" using assms(7) by (rule be_bytes_length)
  have t: "try_u16 (length wire) = Some (length wire)" using assms(4) by (simp add: try_u16_def)
  show ?thesis unfolding query_tcp_def assms(2) Option.bind.bind_lunit t s Let_def n using l by simp
qed

section \<open>The zone of the upstream\<close>

lemma follow_cnames_chain:
  assumes "follow_cnames k cnames name = (hops, end')"
  shows "length hops \<le> k \<and> end' = last (name # map snd hops)
    \<and> (\<forall>i < length hops. fst (hops ! i) = (name # map snd hops) ! i \<and> cnames (fst (hops ! i)) = Some (snd (hops ! i)))
    \<and> (length hops < k \<longrightarrow> cnames end' = None)"
  using assms
proof (induction k arbitrary: name hops)
  case (Suc k)
  show ?case
  proof (cases "cnames name")
    case (Some target)
    with Suc.prems obtain rest where rest: "follow_cnames k cnames target = (rest, end')" "hops = (name, target) # rest"
      by (auto split: prod.splits)
    show ?thesis using Suc.IH [OF rest(1)] Some rest(2)
      by (auto simp: less_Suc_eq_0_disj nth_Cons split: nat.split)
  qed (use Suc.prems in auto)
qed simp

lemma cname_records_map:
  assumes "cname_records nd ttl hops = Some rs"
  shows "map dr_ttl rs = replicate (length hops) ttl
    \<and> list_all2 (\<lambda>r (name, target). fqdn nd name = Some (dr_name r) \<and> (\<exists>n. fqdn nd target = Some n \<and> dr_data r = RData_CNAME n)) rs hops"
  using assms by (induction nd ttl hops arbitrary: rs rule: cname_records.induct) (auto simp: from_rdata_def split: bind_splits)

section \<open>The list host is honest\<close>

lemma ws_len_end_plain:
  assumes "33 \<le> byte c" "byte c < 128"
  shows "ws_len_end (s @ [c]) = 0"
proof -
  have 1: "ws_len [c] \<noteq> 1" using assms by (simp add: ws_len_def)
  have 2: "ws_len [b, c] \<noteq> 2" and 3: "ws_len [a, b, c] \<noteq> 3" for a b using assms by (simp_all add: ws_len_def)
  have d1: "drop (length s) (s @ [c]) = [c]" by simp
  have d2: "drop (length (s @ [c]) - 2) (s @ [c]) = [last s, c]" if "s \<noteq> []"
    using that by (cases s rule: rev_cases) auto
  have d3: "drop (length (s @ [c]) - 3) (s @ [c]) = [last (butlast s), last s, c]" if "2 \<le> length s"
    using that by (cases s rule: rev_cases; cases "butlast s" rule: rev_cases) (auto simp: butlast_append)
  show ?thesis
    unfolding ws_len_end_def using 1 2 3 d1 d2 d3 by (cases s) (auto simp: numeral_eq_Suc)
qed

lemma trim_quoted: "trim (CHR 0x22 # s @ [CHR 0x22]) = CHR 0x22 # s @ [CHR 0x22]"
proof -
  have "ws_len (CHR 0x22 # s @ [CHR 0x22]) = 0" by (simp add: ws_len_plain)
  moreover have "ws_len_end (CHR 0x22 # s @ [CHR 0x22]) = 0" using ws_len_end_plain [of "CHR 0x22" "CHR 0x22 # s"] by simp
  ultimately show ?thesis by (simp add: trim_def trim_start.simps trim_end.simps)
qed

lemma trim_etag: "trim (etag_of body) = etag_of body"
  unfolding etag_of_def by (simp add: trim_quoted)

text \<open>The HTTP client hands on the status, the entity tag and the body of the reply, or an error.\<close>

definition carries :: "list_host \<Rightarrow> string \<Rightarrow> string \<Rightarrow> fetcher \<Rightarrow> bool" where
  "carries st path url http \<longleftrightarrow>
     (\<forall>inm r. http url inm = Inr r \<longrightarrow>
        (\<exists>rp. list_reply st path inm = Some rp \<and> rs_status r = hr_status rp \<and> rs_etag r = map_of (hr_headers rp) ''etag''
          \<and> (\<forall>body. read_body (rs_chunks r) [] = Inr body \<longrightarrow> body = hr_body rp)))"

definition keeps_ascii :: "(string \<Rightarrow> string) \<Rightarrow> bool" where
  "keeps_ascii utf8_lossy \<longleftrightarrow> (\<forall>s. (\<forall>c \<in> set s. byte c < 128) \<longrightarrow> utf8_lossy s = s)"

lemma portal_no_rules: "lc_rules (count_rules portal_page) = 0" "lc_rules (count_rules []) = 0" "\<forall>c \<in> set portal_page. byte c < 128"
  by code_simp+

lemma list_host_honest:
  assumes "carries st path url http" "lh_files st path = Some content" "lh_mode st \<noteq> LmStatus 304" "keeps_ascii utf8_lossy"
  shows "honest utf8_lossy etag_of url content http"
  unfolding honest_def
proof (intro allI impI)
  fix inm r
  assume "http url inm = Inr r"
  with assms(1) obtain rp where rp: "list_reply st path inm = Some rp" "rs_status r = hr_status rp"
      "rs_etag r = map_of (hr_headers rp) ''etag''" "\<forall>body. read_body (rs_chunks r) [] = Inr body \<longrightarrow> body = hr_body rp"
    unfolding carries_def by blast
  have asc: "utf8_lossy portal_page = portal_page" "utf8_lossy [] = []"
    using assms(4) portal_no_rules(3) by (auto simp: keeps_ascii_def)
  show "(rs_status r = 304 \<longrightarrow> inm = Some (etag_of content))
      \<and> (rs_status r \<noteq> 304 \<longrightarrow> (\<forall>body. read_body (rs_chunks r) [] = Inr body \<and> 0 < lc_rules (count_rules (utf8_lossy body))
           \<longrightarrow> 200 \<le> rs_status r \<longrightarrow> rs_status r < 300 \<longrightarrow> body = content \<and> rs_etag r \<in> {None, Some (etag_of content)}))"
    using rp assms(2,3) asc portal_no_rules(1,2)
    by (cases "lh_mode st") (auto simp: list_reply_def Let_def split: if_splits)
qed

text \<open>Tests against the host: it publishes another text, changes its mode, or the daemon fetches.\<close>

datatype kit_event = KitPut string | KitMode list_mode | KitFetch io fetcher nat

fun kit_step ::
    "(string \<Rightarrow> string) \<Rightarrow> string \<Rightarrow> string \<Rightarrow> string \<Rightarrow> string \<Rightarrow> kit_event \<Rightarrow> list_host \<times> file_system \<Rightarrow> (list_host \<times> file_system) option" where
  "kit_step utf8_lossy path url d n (KitPut body) (st, fs) = Some (put path body st, fs)"
| "kit_step utf8_lossy path url d n (KitMode m) (st, fs) = Some (list_set_mode m st, fs)"
| "kit_step utf8_lossy path url d n (KitFetch io http now) (st, fs) =
     (if carries st path url http
      then Some (st, snd (fetch_with_etag io utf8_lossy http now url (stored_path d n) (etag_path d n) fs)) else None)"

definition kit_ok :: "string set \<Rightarrow> string \<Rightarrow> string \<Rightarrow> kit_event \<Rightarrow> bool" where
  "kit_ok contents d n e \<longleftrightarrow>
     (case e of KitPut body \<Rightarrow> body \<in> contents | KitMode m \<Rightarrow> m \<noteq> LmStatus 304 | KitFetch io _ _ \<Rightarrow> io_remove io (etag_path d n) = None)"

definition kit_inv :: "(string \<Rightarrow> string) \<Rightarrow> string set \<Rightarrow> string \<Rightarrow> string \<Rightarrow> string \<Rightarrow> list_host \<times> file_system \<Rightarrow> bool" where
  "kit_inv utf8_lossy contents path d n x \<longleftrightarrow> tag_matches utf8_lossy etag_of contents d n (snd x)
     \<and> (\<exists>content \<in> contents. lh_files (fst x) path = Some content) \<and> lh_mode (fst x) \<noteq> LmStatus 304 \<and> keeps_ascii utf8_lossy"

lemma kit_fetch:
  assumes "kit_inv utf8_lossy contents path d n (st, fs)" "carries st path url http" "io_remove io (etag_path d n) = None"
    "fetch_with_etag io utf8_lossy http now url (stored_path d n) (etag_path d n) fs = (r, fs')"
  shows "kit_inv utf8_lossy contents path d n (st, fs')"
    "\<And>a. r = Inr a \<Longrightarrow> \<exists>content \<in> contents. \<exists>now_there. lh_files st path = Some now_there \<and> now_there \<in> contents
        \<and> aq_text a = utf8_lossy content \<and> etag_of content = etag_of now_there"
proof -
  from assms(1) obtain content where c: "content \<in> contents" "lh_files st path = Some content" "lh_mode st \<noteq> LmStatus 304"
      "keeps_ascii utf8_lossy" "tag_matches utf8_lossy etag_of contents d n fs" by (auto simp: kit_inv_def)
  let ?e = "\<lparr>fe_content = content, fe_io = io, fe_http = http, fe_now = now\<rparr>"
  have s: "sound_fetch utf8_lossy etag_of contents url d n ?e"
    using list_host_honest [OF assms(2) c(2-4)] c(1) assms(3) by (simp add: sound_fetch_def)
  have f: "fetch_with_etag (fe_io ?e) utf8_lossy (fe_http ?e) (fe_now ?e) url (stored_path d n) (etag_path d n) fs = (r, fs')"
    using assms(4) by simp
  note sound = fetch_sound [OF c(5) s _ f] trim_etag
  show "kit_inv utf8_lossy contents path d n (st, fs')" using sound(1) trim_etag c by (auto simp: kit_inv_def)
  show "\<exists>content \<in> contents. \<exists>now_there. lh_files st path = Some now_there \<and> now_there \<in> contents
        \<and> aq_text a = utf8_lossy content \<and> etag_of content = etag_of now_there" if "r = Inr a" for a
    using sound(2) [OF _ that] trim_etag c(1,2) by auto
qed

interpretation kit: event_system "kit_step utf8_lossy path url d n" "kit_ok contents d n" "kit_inv utf8_lossy contents path d n"
  for utf8_lossy path url d n contents
proof
  fix x e x'
  assume a: "kit_inv utf8_lossy contents path d n x" "kit_ok contents d n e" "kit_step utf8_lossy path url d n e x = Some x'"
  obtain st fs where x: "x = (st, fs)" by (cases x)
  show "kit_inv utf8_lossy contents path d n x'"
  proof (cases e)
    case (KitFetch io http now)
    obtain r fs' where f: "fetch_with_etag io utf8_lossy http now url (stored_path d n) (etag_path d n) fs = (r, fs')" by fastforce
    from a KitFetch have "carries st path url http" "io_remove io (etag_path d n) = None" by (auto simp: x kit_ok_def split: if_splits)
    from kit_fetch(1) [OF a(1) [unfolded x] this f] a(3) KitFetch f show ?thesis by (auto simp: x split: if_splits)
  qed (use a in \<open>auto simp: x kit_inv_def kit_ok_def put_def list_set_mode_def\<close>)
qed

section \<open>Properties\<close>


section \<open>Witnesses\<close>

text \<open>A client that hands on every reply, a host that publishes two texts, and a daemon that fetches both.\<close>

definition kit_client :: "list_host \<Rightarrow> string \<Rightarrow> fetcher" where
  "kit_client st path url inm =
     (case list_reply st path inm of
        None \<Rightarrow> Inl (Chained ''timed out'' None)
      | Some rp \<Rightarrow> Inr \<lparr>rs_status = hr_status rp, rs_status_text = show_nat (hr_status rp) @ '' '' @ hr_reason rp,
          rs_content_length = None, rs_etag = map_of (hr_headers rp) ''etag'', rs_chunks = [Inr (hr_body rp)]\<rparr>)"

lemma kit_client_carries: "carries st path url (kit_client st path)"
  by (auto simp: carries_def kit_client_def split: option.splits if_splits)

definition ex_kit :: list_host where
  "ex_kit = put ''a'' ''||ads.com^'' (list_host_start \<lparr>sa_ip = V4 [127, 0, 0, 1], sa_port = 4443\<rparr>)"

lemma last_show_radix: "last (show_radix 16 n) = digit_char (n mod 16)"
  by (cases "n < 16") (simp_all add: show_radix.simps [of 16 n])

lemma last_hex: "last (hex_016 w) = digit_char (unat w mod 16)"
  by (simp add: hex_016_def Let_def last_show_radix show_radix_nonempty)

lemma etag_hex: "etag_of a = etag_of b \<Longrightarrow> hex_016 (fnv1a a) = hex_016 (fnv1a b)"
  by (simp add: etag_of_def)

lemma ex_etags: "etag_of ''||ads.com^'' \<noteq> etag_of ''||more.com^''"
proof
  assume "etag_of ''||ads.com^'' = etag_of ''||more.com^''"
  from arg_cong [OF etag_hex [OF this], of last] show False by (simp add: last_hex fnv1a_def digit_char_def)
qed


end
