(* ===== verification/Spec2Isabelle.thy ===== *)
theory Spec2Isabelle
  imports Filter_Correct Filter_Total Cache_Correct Failcache Safesearch Config Db_Correct Shadow Server_Correct
    Upstream_Correct Lists_Correct Lists_Fresh Daemon_Correct Refresher Shutdown Front
    Cli_Correct Migrate_Correct Cli_Main Testkit
begin

text \<open>
  Verification of sumidero, a filtering DNS resolver.

  \<^bold>\<open>The program.\<close>  A daemon answers the DNS queries of a household.  A query passes the request
  pipeline (\<open>crates/core/src/server.rs\<close>): admission control, the client allowlist, the filter
  engine (\<open>crates/filter\<close>), safe search (\<open>safesearch.rs\<close>), the cache with serve-stale
  (\<open>cache.rs\<close>), the failure cache (\<open>failcache.rs\<close>), one shared lookup per key and the race of the
  encrypted upstreams (\<open>upstream.rs\<close>), and the check of the CNAME chain.  Every answer leaves a
  record for the query log (\<open>db.rs\<close>), and shadow mode (\<open>shadow.rs\<close>) compares answers with a
  reference resolver.  \<open>config.rs\<close> decides which lists, upstreams and limits are in force, \<open>lists.rs\<close> downloads and
  compiles the lists, and \<open>daemon.rs\<close> starts, reloads and reports on all of it.  The command line
  (\<open>crates/cli\<close>) checks, explains, converts and asks the running daemon, which it sees only through
  the database and a signal.

  \<^bold>\<open>Theories.\<close>
  \<^item> \<^theory_text>\<open>Prelude\<close>, \<^theory_text>\<open>Rust_Net\<close>, \<^theory_text>\<open>Net_Show\<close>: strings as UTF-8 bytes with the functions of
    \<open>str\<close> the program calls, fixed-width numbers, addresses with their parser and their display form
    (and the round trip between the two).
  \<^item> \<^theory_text>\<open>Events\<close>, \<^theory_text>\<open>Assoc\<close>: the contracts \<open>event_system\<close> and \<open>total_system\<close> of a machine driven by
    events, and association lists as tables of tasks.
  \<^item> \<^theory_text>\<open>Filter_Parse\<close>: \<open>parse.rs\<close>, with the normal forms and the fate of every line.
    \<^theory_text>\<open>Filter_Glob\<close>: the matchers of \<open>engine.rs\<close> against a recursive reference.
    \<^theory_text>\<open>Filter_Index\<close>: the sorted key index (\<open>KeyIndex\<close>) and the reversed label keys.
    \<^theory_text>\<open>Filter_Engine\<close>: rule store, builder, compaction and search.  \<^theory_text>\<open>Filter_Correct\<close>: a compiled
    engine refines the reference that tests every parsed rule.  \<^theory_text>\<open>Filter_Total\<close>: it answers every
    name, malformed ones included.
  \<^item> \<^theory_text>\<open>Dns_Message\<close>: the message type of the DNS library, as far as the program reads it.
  \<^item> \<^theory_text>\<open>Cache\<close>, \<^theory_text>\<open>Cache_Correct\<close>: the slot vector with its recency and free lists (the struct
    \<open>Inner\<close>), and its refinement of a list of entries, most recent first, for single operations and for whole
    sequences with what their lookups return; the locale \<open>lru_store\<close> is what the clients of the
    list view rely on.
  \<^item> \<^theory_text>\<open>Failcache\<close>: the table of recent failures; its contract is the locale \<open>failure_memory\<close>.
  \<^item> \<^theory_text>\<open>Safesearch\<close>: tables and rewriting.  \<^theory_text>\<open>Config\<close>: the configuration, its validation, profiles.
  \<^item> \<^theory_text>\<open>Db\<close>, \<^theory_text>\<open>Db_Correct\<close>: the tables and statements of the query log, its bounded queue and its
    writer; the writer interprets \<open>event_system\<close>.
  \<^item> \<^theory_text>\<open>Shadow\<close>: classification of divergences and the bounded set of comparisons.
  \<^item> \<^theory_text>\<open>Server\<close>: the pipeline, one function per stretch between two awaits.  \<^theory_text>\<open>Server_Correct\<close>: its
    invariant, and the machine of whole histories, which interprets \<open>total_system\<close>: no event makes it
    panic.  \<^theory_text>\<open>Front\<close>: binding the sockets, and the machine of datagrams and connections around the
    pipeline, which interprets \<open>total_system\<close> too.
  \<^item> \<^theory_text>\<open>Upstream\<close>: configuration of an upstream, the connection states, sending, the pool.
    \<^theory_text>\<open>Upstream_Correct\<close>: the machine of one upstream under any interleaving of queries and repairs,
    which interprets \<open>event_system\<close>, and the pool.
  \<^item> \<^theory_text>\<open>Lists\<close>: fetching, storing and compiling the lists over an explicit file system, whose
    operations may fail half-way.  \<^theory_text>\<open>Lists_Correct\<close>: stored copies stay good and a load is whole.
    \<^theory_text>\<open>Lists_Fresh\<close>: over any history of fetches from an honest host a list reported as confirmed
    is the one the host has; the histories interpret \<open>event_system\<close>.
  \<^item> \<^theory_text>\<open>Daemon\<close>: start-up, reload, heartbeat, retention and the report of what is degraded.
    \<^theory_text>\<open>Daemon_Correct\<close>: the machine of its turns, which interprets \<open>event_system\<close>: the report always
    describes the policy in force.  \<^theory_text>\<open>Refresher\<close>: the refresher and the signal loop as two
    tasks, one step per piece between locks, writes and awaits; what is reported under every
    interleaving, when the heartbeat row is current, the one overlap after which it is not, and that
    the turns are one schedule of the pieces.  \<^theory_text>\<open>Shutdown\<close>: the drain and the flush at the end, together with
    the pipeline and the writer, as a machine that interprets \<open>total_system\<close>; it ends and loses no
    record.
  \<^item> \<^theory_text>\<open>Rust_Fmt\<close>, \<^theory_text>\<open>Report_Json\<close>: \<open>Debug\<close> and \<open>Display\<close> of what the commands print, JSON values,
    and the encoders and decoders \<open>serde\<close> derives for the published report, with their round trip.
  \<^item> \<^theory_text>\<open>Cli\<close>, \<^theory_text>\<open>Cli_Status\<close>: one function per command, from its inputs to what it prints, the exit
    code and the files it changes.  \<^theory_text>\<open>Cli_Correct\<close>: composed with the daemon and the database,
    \<open>status\<close> reports the daemon's own state, \<open>explain\<close> is the reference verdict and \<open>reload\<close> ends;
    what \<open>reload\<close> reports when two of them overlap.
  \<^item> \<^theory_text>\<open>Migrate\<close>, \<^theory_text>\<open>Migrate_Correct\<close>: the conversion of an AdGuard configuration, which loses nothing
    silently and keeps the meaning of the user rules.
  \<^item> \<^theory_text>\<open>Cli_Main\<close>: the dispatch of \<open>main\<close> and \<open>serve\<close>, and the contract of the command line: the
    envelope, the exit codes and the files each command may change.
  \<^item> \<^theory_text>\<open>Testkit\<close>: the servers of the end-to-end tests (\<open>crates/testkit\<close>); its list host is an honest
    one, so the tests of revalidation exercise what \<^theory_text>\<open>Lists_Fresh\<close> promises.

  \<^bold>\<open>Correspondence.\<close>  A struct is a record, an enum a datatype, with the names of the source.  What
  an asynchronous task has captured when it awaits is a record (a \<open>task\<close>, a \<open>leader\<close>, a
  \<open>sender\<close>); a critical section is one function; an event is what ends a wait.  A panic (index out of
  range, a failed \<open>expect\<close>) is \<^const>\<open>None\<close>, an error an \<^const>\<open>Inl\<close>.  Counters that wrap are
  words; \<open>usize\<close> values that stay within memory are natural numbers with their checked conversions
  written out.  Times are nanoseconds, and milliseconds in the waits of \<open>reload\<close> and of the shutdown.

  \<^bold>\<open>Bounds.\<close>  No definition uses fuel: every loop has a termination proof.  The filter theorems ask for
  at most \<open>2^16\<close> lists and rule texts of less than \<open>2^32\<close> bytes in all, the limits of the engine's
  indices; the cache theorems for a capacity that fits 64 bits; \<open>old_failure_harmless\<close> for fewer than
  \<open>2^64\<close> connections.  A wait is bounded by what it waits for: \<open>reload\<close> makes at most four polls a
  second, the drain at shutdown at most 101 turns of its loop.

  \<^bold>\<open>Not modelled.\<close>  Sockets beyond the outcome of each system call; the DNS message encoding,
  domain name grammar, network prefixes, URL grammar, TLS and HTTP of the libraries, which are
  arguments; SQLite beyond the statements of \<open>db.rs\<close>; the TOML, YAML and JSON readers and writers,
  which are arguments too (the property that needs them assumes that the JSON reader returns what the
  JSON writer was given); allocator capacities (\<open>heap_bytes\<close>, \<open>shrink_to_fit\<close>); signal delivery;
  argument parsing of the command line; certificates, listeners and sockets of the test kit; the
  measurement programs under \<open>examples\<close> and \<open>benches\<close>, which only drive the library.
  The command line is composed with the daemon's whole turns; how the pieces of two turns interleave is in
  \<^theory_text>\<open>Refresher\<close>, where the sampling of the counters with their write is still one step, and so is a
  load, whose files no other task touches.
  The product in \<open>parse_go_duration_ms\<close> wraps, as in a release build.
\<close>

end
